(* ===== verification/Blaize_Prelude.thy ===== *)
theory Blaize_Prelude
  imports Complex_Main "HOL-Library.AList" "HOL-Library.Multiset"
begin

text \<open>
  Shared vocabulary of the development.

  \<^item> A JavaScript \<open>Map\<close> is an association list with distinct keys: iteration order is
    insertion order, \<open>set\<close> on a present key keeps its position, \<open>delete\<close> removes it.
    \<open>map_of\<close> is \<open>Map.get\<close>, \<open>AList.update\<close> is \<open>Map.set\<close> and \<open>AList.delete\<close> is
    \<open>Map.delete\<close>.
  \<^item> \<open>js_slice\<close> is \<open>Array.prototype.slice\<close>, with negative indices counted from the end.
  \<^item> \<open>reachable\<close> is the set of states a step relation reaches from its initial states, and
    the locale \<open>inductive_invariant\<close> turns "holds initially" and "every step keeps it"
    into a fact about all reachable states; every state machine of the development
    interprets it.
\<close>

named_theorems js_map_simps
named_theorems counting

section \<open>JavaScript maps\<close>

type_synonym ('k, 'v) js_map = "('k \<times> 'v) list"

abbreviation map_get :: "('k, 'v) js_map \<Rightarrow> 'k \<Rightarrow> 'v option" where
  "map_get \<equiv> map_of"

abbreviation map_set :: "'k \<Rightarrow> 'v \<Rightarrow> ('k, 'v) js_map \<Rightarrow> ('k, 'v) js_map" where
  "map_set k v m \<equiv> AList.update k v m"

abbreviation map_delete :: "'k \<Rightarrow> ('k, 'v) js_map \<Rightarrow> ('k, 'v) js_map" where
  "map_delete k m \<equiv> AList.delete k m"

abbreviation map_keys :: "('k, 'v) js_map \<Rightarrow> 'k list" where
  "map_keys m \<equiv> map fst m"

abbreviation map_ok :: "('k, 'v) js_map \<Rightarrow> bool" where
  "map_ok m \<equiv> distinct (map fst m)"

definition map_has :: "('k, 'v) js_map \<Rightarrow> 'k \<Rightarrow> bool" where
  "map_has m k \<longleftrightarrow> k \<in> set (map fst m)"

text \<open>Lookups stay lookups: membership in the entry list is not their normal form here.\<close>

declare map_of_eq_Some_iff [simp del] Some_eq_map_of_iff [simp del]

lemma map_has_dom [js_map_simps]: "map_has m k \<longleftrightarrow> k \<in> dom (map_of m)"
  by (simp add: map_has_def dom_map_of_conv_image_fst)

lemma map_has_get: "map_has m k \<longleftrightarrow> map_of m k \<noteq> None"
  by (simp add: map_has_dom domIff)

lemma map_get_set [simp, js_map_simps]:
  "map_of (AList.update k v m) = (map_of m)(k \<mapsto> v)"
  by (simp add: update_conv')

lemma map_get_delete [simp, js_map_simps]:
  "map_of (AList.delete k m) = (map_of m)(k := None)"
  by (simp add: delete_conv')

lemma map_ok_set [simp, intro]: "map_ok m \<Longrightarrow> map_ok (AList.update k v m)"
  by (simp add: distinct_update)

lemma map_ok_delete [simp, intro]: "map_ok m \<Longrightarrow> map_ok (AList.delete k m)"
  by (simp add: distinct_delete)

lemma map_set_fresh: "k \<notin> set (map fst m) \<Longrightarrow> AList.update k v m = m @ [(k, v)]"
  by (induction m) auto

lemma set_map_set: "set (AList.update k v m) \<subseteq> insert (k, v) (set m)"
  by (induction m) auto

lemma map_keys_set_known: "k \<in> set (map fst m) \<Longrightarrow> map fst (AList.update k v m) = map fst m"
  by (induction m) auto

lemma set_map_delete: "set (AList.delete k m) = {(k', v). (k', v) \<in> set m \<and> k' \<noteq> k}"
  by (auto simp: AList.delete_eq)

text \<open>
  Counting entries of a map: one lemma for \<open>set\<close>, one for \<open>delete\<close>. Incremental counters
  (queue statistics, connection counts) are correct because they follow these equations.
\<close>

definition entry_count :: "('k \<times> 'v \<Rightarrow> bool) \<Rightarrow> ('k, 'v) js_map \<Rightarrow> int" where
  "entry_count P m = int (length (filter P m))"

lemma entry_count_simps [simp]:
  "entry_count P [] = 0"
  "entry_count P (x # m) = (if P x then 1 else 0) + entry_count P m"
  "entry_count P (m @ m') = entry_count P m + entry_count P m'"
  by (simp_all add: entry_count_def)

lemma entry_count_nonneg [simp]: "0 \<le> entry_count P m"
  by (simp add: entry_count_def)

lemma entry_count_cong:
  "(\<And>x. x \<in> set m \<Longrightarrow> P x = Q x) \<Longrightarrow> entry_count P m = entry_count Q m"
  unfolding entry_count_def by (metis (mono_tags, lifting) filter_cong)

lemma entry_count_set [counting]:
  "map_ok m \<Longrightarrow> entry_count P (AList.update k v m) =
     entry_count P m + (if P (k, v) then 1 else 0)
       - (case map_of m k of None \<Rightarrow> 0 | Some w \<Rightarrow> if P (k, w) then 1 else 0)"
proof (induction m)
  case Nil
  then show ?case by simp
next
  case (Cons x m)
  obtain k' w where x: "x = (k', w)" by (cases x)
  show ?case
  proof (cases "k' = k")
    case True
    then show ?thesis using x by simp
  next
    case False
    then show ?thesis using Cons x by simp
  qed
qed

lemma entry_count_delete [counting]:
  "map_ok m \<Longrightarrow> entry_count P (AList.delete k m) =
     entry_count P m - (case map_of m k of None \<Rightarrow> 0 | Some w \<Rightarrow> if P (k, w) then 1 else 0)"
proof (induction m)
  case Nil
  then show ?case by simp
next
  case (Cons x m)
  obtain k' w where x: "x = (k', w)" by (cases x)
  have none: "k' \<notin> set (map fst m)" using Cons.prems x by simp
  then have del: "AList.delete k' m = m" by simp
  show ?case using Cons x del none by (auto simp: map_of_eq_None_iff)
qed

lemma entry_count_pos:
  "map_of m k = Some v \<Longrightarrow> P (k, v) \<Longrightarrow> 1 \<le> entry_count P m"
  by (induction m) (auto split: if_splits)

lemma length_map_set:
  "length (AList.update k v m) = (if map_of m k = None then Suc (length m) else length m)"
  by (induction m) auto

lemma length_map_delete:
  "map_ok m \<Longrightarrow> length (AList.delete k m) = (if map_of m k = None then length m else length m - 1)"
proof (induction m)
  case (Cons x m)
  obtain k' w where x: "x = (k', w)" by (cases x)
  have none: "k' \<notin> set (map fst m)" using Cons.prems x by simp
  then have del: "AList.delete k' m = m" by simp
  have "map_of m k \<noteq> None \<Longrightarrow> 0 < length m" by (cases m) auto
  then show ?case using Cons x del none by auto
qed simp

section \<open>Arrays\<close>

definition js_index :: "int \<Rightarrow> nat \<Rightarrow> nat" where
  \<comment> \<open>the clamping of a relative index in \<open>Array.prototype.slice\<close>\<close>
  "js_index i n = (if i < 0 then nat (max 0 (int n + i)) else nat (min i (int n)))"

definition js_slice :: "int \<Rightarrow> int \<Rightarrow> 'a list \<Rightarrow> 'a list" where
  "js_slice from to xs =
     (let a = js_index from (length xs); b = js_index to (length xs)
      in take (b - a) (drop a xs))"

lemma js_slice_nonneg:
  "0 \<le> a \<Longrightarrow> 0 \<le> b \<Longrightarrow> js_slice a b xs = take (nat b - nat a) (drop (nat a) xs)"
  by (auto simp: js_slice_def js_index_def Let_def min_def nat_diff_distrib
      intro!: arg_cong2[where f = take])

lemma set_js_slice: "set (js_slice a b xs) \<subseteq> set xs"
  unfolding js_slice_def Let_def
  by (meson in_set_dropD in_set_takeD subsetI)

lemma sorted_js_slice: "sorted_wrt R xs \<Longrightarrow> sorted_wrt R (js_slice a b xs)"
  by (simp add: js_slice_def Let_def)

lemma length_js_slice_le: "0 \<le> a \<Longrightarrow> 0 \<le> n \<Longrightarrow> int (length (js_slice a (a + n) xs)) \<le> n"
  using js_slice_nonneg [of a "a + n" xs] by (simp add: nat_add_distrib min_def) linarith

section \<open>Strings\<close>

fun str_startsWith :: "string \<Rightarrow> string \<Rightarrow> bool" where
  \<comment> \<open>\<open>str_startsWith s p\<close> is \<open>s.startsWith(p)\<close>\<close>
  "str_startsWith s [] = True"
| "str_startsWith [] (p # ps) = False"
| "str_startsWith (c # s) (p # ps) = (c = p \<and> str_startsWith s ps)"

fun str_includes :: "string \<Rightarrow> string \<Rightarrow> bool" where
  \<comment> \<open>\<open>str_includes s t\<close> is \<open>s.includes(t)\<close>\<close>
  "str_includes [] t = (t = [])"
| "str_includes (c # s) t = (str_startsWith (c # s) t \<or> str_includes s t)"

definition str_endsWith :: "string \<Rightarrow> string \<Rightarrow> bool" where
  \<comment> \<open>\<open>s.endsWith(t)\<close>\<close>
  "str_endsWith s t = str_startsWith (rev s) (rev t)"

lemma str_startsWith_iff: "str_startsWith s p \<longleftrightarrow> (\<exists>r. s = p @ r)"
  by (induction s p rule: str_startsWith.induct) auto

lemma str_endsWith_iff: "str_endsWith s t \<longleftrightarrow> (\<exists>r. s = r @ t)"
  unfolding str_endsWith_def str_startsWith_iff by (metis rev_append rev_rev_ident)

lemma str_includes_iff: "str_includes s t \<longleftrightarrow> (\<exists>a b. s = a @ t @ b)"
proof (induction s)
  case (Cons c s)
  show ?case
  proof
    assume "str_includes (c # s) t"
    then show "\<exists>a b. c # s = a @ t @ b"
    proof (cases "str_startsWith (c # s) t")
      case True
      then show ?thesis unfolding str_startsWith_iff by (metis append_Nil)
    next
      case False
      with \<open>str_includes (c # s) t\<close> Cons.IH obtain a b where "s = a @ t @ b" by auto
      then show ?thesis by (metis append_Cons)
    qed
  next
    assume "\<exists>a b. c # s = a @ t @ b"
    then obtain a b where ab: "c # s = a @ t @ b" by blast
    show "str_includes (c # s) t"
    proof (cases a)
      case Nil
      then have "str_startsWith (c # s) t" using ab str_startsWith_iff by auto
      then show ?thesis by simp
    next
      case (Cons d a')
      then show ?thesis using ab Cons.IH by auto
    qed
  qed
qed simp

fun str_split :: "char \<Rightarrow> string \<Rightarrow> string list" where
  \<comment> \<open>\<open>s.split(c)\<close> for a one-character separator\<close>
  "str_split c [] = [[]]"
| "str_split c (d # s) =
     (if d = c then [] # str_split c s
      else (case str_split c s of [] \<Rightarrow> [[d]] | w # ws \<Rightarrow> (d # w) # ws))"

fun str_join :: "string \<Rightarrow> string list \<Rightarrow> string" where
  \<comment> \<open>\<open>xs.join(sep)\<close>\<close>
  "str_join sep [] = []"
| "str_join sep [w] = w"
| "str_join sep (w # v # ws) = w @ sep @ str_join sep (v # ws)"

lemma str_split_nonempty [simp]: "str_split c s \<noteq> []"
  by (induction s) (auto split: list.splits)

lemma str_split_no_sep: "w \<in> set (str_split c s) \<Longrightarrow> c \<notin> set w"
  by (induction s arbitrary: w) (auto split: if_splits list.splits)

lemma str_join_Cons: "ws \<noteq> [] \<Longrightarrow> str_join sep (w # ws) = w @ sep @ str_join sep ws"
  by (cases ws) simp_all

lemma join_split [simp]: "str_join [c] (str_split c s) = s"
proof (induction s)
  case (Cons d s)
  obtain w ws where s: "str_split c s = w # ws" by (cases "str_split c s") simp_all
  show ?case
  proof (cases "d = c")
    case True
    then show ?thesis using Cons by (simp add: str_join_Cons)
  next
    case False
    then show ?thesis using Cons s by (cases ws) simp_all
  qed
qed simp

lemma split_plain: "c \<notin> set w \<Longrightarrow> str_split c w = [w]"
  by (induction w) auto

lemma split_prefix: "c \<notin> set w \<Longrightarrow> str_split c (w @ c # s) = w # str_split c s"
  by (induction w) auto

lemma split_join:
  "ws \<noteq> [] \<Longrightarrow> (\<And>w. w \<in> set ws \<Longrightarrow> c \<notin> set w) \<Longrightarrow> str_split c (str_join [c] ws) = ws"
  by (induction "[c]" ws rule: str_join.induct) (simp_all add: split_plain split_prefix)

section \<open>Numbers as text\<close>

definition digit_char :: "nat \<Rightarrow> char" where
  "digit_char d = char_of (48 + d)"

definition char_digit :: "char \<Rightarrow> nat option" where
  "char_digit c = (let n = (of_char c :: nat) in if 48 \<le> n \<and> n \<le> 57 then Some (n - 48) else None)"

fun show_nat :: "nat \<Rightarrow> string" where
  \<comment> \<open>\<open>String(n)\<close> for a non-negative integer\<close>
  "show_nat n = (if n < 10 then [digit_char n] else show_nat (n div 10) @ [digit_char (n mod 10)])"

declare show_nat.simps [simp del]

definition show_int :: "int \<Rightarrow> string" where
  \<comment> \<open>\<open>String(n)\<close> for an integer\<close>
  "show_int n = (if n < 0 then CHR ''-'' # show_nat (nat (- n)) else show_nat (nat n))"

fun read_digits :: "nat \<Rightarrow> string \<Rightarrow> nat" where
  \<comment> \<open>the value of the longest run of digits at the start\<close>
  "read_digits acc [] = acc"
| "read_digits acc (c # s) =
     (case char_digit c of None \<Rightarrow> acc | Some d \<Rightarrow> read_digits (10 * acc + d) s)"

lemma char_digit_digit [simp]: "d < 10 \<Longrightarrow> char_digit (digit_char d) = Some d"
  by (simp add: char_digit_def digit_char_def Let_def)

lemma read_digits_snoc:
  "(\<And>c. c \<in> set s \<Longrightarrow> char_digit c \<noteq> None) \<Longrightarrow>
   read_digits acc (s @ t) = read_digits (read_digits acc s) t"
proof (induction s arbitrary: acc)
  case (Cons c s)
  obtain d where "char_digit c = Some d" using Cons.prems [of c] by auto
  then show ?case using Cons by simp
qed simp

lemma show_nat_digits: "c \<in> set (show_nat n) \<Longrightarrow> char_digit c \<noteq> None"
proof (induction n rule: show_nat.induct)
  case (1 n)
  then show ?case by (cases "n < 10") (auto simp: show_nat.simps [of n])
qed

lemma read_show_nat [simp]: "read_digits 0 (show_nat n) = n"
proof (induction n rule: show_nat.induct)
  case (1 n)
  show ?case
  proof (cases "n < 10")
    case True
    then show ?thesis by (simp add: show_nat.simps [of n])
  next
    case False
    have "read_digits 0 (show_nat n) = read_digits (read_digits 0 (show_nat (n div 10))) [digit_char (n mod 10)]"
      using False show_nat_digits by (subst show_nat.simps) (simp add: read_digits_snoc)
    also have "\<dots> = 10 * (n div 10) + n mod 10" using 1 False by simp
    finally show ?thesis by simp
  qed
qed

lemma show_nat_inject [simp]: "show_nat m = show_nat n \<longleftrightarrow> m = n"
  by (metis read_show_nat)

lemma show_nat_nonempty [simp]: "show_nat n \<noteq> []"
  by (subst show_nat.simps) simp

section \<open>State machines\<close>

inductive reachable :: "('s \<Rightarrow> bool) \<Rightarrow> ('s \<Rightarrow> 's \<Rightarrow> bool) \<Rightarrow> 's \<Rightarrow> bool"
  for init :: "'s \<Rightarrow> bool" and step :: "'s \<Rightarrow> 's \<Rightarrow> bool" where
  reach_init: "init s \<Longrightarrow> reachable init step s"
| reach_step: "reachable init step s \<Longrightarrow> step s t \<Longrightarrow> reachable init step t"

locale inductive_invariant =
  fixes init :: "'s \<Rightarrow> bool"
    and step :: "'s \<Rightarrow> 's \<Rightarrow> bool"
    and inv :: "'s \<Rightarrow> bool"
  assumes inv_init: "init s \<Longrightarrow> inv s"
    and inv_step: "step s t \<Longrightarrow> inv s \<Longrightarrow> inv t"
begin

lemma reachable_inv: "reachable init step s \<Longrightarrow> inv s"
  by (induction rule: reachable.induct) (auto intro: inv_init inv_step)

lemma steps_inv: "step\<^sup>*\<^sup>* s t \<Longrightarrow> inv s \<Longrightarrow> inv t"
  by (induction rule: rtranclp_induct) (auto intro: inv_step)

end

lemma reachable_init_mono:
  "reachable init step s \<Longrightarrow> (\<And>s. init s \<Longrightarrow> init' s) \<Longrightarrow> reachable init' step s"
  by (induction rule: reachable.induct) (auto intro: reachable.intros)

lemma reachable_steps:
  "reachable init step s \<Longrightarrow> step\<^sup>*\<^sup>* s t \<Longrightarrow> reachable init step t"
  by (rotate_tac 1, induction rule: rtranclp_induct) (auto intro: reachable.reach_step)

end
