(* ===== verification/Priority_Queue.thy ===== *)
theory Priority_Queue
  imports Blaize_Prelude
begin

text \<open>
  \<open>plugins/queue/src/priority-queue.ts\<close>: the wrapper around the third-party
  \<open>MaxPriorityQueue\<close>. The heap is a parameter: a record \<open>heap_ops\<close> of its methods, whose
  documented behaviour (a bag of items from which \<open>dequeue\<close> takes one of greatest score)
  is the locale \<open>max_heap\<close>. The wrapper's lemmas are proved once in that locale. The
  reference heap \<open>list_heap\<close> at the end shows that the contract can be met.

  Numbers: priorities and timestamps are integers; \<open>score_exact\<close> shows that the scores of
  real jobs stay inside the range in which a double represents integers exactly.
\<close>

section \<open>The wrapper\<close>

record 'a pq_item =
  item_priority :: int
  item_data :: 'a
  item_enqueuedAt :: int

record ('h, 'a) heap_ops =
  hp_new :: "('a pq_item \<Rightarrow> int) \<Rightarrow> 'h"
  hp_enqueue :: "'h \<Rightarrow> 'a pq_item \<Rightarrow> 'h"
  hp_dequeue :: "'h \<Rightarrow> 'a pq_item option \<times> 'h"
  hp_front :: "'h \<Rightarrow> 'a pq_item option"
  hp_size :: "'h \<Rightarrow> nat"
  hp_isEmpty :: "'h \<Rightarrow> bool"
  hp_clear :: "'h \<Rightarrow> 'h"
  hp_toArray :: "'h \<Rightarrow> 'a pq_item list"

definition PRIORITY_MULTIPLIER :: int where
  "PRIORITY_MULTIPLIER = 1000000000000"

definition calculateScore :: "int \<Rightarrow> int \<Rightarrow> int" where
  "calculateScore priority enqueuedAt = priority * PRIORITY_MULTIPLIER - enqueuedAt"

definition item_score :: "'a pq_item \<Rightarrow> int" where
  "item_score item = calculateScore (item_priority item) (item_enqueuedAt item)"

definition createPriorityQueue :: "('h, 'a) heap_ops \<Rightarrow> 'h" where
  "createPriorityQueue H = hp_new H item_score"

definition pq_enqueue :: "('h, 'a) heap_ops \<Rightarrow> int \<Rightarrow> 'h \<Rightarrow> 'a \<Rightarrow> int \<Rightarrow> 'h" where
  "pq_enqueue H now heap item priority =
     hp_enqueue H heap \<lparr>item_priority = priority, item_data = item, item_enqueuedAt = now\<rparr>"

definition pq_dequeue :: "('h, 'a) heap_ops \<Rightarrow> 'h \<Rightarrow> 'a option \<times> 'h" where
  "pq_dequeue H heap =
     (if hp_isEmpty H heap then (None, heap)
      else (case hp_dequeue H heap of (item, heap') \<Rightarrow> (map_option item_data item, heap')))"

definition pq_peek :: "('h, 'a) heap_ops \<Rightarrow> 'h \<Rightarrow> 'a option" where
  "pq_peek H heap =
     (if hp_isEmpty H heap then None else map_option item_data (hp_front H heap))"

definition pq_size :: "('h, 'a) heap_ops \<Rightarrow> 'h \<Rightarrow> nat" where
  "pq_size H heap = hp_size H heap"

definition pq_isEmpty :: "('h, 'a) heap_ops \<Rightarrow> 'h \<Rightarrow> bool" where
  "pq_isEmpty H heap = hp_isEmpty H heap"

definition pq_clear :: "('h, 'a) heap_ops \<Rightarrow> 'h \<Rightarrow> 'h" where
  "pq_clear H heap = hp_clear H heap"

definition pq_toArray :: "('h, 'a) heap_ops \<Rightarrow> 'h \<Rightarrow> 'a list" where
  \<comment> \<open>\<open>Array.prototype.sort\<close> is stable, as \<open>sort_key\<close> is; descending order negates the key\<close>
  "pq_toArray H heap = map item_data (sort_key (\<lambda>i. - item_score i) (hp_toArray H heap))"

section \<open>Scores\<close>

lemma calculateScore_less_iff:
  "calculateScore p t < calculateScore q u \<longleftrightarrow> (p - q) * PRIORITY_MULTIPLIER < t - u"
  by (auto simp: calculateScore_def algebra_simps)

lemma score_priority_dominates:
  assumes "p < q" and "u - t < PRIORITY_MULTIPLIER"
  shows "calculateScore p t < calculateScore q u"
proof -
  have "1 * PRIORITY_MULTIPLIER \<le> (q - p) * PRIORITY_MULTIPLIER"
    using assms(1) by (intro mult_right_mono) (auto simp: PRIORITY_MULTIPLIER_def)
  then show ?thesis
    using assms(2) by (simp add: calculateScore_def algebra_simps)
qed

lemma score_fifo: "calculateScore p t < calculateScore p u \<longleftrightarrow> u < t"
  by (simp add: calculateScore_def)

lemma score_eq_iff: "calculateScore p t = calculateScore p u \<longleftrightarrow> t = u"
  by (simp add: calculateScore_def)

lemma score_exact:
  assumes "1 \<le> p" and "p \<le> 10" and "0 \<le> t" and "t \<le> 8640000000000000"
  shows "\<bar>calculateScore p t\<bar> < 2 ^ 53"
  using assms by (simp add: calculateScore_def PRIORITY_MULTIPLIER_def)

section \<open>The contract of the heap, and what the wrapper promises over it\<close>

locale max_heap =
  fixes H :: "('h, 'a) heap_ops"
    and ok :: "'h \<Rightarrow> bool"
    and bag :: "'h \<Rightarrow> 'a pq_item multiset"
  assumes new_ok: "ok (hp_new H item_score)"
    and new_bag: "bag (hp_new H item_score) = {#}"
    and enqueue_ok: "ok h \<Longrightarrow> ok (hp_enqueue H h x)"
    and enqueue_bag: "ok h \<Longrightarrow> bag (hp_enqueue H h x) = add_mset x (bag h)"
    and dequeue_max: "ok h \<Longrightarrow> bag h \<noteq> {#} \<Longrightarrow>
      \<exists>x h'. hp_dequeue H h = (Some x, h') \<and> hp_front H h = Some x \<and> ok h' \<and> x \<in># bag h \<and>
        bag h' = bag h - {#x#} \<and> (\<forall>y \<in># bag h. item_score y \<le> item_score x)"
    and size_bag: "ok h \<Longrightarrow> hp_size H h = size (bag h)"
    and isEmpty_bag: "ok h \<Longrightarrow> hp_isEmpty H h \<longleftrightarrow> bag h = {#}"
    and clear_ok: "ok h \<Longrightarrow> ok (hp_clear H h)"
    and clear_bag: "ok h \<Longrightarrow> bag (hp_clear H h) = {#}"
    and toArray_bag: "ok h \<Longrightarrow> mset (hp_toArray H h) = bag h"
begin

lemma create_ok: "ok (createPriorityQueue H)" "bag (createPriorityQueue H) = {#}"
  by (simp_all add: createPriorityQueue_def new_ok new_bag)

lemma pq_enqueue_bag:
  assumes "ok h"
  shows "ok (pq_enqueue H now h x p)"
    and "bag (pq_enqueue H now h x p) =
      add_mset \<lparr>item_priority = p, item_data = x, item_enqueuedAt = now\<rparr> (bag h)"
  using assms by (simp_all add: pq_enqueue_def enqueue_ok enqueue_bag)

lemma pq_dequeue_empty:
  "ok h \<Longrightarrow> bag h = {#} \<Longrightarrow> pq_dequeue H h = (None, h)"
  by (simp add: pq_dequeue_def isEmpty_bag)

lemma pq_dequeue_Some:
  assumes "ok h" and "bag h \<noteq> {#}"
  obtains i h' where "pq_dequeue H h = (Some (item_data i), h')" and "i \<in># bag h" and "ok h'"
    and "bag h' = bag h - {#i#}" and "\<And>j. j \<in># bag h \<Longrightarrow> item_score j \<le> item_score i"
    and "pq_peek H h = Some (item_data i)"
proof -
  obtain i h' where d: "hp_dequeue H h = (Some i, h')" "hp_front H h = Some i" "ok h'"
      "i \<in># bag h" "bag h' = bag h - {#i#}" "\<forall>j \<in># bag h. item_score j \<le> item_score i"
    using dequeue_max [OF assms] by blast
  show thesis
    by (rule that [of i h']) (use assms d in \<open>auto simp: pq_dequeue_def pq_peek_def isEmpty_bag\<close>)
qed

lemma pq_dequeue_highest_priority:
  assumes "ok h" and "pq_dequeue H h = (Some x, h')"
    and skew: "\<And>i j. i \<in># bag h \<Longrightarrow> j \<in># bag h \<Longrightarrow>
      item_enqueuedAt i - item_enqueuedAt j < PRIORITY_MULTIPLIER"
  shows "\<exists>i \<in># bag h. item_data i = x \<and> bag h' = bag h - {#i#} \<and>
    (\<forall>j \<in># bag h. item_priority j \<le> item_priority i \<and>
       (item_priority j = item_priority i \<longrightarrow> item_enqueuedAt i \<le> item_enqueuedAt j))"
proof -
  have ne: "bag h \<noteq> {#}" using assms(1,2) pq_dequeue_empty by fastforce
  obtain i h'' where i: "pq_dequeue H h = (Some (item_data i), h'')" "i \<in># bag h"
      "bag h'' = bag h - {#i#}" and max: "\<And>j. j \<in># bag h \<Longrightarrow> item_score j \<le> item_score i"
    using pq_dequeue_Some [OF assms(1) ne] by metis
  have best: "item_priority j \<le> item_priority i \<and>
      (item_priority j = item_priority i \<longrightarrow> item_enqueuedAt i \<le> item_enqueuedAt j)"
    if j: "j \<in># bag h" for j
  proof
    show "item_priority j \<le> item_priority i"
    proof (rule ccontr)
      assume "\<not> item_priority j \<le> item_priority i"
      then have "item_score i < item_score j"
        unfolding item_score_def using skew [OF j i(2)]
        by (intro score_priority_dominates) auto
      with max [OF j] show False by simp
    qed
    show "item_priority j = item_priority i \<longrightarrow> item_enqueuedAt i \<le> item_enqueuedAt j"
      using max [OF j] score_fifo unfolding item_score_def by (metis linorder_not_le)
  qed
  show ?thesis using i assms(2) best by auto
qed

lemma pq_toArray_sorted:
  assumes "ok h"
  shows "\<exists>items. pq_toArray H h = map item_data items \<and> mset items = bag h \<and>
    sorted_wrt (\<lambda>a b. item_score b \<le> item_score a) items"
proof -
  let ?items = "sort_key (\<lambda>i. - item_score i) (hp_toArray H h)"
  have "sorted (map (\<lambda>i. - item_score i) ?items)" by simp
  then have "sorted_wrt (\<lambda>a b. item_score b \<le> item_score a) ?items"
    by (simp add: sorted_map)
  then show ?thesis
    using assms by (intro exI [of _ ?items]) (simp add: pq_toArray_def toArray_bag)
qed

end

section \<open>A heap that meets the contract\<close>

text \<open>
  The reference heap keeps its items in arrival order and takes the first one of greatest
  score. It is used to evaluate the model on concrete inputs.
\<close>

fun pick_max :: "('b \<Rightarrow> int) \<Rightarrow> 'b list \<Rightarrow> 'b option" where
  "pick_max f [] = None"
| "pick_max f (x # xs) =
     (case pick_max f xs of None \<Rightarrow> Some x | Some y \<Rightarrow> if f x < f y then Some y else Some x)"

definition list_heap :: "(('a pq_item \<Rightarrow> int) \<times> 'a pq_item list, 'a) heap_ops" where
  "list_heap = \<lparr>
     hp_new = (\<lambda>f. (f, [])),
     hp_enqueue = (\<lambda>(f, xs) x. (f, xs @ [x])),
     hp_dequeue = (\<lambda>(f, xs). (pick_max f xs,
        (f, case pick_max f xs of None \<Rightarrow> xs | Some x \<Rightarrow> remove1 x xs))),
     hp_front = (\<lambda>(f, xs). pick_max f xs),
     hp_size = (\<lambda>(f, xs). length xs),
     hp_isEmpty = (\<lambda>(f, xs). xs = []),
     hp_clear = (\<lambda>(f, xs). (f, [])),
     hp_toArray = (\<lambda>(f, xs). xs)\<rparr>"

lemma pick_max_Some:
  "xs \<noteq> [] \<Longrightarrow> \<exists>x. pick_max f xs = Some x \<and> x \<in> set xs \<and> (\<forall>y \<in> set xs. f y \<le> f x)"
proof (induction xs)
  case (Cons a xs)
  show ?case
  proof (cases "xs = []")
    case False
    with Cons.IH obtain x where "pick_max f xs = Some x" "x \<in> set xs" "\<forall>y \<in> set xs. f y \<le> f x"
      by blast
    then show ?thesis by (cases "f a < f x") auto
  qed simp
qed simp

interpretation lh: max_heap list_heap "\<lambda>h. fst h = item_score" "\<lambda>h. mset (snd h)"
proof unfold_locales
  fix h :: "('a pq_item \<Rightarrow> int) \<times> 'a pq_item list"
  assume ok: "fst h = item_score" and ne: "mset (snd h) \<noteq> {#}"
  obtain xs where h: "h = (item_score, xs)" using ok by (cases h) auto
  then obtain x where "pick_max item_score xs = Some x" "x \<in> set xs"
      "\<forall>y \<in> set xs. item_score y \<le> item_score x"
    using ne pick_max_Some [of xs item_score] by auto
  then show "\<exists>x h'. hp_dequeue list_heap h = (Some x, h') \<and> hp_front list_heap h = Some x \<and>
      fst h' = item_score \<and> x \<in># mset (snd h) \<and> mset (snd h') = mset (snd h) - {#x#} \<and>
      (\<forall>y \<in># mset (snd h). item_score y \<le> item_score x)"
    by (simp add: list_heap_def h)
qed (auto simp: list_heap_def)

text \<open>
  The contract leaves the order of equal scores open. A heap that prefers the latest of
  the equal items also meets it, so two jobs of one priority enqueued in the same
  millisecond may leave in either order.
\<close>

definition lifo_heap :: "(('a pq_item \<Rightarrow> int) \<times> 'a pq_item list, 'a) heap_ops" where
  "lifo_heap = list_heap\<lparr>hp_enqueue := (\<lambda>(f, xs) x. (f, x # xs))\<rparr>"

interpretation lifo: max_heap lifo_heap "\<lambda>h. fst h = item_score" "\<lambda>h. mset (snd h)"
proof unfold_locales
  fix h :: "('a pq_item \<Rightarrow> int) \<times> 'a pq_item list"
  assume "fst h = item_score" and "mset (snd h) \<noteq> {#}"
  then show "\<exists>x h'. hp_dequeue lifo_heap h = (Some x, h') \<and> hp_front lifo_heap h = Some x \<and>
      fst h' = item_score \<and> x \<in># mset (snd h) \<and> mset (snd h') = mset (snd h) - {#x#} \<and>
      (\<forall>y \<in># mset (snd h). item_score y \<le> item_score x)"
    using lh.dequeue_max [of h] by (simp add: lifo_heap_def list_heap_def)
qed (auto simp: lifo_heap_def list_heap_def)

end
