(* ===== verification/Queue_Storage.thy ===== *)
theory Queue_Storage
  imports Priority_Queue
begin

text \<open>
  \<open>plugins/queue/src/types.ts\<close> (jobs, statistics, filters) and
  \<open>plugins/queue/src/storage/memory.ts\<close> (\<open>InMemoryStorage\<close>).

  The storage keeps four maps: a heap per queue, the jobs by id, the queue of each job id
  and the incremental statistics per queue. \<open>storage_ok\<close> is the representation invariant,
  \<open>stats_exact\<close> says that the statistics of a queue are the counts of its jobs. Every
  operation keeps the first; \<open>enqueue\<close> of a new id, \<open>updateJob\<close>, \<open>removeJob\<close> and
  \<open>dequeue\<close> keep the second.

  Payloads (\<open>data\<close>, \<open>result\<close>, metadata values) are opaque values of type \<open>'v\<close>. A
  \<open>Partial<Job>\<close> is a record of optional fields: \<open>None\<close> is an absent key, \<open>Some None\<close> a
  key that is present with value \<open>undefined\<close>.
\<close>

section \<open>Jobs, statistics and filters\<close>

datatype job_status = Queued | Running | Completed | Failed | Cancelled

record job_error =
  err_message :: string
  err_code :: "string option"
  err_stack :: "string option"

record 'v job =
  job_id :: string
  job_type :: string
  job_queueName :: string
  job_data :: 'v
  job_status :: job_status
  job_priority :: int
  job_progress :: rat
  job_progressMessage :: "string option"
  job_queuedAt :: int
  job_startedAt :: "int option"
  job_completedAt :: "int option"
  job_result :: "'v option"
  job_error :: "job_error option"
  job_retries :: int
  job_maxRetries :: int
  job_timeout :: int
  job_metadata :: "(string, 'v) js_map"

record 'v job_updates =
  upd_id :: "string option"
  upd_type :: "string option"
  upd_queueName :: "string option"
  upd_data :: "'v option"
  upd_status :: "job_status option"
  upd_priority :: "int option"
  upd_progress :: "rat option"
  upd_progressMessage :: "string option option"
  upd_queuedAt :: "int option"
  upd_startedAt :: "int option option"
  upd_completedAt :: "int option option"
  upd_result :: "'v option option"
  upd_error :: "job_error option option"
  upd_retries :: "int option"
  upd_maxRetries :: "int option"
  upd_timeout :: "int option"
  upd_metadata :: "(string, 'v) js_map option"

definition no_updates :: "'v job_updates" where
  "no_updates = \<lparr>upd_id = None, upd_type = None, upd_queueName = None, upd_data = None,
     upd_status = None, upd_priority = None, upd_progress = None, upd_progressMessage = None,
     upd_queuedAt = None, upd_startedAt = None, upd_completedAt = None, upd_result = None,
     upd_error = None, upd_retries = None, upd_maxRetries = None, upd_timeout = None,
     upd_metadata = None\<rparr>"

definition upd :: "'a option \<Rightarrow> 'a \<Rightarrow> 'a" where
  "upd u old = (case u of None \<Rightarrow> old | Some new \<Rightarrow> new)"

lemma upd_simps [simp]: "upd None x = x" "upd (Some y) x = y"
  by (simp_all add: upd_def)

definition merge_job :: "'v job \<Rightarrow> 'v job_updates \<Rightarrow> 'v job" where
  \<comment> \<open>the object spread \<open>{ ...existingJob, ...updates }\<close>\<close>
  "merge_job j u = \<lparr>
     job_id = upd (upd_id u) (job_id j),
     job_type = upd (upd_type u) (job_type j),
     job_queueName = upd (upd_queueName u) (job_queueName j),
     job_data = upd (upd_data u) (job_data j),
     job_status = upd (upd_status u) (job_status j),
     job_priority = upd (upd_priority u) (job_priority j),
     job_progress = upd (upd_progress u) (job_progress j),
     job_progressMessage = upd (upd_progressMessage u) (job_progressMessage j),
     job_queuedAt = upd (upd_queuedAt u) (job_queuedAt j),
     job_startedAt = upd (upd_startedAt u) (job_startedAt j),
     job_completedAt = upd (upd_completedAt u) (job_completedAt j),
     job_result = upd (upd_result u) (job_result j),
     job_error = upd (upd_error u) (job_error j),
     job_retries = upd (upd_retries u) (job_retries j),
     job_maxRetries = upd (upd_maxRetries u) (job_maxRetries j),
     job_timeout = upd (upd_timeout u) (job_timeout j),
     job_metadata = upd (upd_metadata u) (job_metadata j)\<rparr>"

record queue_stats =
  qs_total :: int
  qs_queued :: int
  qs_running :: int
  qs_completed :: int
  qs_failed :: int
  qs_cancelled :: int

definition DEFAULT_STATS :: queue_stats where
  "DEFAULT_STATS = \<lparr>qs_total = 0, qs_queued = 0, qs_running = 0, qs_completed = 0,
     qs_failed = 0, qs_cancelled = 0\<rparr>"

datatype sort_by = ByQueuedAt | ByPriority | ByStatus
datatype sort_order = Asc | Desc

record job_filters =
  flt_status :: "job_status list option"
  flt_jobType :: "string option"
  flt_limit :: "int option"
  flt_offset :: "int option"
  flt_sortBy :: "sort_by option"
  flt_sortOrder :: "sort_order option"

definition no_filters :: job_filters where
  "no_filters = \<lparr>flt_status = None, flt_jobType = None, flt_limit = None, flt_offset = None,
     flt_sortBy = None, flt_sortOrder = None\<rparr>"

section \<open>InMemoryStorage\<close>

record ('h, 'v) storage =
  st_queues :: "(string, 'h) js_map"
  st_jobs :: "(string, 'v job) js_map"
  st_jobToQueue :: "(string, string) js_map"
  st_stats :: "(string, queue_stats) js_map"

definition new_storage :: "('h, 'v) storage" where
  "new_storage = \<lparr>st_queues = [], st_jobs = [], st_jobToQueue = [], st_stats = []\<rparr>"

fun incrementStatusCount :: "queue_stats \<Rightarrow> job_status \<Rightarrow> queue_stats" where
  "incrementStatusCount s Queued = s\<lparr>qs_queued := qs_queued s + 1\<rparr>"
| "incrementStatusCount s Running = s\<lparr>qs_running := qs_running s + 1\<rparr>"
| "incrementStatusCount s Completed = s\<lparr>qs_completed := qs_completed s + 1\<rparr>"
| "incrementStatusCount s Failed = s\<lparr>qs_failed := qs_failed s + 1\<rparr>"
| "incrementStatusCount s Cancelled = s\<lparr>qs_cancelled := qs_cancelled s + 1\<rparr>"

fun decrementStatusCount :: "queue_stats \<Rightarrow> job_status \<Rightarrow> queue_stats" where
  "decrementStatusCount s Queued = s\<lparr>qs_queued := max 0 (qs_queued s - 1)\<rparr>"
| "decrementStatusCount s Running = s\<lparr>qs_running := max 0 (qs_running s - 1)\<rparr>"
| "decrementStatusCount s Completed = s\<lparr>qs_completed := max 0 (qs_completed s - 1)\<rparr>"
| "decrementStatusCount s Failed = s\<lparr>qs_failed := max 0 (qs_failed s - 1)\<rparr>"
| "decrementStatusCount s Cancelled = s\<lparr>qs_cancelled := max 0 (qs_cancelled s - 1)\<rparr>"

definition ensure_queue ::
  "('h, 'v job) heap_ops \<Rightarrow> ('h, 'v) storage \<Rightarrow> string \<Rightarrow> ('h, 'v) storage" where
  "ensure_queue H st queueName =
     (if map_has (st_queues st) queueName then st
      else st\<lparr>st_queues := map_set queueName (createPriorityQueue H) (st_queues st),
              st_stats := map_set queueName DEFAULT_STATS (st_stats st)\<rparr>)"

definition st_enqueue ::
  "('h, 'v job) heap_ops \<Rightarrow> int \<Rightarrow> ('h, 'v) storage \<Rightarrow> string \<Rightarrow> 'v job \<Rightarrow> ('h, 'v) storage" where
  \<comment> \<open>the statistics are mutated through a reference: the map entry changes; the queue and
      its statistics exist after \<open>ensure_queue\<close> (\<open>ensure_queue_present\<close>)\<close>
  "st_enqueue H now st queueName job =
     (let st1 = ensure_queue H st queueName;
          queues' = (case map_get (st_queues st1) queueName of
              None \<Rightarrow> st_queues st1
            | Some q \<Rightarrow> map_set queueName (pq_enqueue H now q job (job_priority job)) (st_queues st1));
          stats' = (case map_get (st_stats st1) queueName of
              None \<Rightarrow> st_stats st1
            | Some s \<Rightarrow> map_set queueName
                (incrementStatusCount (s\<lparr>qs_total := qs_total s + 1\<rparr>) (job_status job))
                (st_stats st1))
      in st1\<lparr>st_queues := queues',
             st_jobs := map_set (job_id job) job (st_jobs st1),
             st_jobToQueue := map_set (job_id job) queueName (st_jobToQueue st1),
             st_stats := stats'\<rparr>)"

definition st_dequeue ::
  "('h, 'v job) heap_ops \<Rightarrow> ('h, 'v) storage \<Rightarrow> string \<Rightarrow> 'v job option \<times> ('h, 'v) storage" where
  "st_dequeue H st queueName =
     (case map_get (st_queues st) queueName of
        None \<Rightarrow> (None, st)
      | Some queue \<Rightarrow>
          if pq_isEmpty H queue then (None, st)
          else (case pq_dequeue H queue of
                  (job, queue') \<Rightarrow>
                    (job, st\<lparr>st_queues := map_set queueName queue' (st_queues st)\<rparr>)))"

definition st_peek :: "('h, 'v job) heap_ops \<Rightarrow> ('h, 'v) storage \<Rightarrow> string \<Rightarrow> 'v job option" where
  "st_peek H st queueName =
     (case map_get (st_queues st) queueName of
        None \<Rightarrow> None
      | Some queue \<Rightarrow> if pq_isEmpty H queue then None else pq_peek H queue)"

definition st_getJob :: "('h, 'v) storage \<Rightarrow> string \<Rightarrow> string option \<Rightarrow> 'v job option" where
  "st_getJob st jobId queueName =
     (case map_get (st_jobs st) jobId of
        None \<Rightarrow> None
      | Some job \<Rightarrow>
          (case queueName of
             None \<Rightarrow> Some job
           | Some q \<Rightarrow> if map_get (st_jobToQueue st) jobId \<noteq> Some q then None else Some job))"

fun status_rank :: "job_status \<Rightarrow> int" where
  \<comment> \<open>the position of the status names under \<open>localeCompare\<close>:
      cancelled, completed, failed, queued, running\<close>
  "status_rank Cancelled = 0"
| "status_rank Completed = 1"
| "status_rank Failed = 2"
| "status_rank Queued = 3"
| "status_rank Running = 4"

definition sort_value :: "sort_by \<Rightarrow> 'v job \<Rightarrow> int" where
  "sort_value by job =
     (case by of ByPriority \<Rightarrow> job_priority job
               | ByStatus \<Rightarrow> status_rank (job_status job)
               | ByQueuedAt \<Rightarrow> job_queuedAt job)"

definition sort_jobs :: "sort_by \<Rightarrow> sort_order \<Rightarrow> 'v job list \<Rightarrow> 'v job list" where
  "sort_jobs by ord jobs =
     (case ord of Asc \<Rightarrow> sort_key (sort_value by) jobs
                | Desc \<Rightarrow> sort_key (\<lambda>j. - sort_value by j) jobs)"

definition queue_jobs :: "('h, 'v) storage \<Rightarrow> string \<Rightarrow> 'v job list" where
  \<comment> \<open>the collecting loop over \<open>this.jobToQueue.entries()\<close>\<close>
  "queue_jobs st queueName =
     List.map_filter (\<lambda>(jobId, queue). if queue = queueName then map_get (st_jobs st) jobId else None)
       (st_jobToQueue st)"

definition filter_jobs :: "job_filters \<Rightarrow> 'v job list \<Rightarrow> 'v job list" where
  "filter_jobs f jobs =
     (let r1 = (case flt_status f of None \<Rightarrow> jobs
                | Some ss \<Rightarrow> filter (\<lambda>j. job_status j \<in> set ss) jobs)
      in (case flt_jobType f of None \<Rightarrow> r1
          | Some t \<Rightarrow> filter (\<lambda>j. job_type j = t) r1))"

definition st_listJobs :: "('h, 'v) storage \<Rightarrow> string \<Rightarrow> job_filters \<Rightarrow> 'v job list" where
  "st_listJobs st queueName f =
     (let limit = upd (flt_limit f) 50;
          offset = upd (flt_offset f) 0;
          sortBy = upd (flt_sortBy f) ByQueuedAt;
          sortOrder = upd (flt_sortOrder f) Desc
      in js_slice offset (offset + limit)
           (sort_jobs sortBy sortOrder (filter_jobs f (queue_jobs st queueName))))"

definition queue_of_job :: "('h, 'v) storage \<Rightarrow> string \<Rightarrow> string option" where
  \<comment> \<open>\<open>queueName ? this.stats.get(queueName) : undefined\<close>: the empty name is falsy\<close>
  "queue_of_job st jobId =
     (case map_get (st_jobToQueue st) jobId of
        None \<Rightarrow> None
      | Some q \<Rightarrow> if q = '''' then None else Some q)"

definition modify_stats ::
  "string option \<Rightarrow> (queue_stats \<Rightarrow> queue_stats) \<Rightarrow> ('h, 'v) storage \<Rightarrow> ('h, 'v) storage" where
  "modify_stats q f st =
     (case q of
        None \<Rightarrow> st
      | Some queueName \<Rightarrow>
          (case map_get (st_stats st) queueName of
             None \<Rightarrow> st
           | Some s \<Rightarrow> st\<lparr>st_stats := map_set queueName (f s) (st_stats st)\<rparr>))"

definition st_updateJob ::
  "('h, 'v) storage \<Rightarrow> string \<Rightarrow> 'v job_updates \<Rightarrow> ('h, 'v) storage" where
  "st_updateJob st jobId updates =
     (case map_get (st_jobs st) jobId of
        None \<Rightarrow> st
      | Some existingJob \<Rightarrow>
          let queueName = queue_of_job st jobId;
              oldStatus = job_status existingJob;
              st1 = st\<lparr>st_jobs := map_set jobId (merge_job existingJob updates) (st_jobs st)\<rparr>
          in (case upd_status updates of
                None \<Rightarrow> st1
              | Some newStatus \<Rightarrow>
                  if newStatus = oldStatus then st1
                  else modify_stats queueName
                         (\<lambda>s. incrementStatusCount (decrementStatusCount s oldStatus) newStatus)
                         st1))"

definition st_removeJob :: "('h, 'v) storage \<Rightarrow> string \<Rightarrow> bool \<times> ('h, 'v) storage" where
  "st_removeJob st jobId =
     (case map_get (st_jobs st) jobId of
        None \<Rightarrow> (False, st)
      | Some job \<Rightarrow>
          let queueName = queue_of_job st jobId;
              st1 = st\<lparr>st_jobs := map_delete jobId (st_jobs st),
                       st_jobToQueue := map_delete jobId (st_jobToQueue st)\<rparr>
          in (True, modify_stats queueName
                (\<lambda>s. decrementStatusCount (s\<lparr>qs_total := qs_total s - 1\<rparr>) (job_status job))
                st1))"

definition st_getQueueStats :: "('h, 'v) storage \<Rightarrow> string \<Rightarrow> queue_stats" where
  "st_getQueueStats st queueName =
     (case map_get (st_stats st) queueName of None \<Rightarrow> DEFAULT_STATS | Some s \<Rightarrow> s)"

section \<open>The representation invariant\<close>

definition storage_ok :: "('h, 'v) storage \<Rightarrow> bool" where
  "storage_ok st \<longleftrightarrow>
     map_ok (st_queues st) \<and> map_ok (st_jobs st) \<and> map_ok (st_jobToQueue st) \<and>
     map_ok (st_stats st) \<and>
     set (map_keys (st_jobs st)) = set (map_keys (st_jobToQueue st)) \<and>
     set (map_keys (st_queues st)) = set (map_keys (st_stats st)) \<and>
     snd ` set (st_jobToQueue st) \<subseteq> set (map_keys (st_stats st)) \<and>
     (\<forall>(i, j) \<in> set (st_jobs st). job_id j = i)"

lemma keys_eq_iff:
  "set (map fst m) = set (map fst m') \<longleftrightarrow> (\<forall>k. map_of m k = None \<longleftrightarrow> map_of m' k = None)"
  by (auto simp: map_of_eq_None_iff)

lemma storage_ok_iff:
  "storage_ok st \<longleftrightarrow>
     map_ok (st_queues st) \<and> map_ok (st_jobs st) \<and> map_ok (st_jobToQueue st) \<and>
     map_ok (st_stats st) \<and>
     (\<forall>i. map_of (st_jobs st) i = None \<longleftrightarrow> map_of (st_jobToQueue st) i = None) \<and>
     (\<forall>q. map_of (st_queues st) q = None \<longleftrightarrow> map_of (st_stats st) q = None) \<and>
     (\<forall>i q. map_of (st_jobToQueue st) i = Some q \<longrightarrow> map_of (st_stats st) q \<noteq> None) \<and>
     (\<forall>i j. map_of (st_jobs st) i = Some j \<longrightarrow> job_id j = i)"
proof -
  have a: "snd ` set (st_jobToQueue st) \<subseteq> set (map fst (st_stats st)) \<longleftrightarrow>
      (\<forall>i q. map_of (st_jobToQueue st) i = Some q \<longrightarrow> map_of (st_stats st) q \<noteq> None)"
    if "map_ok (st_jobToQueue st)"
    using that by (force simp: map_of_eq_None_iff map_of_eq_Some_iff)
  have b: "(\<forall>(i, j) \<in> set (st_jobs st). job_id j = i) \<longleftrightarrow>
      (\<forall>i j. map_of (st_jobs st) i = Some j \<longrightarrow> job_id j = i)"
    if "map_ok (st_jobs st)"
    using that by (force simp: map_of_eq_Some_iff)
  show ?thesis
    unfolding storage_ok_def keys_eq_iff using a b
    by (cases "map_ok (st_jobToQueue st)"; cases "map_ok (st_jobs st)") simp_all
qed

lemma storage_ok_job_id: "storage_ok st \<Longrightarrow> map_of (st_jobs st) i = Some j \<Longrightarrow> job_id j = i"
  by (simp add: storage_ok_iff)

lemma new_storage_simps [simp]:
  "st_jobs new_storage = []" "st_jobToQueue new_storage = []" "st_queues new_storage = []"
  "st_stats new_storage = []"
  by (simp_all add: new_storage_def)

lemma new_storage_ok: "storage_ok new_storage"
  by (simp add: storage_ok_def new_storage_def)

lemma ensure_queue_ok: "storage_ok st \<Longrightarrow> storage_ok (ensure_queue H st q)"
  by (auto simp: ensure_queue_def storage_ok_iff)

lemma ensure_queue_frame [simp]:
  "st_jobs (ensure_queue H st q) = st_jobs st"
  "st_jobToQueue (ensure_queue H st q) = st_jobToQueue st"
  by (simp_all add: ensure_queue_def)

lemma ensure_queue_present:
  assumes "storage_ok st"
  shows "map_of (st_queues (ensure_queue H st q)) q \<noteq> None"
    and "map_of (st_stats (ensure_queue H st q)) q \<noteq> None"
  using assms by (auto simp: ensure_queue_def map_has_get storage_ok_iff simp del: not_None_eq)

lemma ensure_queue_stats [simp]:
  "storage_ok st \<Longrightarrow> st_getQueueStats (ensure_queue H st q) q' = st_getQueueStats st q'"
  by (auto simp: ensure_queue_def map_has_get st_getQueueStats_def storage_ok_iff)

lemma st_enqueue_fields:
  assumes "storage_ok st"
  obtains heap stats where
    "map_of (st_queues (ensure_queue H st q)) q = Some heap"
    and "map_of (st_stats (ensure_queue H st q)) q = Some stats"
    and "stats = st_getQueueStats st q"
    and "st_enqueue H now st q job = (ensure_queue H st q)\<lparr>
      st_queues := map_set q (pq_enqueue H now heap job (job_priority job))
        (st_queues (ensure_queue H st q)),
      st_jobs := map_set (job_id job) job (st_jobs st),
      st_jobToQueue := map_set (job_id job) q (st_jobToQueue st),
      st_stats := map_set q
        (incrementStatusCount (stats\<lparr>qs_total := qs_total stats + 1\<rparr>) (job_status job))
        (st_stats (ensure_queue H st q))\<rparr>"
proof -
  obtain heap stats where hs: "map_of (st_queues (ensure_queue H st q)) q = Some heap"
      "map_of (st_stats (ensure_queue H st q)) q = Some stats"
    using ensure_queue_present [OF assms, of H q] by blast
  moreover have "stats = st_getQueueStats st q"
    using hs(2) ensure_queue_stats [OF assms, of H q q] by (simp add: st_getQueueStats_def)
  ultimately show thesis
    by (intro that) (auto simp: st_enqueue_def Let_def)
qed

lemma st_enqueue_ok:
  assumes "storage_ok st"
  shows "storage_ok (st_enqueue H now st q job)"
proof -
  have e: "storage_ok (ensure_queue H st q)" using assms by (rule ensure_queue_ok)
  show ?thesis
    by (rule st_enqueue_fields [OF assms, of H q now job])
      (use e in \<open>auto simp: storage_ok_iff\<close>)
qed

lemma modify_stats_frame [simp]:
  "st_queues (modify_stats q f st) = st_queues st"
  "st_jobs (modify_stats q f st) = st_jobs st"
  "st_jobToQueue (modify_stats q f st) = st_jobToQueue st"
  by (simp_all add: modify_stats_def split: option.split)

lemma modify_stats_ok: "storage_ok st \<Longrightarrow> storage_ok (modify_stats q f st)"
  by (auto simp: modify_stats_def storage_ok_iff split: option.split)

lemma st_dequeue_ok: "storage_ok st \<Longrightarrow> storage_ok (snd (st_dequeue H st q))"
  by (auto simp: st_dequeue_def storage_ok_iff split: option.split prod.split)
    (metis not_None_eq)+

lemma merge_job_id: "upd_id u = None \<Longrightarrow> job_id (merge_job j u) = job_id j"
  by (simp add: merge_job_def)

lemma st_updateJob_ok:
  assumes "storage_ok st" and "upd_id u = None"
  shows "storage_ok (st_updateJob st i u)"
proof (cases "map_of (st_jobs st) i")
  case None
  then show ?thesis using assms by (simp add: st_updateJob_def)
next
  case (Some j)
  have "storage_ok (st\<lparr>st_jobs := map_set i (merge_job j u) (st_jobs st)\<rparr>)"
    using assms Some by (auto simp: storage_ok_iff merge_job_id) (metis not_None_eq)
  then show ?thesis
    using Some by (auto simp: st_updateJob_def Let_def modify_stats_ok split: option.split)
qed

lemma st_removeJob_ok:
  assumes "storage_ok st"
  shows "storage_ok (snd (st_removeJob st i))"
proof (cases "map_of (st_jobs st) i")
  case None
  then show ?thesis using assms by (simp add: st_removeJob_def)
next
  case (Some j)
  have "storage_ok (st\<lparr>st_jobs := map_delete i (st_jobs st),
      st_jobToQueue := map_delete i (st_jobToQueue st)\<rparr>)"
    using assms by (auto simp: storage_ok_iff)
  then show ?thesis
    using Some by (simp add: st_removeJob_def Let_def modify_stats_ok)
qed

section \<open>Statistics count the jobs\<close>

text \<open>
  \<open>job_count\<close> counts the jobs of a queue that satisfy a predicate; \<open>stats_exact\<close> is the
  abstraction relation between the incremental statistics and these counts. A queue with
  the empty name is excluded: \<open>queueName ? ... : undefined\<close> treats it as absent.
\<close>

definition job_count :: "('h, 'v) storage \<Rightarrow> string \<Rightarrow> ('v job \<Rightarrow> bool) \<Rightarrow> int" where
  "job_count st q P =
     entry_count (\<lambda>(i, j). map_of (st_jobToQueue st) i = Some q \<and> P j) (st_jobs st)"

fun stat_of :: "queue_stats \<Rightarrow> job_status \<Rightarrow> int" where
  "stat_of s Queued = qs_queued s"
| "stat_of s Running = qs_running s"
| "stat_of s Completed = qs_completed s"
| "stat_of s Failed = qs_failed s"
| "stat_of s Cancelled = qs_cancelled s"

definition counts_match :: "queue_stats \<Rightarrow> int \<Rightarrow> (job_status \<Rightarrow> int) \<Rightarrow> bool" where
  "counts_match s n by_status \<longleftrightarrow> qs_total s = n \<and> (\<forall>x. stat_of s x = by_status x)"

definition stats_exact :: "('h, 'v) storage \<Rightarrow> bool" where
  "stats_exact st \<longleftrightarrow> (\<forall>q. q \<noteq> '''' \<longrightarrow>
     counts_match (st_getQueueStats st q) (job_count st q (\<lambda>_. True))
       (\<lambda>s. job_count st q (\<lambda>j. job_status j = s)))"

lemma stat_of_increment [simp]:
  "stat_of (incrementStatusCount s x) y = stat_of s y + (if x = y then 1 else 0)"
  by (cases x; cases y) auto

lemma stat_of_decrement [simp]:
  "stat_of (decrementStatusCount s x) y = (if x = y then max 0 (stat_of s y - 1) else stat_of s y)"
  by (cases x; cases y) auto

lemma qs_total_status [simp]:
  "qs_total (incrementStatusCount s x) = qs_total s"
  "qs_total (decrementStatusCount s x) = qs_total s"
  by (cases x; simp)+

lemma stat_of_total [simp]: "stat_of (s\<lparr>qs_total := n\<rparr>) x = stat_of s x"
  by (cases x) auto

lemma stat_of_DEFAULT [simp]: "stat_of DEFAULT_STATS x = 0" "qs_total DEFAULT_STATS = 0"
  by (cases x; simp add: DEFAULT_STATS_def) (simp add: DEFAULT_STATS_def)

lemma job_count_nonneg [simp]: "0 \<le> job_count st q P"
  by (simp add: job_count_def)

lemma job_count_pos:
  assumes "map_of (st_jobs st) i = Some j" "map_of (st_jobToQueue st) i = Some q" "P j"
  shows "1 \<le> job_count st q P"
  unfolding job_count_def by (rule entry_count_pos [of _ i j]) (use assms in auto)

lemma job_count_insert:
  \<comment> \<open>storing a job under a new id\<close>
  assumes "storage_ok st" and "map_of (st_jobs st) i = None"
  shows "entry_count (\<lambda>(i', j). ((map_of (st_jobToQueue st))(i \<mapsto> q')) i' = Some q \<and> P j)
      (map_set i job (st_jobs st)) = job_count st q P + (if q' = q \<and> P job then 1 else 0)"
proof -
  have i: "i \<notin> set (map fst (st_jobs st))" using assms(2) by (simp add: map_of_eq_None_iff)
  have "entry_count (\<lambda>(i', j). ((map_of (st_jobToQueue st))(i \<mapsto> q')) i' = Some q \<and> P j) (st_jobs st)
      = job_count st q P"
    unfolding job_count_def by (rule entry_count_cong) (use i in force)
  then show ?thesis
    using i by (simp add: map_set_fresh)
qed

lemma job_count_overwrite:
  \<comment> \<open>storing a job under an id that the queue already has\<close>
  assumes "storage_ok st" and "map_of (st_jobs st) i = Some old"
    and "map_of (st_jobToQueue st) i = Some q'"
  shows "entry_count (\<lambda>(i', j). map_of (st_jobToQueue st) i' = Some q \<and> P j)
      (map_set i job (st_jobs st)) =
    job_count st q P + (if q' = q \<and> P job then 1 else 0) - (if q' = q \<and> P old then 1 else 0)"
  using assms unfolding storage_ok_iff job_count_def by (simp add: entry_count_set)

lemma job_count_remove:
  assumes "storage_ok st" and "map_of (st_jobs st) i = Some old"
  shows "entry_count (\<lambda>(i', j). ((map_of (st_jobToQueue st))(i := None)) i' = Some q \<and> P j)
      (map_delete i (st_jobs st)) =
    job_count st q P - (if map_of (st_jobToQueue st) i = Some q \<and> P old then 1 else 0)"
proof -
  have "entry_count (\<lambda>(i', j). ((map_of (st_jobToQueue st))(i := None)) i' = Some q \<and> P j)
      (map_delete i (st_jobs st)) =
    entry_count (\<lambda>(i', j). map_of (st_jobToQueue st) i' = Some q \<and> P j) (map_delete i (st_jobs st))"
    by (rule entry_count_cong) (auto simp: set_map_delete)
  then show ?thesis
    using assms unfolding storage_ok_iff job_count_def by (simp add: entry_count_delete)
qed

lemma st_getQueueStats_modify:
  "st_getQueueStats (modify_stats q f st) q' =
    (if q = Some q' \<and> map_of (st_stats st) q' \<noteq> None then f (st_getQueueStats st q')
     else st_getQueueStats st q')"
  by (auto simp: modify_stats_def st_getQueueStats_def split: option.split)

lemma new_storage_exact: "stats_exact new_storage"
  by (simp add: stats_exact_def counts_match_def new_storage_def job_count_def
      st_getQueueStats_def)

lemma st_enqueue_stats:
  assumes "storage_ok st"
  shows "st_getQueueStats (st_enqueue H now st q job) q' =
    (if q = q' then let s = st_getQueueStats st q
        in incrementStatusCount (s\<lparr>qs_total := qs_total s + 1\<rparr>) (job_status job)
     else st_getQueueStats st q')"
proof -
  have e: "st_getQueueStats (ensure_queue H st q) q' = st_getQueueStats st q'"
    using assms by simp
  show ?thesis
    by (rule st_enqueue_fields [OF assms, of H q now job])
      (use e in \<open>auto simp: st_getQueueStats_def Let_def\<close>)
qed

lemma st_enqueue_jobs:
  shows "st_jobs (st_enqueue H now st q job) = map_set (job_id job) job (st_jobs st)"
    and "st_jobToQueue (st_enqueue H now st q job) = map_set (job_id job) q (st_jobToQueue st)"
  by (simp_all add: st_enqueue_def Let_def)

lemma st_enqueue_exact:
  assumes "storage_ok st" and "stats_exact st" and "map_of (st_jobs st) (job_id job) = None"
  shows "stats_exact (st_enqueue H now st q job)"
proof -
  have "job_count (st_enqueue H now st q job) q' P =
      job_count st q' P + (if q = q' \<and> P job then 1 else 0)" for q' P
    using job_count_insert [OF assms(1,3)] by (simp add: job_count_def st_enqueue_jobs)
  then show ?thesis
    using assms by (auto simp: stats_exact_def counts_match_def st_enqueue_stats Let_def)
qed

lemma st_enqueue_again:
  \<comment> \<open>the retry path re-enqueues a job the storage already has\<close>
  assumes "storage_ok st" and "stats_exact st" and "q \<noteq> ''''"
    and "map_of (st_jobs st) (job_id job) = Some old"
    and "map_of (st_jobToQueue st) (job_id job) = Some q"
  shows "qs_total (st_getQueueStats (st_enqueue H now st q job) q) =
      job_count (st_enqueue H now st q job) q (\<lambda>_. True) + 1"
proof -
  have "map_set (job_id job) q (st_jobToQueue st) = st_jobToQueue st"
    using assms(5) by (rule update_triv)
  then have "job_count (st_enqueue H now st q job) q (\<lambda>_. True) = job_count st q (\<lambda>_. True)"
    using job_count_overwrite [OF assms(1,4,5), of q "\<lambda>_. True" job]
    by (simp add: job_count_def st_enqueue_jobs)
  then show ?thesis
    using assms by (simp add: st_enqueue_stats Let_def stats_exact_def counts_match_def)
qed

lemma queue_of_job_exact:
  assumes "storage_ok st" and "map_of (st_jobs st) i = Some j"
  obtains q where "map_of (st_jobToQueue st) i = Some q" and "map_of (st_stats st) q \<noteq> None"
    and "queue_of_job st i = (if q = '''' then None else Some q)"
proof (cases "map_of (st_jobToQueue st) i")
  case None
  then show thesis using assms unfolding storage_ok_iff by (metis option.distinct(1))
next
  case (Some q)
  then show thesis using assms that [of q] by (simp add: storage_ok_iff queue_of_job_def)
qed

lemma st_updateJob_job_count:
  assumes "storage_ok st" and "map_of (st_jobs st) i = Some j"
    and "map_of (st_jobToQueue st) i = Some q"
  shows "job_count (st_updateJob st i u) q' P =
    job_count st q' P + (if q = q' \<and> P (merge_job j u) then 1 else 0)
      - (if q = q' \<and> P j then 1 else 0)"
proof -
  have "st_jobs (st_updateJob st i u) = map_set i (merge_job j u) (st_jobs st)"
    and "st_jobToQueue (st_updateJob st i u) = st_jobToQueue st"
    using assms(2) by (auto simp: st_updateJob_def Let_def split: option.split)
  then show ?thesis
    using job_count_overwrite [OF assms, of q' P] by (simp add: job_count_def)
qed

lemma st_updateJob_exact:
  assumes "storage_ok st" and "stats_exact st"
  shows "stats_exact (st_updateJob st i u)"
proof (cases "map_of (st_jobs st) i")
  case None
  then show ?thesis using assms(2) by (simp add: st_updateJob_def)
next
  case (Some j)
  obtain q where q: "map_of (st_jobToQueue st) i = Some q" "map_of (st_stats st) q \<noteq> None"
      "queue_of_job st i = (if q = '''' then None else Some q)"
    using queue_of_job_exact [OF assms(1) Some] .
  have old: "job_status j = s \<Longrightarrow> 1 \<le> job_count st q (\<lambda>j. job_status j = s)" for s
    using job_count_pos [OF Some q(1)] by simp
  have stats: "st_getQueueStats (st_updateJob st i u) q' =
      (case upd_status u of None \<Rightarrow> st_getQueueStats st q'
       | Some new \<Rightarrow> if q = q' \<and> q \<noteq> '''' \<and> new \<noteq> job_status j
           then incrementStatusCount (decrementStatusCount (st_getQueueStats st q') (job_status j)) new
           else st_getQueueStats st q')" for q'
    using Some q(2,3) by (auto simp: st_updateJob_def Let_def st_getQueueStats_modify
        st_getQueueStats_def [of "st_jobs_update _ _"] st_getQueueStats_def [of st] split: option.split)
  have new: "job_status (merge_job j u) = upd (upd_status u) (job_status j)"
    by (simp add: merge_job_def)
  show ?thesis
    using assms(2) old unfolding stats_exact_def counts_match_def
    by (auto simp: stats st_updateJob_job_count [OF assms(1) Some q(1)] new split: option.split)
qed

lemma st_removeJob_exact:
  assumes "storage_ok st" and "stats_exact st"
  shows "stats_exact (snd (st_removeJob st i))"
proof (cases "map_of (st_jobs st) i")
  case None
  then show ?thesis using assms(2) by (simp add: st_removeJob_def)
next
  case (Some j)
  obtain q where q: "map_of (st_jobToQueue st) i = Some q" "map_of (st_stats st) q \<noteq> None"
      "queue_of_job st i = (if q = '''' then None else Some q)"
    using queue_of_job_exact [OF assms(1) Some] .
  have old: "job_status j = s \<Longrightarrow> 1 \<le> job_count st q (\<lambda>j. job_status j = s)" for s
    using job_count_pos [OF Some q(1)] by simp
  have count: "job_count (snd (st_removeJob st i)) q' P =
      job_count st q' P - (if q = q' \<and> P j then 1 else 0)" for q' P
    using job_count_remove [OF assms(1) Some, of q' P] Some q(1)
    by (simp add: job_count_def st_removeJob_def Let_def)
  have stats: "st_getQueueStats (snd (st_removeJob st i)) q' =
      (if q = q' \<and> q \<noteq> '''' then decrementStatusCount ((st_getQueueStats st q')
         \<lparr>qs_total := qs_total (st_getQueueStats st q') - 1\<rparr>) (job_status j)
       else st_getQueueStats st q')" for q'
    using Some q(2,3) by (auto simp: st_removeJob_def Let_def st_getQueueStats_modify
        st_getQueueStats_def [of "st_jobs_update _ _"] st_getQueueStats_def [of "st_jobToQueue_update _ _"]
        st_getQueueStats_def [of st])
  show ?thesis
    using assms(2) old unfolding stats_exact_def counts_match_def by (auto simp: stats count)
qed

lemma st_dequeue_frame:
  "st_jobs (snd (st_dequeue H st q)) = st_jobs st"
  "st_jobToQueue (snd (st_dequeue H st q)) = st_jobToQueue st"
  "st_stats (snd (st_dequeue H st q)) = st_stats st"
  by (auto simp: st_dequeue_def split: option.split prod.split)

lemma st_dequeue_exact: "stats_exact st \<Longrightarrow> stats_exact (snd (st_dequeue H st q))"
  by (simp add: stats_exact_def job_count_def st_getQueueStats_def st_dequeue_frame)

section \<open>Listing\<close>

lemma set_queue_jobs:
  assumes "storage_ok st"
  shows "j \<in> set (queue_jobs st q) \<longleftrightarrow> st_getJob st (job_id j) (Some q) = Some j"
proof
  assume "j \<in> set (queue_jobs st q)"
  then obtain i where i: "(i, q) \<in> set (st_jobToQueue st)" "map_of (st_jobs st) i = Some j"
    by (auto simp: queue_jobs_def List.map_filter_def split: if_splits)
  with assms have "map_of (st_jobToQueue st) i = Some q" "job_id j = i"
    by (auto simp: storage_ok_iff map_of_eq_Some_iff)
  with i(2) show "st_getJob st (job_id j) (Some q) = Some j"
    by (simp add: st_getJob_def)
next
  assume "st_getJob st (job_id j) (Some q) = Some j"
  then have "map_of (st_jobs st) (job_id j) = Some j" "(job_id j, q) \<in> set (st_jobToQueue st)"
    by (auto simp: st_getJob_def map_of_SomeD split: option.splits if_splits)
  then show "j \<in> set (queue_jobs st q)"
    by (force simp: queue_jobs_def List.map_filter_def)
qed

definition matches_filters :: "job_filters \<Rightarrow> 'v job \<Rightarrow> bool" where
  "matches_filters f j \<longleftrightarrow>
     (case flt_status f of None \<Rightarrow> True | Some ss \<Rightarrow> job_status j \<in> set ss) \<and>
     (case flt_jobType f of None \<Rightarrow> True | Some t \<Rightarrow> job_type j = t)"

lemma filter_jobs_eq: "filter_jobs f js = filter (matches_filters f) js"
  by (cases "flt_status f"; cases "flt_jobType f")
    (auto simp: filter_jobs_def matches_filters_def intro: filter_cong)

lemma mset_sort_jobs [simp]: "mset (sort_jobs by ord js) = mset js"
  by (cases ord) (simp_all add: sort_jobs_def)

lemma set_sort_jobs [simp]: "set (sort_jobs by ord js) = set js"
  using mset_sort_jobs mset_eq_setD by blast

definition in_order :: "sort_by \<Rightarrow> sort_order \<Rightarrow> 'v job \<Rightarrow> 'v job \<Rightarrow> bool" where
  "in_order by ord a b \<longleftrightarrow>
     (case ord of Asc \<Rightarrow> sort_value by a \<le> sort_value by b
                | Desc \<Rightarrow> sort_value by b \<le> sort_value by a)"

lemma sorted_sort_jobs: "sorted_wrt (in_order by ord) (sort_jobs by ord js)"
proof (cases ord)
  case Asc
  have "sorted (map (sort_value by) (sort_key (sort_value by) js))" by simp
  then show ?thesis using Asc by (simp add: sort_jobs_def in_order_def [abs_def] sorted_map)
next
  case Desc
  have "sorted (map (\<lambda>j. - sort_value by j) (sort_key (\<lambda>j. - sort_value by j) js))" by simp
  then show ?thesis using Desc by (simp add: sort_jobs_def in_order_def [abs_def] sorted_map)
qed

lemma st_listJobs_sound:
  assumes "storage_ok st" and "j \<in> set (st_listJobs st q f)"
  shows "st_getJob st (job_id j) (Some q) = Some j \<and> matches_filters f j"
proof -
  have "j \<in> set (filter_jobs f (queue_jobs st q))"
    using assms(2) set_js_slice unfolding st_listJobs_def Let_def by fastforce
  then show ?thesis using set_queue_jobs [OF assms(1)] by (auto simp: filter_jobs_eq)
qed

lemma st_listJobs_complete:
  \<comment> \<open>a page that starts at 0 and is long enough holds every matching job\<close>
  assumes "storage_ok st" and "st_getJob st (job_id j) (Some q) = Some j" and "matches_filters f j"
    and "flt_offset f = None" and "int (length (queue_jobs st q)) \<le> upd (flt_limit f) 50"
  shows "j \<in> set (st_listJobs st q f)"
proof -
  let ?xs = "sort_jobs (upd (flt_sortBy f) ByQueuedAt) (upd (flt_sortOrder f) Desc)
    (filter_jobs f (queue_jobs st q))"
  have len: "length ?xs \<le> length (queue_jobs st q)"
    by (metis filter_jobs_eq length_filter_le mset_sort_jobs size_mset)
  then have "js_slice 0 (0 + upd (flt_limit f) 50) ?xs = ?xs"
    using assms(5) by (subst js_slice_nonneg) auto
  then show ?thesis
    using assms set_queue_jobs [OF assms(1), of j q]
    by (simp add: st_listJobs_def filter_jobs_eq)
qed

section \<open>The contract of a storage adapter\<close>

text \<open>
  \<open>QueueStorageAdapter\<close> of \<open>types.ts\<close> is the interface between \<open>QueueInstance\<close> and its
  storage: a record of the operations, and the locale \<open>queue_storage\<close> with the laws the
  queue relies on. \<open>InMemoryStorage\<close> provides it for every heap.
\<close>

record ('s, 'v) storage_ops =
  so_enqueue :: "int \<Rightarrow> 's \<Rightarrow> string \<Rightarrow> 'v job \<Rightarrow> 's"
  so_dequeue :: "'s \<Rightarrow> string \<Rightarrow> 'v job option \<times> 's"
  so_peek :: "'s \<Rightarrow> string \<Rightarrow> 'v job option"
  so_getJob :: "'s \<Rightarrow> string \<Rightarrow> string option \<Rightarrow> 'v job option"
  so_listJobs :: "'s \<Rightarrow> string \<Rightarrow> job_filters \<Rightarrow> 'v job list"
  so_updateJob :: "'s \<Rightarrow> string \<Rightarrow> 'v job_updates \<Rightarrow> 's"
  so_removeJob :: "'s \<Rightarrow> string \<Rightarrow> bool \<times> 's"
  so_getQueueStats :: "'s \<Rightarrow> string \<Rightarrow> queue_stats"

locale queue_storage =
  fixes S :: "('s, 'v) storage_ops" and ok :: "'s \<Rightarrow> bool"
  assumes enqueue_keeps: "ok s \<Longrightarrow> ok (so_enqueue S now s q j)"
    and dequeue_keeps: "ok s \<Longrightarrow> ok (snd (so_dequeue S s q))"
    and update_keeps: "ok s \<Longrightarrow> upd_id u = None \<Longrightarrow> ok (so_updateJob S s i u)"
    and get_enqueue: "ok s \<Longrightarrow> so_getJob S (so_enqueue S now s q j) i (Some q') =
      (if i = job_id j then if q = q' then Some j else None else so_getJob S s i (Some q'))"
    and get_dequeue: "ok s \<Longrightarrow> so_getJob S (snd (so_dequeue S s q)) i oq = so_getJob S s i oq"
    and get_update: "ok s \<Longrightarrow> so_getJob S (so_updateJob S s k u) i oq =
      (if i = k then map_option (\<lambda>j. merge_job j u) (so_getJob S s i oq) else so_getJob S s i oq)"
    and get_id: "ok s \<Longrightarrow> so_getJob S s i oq = Some j \<Longrightarrow> job_id j = i"

definition mem_ops :: "('h, 'v job) heap_ops \<Rightarrow> (('h, 'v) storage, 'v) storage_ops" where
  "mem_ops H = \<lparr>so_enqueue = st_enqueue H, so_dequeue = st_dequeue H, so_peek = st_peek H,
     so_getJob = st_getJob, so_listJobs = st_listJobs, so_updateJob = st_updateJob,
     so_removeJob = st_removeJob, so_getQueueStats = st_getQueueStats\<rparr>"

lemma st_updateJob_maps:
  "map_of (st_jobs (st_updateJob st k u)) i =
     (if i = k then map_option (\<lambda>j. merge_job j u) (map_of (st_jobs st) i)
      else map_of (st_jobs st) i)"
  "st_jobToQueue (st_updateJob st k u) = st_jobToQueue st"
  by (auto simp: st_updateJob_def Let_def split: option.split)

interpretation mem: queue_storage "mem_ops H" storage_ok for H
proof unfold_locales
  fix s :: "('a, 'b) storage" and k i q u
  show "so_getJob (mem_ops H) (so_updateJob (mem_ops H) s k u) i q =
      (if i = k then map_option (\<lambda>j. merge_job j u) (so_getJob (mem_ops H) s i q)
       else so_getJob (mem_ops H) s i q)"
    by (auto simp: mem_ops_def st_getJob_def st_updateJob_maps split: option.splits)
qed (auto simp: mem_ops_def st_enqueue_ok st_dequeue_ok st_updateJob_ok st_getJob_def
    st_enqueue_jobs st_dequeue_frame split: option.splits if_splits dest: storage_ok_job_id)

section \<open>The storage as a state machine\<close>

inductive storage_step ::
  "('h, 'v job) heap_ops \<Rightarrow> ('h, 'v) storage \<Rightarrow> ('h, 'v) storage \<Rightarrow> bool"
  for H :: "('h, 'v job) heap_ops" where
  enqueue_new: "map_get (st_jobs st) (job_id job) = None \<Longrightarrow>
     storage_step H st (st_enqueue H now st q job)"
| dequeue: "storage_step H st (snd (st_dequeue H st q))"
| update: "upd_id u = None \<Longrightarrow> storage_step H st (st_updateJob st i u)"
| remove: "storage_step H st (snd (st_removeJob st i))"

interpretation storage_machine: inductive_invariant "\<lambda>st. st = new_storage" "storage_step H"
  "\<lambda>st. storage_ok st \<and> stats_exact st" for H
proof unfold_locales
  fix st st' :: "('a, 'b) storage"
  assume "storage_step H st st'" and "storage_ok st \<and> stats_exact st"
  then show "storage_ok st' \<and> stats_exact st'"
    by (cases rule: storage_step.cases)
      (auto intro: st_enqueue_ok st_enqueue_exact st_dequeue_ok st_dequeue_exact st_updateJob_ok
        st_updateJob_exact st_removeJob_ok st_removeJob_exact)
qed (simp add: new_storage_ok new_storage_exact)

section \<open>Properties\<close>

definition sample_job :: "string \<Rightarrow> int \<Rightarrow> int \<Rightarrow> nat job" where
  "sample_job i prio t = \<lparr>job_id = i, job_type = ''email:send'', job_queueName = ''emails'',
     job_data = 0, job_status = Queued, job_priority = prio, job_progress = 0,
     job_progressMessage = None, job_queuedAt = t, job_startedAt = None, job_completedAt = None,
     job_result = None, job_error = None, job_retries = 0, job_maxRetries = 3,
     job_timeout = 30000, job_metadata = []\<rparr>"

text \<open>C23: Statistics of the in-memory storage. After any sequence of enqueues of new jobs,
  dequeues, updates and removals, the incremental statistics of every (named) queue are
  exactly the number of its jobs, in total and per status.\<close>

theorem storage_statistics_exact:
  assumes "reachable (\<lambda>st. st = new_storage) (storage_step H) st" and "q \<noteq> ''''"
  shows "qs_total (st_getQueueStats st q) = job_count st q (\<lambda>_. True) \<and>
    (\<forall>s. stat_of (st_getQueueStats st q) s = job_count st q (\<lambda>j. job_status j = s))"
  using storage_machine.reachable_inv [OF assms(1)] assms(2)
  by (auto simp: stats_exact_def counts_match_def)

theorem storage_statistics_exact_witness:
  "qs_total (st_getQueueStats (st_enqueue list_heap 7 new_storage ''emails''
     (sample_job ''a'' 5 7)) ''emails'') = 1"
proof -
  let ?st = "st_enqueue list_heap 7 new_storage ''emails'' (sample_job ''a'' 5 7)"
  have "storage_step list_heap new_storage ?st"
    by (rule storage_step.enqueue_new) (simp add: new_storage_def)
  then have "reachable (\<lambda>st. st = new_storage) (storage_step list_heap) ?st"
    by (auto intro: reachable.intros)
  then have "qs_total (st_getQueueStats ?st ''emails'') = job_count ?st ''emails'' (\<lambda>_. True)"
    using storage_statistics_exact [of list_heap ?st "''emails''"] by simp
  also have "\<dots> = 1"
    by (simp add: job_count_def st_enqueue_jobs new_storage_def sample_job_def)
  finally show ?thesis .
qed

text \<open>Re-enqueueing a job the storage already holds (what the retry timer of the queue
  does) counts it twice: the total of the queue is then one more than the number of its
  jobs.\<close>

theorem reenqueue_overcounts:
  assumes "storage_ok st" and "stats_exact st" and "q \<noteq> ''''"
    and "st_getJob st (job_id job) (Some q) = Some old"
  shows "qs_total (st_getQueueStats (st_enqueue H now st q job) q) =
      job_count (st_enqueue H now st q job) q (\<lambda>_. True) + 1"
  using assms by (intro st_enqueue_again) (auto simp: st_getJob_def split: option.splits if_splits)

theorem reenqueue_overcounts_witness:
  "let st = st_enqueue list_heap 7 new_storage ''emails'' (sample_job ''a'' 5 7);
       st' = st_enqueue list_heap 9 st ''emails'' (sample_job ''a'' 5 7)
   in qs_total (st_getQueueStats st' ''emails'') = job_count st' ''emails'' (\<lambda>_. True) + 1 \<and>
      job_count st' ''emails'' (\<lambda>_. True) = 1"
proof -
  let ?st = "st_enqueue list_heap 7 new_storage ''emails'' (sample_job ''a'' 5 7)"
  let ?st' = "st_enqueue list_heap 9 ?st ''emails'' (sample_job ''a'' 5 7)"
  have ok: "storage_ok ?st" "stats_exact ?st"
    by (simp_all add: st_enqueue_ok st_enqueue_exact new_storage_ok new_storage_exact)
  have get: "st_getJob ?st (job_id (sample_job ''a'' 5 7)) (Some ''emails'') = Some (sample_job ''a'' 5 7)"
    by (simp add: st_getJob_def st_enqueue_jobs)
  have "job_count ?st' ''emails'' (\<lambda>_. True) = 1"
    by (simp add: job_count_def st_enqueue_jobs new_storage_def sample_job_def)
  then show ?thesis
    using reenqueue_overcounts [OF ok _ get, of list_heap 9] unfolding Let_def by simp
qed

text \<open>Listing. Every job \<open>listJobs\<close> returns is stored in the queue and matches the
  filters; the page is in the requested order and no longer than the limit.\<close>

theorem listJobs_correct:
  assumes "storage_ok st" and "0 \<le> upd (flt_offset f) 0" and "0 \<le> upd (flt_limit f) 50"
  shows "(\<forall>j \<in> set (st_listJobs st q f).
      st_getJob st (job_id j) (Some q) = Some j \<and> matches_filters f j) \<and>
    sorted_wrt (in_order (upd (flt_sortBy f) ByQueuedAt) (upd (flt_sortOrder f) Desc))
      (st_listJobs st q f) \<and>
    int (length (st_listJobs st q f)) \<le> upd (flt_limit f) 50"
  using assms st_listJobs_sound [OF assms(1)]
  by (auto simp: st_listJobs_def Let_def sorted_js_slice sorted_sort_jobs length_js_slice_le)

theorem listJobs_correct_witness:
  "let st = st_enqueue list_heap 8 (st_enqueue list_heap 7 new_storage ''emails''
              (sample_job ''a'' 5 7)) ''emails'' (sample_job ''b'' 5 8)
   in sorted_wrt (in_order ByQueuedAt Desc) (st_listJobs st ''emails'' no_filters) \<and>
      int (length (st_listJobs st ''emails'' no_filters)) \<le> 50"
proof -
  let ?st = "st_enqueue list_heap 8 (st_enqueue list_heap 7 new_storage ''emails''
              (sample_job ''a'' 5 7)) ''emails'' (sample_job ''b'' 5 8)"
  have "storage_ok ?st" by (intro st_enqueue_ok new_storage_ok)
  then show ?thesis
    using listJobs_correct [of ?st no_filters "''emails''"] by (simp add: no_filters_def Let_def)
qed

text \<open>C25: Scheduling order. Over any heap that keeps the \<open>MaxPriorityQueue\<close> contract, a
  dequeue from a non-empty queue succeeds; it returns a job of the highest priority waiting
  in that queue and, among those of that priority, one that was enqueued first; exactly that
  entry leaves the heap. (The enqueue times have to lie within 10^12 ms of each other, the
  weight that the score gives to one step of priority.)\<close>

theorem dequeue_highest_priority_first:
  assumes "max_heap H ok bag" and "map_get (st_queues st) q = Some h" and "ok h"
    and "bag h \<noteq> {#}"
    and "\<And>i j. i \<in># bag h \<Longrightarrow> j \<in># bag h \<Longrightarrow>
      item_enqueuedAt i - item_enqueuedAt j < PRIORITY_MULTIPLIER"
  shows "\<exists>i h'. i \<in># bag h \<and> st_dequeue H st q =
      (Some (item_data i), st\<lparr>st_queues := map_set q h' (st_queues st)\<rparr>) \<and>
    ok h' \<and> bag h' = bag h - {#i#} \<and>
    (\<forall>j \<in># bag h. item_priority j \<le> item_priority i \<and>
       (item_priority j = item_priority i \<longrightarrow> item_enqueuedAt i \<le> item_enqueuedAt j))"
proof -
  obtain x h' where d: "pq_dequeue H h = (Some x, h')" "ok h'"
    using max_heap.pq_dequeue_Some [OF assms(1,3,4)] by metis
  have ne: "\<not> pq_isEmpty H h"
    using assms(3,4) max_heap.isEmpty_bag [OF assms(1)] by (simp add: pq_isEmpty_def)
  obtain i where "i \<in># bag h" "item_data i = x" "bag h' = bag h - {#i#}"
      "\<forall>j \<in># bag h. item_priority j \<le> item_priority i \<and>
         (item_priority j = item_priority i \<longrightarrow> item_enqueuedAt i \<le> item_enqueuedAt j)"
    using max_heap.pq_dequeue_highest_priority [OF assms(1,3) d(1) assms(5)] by blast
  then show ?thesis
    using d ne assms(2) by (auto simp: st_dequeue_def)
qed

theorem dequeue_highest_priority_first_witness:
  "fst (st_dequeue list_heap (st_enqueue list_heap 8 (st_enqueue list_heap 7 new_storage ''emails''
      (sample_job ''a'' 5 7)) ''emails'' (sample_job ''b'' 9 8)) ''emails'') = Some (sample_job ''b'' 9 8)"
proof -
  let ?a = "sample_job ''a'' 5 7" and ?b = "sample_job ''b'' 9 8"
  let ?st = "st_enqueue list_heap 8 (st_enqueue list_heap 7 new_storage ''emails'' ?a) ''emails'' ?b"
  let ?ia = "\<lparr>item_priority = 5, item_data = ?a, item_enqueuedAt = 7\<rparr>"
  let ?ib = "\<lparr>item_priority = 9, item_data = ?b, item_enqueuedAt = 8\<rparr>"
  let ?h = "(item_score, [?ia, ?ib])"
  have h: "map_get (st_queues ?st) ''emails'' = Some ?h"
    by (simp add: st_enqueue_def ensure_queue_def Let_def map_has_def pq_enqueue_def
        createPriorityQueue_def list_heap_def sample_job_def)
  have skew: "item_enqueuedAt i - item_enqueuedAt j < PRIORITY_MULTIPLIER"
    if "i \<in># mset (snd ?h)" "j \<in># mset (snd ?h)" for i j
    using that by (auto simp: PRIORITY_MULTIPLIER_def)
  show ?thesis
    using dequeue_highest_priority_first [where ok = "\<lambda>h. fst h = item_score" and
        bag = "\<lambda>h. mset (snd h)", OF lh.max_heap_axioms h _ _ skew]
    by auto
qed

text \<open>The FIFO guarantee needs different timestamps. Two jobs of one priority that are
  enqueued in the same millisecond may leave in the reverse order: the contract of the heap
  allows it.\<close>

theorem fifo_not_guaranteed_for_ties:
  "max_heap lifo_heap (\<lambda>h. fst h = item_score) (\<lambda>h. mset (snd h)) \<and>
   fst (pq_dequeue lifo_heap (pq_enqueue lifo_heap 7 (pq_enqueue lifo_heap 7
      (createPriorityQueue lifo_heap) (1::nat) 5) 2 5)) = Some 2"
proof
  show "max_heap lifo_heap (\<lambda>h. fst h = item_score) (\<lambda>h. mset (snd h))"
    by (rule lifo.max_heap_axioms)
qed (simp add: pq_dequeue_def pq_enqueue_def createPriorityQueue_def lifo_heap_def list_heap_def
    item_score_def)

end
