(* ===== verification/Queue_Instance.thy ===== *)
theory Queue_Instance
  imports Queue_Storage
begin

text \<open>
  \<open>plugins/queue/src/queue-instance.ts\<close>: one named queue with its processing loop, retry
  timers and cancellation.

  The state \<open>qinst\<close> has the fields of the class, the storage behind its adapter interface
  (\<open>storage_ops\<close>), the log of emitted and published events, the processing loops that are
  running and the executions whose handler has been called and not settled. A method is a
  function on this state; \<open>Date.now()\<close>, \<open>randomUUID()\<close> and \<open>Math.random()\<close> are arguments.
  The storage calls of one method run in sequence; between methods, and between the two
  halves of an iteration of the loop and of an execution (before and after the handler),
  any other step may happen: that is the relation \<open>q_step\<close>.

  User code (handlers) and Zod schemas are not part of the program: a registration carries
  the two parse functions, and what a handler does is the choice of the step that settles
  its execution.
\<close>

section \<open>State\<close>

datatype 'v schema_result = Parsed 'v | Issues "(string list \<times> string) list"

record 'v registration =
  reg_inputSchema :: "'v \<Rightarrow> 'v schema_result"
  reg_outputSchema :: "'v \<Rightarrow> 'v schema_result"

datatype 'v queue_event =
    EvQueued "'v job"
  | EvStarted "'v job"
  | EvProgress string rat "string option"
  | EvCompleted "'v job" 'v
  | EvFailed "'v job" job_error
  | EvCancelled "'v job" "string option"
  | EvRetry "'v job" int

record base_event =
  be_jobId :: string
  be_jobType :: string
  be_queueName :: string
  be_timestamp :: int
  be_serverId :: string

datatype 'v bus_event =
    BusEnqueued base_event int
  | BusStarted base_event
  | BusProgress string rat "string option"
  | BusCompleted base_event "'v option"
  | BusFailed base_event string bool
  | BusCancelled string string "string option"

datatype change_state = ChEnqueued | ChStarted | ChProgress | ChCompleted | ChFailed | ChCancelled

record 'v state_change =
  ch_jobId :: string
  ch_jobType :: string
  ch_state :: change_state
  ch_progress :: "rat option"
  ch_message :: "string option"
  ch_result :: "'v option"
  ch_error :: "(string \<times> string option) option"
  ch_reason :: "string option"
  ch_priority :: "int option"

datatype 'v loop_pc = Polling | Dequeued "'v job option"

record retry_timer =
  rt_attempt :: int
  rt_fires :: int

record ('s, 'v) qinst =
  qi_name :: string
  qi_concurrency :: int
  qi_defaultTimeout :: int
  qi_defaultMaxRetries :: int
  qi_serverId :: "string option"
  qi_handlerRegistry :: "(string, 'v registration) js_map"
  qi_storage :: 's
  qi_runningJobs :: "string list"
  qi_abortControllers :: "(string, string option) js_map"
  qi_pendingRetryTimers :: "(string, retry_timer) js_map"
  qi_isRunning :: bool
  qi_isShuttingDown :: bool
  qi_emitted :: "'v queue_event list"
  qi_published :: "'v bus_event list"
  qi_loops :: "'v loop_pc list"
  qi_inflight :: "'v job list"

record queue_config =
  qc_name :: string
  qc_concurrency :: "int option"
  qc_defaultTimeout :: "int option"
  qc_defaultMaxRetries :: "int option"

record 'v job_options =
  jo_priority :: "int option"
  jo_maxRetries :: "int option"
  jo_timeout :: "int option"
  jo_metadata :: "(string, 'v) js_map option"

record stop_options =
  so_graceful :: "bool option"
  so_timeout :: "int option"

definition DEFAULT_CONCURRENCY :: int where "DEFAULT_CONCURRENCY = 10"
definition DEFAULT_TIMEOUT :: int where "DEFAULT_TIMEOUT = 30000"
definition DEFAULT_MAX_RETRIES :: int where "DEFAULT_MAX_RETRIES = 3"
definition DEFAULT_PRIORITY :: int where "DEFAULT_PRIORITY = 5"
definition DEFAULT_BASE_DELAY_MS :: rat where "DEFAULT_BASE_DELAY_MS = 1000"
definition DEFAULT_MAX_DELAY_MS :: rat where "DEFAULT_MAX_DELAY_MS = 30000"
definition DEFAULT_BACKOFF_MULTIPLIER :: rat where "DEFAULT_BACKOFF_MULTIPLIER = 2"

definition new_queue_instance ::
  "queue_config \<Rightarrow> 's \<Rightarrow> (string, 'v registration) js_map \<Rightarrow> string option \<Rightarrow> ('s, 'v) qinst" where
  "new_queue_instance config storage registry serverId = \<lparr>
     qi_name = qc_name config,
     qi_concurrency = upd (qc_concurrency config) DEFAULT_CONCURRENCY,
     qi_defaultTimeout = upd (qc_defaultTimeout config) DEFAULT_TIMEOUT,
     qi_defaultMaxRetries = upd (qc_defaultMaxRetries config) DEFAULT_MAX_RETRIES,
     qi_serverId = serverId,
     qi_handlerRegistry = registry,
     qi_storage = storage,
     qi_runningJobs = [],
     qi_abortControllers = [],
     qi_pendingRetryTimers = [],
     qi_isRunning = False,
     qi_isShuttingDown = False,
     qi_emitted = [],
     qi_published = [],
     qi_loops = [],
     qi_inflight = []\<rparr>"

section \<open>Events\<close>

definition emit :: "'v queue_event \<Rightarrow> ('s, 'v) qinst \<Rightarrow> ('s, 'v) qinst" where
  "emit e q = q\<lparr>qi_emitted := qi_emitted q @ [e]\<rparr>"

definition no_change :: "string \<Rightarrow> string \<Rightarrow> change_state \<Rightarrow> 'v state_change" where
  "no_change jobId jobType st = \<lparr>ch_jobId = jobId, ch_jobType = jobType, ch_state = st,
     ch_progress = None, ch_message = None, ch_result = None, ch_error = None,
     ch_reason = None, ch_priority = None\<rparr>"

definition bus_event_of :: "int \<Rightarrow> ('s, 'v) qinst \<Rightarrow> 'v state_change \<Rightarrow> 'v bus_event" where
  \<comment> \<open>\<open>this.serverId || 'unknown'\<close>: the empty id is falsy\<close>
  "bus_event_of now q d =
     (let base = \<lparr>be_jobId = ch_jobId d, be_jobType = ch_jobType d, be_queueName = qi_name q,
                  be_timestamp = now,
                  be_serverId = (case qi_serverId q of None \<Rightarrow> ''unknown''
                    | Some s \<Rightarrow> if s = '''' then ''unknown'' else s)\<rparr>
      in (case ch_state d of
            ChEnqueued \<Rightarrow> BusEnqueued base (upd (ch_priority d) 5)
          | ChStarted \<Rightarrow> BusStarted base
          | ChProgress \<Rightarrow> BusProgress (ch_jobId d) (upd (ch_progress d) 0) (ch_message d)
          | ChCompleted \<Rightarrow> BusCompleted base (ch_result d)
          | ChFailed \<Rightarrow> BusFailed base
              (case ch_error d of None \<Rightarrow> ''Unknown error'' | Some (m, _) \<Rightarrow> m) False
          | ChCancelled \<Rightarrow> BusCancelled (ch_jobId d) (qi_name q) (ch_reason d)))"

definition publishStateChange ::
  "int \<Rightarrow> 'v state_change \<Rightarrow> ('s, 'v) qinst \<Rightarrow> ('s, 'v) qinst" where
  \<comment> \<open>an error of the bus is caught and logged, so a publication never fails the caller\<close>
  "publishStateChange now d q = q\<lparr>qi_published := qi_published q @ [bus_event_of now q d]\<rparr>"

section \<open>Submission and life cycle\<close>

definition make_job ::
  "int \<Rightarrow> string \<Rightarrow> ('s, 'v) qinst \<Rightarrow> string \<Rightarrow> 'v \<Rightarrow> 'v job_options \<Rightarrow> 'v job" where
  "make_job now uuid q jobType d options = \<lparr>
     job_id = uuid, job_type = jobType, job_queueName = qi_name q, job_data = d,
     job_status = Queued, job_priority = upd (jo_priority options) DEFAULT_PRIORITY,
     job_progress = 0, job_progressMessage = None, job_queuedAt = now, job_startedAt = None,
     job_completedAt = None, job_result = None, job_error = None, job_retries = 0,
     job_maxRetries = upd (jo_maxRetries options) (qi_defaultMaxRetries q),
     job_timeout = upd (jo_timeout options) (qi_defaultTimeout q),
     job_metadata = upd (jo_metadata options) []\<rparr>"

definition qi_add ::
  "('s, 'v) storage_ops \<Rightarrow> int \<Rightarrow> string \<Rightarrow> string \<Rightarrow> 'v \<Rightarrow> 'v job_options \<Rightarrow>
     ('s, 'v) qinst \<Rightarrow> string \<times> ('s, 'v) qinst" where
  "qi_add S now uuid jobType d options q =
     (let job = make_job now uuid q jobType d options;
          q1 = q\<lparr>qi_storage := so_enqueue S now (qi_storage q) (qi_name q) job\<rparr>;
          q2 = publishStateChange now
                 ((no_change (job_id job) (job_type job) ChEnqueued)
                    \<lparr>ch_priority := Some (job_priority job)\<rparr>) q1
      in (uuid, emit (EvQueued job) q2))"

definition qi_start :: "('s, 'v) qinst \<Rightarrow> ('s, 'v) qinst" where
  \<comment> \<open>\<open>this.processJobs()\<close> is not awaited: a new loop runs beside its caller\<close>
  "qi_start q =
     (if qi_isRunning q then q
      else q\<lparr>qi_isRunning := True, qi_isShuttingDown := False, qi_loops := qi_loops q @ [Polling]\<rparr>)"

definition qi_getJob :: "('s, 'v) storage_ops \<Rightarrow> ('s, 'v) qinst \<Rightarrow> string \<Rightarrow> 'v job option" where
  "qi_getJob S q jobId = so_getJob S (qi_storage q) jobId (Some (qi_name q))"

definition qi_listJobs ::
  "('s, 'v) storage_ops \<Rightarrow> ('s, 'v) qinst \<Rightarrow> job_status option \<Rightarrow> int option \<Rightarrow> 'v job list" where
  "qi_listJobs S q status limit =
     so_listJobs S (qi_storage q) (qi_name q)
       (no_filters\<lparr>flt_status := map_option (\<lambda>s. [s]) status, flt_limit := limit\<rparr>)"

definition qi_getStats :: "('s, 'v) storage_ops \<Rightarrow> ('s, 'v) qinst \<Rightarrow> queue_stats" where
  "qi_getStats S q = so_getQueueStats S (qi_storage q) (qi_name q)"

definition update_job ::
  "('s, 'v) storage_ops \<Rightarrow> string \<Rightarrow> 'v job_updates \<Rightarrow> ('s, 'v) qinst \<Rightarrow> ('s, 'v) qinst" where
  "update_job S jobId u q = q\<lparr>qi_storage := so_updateJob S (qi_storage q) jobId u\<rparr>"

definition cancelJob ::
  "('s, 'v) storage_ops \<Rightarrow> int \<Rightarrow> string \<Rightarrow> string option \<Rightarrow> ('s, 'v) qinst \<Rightarrow>
     bool \<times> ('s, 'v) qinst" where
  "cancelJob S now jobId reason q =
     (case qi_getJob S q jobId of
        None \<Rightarrow> (False, q)
      | Some job \<Rightarrow>
          let q1 = (case map_get (qi_abortControllers q) jobId of
                      None \<Rightarrow> q
                    | Some aborted \<Rightarrow>
                        q\<lparr>qi_abortControllers := map_set jobId
                            (Some (case aborted of Some r \<Rightarrow> r | None \<Rightarrow> upd reason ''Job cancelled''))
                            (qi_abortControllers q)\<rparr>);
              q2 = update_job S jobId
                     (no_updates\<lparr>upd_status := Some Cancelled, upd_completedAt := Some (Some now)\<rparr>) q1
          in (True,
              case qi_getJob S q2 jobId of
                None \<Rightarrow> q2
              | Some updatedJob \<Rightarrow>
                  publishStateChange now
                    ((no_change (job_id updatedJob) (job_type updatedJob) ChCancelled)
                       \<lparr>ch_reason := reason\<rparr>)
                    (emit (EvCancelled updatedJob reason) q2)))"

definition cancel_all ::
  "('s, 'v) storage_ops \<Rightarrow> int \<Rightarrow> string list \<Rightarrow> ('s, 'v) qinst \<Rightarrow> ('s, 'v) qinst" where
  "cancel_all S now ids q =
     fold (\<lambda>jobId q. snd (cancelJob S now jobId (Some ''Queue shutdown (forced)'') q)) ids q"

definition qi_stop ::
  "('s, 'v) storage_ops \<Rightarrow> int \<Rightarrow> stop_options \<Rightarrow> ('s, 'v) qinst \<Rightarrow> ('s, 'v) qinst" where
  \<comment> \<open>the part of \<open>stop\<close> that changes state; the graceful branch then only waits until
      \<open>runningJobs\<close> is empty or the timeout has passed\<close>
  "qi_stop S now options q =
     (if qi_isShuttingDown q then q
      else
        let graceful = upd (so_graceful options) True;
            q1 = q\<lparr>qi_isShuttingDown := True, qi_isRunning := False, qi_pendingRetryTimers := []\<rparr>
        in if graceful then q1 else cancel_all S now (qi_runningJobs q1) q1)"

definition graceful_wait_over :: "('s, 'v) qinst \<Rightarrow> int \<Rightarrow> int \<Rightarrow> int \<Rightarrow> bool" where
  \<comment> \<open>the exit condition of the waiting loop in \<open>stop\<close>\<close>
  "graceful_wait_over q waitStart now timeout \<longleftrightarrow> qi_runningJobs q = [] \<or> timeout < now - waitStart"

section \<open>Retries\<close>

definition calculateBackoff :: "nat \<Rightarrow> rat \<Rightarrow> int" where
  \<comment> \<open>\<open>random\<close> is the value of \<open>Math.random()\<close>, at least 0 and less than 1\<close>
  "calculateBackoff attempt random =
     (let exponentialDelay = DEFAULT_BASE_DELAY_MS * DEFAULT_BACKOFF_MULTIPLIER ^ (attempt - 1);
          cappedDelay = min exponentialDelay DEFAULT_MAX_DELAY_MS;
          jitter = cappedDelay * (1 / 10) * (random * 2 - 1)
      in \<lfloor>cappedDelay + jitter\<rfloor>)"

definition scheduleRetry ::
  "('s, 'v) storage_ops \<Rightarrow> int \<Rightarrow> rat \<Rightarrow> 'v job \<Rightarrow> int \<Rightarrow> job_error \<Rightarrow> ('s, 'v) qinst \<Rightarrow> ('s, 'v) qinst" where
  "scheduleRetry S now random job attempt err q =
     (let backoffMs = calculateBackoff (nat attempt) random;
          q1 = update_job S (job_id job)
                 (no_updates\<lparr>upd_status := Some Queued, upd_retries := Some attempt,
                    upd_error := Some (Some err), upd_startedAt := Some None\<rparr>) q;
          q2 = (case qi_getJob S q1 (job_id job) of
                  None \<Rightarrow> q1
                | Some updatedJob \<Rightarrow> emit (EvRetry updatedJob attempt) q1)
      in q2\<lparr>qi_pendingRetryTimers := map_set (job_id job)
              \<lparr>rt_attempt = attempt, rt_fires = now + backoffMs\<rparr> (qi_pendingRetryTimers q2)\<rparr>)"

definition retry_timer_fires ::
  "('s, 'v) storage_ops \<Rightarrow> int \<Rightarrow> string \<Rightarrow> ('s, 'v) qinst \<Rightarrow> ('s, 'v) qinst" where
  \<comment> \<open>the callback of the timer that \<open>scheduleRetry\<close> sets\<close>
  "retry_timer_fires S now jobId q =
     (let q1 = q\<lparr>qi_pendingRetryTimers := map_delete jobId (qi_pendingRetryTimers q)\<rparr>
      in if qi_isShuttingDown q1 then q1
         else (case qi_getJob S q1 jobId of
                 None \<Rightarrow> q1
               | Some jobToRetry \<Rightarrow>
                   if job_status jobToRetry = Queued
                   then q1\<lparr>qi_storage := so_enqueue S now (qi_storage q1) (qi_name q1) jobToRetry\<rparr>
                   else q1))"

section \<open>Execution\<close>

definition fail_job ::
  "('s, 'v) storage_ops \<Rightarrow> int \<Rightarrow> 'v job \<Rightarrow> job_error \<Rightarrow> ('s, 'v) qinst \<Rightarrow> ('s, 'v) qinst" where
  \<comment> \<open>the common tail of \<open>handleNoHandler\<close>, \<open>handleValidationFailure\<close> and
      \<open>handleJobFailure\<close>: store the failure, then announce it if the job still exists\<close>
  "fail_job S now job err q =
     (let q1 = update_job S (job_id job)
                 (no_updates\<lparr>upd_status := Some Failed, upd_completedAt := Some (Some now),
                    upd_error := Some (Some err)\<rparr>) q
      in (case qi_getJob S q1 (job_id job) of
            None \<Rightarrow> q1
          | Some failedJob \<Rightarrow>
              publishStateChange now
                ((no_change (job_id job) (job_type job) ChFailed)
                   \<lparr>ch_error := Some (err_message err, err_code err)\<rparr>)
                (emit (EvFailed failedJob err) q1)))"

definition registry_key :: "string \<Rightarrow> string \<Rightarrow> string" where
  "registry_key queueName jobType = queueName @ '':'' @ jobType"

fun join_with :: "string \<Rightarrow> string list \<Rightarrow> string" where
  "join_with sep [] = ''''"
| "join_with sep [x] = x"
| "join_with sep (x # y # ys) = x @ sep @ join_with sep (y # ys)"

definition availableJobTypes :: "('s, 'v) qinst \<Rightarrow> string list" where
  "availableJobTypes q =
     map (drop (length (qi_name q) + 1))
       (filter (\<lambda>key. str_startsWith key (qi_name q @ '':'')) (map_keys (qi_handlerRegistry q)))"

definition stop_running :: "string \<Rightarrow> ('s, 'v) qinst \<Rightarrow> ('s, 'v) qinst" where
  \<comment> \<open>\<open>this.runningJobs.delete(jobId)\<close>\<close>
  "stop_running jobId q = q\<lparr>qi_runningJobs := removeAll jobId (qi_runningJobs q)\<rparr>"

definition handleNoHandler ::
  "('s, 'v) storage_ops \<Rightarrow> int \<Rightarrow> 'v job \<Rightarrow> ('s, 'v) qinst \<Rightarrow> ('s, 'v) qinst" where
  "handleNoHandler S now job q =
     (let errorObj = \<lparr>err_message = ''No handler registered for job type '' @ [CHR 0x27] @ job_type job @
            [CHR 0x27] @ ''. Available job types: ['' @ join_with '', '' (availableJobTypes q) @ '']'',
            err_code = Some ''HANDLER_NOT_FOUND'', err_stack = None\<rparr>
      in stop_running (job_id job) (fail_job S now job errorObj q))"

definition handleValidationFailure ::
  "('s, 'v) storage_ops \<Rightarrow> int \<Rightarrow> 'v job \<Rightarrow> string \<Rightarrow> ('s, 'v) qinst \<Rightarrow> ('s, 'v) qinst" where
  \<comment> \<open>the message is that of the \<open>JobValidationError\<close>\<close>
  "handleValidationFailure S now job message q =
     stop_running (job_id job)
       (fail_job S now job
          \<lparr>err_message = message, err_code = Some ''VALIDATION_ERROR'', err_stack = None\<rparr> q)"

definition handleJobCompletion ::
  "('s, 'v) storage_ops \<Rightarrow> int \<Rightarrow> 'v job \<Rightarrow> 'v \<Rightarrow> ('s, 'v) qinst \<Rightarrow> ('s, 'v) qinst" where
  "handleJobCompletion S now job result q =
     (if map_option job_status (qi_getJob S q (job_id job)) = Some Cancelled then q
      else
        let q1 = update_job S (job_id job)
                   (no_updates\<lparr>upd_status := Some Completed, upd_completedAt := Some (Some now),
                      upd_progress := Some 100, upd_result := Some (Some result),
                      upd_error := Some None\<rparr>) q
        in (case qi_getJob S q1 (job_id job) of
              None \<Rightarrow> q1
            | Some completedJob \<Rightarrow>
                publishStateChange now
                  ((no_change (job_id job) (job_type job) ChCompleted)\<lparr>ch_result := Some result\<rparr>)
                  (emit (EvCompleted completedJob result) q1)))"

definition is_timeout_message :: "string \<Rightarrow> bool" where
  "is_timeout_message m \<longleftrightarrow> str_includes m ''timed out'' \<or> str_includes m ''timeout''"

definition is_cancel_message :: "string \<Rightarrow> bool" where
  "is_cancel_message m \<longleftrightarrow> str_includes m ''cancelled'' \<or> str_includes m ''aborted''"

definition handleJobFailure ::
  "('s, 'v) storage_ops \<Rightarrow> int \<Rightarrow> rat \<Rightarrow> 'v job \<Rightarrow> string \<Rightarrow> string option \<Rightarrow>
     ('s, 'v) qinst \<Rightarrow> ('s, 'v) qinst" where
  "handleJobFailure S now random job errorMessage stack q =
     (let currentJob = qi_getJob S q (job_id job)
      in if map_option job_status currentJob = Some Cancelled then q
         else if \<not> is_timeout_message errorMessage \<and> is_cancel_message errorMessage then
           let q1 = update_job S (job_id job)
                      (no_updates\<lparr>upd_status := Some Cancelled, upd_completedAt := Some (Some now)\<rparr>) q
           in (case qi_getJob S q1 (job_id job) of
                 None \<Rightarrow> q1
               | Some cancelledJob \<Rightarrow> emit (EvCancelled cancelledJob (Some errorMessage)) q1)
         else
           let errorObj = \<lparr>err_message = errorMessage,
                  err_code = Some (if is_timeout_message errorMessage then ''JOB_TIMEOUT''
                                   else ''EXECUTION_ERROR''),
                  err_stack = stack\<rparr>;
               currentRetries = (case currentJob of None \<Rightarrow> job_retries job | Some j \<Rightarrow> job_retries j)
           in if currentRetries < job_maxRetries job
              then scheduleRetry S now random job (currentRetries + 1) errorObj q
              else fail_job S now job errorObj q)"

datatype 'v race_winner =
    HandlerResolved 'v
  | HandlerRejected string "string option"
  | TimeoutFired "string option"
  | CancelFired "string option"

fun executeWithTimeout :: "'v race_winner \<Rightarrow> (string \<times> string option) + 'v" where
  \<comment> \<open>the outcome of \<open>Promise.race\<close> by what settled first; the errors carry their stack\<close>
  "executeWithTimeout (HandlerResolved v) = Inr v"
| "executeWithTimeout (HandlerRejected m stack) = Inl (m, stack)"
| "executeWithTimeout (TimeoutFired stack) = Inl (''Job timed out'', stack)"
| "executeWithTimeout (CancelFired stack) = Inl (''Job cancelled'', stack)"

definition executeJob_begin ::
  "('s, 'v) storage_ops \<Rightarrow> int \<Rightarrow> string \<Rightarrow> string \<Rightarrow> ('s, 'v) qinst \<Rightarrow> ('s, 'v) qinst" where
  \<comment> \<open>\<open>executeJob\<close> up to the call of the handler; \<open>vmsg\<close> is the text of the validation error\<close>
  "executeJob_begin S now vmsg jobId q =
     (case qi_getJob S q jobId of
        None \<Rightarrow> stop_running jobId q
      | Some job \<Rightarrow>
          (case map_get (qi_handlerRegistry q) (registry_key (qi_name q) (job_type job)) of
             None \<Rightarrow> handleNoHandler S now job q
           | Some registration \<Rightarrow>
               (case reg_inputSchema registration (job_data job) of
                  Issues _ \<Rightarrow> handleValidationFailure S now job vmsg q
                | Parsed _ \<Rightarrow>
                    let q1 = q\<lparr>qi_abortControllers := map_set jobId None (qi_abortControllers q)\<rparr>;
                        q2 = update_job S jobId
                               (no_updates\<lparr>upd_status := Some Running,
                                  upd_startedAt := Some (Some now)\<rparr>) q1;
                        q3 = (case qi_getJob S q2 jobId of
                                None \<Rightarrow> q2
                              | Some runningJob \<Rightarrow>
                                  publishStateChange now
                                    (no_change (job_id job) (job_type job) ChStarted)
                                    (emit (EvStarted runningJob) q2))
                    in q3\<lparr>qi_inflight := qi_inflight q3 @ [job]\<rparr>)))"

definition executeJob_end ::
  "('s, 'v) storage_ops \<Rightarrow> int \<Rightarrow> rat \<Rightarrow> string \<Rightarrow> 'v job \<Rightarrow> 'v race_winner \<Rightarrow>
     ('s, 'v) qinst \<Rightarrow> ('s, 'v) qinst" where
  \<comment> \<open>\<open>executeJob\<close> from the settled handler to the \<open>finally\<close> block\<close>
  "executeJob_end S now random vmsg job winner q =
     (let q1 = (case executeWithTimeout winner of
                  Inl (message, stack) \<Rightarrow> handleJobFailure S now random job message stack q
                | Inr result \<Rightarrow>
                    (case map_get (qi_handlerRegistry q) (registry_key (qi_name q) (job_type job)) of
                       None \<Rightarrow> q
                     | Some registration \<Rightarrow>
                         (case reg_outputSchema registration result of
                            Issues _ \<Rightarrow> handleValidationFailure S now job vmsg q
                          | Parsed output \<Rightarrow> handleJobCompletion S now job output q)))
      in stop_running (job_id job)
           (q1\<lparr>qi_abortControllers := map_delete (job_id job) (qi_abortControllers q1),
               qi_inflight := remove1 job (qi_inflight q1)\<rparr>))"

definition job_progress_call ::
  "('s, 'v) storage_ops \<Rightarrow> int \<Rightarrow> 'v job \<Rightarrow> rat \<Rightarrow> string option \<Rightarrow> ('s, 'v) qinst \<Rightarrow> ('s, 'v) qinst" where
  \<comment> \<open>\<open>ctx.progress(percent, message)\<close> of the context that \<open>createJobContext\<close> builds\<close>
  "job_progress_call S now job percent message q =
     publishStateChange now
       ((no_change (job_id job) (job_type job) ChProgress)
          \<lparr>ch_progress := Some (percent / 100), ch_message := message\<rparr>)
       (emit (EvProgress (job_id job) percent message)
          (update_job S (job_id job)
             (no_updates\<lparr>upd_progress := Some percent, upd_progressMessage := Some message\<rparr>) q))"

section \<open>The processing loop\<close>

definition can_dequeue :: "('s, 'v) qinst \<Rightarrow> bool" where
  "can_dequeue q \<longleftrightarrow> \<not> qi_isShuttingDown q \<and> int (length (qi_runningJobs q)) < qi_concurrency q"

definition loop_dequeue ::
  "('s, 'v) storage_ops \<Rightarrow> nat \<Rightarrow> ('s, 'v) qinst \<Rightarrow> ('s, 'v) qinst" where
  \<comment> \<open>the first half of an iteration of loop \<open>n\<close>: check the limit, call \<open>storage.dequeue\<close>\<close>
  "loop_dequeue S n q =
     (case so_dequeue S (qi_storage q) (qi_name q) of
        (job, st) \<Rightarrow> q\<lparr>qi_storage := st, qi_loops := (qi_loops q)[n := Dequeued job]\<rparr>)"

definition loop_launch ::
  "('s, 'v) storage_ops \<Rightarrow> int \<Rightarrow> string \<Rightarrow> nat \<Rightarrow> 'v job \<Rightarrow> ('s, 'v) qinst \<Rightarrow> ('s, 'v) qinst" where
  \<comment> \<open>the second half: track the job, then start its execution\<close>
  "loop_launch S now vmsg n job q =
     executeJob_begin S now vmsg (job_id job)
       (q\<lparr>qi_runningJobs := List.insert (job_id job) (qi_runningJobs q),
          qi_loops := (qi_loops q)[n := Polling]\<rparr>)"

definition loop_resume ::
  "('s, 'v) storage_ops \<Rightarrow> int \<Rightarrow> string \<Rightarrow> nat \<Rightarrow> 'v job option \<Rightarrow> ('s, 'v) qinst \<Rightarrow> ('s, 'v) qinst" where
  "loop_resume S now vmsg n job q =
     (case job of
        None \<Rightarrow> q\<lparr>qi_loops := (qi_loops q)[n := Polling]\<rparr>
      | Some j \<Rightarrow> loop_launch S now vmsg n j q)"

definition loop_exit :: "nat \<Rightarrow> ('s, 'v) qinst \<Rightarrow> ('s, 'v) qinst" where
  "loop_exit n q = q\<lparr>qi_loops := take n (qi_loops q) @ drop (Suc n) (qi_loops q)\<rparr>"

section \<open>Steps\<close>

definition cancel_possible :: "('s, 'v) qinst \<Rightarrow> 'v job \<Rightarrow> 'v race_winner \<Rightarrow> bool" where
  \<comment> \<open>the abort listener can win the race only after the controller was aborted\<close>
  "cancel_possible q job w \<longleftrightarrow>
     (case w of CancelFired _ \<Rightarrow> \<exists>r. map_get (qi_abortControllers q) (job_id job) = Some (Some r)
              | _ \<Rightarrow> True)"

inductive q_step :: "('s, 'v) storage_ops \<Rightarrow> ('s, 'v) qinst \<Rightarrow> ('s, 'v) qinst \<Rightarrow> bool"
  for S :: "('s, 'v) storage_ops" where
  step_add: "so_getJob S (qi_storage q) uuid (Some (qi_name q)) = None \<Longrightarrow>
     q_step S q (snd (qi_add S now uuid jobType d options q))"
| step_start: "q_step S q (qi_start q)"
| step_stop: "q_step S q (qi_stop S now options q)"
| step_cancel: "q_step S q (snd (cancelJob S now jobId reason q))"
| step_timer: "map_get (qi_pendingRetryTimers q) jobId = Some t \<Longrightarrow> rt_fires t \<le> now \<Longrightarrow>
     q_step S q (retry_timer_fires S now jobId q)"
| step_dequeue: "n < length (qi_loops q) \<Longrightarrow> qi_loops q ! n = Polling \<Longrightarrow> can_dequeue q \<Longrightarrow>
     q_step S q (loop_dequeue S n q)"
| step_resume: "n < length (qi_loops q) \<Longrightarrow> qi_loops q ! n = Dequeued job \<Longrightarrow>
     q_step S q (loop_resume S now vmsg n job q)"
| step_exit: "n < length (qi_loops q) \<Longrightarrow> qi_loops q ! n = Polling \<Longrightarrow> qi_isShuttingDown q \<Longrightarrow>
     q_step S q (loop_exit n q)"
| step_progress: "job \<in> set (qi_inflight q) \<Longrightarrow>
     q_step S q (job_progress_call S now job percent message q)"
| step_settle: "job \<in> set (qi_inflight q) \<Longrightarrow> cancel_possible q job winner \<Longrightarrow>
     q_step S q (executeJob_end S now random vmsg job winner q)"

section \<open>What the helpers change\<close>

named_theorems qi_defs

lemmas qi_frame_defs [qi_defs] =
  emit_def publishStateChange_def update_job_def stop_running_def

lemma emit_simps [simp]:
  "qi_name (emit e q) = qi_name q" "qi_storage (emit e q) = qi_storage q"
  "qi_runningJobs (emit e q) = qi_runningJobs q"
  "qi_abortControllers (emit e q) = qi_abortControllers q"
  "qi_pendingRetryTimers (emit e q) = qi_pendingRetryTimers q"
  "qi_loops (emit e q) = qi_loops q" "qi_inflight (emit e q) = qi_inflight q"
  "qi_isShuttingDown (emit e q) = qi_isShuttingDown q" "qi_isRunning (emit e q) = qi_isRunning q"
  "qi_concurrency (emit e q) = qi_concurrency q"
  "qi_handlerRegistry (emit e q) = qi_handlerRegistry q"
  "qi_emitted (emit e q) = qi_emitted q @ [e]"
  by (simp_all add: emit_def)

lemma publish_simps [simp]:
  "qi_name (publishStateChange now d q) = qi_name q"
  "qi_storage (publishStateChange now d q) = qi_storage q"
  "qi_runningJobs (publishStateChange now d q) = qi_runningJobs q"
  "qi_abortControllers (publishStateChange now d q) = qi_abortControllers q"
  "qi_pendingRetryTimers (publishStateChange now d q) = qi_pendingRetryTimers q"
  "qi_loops (publishStateChange now d q) = qi_loops q"
  "qi_inflight (publishStateChange now d q) = qi_inflight q"
  "qi_isShuttingDown (publishStateChange now d q) = qi_isShuttingDown q"
  "qi_isRunning (publishStateChange now d q) = qi_isRunning q"
  "qi_concurrency (publishStateChange now d q) = qi_concurrency q"
  "qi_handlerRegistry (publishStateChange now d q) = qi_handlerRegistry q"
  "qi_emitted (publishStateChange now d q) = qi_emitted q"
  by (simp_all add: publishStateChange_def)

lemma update_job_simps [simp]:
  "qi_name (update_job S i u q) = qi_name q"
  "qi_storage (update_job S i u q) = so_updateJob S (qi_storage q) i u"
  "qi_runningJobs (update_job S i u q) = qi_runningJobs q"
  "qi_abortControllers (update_job S i u q) = qi_abortControllers q"
  "qi_pendingRetryTimers (update_job S i u q) = qi_pendingRetryTimers q"
  "qi_loops (update_job S i u q) = qi_loops q"
  "qi_inflight (update_job S i u q) = qi_inflight q"
  "qi_isShuttingDown (update_job S i u q) = qi_isShuttingDown q"
  "qi_isRunning (update_job S i u q) = qi_isRunning q"
  "qi_concurrency (update_job S i u q) = qi_concurrency q"
  "qi_handlerRegistry (update_job S i u q) = qi_handlerRegistry q"
  "qi_emitted (update_job S i u q) = qi_emitted q"
  by (simp_all add: update_job_def)

text \<open>
  The control part of the state: everything but the storage and the logs. Failing,
  completing and cancelling a job leave it alone, so the invariants of the loop need to be
  shown for the loop and the executions only.
\<close>

definition same_control :: "('s, 'v) qinst \<Rightarrow> ('s, 'v) qinst \<Rightarrow> bool" where
  "same_control q q' \<longleftrightarrow>
     qi_name q' = qi_name q \<and> qi_concurrency q' = qi_concurrency q \<and>
     qi_runningJobs q' = qi_runningJobs q \<and> qi_loops q' = qi_loops q \<and>
     qi_inflight q' = qi_inflight q \<and> qi_isShuttingDown q' = qi_isShuttingDown q \<and>
     qi_isRunning q' = qi_isRunning q \<and> qi_handlerRegistry q' = qi_handlerRegistry q"

lemma same_control_refl [simp]: "same_control q q"
  by (simp add: same_control_def)

lemma same_control_trans: "same_control a b \<Longrightarrow> same_control b c \<Longrightarrow> same_control a c"
  by (simp add: same_control_def)

lemma same_control_fail_job: "same_control q (fail_job S now job err q)"
  by (simp add: fail_job_def Let_def same_control_def split: option.split)

lemma same_control_completion: "same_control q (handleJobCompletion S now job r q)"
  by (simp add: handleJobCompletion_def Let_def same_control_def split: option.split)

lemma same_control_retry: "same_control q (scheduleRetry S now random job a err q)"
  by (simp add: scheduleRetry_def Let_def same_control_def split: option.split)

lemma same_control_failure: "same_control q (handleJobFailure S now random job m stack q)"
proof (cases "map_option job_status (qi_getJob S q (job_id job)) = Some Cancelled \<or>
    \<not> is_timeout_message m \<and> is_cancel_message m")
  case True
  then show ?thesis
    by (auto simp: handleJobFailure_def Let_def same_control_def split: option.split)
next
  case False
  then show ?thesis
    by (auto simp: handleJobFailure_def Let_def same_control_retry same_control_fail_job)
qed

lemma same_control_cancel: "same_control q (snd (cancelJob S now i reason q))"
  by (simp add: cancelJob_def Let_def same_control_def split: option.split)

lemma same_control_cancel_all: "same_control q (cancel_all S now ids q)"
proof (induction ids arbitrary: q)
  case (Cons i ids)
  show ?case
    using same_control_trans [OF same_control_cancel Cons.IH] by (simp add: cancel_all_def)
qed (simp add: cancel_all_def)

lemma same_control_add: "same_control q (snd (qi_add S now uuid t d options q))"
  by (simp add: qi_add_def Let_def same_control_def)

lemma same_control_timer: "same_control q (retry_timer_fires S now i q)"
  by (simp add: retry_timer_fires_def Let_def same_control_def split: option.split)

lemma same_control_progress: "same_control q (job_progress_call S now job p m q)"
  by (simp add: job_progress_call_def same_control_def)

lemmas same_control_intros =
  same_control_fail_job same_control_completion same_control_retry same_control_failure
  same_control_cancel same_control_cancel_all same_control_add same_control_timer
  same_control_progress

text \<open>What the two halves of an execution do to the control state.\<close>

lemma stop_running_simps [simp]:
  "qi_runningJobs (stop_running i q) = removeAll i (qi_runningJobs q)"
  "qi_loops (stop_running i q) = qi_loops q" "qi_inflight (stop_running i q) = qi_inflight q"
  "qi_name (stop_running i q) = qi_name q" "qi_storage (stop_running i q) = qi_storage q"
  "qi_concurrency (stop_running i q) = qi_concurrency q"
  "qi_isShuttingDown (stop_running i q) = qi_isShuttingDown q"
  "qi_isRunning (stop_running i q) = qi_isRunning q"
  "qi_abortControllers (stop_running i q) = qi_abortControllers q"
  "qi_emitted (stop_running i q) = qi_emitted q"
  by (simp_all add: stop_running_def)

lemma fail_job_simps [simp]:
  "qi_runningJobs (fail_job S now job err q) = qi_runningJobs q"
  "qi_loops (fail_job S now job err q) = qi_loops q"
  "qi_inflight (fail_job S now job err q) = qi_inflight q"
  "qi_concurrency (fail_job S now job err q) = qi_concurrency q"
  "qi_name (fail_job S now job err q) = qi_name q"
  "qi_isShuttingDown (fail_job S now job err q) = qi_isShuttingDown q"
  "qi_isRunning (fail_job S now job err q) = qi_isRunning q"
  using same_control_fail_job [of q S now job err] by (simp_all add: same_control_def)

lemma executeJob_begin_control:
  assumes "q' = executeJob_begin S now vmsg i q"
  shows "qi_loops q' = qi_loops q" "qi_concurrency q' = qi_concurrency q"
    "qi_name q' = qi_name q" "qi_isShuttingDown q' = qi_isShuttingDown q"
    "(qi_runningJobs q' = qi_runningJobs q \<and>
       (\<exists>job. qi_getJob S q i = Some job \<and> qi_inflight q' = qi_inflight q @ [job])) \<or>
     (\<exists>k. (k = i \<or> (\<exists>job. qi_getJob S q i = Some job \<and> k = job_id job)) \<and>
       qi_runningJobs q' = removeAll k (qi_runningJobs q) \<and> qi_inflight q' = qi_inflight q)"
  using assms
  by (auto simp: executeJob_begin_def handleNoHandler_def handleValidationFailure_def Let_def
      split: option.splits schema_result.splits)

lemma executeJob_end_control:
  assumes "q' = executeJob_end S now random vmsg job w q"
  shows "qi_loops q' = qi_loops q" "qi_concurrency q' = qi_concurrency q"
    "qi_name q' = qi_name q" "qi_isShuttingDown q' = qi_isShuttingDown q"
    "qi_runningJobs q' = removeAll (job_id job) (qi_runningJobs q)"
    "qi_inflight q' = remove1 job (qi_inflight q)"
    "map_of (qi_abortControllers q') (job_id job) = None"
  using assms same_control_failure [of q S now random job] same_control_completion [of q S now job]
  by (auto simp: executeJob_end_def handleValidationFailure_def Let_def same_control_def
      split: option.split sum.split schema_result.split)

section \<open>Concurrency\<close>

text \<open>
  A slot is taken by a running job or by a loop that holds a dequeued job it has not yet
  added to \<open>runningJobs\<close>. While one loop runs, the slots never exceed the limit. A second
  loop (from \<open>start\<close> before the stopped loop has woken up) breaks this: see
  \<open>two_loops_exceed\<close>.
\<close>

definition holding :: "'v loop_pc \<Rightarrow> bool" where
  "holding pc \<longleftrightarrow> (\<exists>job. pc = Dequeued (Some job))"

definition slots :: "('s, 'v) qinst \<Rightarrow> int" where
  "slots q = int (length (qi_runningJobs q)) + int (length (filter holding (qi_loops q)))"

definition slots_ok :: "('s, 'v) qinst \<Rightarrow> bool" where
  "slots_ok q \<longleftrightarrow> length (qi_loops q) \<le> 1 \<and> slots q \<le> max 0 (qi_concurrency q)"

definition fresh_instance :: "('s, 'v) qinst \<Rightarrow> bool" where
  "fresh_instance q \<longleftrightarrow> (\<exists>config st registry sid. q = new_queue_instance config st registry sid)"

definition q_step_one_loop ::
  "('s, 'v) storage_ops \<Rightarrow> ('s, 'v) qinst \<Rightarrow> ('s, 'v) qinst \<Rightarrow> bool" where
  "q_step_one_loop S q q' \<longleftrightarrow> q_step S q q' \<and> length (qi_loops q') \<le> 1"

lemma slots_same_control: "same_control q q' \<Longrightarrow> slots_ok q \<Longrightarrow> slots_ok q'"
  by (simp add: same_control_def slots_ok_def slots_def)

lemma holding_simps [simp]: "\<not> holding Polling" "holding (Dequeued j) \<longleftrightarrow> j \<noteq> None"
  by (auto simp: holding_def)

lemma one_loop_cases: "length xs \<le> 1 \<Longrightarrow> n < length xs \<Longrightarrow> n = 0 \<and> xs = [xs ! n]"
  by (cases xs) auto

lemma length_removeAll_le: "length (removeAll x xs) \<le> length xs"
  by (metis length_filter_le removeAll_filter_not_eq)

lemma length_insert_le: "length (List.insert x xs) \<le> Suc (length xs)"
  by (simp add: List.insert_def)

lemma slots_okD:
  assumes "slots_ok q" and "n < length (qi_loops q)"
  shows "n = 0 \<and> qi_loops q = [qi_loops q ! n]"
  using one_loop_cases [OF _ assms(2)] assms(1) unfolding slots_ok_def by blast

lemma slots_ok_dequeue:
  assumes "slots_ok q" and "n < length (qi_loops q)" and "can_dequeue q"
  shows "slots_ok (loop_dequeue S n q)"
proof -
  obtain pc where one: "n = 0" "qi_loops q = [pc]"
    using slots_okD [OF assms(1,2)] by blast
  show ?thesis
    using assms(3) one by (auto simp: slots_ok_def slots_def loop_dequeue_def can_dequeue_def
        split: prod.split)
qed

lemma slots_ok_launch:
  assumes "slots_ok q" and "n < length (qi_loops q)" and "qi_loops q ! n = Dequeued (Some job)"
  shows "slots_ok (loop_launch S now vmsg n job q)"
proof -
  let ?q = "q\<lparr>qi_runningJobs := List.insert (job_id job) (qi_runningJobs q),
      qi_loops := (qi_loops q)[n := Polling]\<rparr>"
  have one: "n = 0" "qi_loops q = [Dequeued (Some job)]"
    using slots_okD [OF assms(1,2)] assms(3) by auto
  have ins: "int (length (List.insert (job_id job) (qi_runningJobs q))) \<le> max 0 (qi_concurrency q)"
    using assms(1) one length_insert_le [of "job_id job" "qi_runningJobs q"]
    by (simp add: slots_ok_def slots_def)
  note c = executeJob_begin_control [OF refl, of S now vmsg "job_id job" ?q]
  have "length (qi_runningJobs (executeJob_begin S now vmsg (job_id job) ?q))
      \<le> length (List.insert (job_id job) (qi_runningJobs q))"
    using c(5) length_removeAll_le [of _ "qi_runningJobs ?q"] by auto
  then show ?thesis
    using c(1,2) one ins by (simp add: loop_launch_def slots_ok_def slots_def)
qed

lemma slots_ok_end:
  assumes "slots_ok q"
  shows "slots_ok (executeJob_end S now random vmsg job w q)"
proof -
  note c = executeJob_end_control(1,2,5) [OF refl, of S now random vmsg job w q]
  have "int (length (removeAll (job_id job) (qi_runningJobs q))) \<le> int (length (qi_runningJobs q))"
    by (rule of_nat_mono [OF length_removeAll_le])
  then show ?thesis
    using assms unfolding slots_ok_def slots_def c by linarith
qed

lemma slots_ok_stop: "slots_ok q \<Longrightarrow> slots_ok (qi_stop S now options q)"
  using same_control_cancel_all [of "q\<lparr>qi_isShuttingDown := True, qi_isRunning := False,
      qi_pendingRetryTimers := []\<rparr>" S now "qi_runningJobs q"]
  by (simp add: qi_stop_def Let_def slots_ok_def slots_def same_control_def)

lemma slots_ok_resume:
  assumes "slots_ok q" and "n < length (qi_loops q)" and "qi_loops q ! n = Dequeued job"
  shows "slots_ok (loop_resume S now vmsg n job q)"
proof (cases job)
  case None
  then have "n = 0" "qi_loops q = [Dequeued None]"
    using slots_okD [OF assms(1,2)] assms(3) by auto
  then show ?thesis
    using None assms(1) by (simp add: loop_resume_def slots_ok_def slots_def)
next
  case (Some j)
  then show ?thesis
    using assms slots_ok_launch [of q n j] by (simp add: loop_resume_def)
qed

lemma slots_ok_exit:
  assumes "slots_ok q" and "n < length (qi_loops q)" and "qi_loops q ! n = Polling"
  shows "slots_ok (loop_exit n q)"
proof -
  have "n = 0" "qi_loops q = [Polling]"
    using slots_okD [OF assms(1,2)] assms(3) by auto
  then show ?thesis
    using assms(1) by (simp add: loop_exit_def slots_ok_def slots_def)
qed

lemma slots_ok_start: "slots_ok q \<Longrightarrow> length (qi_loops (qi_start q)) \<le> 1 \<Longrightarrow> slots_ok (qi_start q)"
  by (simp add: qi_start_def slots_ok_def slots_def split: if_splits)

lemma slots_ok_step:
  assumes "q_step S q q'" and "length (qi_loops q') \<le> 1" and "slots_ok q"
  shows "slots_ok q'"
  using assms
  by (induction rule: q_step.induct)
    (blast intro: slots_same_control [OF same_control_add] slots_same_control [OF same_control_cancel]
      slots_same_control [OF same_control_timer] slots_same_control [OF same_control_progress]
      slots_ok_start slots_ok_stop slots_ok_dequeue slots_ok_resume slots_ok_exit slots_ok_end)+

lemma fresh_slots_ok: "fresh_instance q \<Longrightarrow> slots_ok q"
  by (auto simp: fresh_instance_def new_queue_instance_def slots_ok_def slots_def)

interpretation one_loop: inductive_invariant fresh_instance "q_step_one_loop S" slots_ok for S
  by unfold_locales (auto simp: fresh_slots_ok q_step_one_loop_def intro: slots_ok_step)

section \<open>No slot leaks\<close>

text \<open>
  Every id in \<open>runningJobs\<close> belongs to an execution that is waiting for its handler:
  whatever happens to a job, its slot is freed.
\<close>

definition running_backed :: "('s, 'v) qinst \<Rightarrow> bool" where
  "running_backed q \<longleftrightarrow> set (qi_runningJobs q) \<subseteq> job_id ` set (qi_inflight q)"

lemma running_backed_same: "same_control q q' \<Longrightarrow> running_backed q \<Longrightarrow> running_backed q'"
  by (simp add: running_backed_def same_control_def)

lemma running_backed_end:
  assumes "running_backed q"
  shows "running_backed (executeJob_end S now random vmsg job w q)"
proof -
  have "k \<in> job_id ` set (remove1 job (qi_inflight q))"
    if k: "k \<in> set (qi_runningJobs q)" "k \<noteq> job_id job" for k
  proof -
    obtain j where j: "j \<in> set (qi_inflight q)" "k = job_id j"
      using assms k(1) by (auto simp: running_backed_def)
    then have "j \<in> set (remove1 job (qi_inflight q))"
      using k(2) by (metis in_set_remove1)
    with j(2) show ?thesis by simp
  qed
  then show ?thesis
    using executeJob_end_control(5,6) [OF refl, of S now random vmsg job w q]
    by (auto simp: running_backed_def)
qed

lemma running_backed_stop: "running_backed q \<Longrightarrow> running_backed (qi_stop S now options q)"
  using same_control_cancel_all [of "q\<lparr>qi_isShuttingDown := True, qi_isRunning := False,
      qi_pendingRetryTimers := []\<rparr>" S now "qi_runningJobs q"]
  by (simp add: qi_stop_def Let_def running_backed_def same_control_def)

section \<open>Retries are bounded\<close>

definition retries_ok :: "'v job \<Rightarrow> bool" where
  "retries_ok j \<longleftrightarrow> 0 \<le> job_retries j \<and> job_retries j \<le> max 0 (job_maxRetries j)"

definition retry_inv :: "('s, 'v) storage_ops \<Rightarrow> ('s \<Rightarrow> bool) \<Rightarrow> ('s, 'v) qinst \<Rightarrow> bool" where
  "retry_inv S ok q \<longleftrightarrow> ok (qi_storage q) \<and>
     (\<forall>i j. qi_getJob S q i = Some j \<longrightarrow> retries_ok j) \<and>
     (\<forall>j \<in> set (qi_inflight q). \<exists>j'. qi_getJob S q (job_id j) = Some j' \<and>
        job_maxRetries j' = job_maxRetries j)"

lemma merge_job_fields [simp]:
  "job_id (merge_job j u) = upd (upd_id u) (job_id j)"
  "job_type (merge_job j u) = upd (upd_type u) (job_type j)"
  "job_status (merge_job j u) = upd (upd_status u) (job_status j)"
  "job_retries (merge_job j u) = upd (upd_retries u) (job_retries j)"
  "job_maxRetries (merge_job j u) = upd (upd_maxRetries u) (job_maxRetries j)"
  "job_progress (merge_job j u) = upd (upd_progress u) (job_progress j)"
  "job_result (merge_job j u) = upd (upd_result u) (job_result j)"
  "job_error (merge_job j u) = upd (upd_error u) (job_error j)"
  "job_completedAt (merge_job j u) = upd (upd_completedAt u) (job_completedAt j)"
  by (simp_all add: merge_job_def)

lemma no_updates_simps [simp]:
  "upd_id no_updates = None" "upd_type no_updates = None" "upd_status no_updates = None"
  "upd_retries no_updates = None" "upd_maxRetries no_updates = None"
  "upd_progress no_updates = None" "upd_result no_updates = None" "upd_error no_updates = None"
  "upd_completedAt no_updates = None"
  by (simp_all add: no_updates_def)

lemma getJob_frame [simp]:
  "qi_getJob S (emit e q) = qi_getJob S q"
  "qi_getJob S (publishStateChange now d q) = qi_getJob S q"
  "qi_getJob S (stop_running i q) = qi_getJob S q"
  "qi_getJob S (q\<lparr>qi_abortControllers := a\<rparr>) = qi_getJob S q"
  "qi_getJob S (q\<lparr>qi_pendingRetryTimers := t\<rparr>) = qi_getJob S q"
  "qi_getJob S (q\<lparr>qi_inflight := jobs\<rparr>) = qi_getJob S q"
  "qi_getJob S (q\<lparr>qi_loops := l\<rparr>) = qi_getJob S q"
  "qi_getJob S (q\<lparr>qi_runningJobs := r\<rparr>) = qi_getJob S q"
  "qi_getJob S (q\<lparr>qi_isShuttingDown := b\<rparr>) = qi_getJob S q"
  "qi_getJob S (q\<lparr>qi_isRunning := b\<rparr>) = qi_getJob S q"
  by (simp_all add: qi_getJob_def fun_eq_iff)

definition queue_inv :: "('s, 'v) storage_ops \<Rightarrow> ('s \<Rightarrow> bool) \<Rightarrow> ('s, 'v) qinst \<Rightarrow> bool" where
  "queue_inv S ok q \<longleftrightarrow> retry_inv S ok q \<and> running_backed q"

text \<open>
  \<open>harmless\<close> is the shape of every change the methods make to the stored jobs, retries apart: an
  \<open>updateJob\<close> with an update that keeps the id and the retry counters.
\<close>

definition harmless :: "'v job_updates \<Rightarrow> bool" where
  "harmless u \<longleftrightarrow> upd_id u = None \<and> upd_maxRetries u = None \<and> upd_retries u = None"

context queue_storage
begin

lemma getJob_update_job:
  assumes "ok (qi_storage q)"
  shows "qi_getJob S (update_job S k u q) i =
    (if i = k then map_option (\<lambda>j. merge_job j u) (qi_getJob S q i) else qi_getJob S q i)"
  using assms by (simp add: qi_getJob_def get_update)

lemma getJob_id: "ok (qi_storage q) \<Longrightarrow> qi_getJob S q i = Some j \<Longrightarrow> job_id j = i"
  unfolding qi_getJob_def by (rule get_id)

lemma retry_inv_update:
  assumes "retry_inv S ok q" and "upd_id u = None" and "upd_maxRetries u = None"
    and "\<And>j. qi_getJob S q k = Some j \<Longrightarrow> retries_ok (merge_job j u)"
  shows "retry_inv S ok (update_job S k u q)"
  using assms unfolding retry_inv_def
  by (auto simp: getJob_update_job update_keeps split: if_splits)

lemma retry_inv_harmless:
  assumes "retry_inv S ok q" and "harmless u"
  shows "retry_inv S ok (update_job S k u q)"
proof (rule retry_inv_update [OF assms(1)])
  fix j assume "qi_getJob S q k = Some j"
  then show "retries_ok (merge_job j u)"
    using assms by (simp add: retry_inv_def harmless_def retries_ok_def)
qed (use assms(2) in \<open>simp_all add: harmless_def\<close>)

lemma retry_inv_frame:
  assumes "qi_storage q' = qi_storage q" "qi_name q' = qi_name q"
    "set (qi_inflight q') \<subseteq> set (qi_inflight q)" "retry_inv S ok q"
  shows "retry_inv S ok q'"
  using assms by (auto simp: retry_inv_def qi_getJob_def)

lemma retry_inv_log [simp]:
  "retry_inv S ok q \<Longrightarrow> retry_inv S ok (emit e q)"
  "retry_inv S ok q \<Longrightarrow> retry_inv S ok (publishStateChange now d q)"
  "retry_inv S ok q \<Longrightarrow> retry_inv S ok (stop_running i q)"
  "retry_inv S ok q \<Longrightarrow> retry_inv S ok (q\<lparr>qi_abortControllers := a\<rparr>)"
  "retry_inv S ok q \<Longrightarrow> retry_inv S ok (q\<lparr>qi_pendingRetryTimers := t\<rparr>)"
  "retry_inv S ok q \<Longrightarrow> retry_inv S ok (q\<lparr>qi_loops := l\<rparr>)"
  "retry_inv S ok q \<Longrightarrow> retry_inv S ok (q\<lparr>qi_runningJobs := r\<rparr>)"
  by (auto intro: retry_inv_frame [rotated 3])

lemma retry_inv_fail: "retry_inv S ok q \<Longrightarrow> retry_inv S ok (fail_job S now job err q)"
  by (simp add: fail_job_def Let_def retry_inv_harmless harmless_def split: option.split)

lemma retry_inv_completion:
  "retry_inv S ok q \<Longrightarrow> retry_inv S ok (handleJobCompletion S now job r q)"
  by (simp add: handleJobCompletion_def Let_def retry_inv_harmless harmless_def split: option.split)

lemma retry_inv_cancel:
  assumes "retry_inv S ok q"
  shows "retry_inv S ok (snd (cancelJob S now i reason q))"
  using assms by (simp add: cancelJob_def Let_def retry_inv_harmless harmless_def split: option.split)

lemma retry_inv_cancel_all: "retry_inv S ok q \<Longrightarrow> retry_inv S ok (cancel_all S now ids q)"
  by (induction ids arbitrary: q) (simp_all add: cancel_all_def retry_inv_cancel)

lemma retry_inv_schedule:
  assumes "retry_inv S ok q" and "0 \<le> attempt"
    and "\<And>j. qi_getJob S q (job_id job) = Some j \<Longrightarrow> attempt \<le> job_maxRetries j"
  shows "retry_inv S ok (scheduleRetry S now random job attempt err q)"
proof -
  have "retry_inv S ok (update_job S (job_id job) (no_updates\<lparr>upd_status := Some Queued,
      upd_retries := Some attempt, upd_error := Some (Some err), upd_startedAt := Some None\<rparr>) q)"
    by (rule retry_inv_update [OF assms(1)])
      (use assms(2,3) in \<open>fastforce simp: retries_ok_def\<close>)+
  then show ?thesis
    by (simp add: scheduleRetry_def Let_def split: option.split)
qed

lemma retry_inv_failure:
  assumes "retry_inv S ok q" and "job \<in> set (qi_inflight q)"
  shows "retry_inv S ok (handleJobFailure S now random job m stack q)"
proof -
  obtain j where j: "qi_getJob S q (job_id job) = Some j" "job_maxRetries j = job_maxRetries job"
    using assms by (auto simp: retry_inv_def)
  then have "retries_ok j" using assms(1) by (auto simp: retry_inv_def)
  then show ?thesis
    using assms(1) j
    by (auto simp: handleJobFailure_def Let_def retries_ok_def retry_inv_harmless harmless_def
        intro!: retry_inv_schedule retry_inv_fail split: option.split)
qed

lemma retry_inv_add:
  assumes "retry_inv S ok q" and "so_getJob S (qi_storage q) uuid (Some (qi_name q)) = None"
  shows "retry_inv S ok (snd (qi_add S now uuid t d options q))"
proof -
  let ?job = "make_job now uuid q t d options"
  let ?q = "q\<lparr>qi_storage := so_enqueue S now (qi_storage q) (qi_name q) ?job\<rparr>"
  have st: "ok (qi_storage q)" using assms(1) by (simp add: retry_inv_def)
  have job: "job_id ?job = uuid" "retries_ok ?job"
    by (simp_all add: make_job_def retries_ok_def)
  have get: "qi_getJob S ?q i = (if i = uuid then Some ?job else qi_getJob S q i)" for i
    using st job(1) by (simp add: qi_getJob_def get_enqueue)
  have "qi_getJob S q uuid = None" using assms(2) by (simp add: qi_getJob_def)
  then have "retry_inv S ok ?q"
    using assms(1) st job(2) unfolding retry_inv_def get
    by (auto simp: enqueue_keeps)
  then show ?thesis by (simp add: qi_add_def Let_def)
qed

lemma retry_inv_timer:
  assumes "retry_inv S ok q"
  shows "retry_inv S ok (retry_timer_fires S now i q)"
proof (cases "qi_getJob S q i")
  case None
  then show ?thesis using assms by (simp add: retry_timer_fires_def Let_def)
next
  case (Some j)
  let ?q = "q\<lparr>qi_pendingRetryTimers := map_delete i (qi_pendingRetryTimers q)\<rparr>"
  let ?q' = "?q\<lparr>qi_storage := so_enqueue S now (qi_storage q) (qi_name q) j\<rparr>"
  have st: "ok (qi_storage q)" using assms by (simp add: retry_inv_def)
  have "job_id j = i" using getJob_id [OF st Some] .
  then have "qi_getJob S ?q' k = qi_getJob S q k" for k
    using st Some by (simp add: qi_getJob_def get_enqueue)
  then have "retry_inv S ok ?q'"
    using assms st by (auto simp: retry_inv_def enqueue_keeps)
  then show ?thesis
    using assms Some by (simp add: retry_timer_fires_def Let_def)
qed

lemma retry_inv_begin:
  assumes "retry_inv S ok q"
  shows "retry_inv S ok (executeJob_begin S now vmsg i q)"
proof (cases "qi_getJob S q i")
  case None
  then show ?thesis using assms by (simp add: executeJob_begin_def)
next
  case (Some job)
  have st: "ok (qi_storage q)" using assms by (simp add: retry_inv_def)
  have id: "job_id job = i" using getJob_id [OF st Some] .
  let ?u = "no_updates\<lparr>upd_status := Some Running, upd_startedAt := Some (Some now)\<rparr> :: 'v job_updates"
  let ?q2 = "update_job S i ?u (q\<lparr>qi_abortControllers := map_set i None (qi_abortControllers q)\<rparr>)"
  have inv2: "retry_inv S ok ?q2" using assms by (simp add: retry_inv_harmless harmless_def)
  have get2: "qi_getJob S ?q2 i = Some (merge_job job ?u)"
    using st Some by (simp add: getJob_update_job)
  have append: "retry_inv S ok (q3\<lparr>qi_inflight := xs @ [job]\<rparr>)"
    if "retry_inv S ok q3" "qi_getJob S q3 i = Some (merge_job job ?u)" "qi_inflight q3 = xs" for q3 xs
    using that id by (auto simp: retry_inv_def)
  show ?thesis
    using assms Some inv2 get2 append
    by (simp add: executeJob_begin_def handleNoHandler_def handleValidationFailure_def Let_def
        retry_inv_fail split: option.split schema_result.split)
qed

lemma retry_inv_end:
  assumes "retry_inv S ok q" and "job \<in> set (qi_inflight q)"
  shows "retry_inv S ok (executeJob_end S now random vmsg job w q)"
proof -
  have drop: "retry_inv S ok q1 \<Longrightarrow> retry_inv S ok (stop_running i (q1\<lparr>qi_abortControllers := a,
      qi_inflight := remove1 job (qi_inflight q1)\<rparr>))" for q1 a i
    by (rule retry_inv_frame [of _ q1]) (simp_all add: set_remove1_subset)
  show ?thesis
    unfolding executeJob_end_def Let_def
    by (rule drop) (use assms in \<open>auto simp: retry_inv_completion handleValidationFailure_def
        retry_inv_fail intro: retry_inv_failure split: sum.split option.split schema_result.split\<close>)
qed

lemma retry_inv_dequeue: "retry_inv S ok q \<Longrightarrow> retry_inv S ok (loop_dequeue S n q)"
  using get_dequeue [of "qi_storage q" "qi_name q"] dequeue_keeps [of "qi_storage q" "qi_name q"]
  by (cases "so_dequeue S (qi_storage q) (qi_name q)")
    (auto simp: loop_dequeue_def retry_inv_def qi_getJob_def)

lemma retry_inv_step:
  assumes "q_step S q q'" and "retry_inv S ok q"
  shows "retry_inv S ok q'"
  using assms
proof (induction rule: q_step.induct)
  case (step_stop q now options)
  then show ?case
    by (auto simp: qi_stop_def Let_def intro!: retry_inv_cancel_all retry_inv_frame [of _ q])
next
  case (step_start q)
  then show ?case by (auto simp: qi_start_def intro: retry_inv_frame [of _ q])
next
  case (step_resume n q job now vmsg)
  then show ?case
    by (simp add: loop_resume_def loop_launch_def retry_inv_begin split: option.split)
next
  case (step_exit n q)
  then show ?case by (simp add: loop_exit_def)
next
  case (step_progress job q now percent message)
  then show ?case by (simp add: job_progress_call_def retry_inv_harmless harmless_def)
qed (simp_all add: retry_inv_add retry_inv_cancel retry_inv_timer retry_inv_dequeue retry_inv_end)

lemma running_backed_launch:
  assumes "running_backed q" and "ok (qi_storage q)"
  shows "running_backed (loop_launch S now vmsg n job q)"
proof -
  let ?q = "q\<lparr>qi_runningJobs := List.insert (job_id job) (qi_runningJobs q),
      qi_loops := (qi_loops q)[n := Polling]\<rparr>"
  have id: "job_id j = job_id job" if "qi_getJob S ?q (job_id job) = Some j" for j
    using getJob_id [OF assms(2)] that by simp
  let ?r = "executeJob_begin S now vmsg (job_id job) ?q"
  from executeJob_begin_control(5) [OF refl, of S now vmsg "job_id job" ?q]
  show ?thesis
  proof
    assume "qi_runningJobs ?r = qi_runningJobs ?q \<and>
      (\<exists>j. qi_getJob S ?q (job_id job) = Some j \<and> qi_inflight ?r = qi_inflight ?q @ [j])"
    then obtain j where j: "qi_runningJobs ?r = qi_runningJobs ?q"
        "qi_inflight ?r = qi_inflight ?q @ [j]" "job_id j = job_id job"
      using id by blast
    then show ?thesis
      using assms(1) unfolding loop_launch_def running_backed_def by auto
  next
    assume "\<exists>k. (k = job_id job \<or> (\<exists>j. qi_getJob S ?q (job_id job) = Some j \<and> k = job_id j)) \<and>
      qi_runningJobs ?r = removeAll k (qi_runningJobs ?q) \<and> qi_inflight ?r = qi_inflight ?q"
    then obtain k where k: "k = job_id job" "qi_runningJobs ?r = removeAll k (qi_runningJobs ?q)"
        "qi_inflight ?r = qi_inflight ?q"
      using id by blast
    then show ?thesis
      using assms(1) unfolding loop_launch_def running_backed_def by auto
  qed
qed

lemma running_backed_step:
  assumes "q_step S q q'" and "running_backed q" and "ok (qi_storage q)"
  shows "running_backed q'"
  using assms
proof (induction rule: q_step.induct)
  case (step_resume n q job now vmsg)
  then show ?case
    by (auto simp: loop_resume_def running_backed_launch running_backed_def [of "qi_loops_update _ _"]
        running_backed_def [of q] split: option.split)
next
  case (step_dequeue n q)
  then show ?case by (auto simp: loop_dequeue_def running_backed_def split: prod.split)
next
  case (step_start q)
  then show ?case by (simp add: qi_start_def running_backed_def)
next
  case (step_exit n q)
  then show ?case by (simp add: loop_exit_def running_backed_def)
qed (auto simp: running_backed_end running_backed_stop
    intro: running_backed_same [OF same_control_add] running_backed_same [OF same_control_cancel]
      running_backed_same [OF same_control_timer] running_backed_same [OF same_control_progress])

end

sublocale queue_storage \<subseteq> queue_machine: inductive_invariant
  "\<lambda>q. fresh_instance q \<and> retry_inv S ok q" "q_step S" "queue_inv S ok"
proof unfold_locales
  fix q assume "fresh_instance q \<and> retry_inv S ok q"
  then show "queue_inv S ok q"
    by (auto simp: queue_inv_def running_backed_def fresh_instance_def new_queue_instance_def)
next
  fix q q' assume "q_step S q q'" and "queue_inv S ok q"
  then show "queue_inv S ok q'"
    using retry_inv_step running_backed_step by (auto simp: queue_inv_def retry_inv_def)
qed

section \<open>The outcome of an execution\<close>

text \<open>
  What a settled execution makes of the stored job, in one place: the specification that
  \<open>executeJob_end\<close> and the four handlers below it implement.
\<close>

definition failed_with :: "int \<Rightarrow> job_error \<Rightarrow> 'v job \<Rightarrow> 'v job" where
  "failed_with now err j =
     j\<lparr>job_status := Failed, job_completedAt := Some now, job_error := Some err\<rparr>"

definition settle_spec ::
  "int \<Rightarrow> string \<Rightarrow> 'v registration \<Rightarrow> int \<Rightarrow> 'v race_winner \<Rightarrow> 'v job \<Rightarrow> 'v job" where
  "settle_spec now vmsg reg maxRetries winner j =
     (case executeWithTimeout winner of
        Inr r \<Rightarrow>
          (case reg_outputSchema reg r of
             Issues _ \<Rightarrow> failed_with now
               \<lparr>err_message = vmsg, err_code = Some ''VALIDATION_ERROR'', err_stack = None\<rparr> j
           | Parsed out \<Rightarrow>
               if job_status j = Cancelled then j
               else j\<lparr>job_status := Completed, job_completedAt := Some now, job_progress := 100,
                      job_result := Some out, job_error := None\<rparr>)
      | Inl (m, stack) \<Rightarrow>
          if job_status j = Cancelled then j
          else if \<not> is_timeout_message m \<and> is_cancel_message m
          then j\<lparr>job_status := Cancelled, job_completedAt := Some now\<rparr>
          else
            let err = \<lparr>err_message = m, err_code = Some (if is_timeout_message m then ''JOB_TIMEOUT''
                         else ''EXECUTION_ERROR''), err_stack = stack\<rparr>
            in if job_retries j < maxRetries
               then j\<lparr>job_status := Queued, job_retries := job_retries j + 1,
                      job_error := Some err, job_startedAt := None\<rparr>
               else failed_with now err j)"

lemma merge_job_cases:
  "merge_job j (no_updates\<lparr>upd_status := Some Failed, upd_completedAt := Some (Some now),
     upd_error := Some (Some err)\<rparr>) = failed_with now err j"
  "merge_job j (no_updates\<lparr>upd_status := Some Cancelled, upd_completedAt := Some (Some now)\<rparr>) =
     j\<lparr>job_status := Cancelled, job_completedAt := Some now\<rparr>"
  "merge_job j (no_updates\<lparr>upd_status := Some Completed, upd_completedAt := Some (Some now),
     upd_progress := Some p, upd_result := Some (Some r), upd_error := Some None\<rparr>) =
     j\<lparr>job_status := Completed, job_completedAt := Some now, job_progress := p,
       job_result := Some r, job_error := None\<rparr>"
  "merge_job j (no_updates\<lparr>upd_status := Some Queued, upd_retries := Some n,
     upd_error := Some (Some err), upd_startedAt := Some None\<rparr>) =
     j\<lparr>job_status := Queued, job_retries := n, job_error := Some err, job_startedAt := None\<rparr>"
  "merge_job j (no_updates\<lparr>upd_status := Some Running, upd_startedAt := Some (Some now)\<rparr>) =
     j\<lparr>job_status := Running, job_startedAt := Some now\<rparr>"
  by (cases j; simp add: merge_job_def no_updates_def failed_with_def)+

context queue_storage
begin

lemma fail_job_get:
  assumes "ok (qi_storage q)" and "qi_getJob S q (job_id job) = Some j"
  shows "qi_getJob S (fail_job S now job err q) (job_id job) = Some (failed_with now err j)"
  using assms by (simp add: fail_job_def Let_def getJob_update_job merge_job_cases)

lemma completion_get:
  assumes "ok (qi_storage q)" and "qi_getJob S q (job_id job) = Some j"
  shows "qi_getJob S (handleJobCompletion S now job r q) (job_id job) =
    Some (if job_status j = Cancelled then j
      else j\<lparr>job_status := Completed, job_completedAt := Some now, job_progress := 100,
             job_result := Some r, job_error := None\<rparr>)"
  using assms by (simp add: handleJobCompletion_def Let_def getJob_update_job merge_job_cases)

lemma schedule_get:
  assumes "ok (qi_storage q)" and "qi_getJob S q (job_id job) = Some j"
  shows "qi_getJob S (scheduleRetry S now random job n err q) (job_id job) =
    Some (j\<lparr>job_status := Queued, job_retries := n, job_error := Some err, job_startedAt := None\<rparr>)"
  using assms by (simp add: scheduleRetry_def Let_def getJob_update_job merge_job_cases)

lemma executeJob_end_get:
  assumes "ok (qi_storage q)" and "qi_getJob S q (job_id job) = Some j"
    and "map_of (qi_handlerRegistry q) (registry_key (qi_name q) (job_type job)) = Some reg"
  shows "qi_getJob S (executeJob_end S now random vmsg job w q) (job_id job) =
    Some (settle_spec now vmsg reg (job_maxRetries job) w j)"
  using assms
  by (auto simp: executeJob_end_def settle_spec_def Let_def handleValidationFailure_def
      handleJobFailure_def fail_job_get completion_get schedule_get getJob_update_job
      merge_job_cases split: sum.split schema_result.split option.split)

lemma executeJob_begin_get:
  assumes "ok (qi_storage q)" and "qi_getJob S q i = Some j"
    and "map_of (qi_handlerRegistry q) (registry_key (qi_name q) (job_type j)) = Some reg"
    and "reg_inputSchema reg (job_data j) = Parsed x"
  shows "qi_getJob S (executeJob_begin S now vmsg i q) i =
      Some (j\<lparr>job_status := Running, job_startedAt := Some now\<rparr>)"
    and "qi_inflight (executeJob_begin S now vmsg i q) = qi_inflight q @ [j]"
  using assms
  by (simp_all add: executeJob_begin_def Let_def getJob_update_job merge_job_cases
      getJob_id [OF assms(1,2)])

end

section \<open>Shutdown\<close>

definition quiet :: "string set \<Rightarrow> ('s, 'v) qinst \<Rightarrow> bool" where
  "quiet R q \<longleftrightarrow> qi_isShuttingDown q \<and> filter holding (qi_loops q) = [] \<and>
     set (qi_runningJobs q) \<subseteq> R"

definition q_step_no_start ::
  "('s, 'v) storage_ops \<Rightarrow> ('s, 'v) qinst \<Rightarrow> ('s, 'v) qinst \<Rightarrow> bool" where
  "q_step_no_start S q q' \<longleftrightarrow> q_step S q q' \<and> qi_isShuttingDown q'"

lemma quiet_same: "same_control q q' \<Longrightarrow> quiet R q \<Longrightarrow> quiet R q'"
  by (simp add: same_control_def quiet_def)

lemma filter_list_update_none:
  "filter P xs = [] \<Longrightarrow> \<not> P x \<Longrightarrow> filter P (xs[n := x]) = []"
  unfolding filter_empty_conv using set_update_subset_insert [of xs n x] by blast

lemma quiet_step:
  assumes "q_step S q q'" and "qi_isShuttingDown q'" and "quiet R q"
  shows "quiet R q'"
  using assms
proof (induction rule: q_step.induct)
  case (step_resume n q job now vmsg)
  then have "job = None"
    using nth_mem by (fastforce simp: quiet_def filter_empty_conv)
  then show ?case
    using step_resume by (simp add: loop_resume_def quiet_def filter_list_update_none)
next
  case (step_exit n q)
  then show ?case
    by (auto simp: loop_exit_def quiet_def filter_empty_conv dest: in_set_takeD in_set_dropD)
next
  case (step_settle job q winner now random vmsg)
  then show ?case
    using executeJob_end_control [OF refl, of S now random vmsg job winner q]
    by (auto simp: quiet_def)
next
  case (step_stop q now options)
  then show ?case by (simp add: qi_stop_def quiet_def)
next
  case (step_start q)
  then show ?case by (simp add: qi_start_def quiet_def split: if_splits)
next
  case (step_dequeue n q)
  then show ?case by (simp add: can_dequeue_def quiet_def)
qed (blast intro: quiet_same [OF same_control_add] quiet_same [OF same_control_cancel]
    quiet_same [OF same_control_timer] quiet_same [OF same_control_progress])+

interpretation shutdown: inductive_invariant "quiet R" "q_step_no_start S" "quiet R" for R S
  by unfold_locales (auto simp: q_step_no_start_def intro: quiet_step)

section \<open>Backoff\<close>

lemma calculateBackoff_bounds:
  assumes "0 \<le> r" and "r < 1"
  shows "900 \<le> calculateBackoff n r" and "calculateBackoff n r < 33000"
proof -
  define c :: rat where "c = min (1000 * 2 ^ (n - 1)) 30000"
  define y where "y = c * r"
  have c: "1000 \<le> c" "c \<le> 30000"
    using one_le_power [of "2::rat" "n - 1"] by (auto simp: c_def)
  have y: "0 \<le> y" "y < c"
    using assms c by (auto simp: y_def)
  have "calculateBackoff n r = \<lfloor>c + c * (1 / 10) * (r * 2 - 1)\<rfloor>"
    by (simp add: calculateBackoff_def c_def DEFAULT_BASE_DELAY_MS_def DEFAULT_MAX_DELAY_MS_def
        DEFAULT_BACKOFF_MULTIPLIER_def Let_def)
  also have "c + c * (1 / 10) * (r * 2 - 1) = c * (9 / 10) + y * (1 / 5)"
    by (simp add: y_def field_simps)
  finally have b: "calculateBackoff n r = \<lfloor>c * (9 / 10) + y * (1 / 5)\<rfloor>" .
  show "900 \<le> calculateBackoff n r" "calculateBackoff n r < 33000"
    using c y by (simp_all add: b le_floor_iff floor_less_iff)
qed

section \<open>A sample run\<close>

text \<open>
  A queue with one handler whose schemas accept everything, over the in-memory storage and
  the reference heap; used to evaluate the model.
\<close>

abbreviation demo_S ::
  "(((nat job pq_item \<Rightarrow> int) \<times> nat job pq_item list, nat) storage, nat) storage_ops" where
  "demo_S \<equiv> mem_ops list_heap"

definition demo_options :: "nat job_options" where
  "demo_options = \<lparr>jo_priority = None, jo_maxRetries = Some 1, jo_timeout = None, jo_metadata = None\<rparr>"

definition demo_queue ::
  "(((nat job pq_item \<Rightarrow> int) \<times> nat job pq_item list, nat) storage, nat) qinst" where
  "demo_queue = new_queue_instance
     \<lparr>qc_name = ''emails'', qc_concurrency = Some 1, qc_defaultTimeout = None,
      qc_defaultMaxRetries = None\<rparr> new_storage
     [(''emails:send'', \<lparr>reg_inputSchema = Parsed, reg_outputSchema = Parsed\<rparr>)] None"

definition demo_job :: "string \<Rightarrow> nat job" where
  "demo_job i = make_job 1 i demo_queue ''send'' 0 demo_options"

definition demo_added where
  "demo_added = snd (qi_add demo_S 1 ''a'' ''send'' 0 demo_options demo_queue)"

definition demo_dequeued where
  "demo_dequeued = loop_dequeue demo_S 0 (qi_start demo_added)"

definition demo_running where
  "demo_running = loop_resume demo_S 2 '''' 0 (Some (demo_job ''a'')) demo_dequeued"

lemma demo_running_eval:
  "qi_runningJobs demo_running = [''a'']" "qi_loops demo_dequeued = [Dequeued (Some (demo_job ''a''))]"
  "qi_loops demo_running = [Polling]" "qi_inflight demo_running = [demo_job ''a'']"
  by code_simp+

section \<open>Properties\<close>

lemma demo_add_step: "q_step demo_S demo_queue demo_added"
  unfolding demo_added_def by (rule q_step.step_add) code_simp

lemma demo_dequeue_step: "q_step demo_S (qi_start demo_added) demo_dequeued"
  unfolding demo_dequeued_def by (rule q_step.step_dequeue) (code_simp+)

lemma demo_resume_step: "q_step demo_S demo_dequeued demo_running"
  unfolding demo_running_def by (rule q_step.step_resume) (simp_all add: demo_running_eval)

lemma demo_fresh: "fresh_instance demo_queue"
  unfolding fresh_instance_def demo_queue_def by blast

lemma demo_reachable:
  assumes "init demo_queue"
    and "\<And>q q'. q_step demo_S q q' \<Longrightarrow> length (qi_loops q') \<le> 1 \<Longrightarrow> step q q'"
  shows "reachable init step demo_running"
proof -
  have loops: "length (qi_loops demo_added) \<le> 1" "length (qi_loops (qi_start demo_added)) \<le> 1"
    "length (qi_loops demo_dequeued) \<le> 1" "length (qi_loops demo_running) \<le> 1"
    by code_simp+
  have "reachable init step demo_added"
    using assms demo_add_step loops(1) by (blast intro: reachable.intros)
  then have "reachable init step (qi_start demo_added)"
    using assms(2) q_step.step_start loops(2) by (blast intro: reachable.reach_step)
  then have "reachable init step demo_dequeued"
    using assms(2) demo_dequeue_step loops(3) by (blast intro: reachable.reach_step)
  then show ?thesis
    using assms(2) demo_resume_step loops(4) by (blast intro: reachable.reach_step)
qed

text \<open>C21: The concurrency limit. In every state a queue reaches while at most one processing
  loop is alive, for any storage adapter and any interleaving of submissions, cancellations,
  retry timers, settling handlers, stops and restarts, at most \<open>concurrency\<close> jobs run.\<close>

theorem concurrency_limit_respected:
  assumes "reachable fresh_instance (q_step_one_loop S) q"
  shows "int (length (qi_runningJobs q)) \<le> max 0 (qi_concurrency q)"
  using one_loop.reachable_inv [OF assms] by (simp add: slots_ok_def slots_def)

theorem concurrency_limit_respected_witness:
  "qi_runningJobs demo_running = [''a''] \<and>
   int (length (qi_runningJobs demo_running)) \<le> max 0 (qi_concurrency demo_running)"
  using concurrency_limit_respected [of demo_S demo_running]
    demo_reachable [of fresh_instance "q_step_one_loop demo_S"] demo_fresh demo_running_eval(1)
  by (simp add: q_step_one_loop_def)



text \<open>C22: Outcome of an execution. When the handler of a job settles, the stored job becomes
  what the specification \<open>settle_spec\<close> says (completed with the parsed output; failed without
  retry on an invalid output; left alone when it was cancelled meanwhile; cancelled on an
  abort; queued again with one more retry while retries remain; failed otherwise), and the
  job's slot, its abort controller and its execution are gone.\<close>

theorem execution_outcome:
  assumes "storage_ok (qi_storage q)" and "qi_getJob (mem_ops H) q (job_id job) = Some j"
    and "map_get (qi_handlerRegistry q) (registry_key (qi_name q) (job_type job)) = Some reg"
    and "q' = executeJob_end (mem_ops H) now random vmsg job w q"
  shows "qi_getJob (mem_ops H) q' (job_id job) =
      Some (settle_spec now vmsg reg (job_maxRetries job) w j) \<and>
    job_id job \<notin> set (qi_runningJobs q') \<and>
    map_get (qi_abortControllers q') (job_id job) = None \<and>
    qi_inflight q' = remove1 job (qi_inflight q)"
  using mem.executeJob_end_get [OF assms(1-3)] executeJob_end_control(5,6,7) [OF assms(4)] assms(4)
  by simp

lemma executeJob_begin_registry:
  "qi_handlerRegistry (executeJob_begin S now vmsg i q) = qi_handlerRegistry q"
  using same_control_fail_job [of q S now]
  by (auto simp: executeJob_begin_def handleNoHandler_def handleValidationFailure_def Let_def
      stop_running_def same_control_def split: option.split schema_result.split)

lemma demo_running_job:
  "qi_getJob demo_S demo_running ''a'' =
     Some ((demo_job ''a'')\<lparr>job_status := Running, job_startedAt := Some 2\<rparr>)"
  "storage_ok (qi_storage demo_running)"
  "job_id (demo_job ''a'') = ''a''" "job_maxRetries (demo_job ''a'') = 1"
  "registry_key (qi_name demo_running) (job_type (demo_job ''a'')) = ''emails:send''"
  by code_simp+

lemma demo_running_registry:
  "qi_handlerRegistry demo_running =
     [(''emails:send'', \<lparr>reg_inputSchema = Parsed, reg_outputSchema = Parsed\<rparr>)]"
  by (simp add: demo_running_def loop_resume_def loop_launch_def executeJob_begin_registry
      demo_dequeued_def loop_dequeue_def qi_start_def demo_added_def qi_add_def Let_def
      demo_queue_def new_queue_instance_def split: prod.split)

theorem execution_outcome_witness:
  "map_option job_status (qi_getJob demo_S
     (executeJob_end demo_S 5 (1/2) '''' (demo_job ''a'') (HandlerResolved 7) demo_running) ''a'') =
     Some Completed"
  using execution_outcome [OF demo_running_job(2), of list_heap "demo_job ''a''", OF _ _ refl]
    demo_running_job demo_running_registry
  by (simp add: settle_spec_def)



text \<open>Retry delays. The backoff before a retry, jitter included, is at least 0.9 seconds
  and less than 33 seconds, for every attempt number and every random draw.\<close>

theorem backoff_within_bounds:
  assumes "0 \<le> random" and "random < 1"
  shows "900 \<le> calculateBackoff attempt random \<and> calculateBackoff attempt random < 33000"
  using calculateBackoff_bounds [OF assms] by blast

theorem backoff_within_bounds_witness:
  "900 \<le> calculateBackoff 7 (1/4) \<and> calculateBackoff 7 (1/4) < 33000"
  using backoff_within_bounds [of "1/4" 7] by simp

section \<open>Deviations\<close>

text \<open>
  A queued job that is cancelled stays in the priority queue. \<open>executeJob\<close> does not look at
  the status of the job it fetches, so the cancelled job is started all the same.
\<close>

definition demo_cancelled_then_run where
  "demo_cancelled_then_run =
     loop_resume demo_S 4 '''' 0 (Some (demo_job ''a''))
       (loop_dequeue demo_S 0 (qi_start (snd (cancelJob demo_S 2 ''a'' None demo_added))))"

text \<open>A queued job that is cancelled is still dequeued and executed: its status goes from
  cancelled to running.\<close>

theorem cancelled_queued_job_still_runs:
  "map_option job_status (qi_getJob demo_S (snd (cancelJob demo_S 2 ''a'' None demo_added)) ''a'') =
     Some Cancelled \<and>
   qi_loops (loop_dequeue demo_S 0 (qi_start (snd (cancelJob demo_S 2 ''a'' None demo_added)))) =
     [Dequeued (Some (demo_job ''a''))] \<and>
   map_option job_status (qi_getJob demo_S demo_cancelled_then_run ''a'') = Some Running"
  by (intro conjI; code_simp)

text \<open>
  \<open>stop\<close> does not wait for the sleeping loop, and \<open>start\<close> clears \<open>isShuttingDown\<close>: a restart
  within the poll interval leaves two loops alive. When the adapter's \<open>dequeue\<close> is really
  asynchronous, both can pass the limit check before either has added its job.
\<close>

definition demo_two_loops where
  "demo_two_loops =
     (let q1 = snd (qi_add demo_S 1 ''b'' ''send'' 0 demo_options demo_added);
          q2 = qi_start (qi_stop demo_S 2 \<lparr>so_graceful = None, so_timeout = None\<rparr> (qi_start q1));
          q3 = loop_dequeue demo_S 1 (loop_dequeue demo_S 0 q2)
      in loop_resume demo_S 3 '''' 1 (Some (demo_job ''b''))
           (loop_resume demo_S 3 '''' 0 (Some (demo_job ''a'')) q3))"

text \<open>A restart within the poll interval of the loop can exceed the concurrency limit: a
  queue with limit 1 reaches a state in which two jobs run.\<close>

theorem two_loops_exceed:
  "reachable fresh_instance (q_step demo_S) demo_two_loops \<and>
   qi_concurrency demo_two_loops = 1 \<and> length (qi_runningJobs demo_two_loops) = 2"
proof -
  define q1 where "q1 = snd (qi_add demo_S 1 ''b'' ''send'' 0 demo_options demo_added)"
  define q2 where "q2 = qi_start (qi_stop demo_S 2 \<lparr>so_graceful = None, so_timeout = None\<rparr> (qi_start q1))"
  define q3 where "q3 = loop_dequeue demo_S 0 q2"
  define q4 where "q4 = loop_dequeue demo_S 1 q3"
  define q5 where "q5 = loop_resume demo_S 3 '''' 0 (Some (demo_job ''a'')) q4"
  let ?R = "reachable fresh_instance (q_step demo_S)"
  have "q_step demo_S demo_added q1"
    unfolding q1_def by (rule q_step.step_add) code_simp
  then have "?R q1"
    using demo_fresh demo_add_step by (meson reachable.intros)
  then have "?R (qi_start q1)"
    using q_step.step_start by (rule reachable.reach_step)
  then have "?R (qi_stop demo_S 2 \<lparr>so_graceful = None, so_timeout = None\<rparr> (qi_start q1))"
    using q_step.step_stop by (rule reachable.reach_step)
  then have "?R q2"
    unfolding q2_def using q_step.step_start by (rule reachable.reach_step)
  moreover have "q_step demo_S q2 q3"
    unfolding q3_def by (rule q_step.step_dequeue) (unfold q2_def q1_def, code_simp+)
  moreover have "q_step demo_S q3 q4"
    unfolding q4_def by (rule q_step.step_dequeue) (unfold q3_def q2_def q1_def, code_simp+)
  moreover have "q_step demo_S q4 q5"
    unfolding q5_def by (rule q_step.step_resume) (unfold q4_def q3_def q2_def q1_def, code_simp+)
  moreover have "q_step demo_S q5 demo_two_loops"
  proof -
    have two: "demo_two_loops = loop_resume demo_S 3 '''' 1 (Some (demo_job ''b'')) q5"
      by (simp add: demo_two_loops_def Let_def q1_def q2_def q3_def q4_def q5_def)
    show ?thesis
      unfolding two by (rule q_step.step_resume)
        (unfold q5_def q4_def q3_def q2_def q1_def, code_simp+)
  qed
  ultimately have "?R demo_two_loops"
    by (meson reachable.reach_step)
  moreover have "qi_concurrency demo_two_loops = 1" "length (qi_runningJobs demo_two_loops) = 2"
    by code_simp+
  ultimately show ?thesis by blast
qed

end
