(* ===== verification/Queue_Service.thy ===== *)
theory Queue_Service
  imports Queue_Instance
begin

text \<open>
  \<open>plugins/queue/src/queue-service.ts\<close>: the named queues of a server behind one interface.

  All queues share one storage. It is kept once, in the service; an operation of a queue runs on the queue's
  state with that storage put in, and its storage is taken back afterwards (\<open>on_queue\<close>). Between operations of
  the service the queues take the steps of \<open>Queue_Instance\<close>. \<open>Promise.all\<close> over the queues is their
  sequence in the order of the map: the operations concerned touch the state of one queue each. Logging is left
  out.

  The locale \<open>exclusive_storage\<close> adds to the contract of storages that a job id belongs to one queue, which
  is what makes lookup by id alone well defined; the in-memory storage provides it.
\<close>

section \<open>State\<close>

record ('s, 'v) qservice =
  qsv_queues :: "(string, ('s, 'v) qinst) js_map"
  qsv_storage :: 's
  qsv_jobQueueMap :: "(string, string) js_map"
  qsv_handlerRegistry :: "(string, 'v registration) js_map"

datatype service_error =
    QueueNotFoundError string "string list"
  | HandlerNotFoundError string string "string list"
  | JobValidationError string string "(string list \<times> string) list"

definition new_service ::
  "(string \<times> queue_config) list \<Rightarrow> 's \<Rightarrow> (string, 'v registration) js_map \<Rightarrow> string option \<Rightarrow> ('s, 'v) qservice" where
  "new_service queues storage registry serverId =
     \<lparr>qsv_queues = foldl (\<lambda>m (name, c). map_set name (new_queue_instance (c\<lparr>qc_name := name\<rparr>) storage registry serverId) m) [] queues,
      qsv_storage = storage, qsv_jobQueueMap = [], qsv_handlerRegistry = registry\<rparr>"

definition the_queue :: "('s, 'v) qservice \<Rightarrow> string \<Rightarrow> ('s, 'v) qinst option" where
  "the_queue s name = map_option (\<lambda>q. q\<lparr>qi_storage := qsv_storage s\<rparr>) (map_get (qsv_queues s) name)"

definition listQueues :: "('s, 'v) qservice \<Rightarrow> string list" where
  "listQueues s = map_keys (qsv_queues s)"

definition put_queue :: "string \<Rightarrow> ('s, 'v) qinst \<Rightarrow> ('s, 'v) qservice \<Rightarrow> ('s, 'v) qservice" where
  "put_queue name q s = s\<lparr>qsv_queues := map_set name q (qsv_queues s), qsv_storage := qi_storage q\<rparr>"

definition getQueueOrThrow :: "('s, 'v) qservice \<Rightarrow> string \<Rightarrow> service_error + ('s, 'v) qinst" where
  "getQueueOrThrow s name = (case the_queue s name of None \<Rightarrow> Inl (QueueNotFoundError name (listQueues s)) | Some q \<Rightarrow> Inr q)"

section \<open>Jobs\<close>

definition queue_job_types :: "(string, 'v registration) js_map \<Rightarrow> string \<Rightarrow> string list" where
  "queue_job_types registry queueName =
     map (drop (length queueName + 1)) (filter (\<lambda>key. str_startsWith key (queueName @ '':'')) (map_keys registry))"

definition svc_add ::
  "('s, 'v) storage_ops \<Rightarrow> int \<Rightarrow> string \<Rightarrow> string \<Rightarrow> string \<Rightarrow> 'v \<Rightarrow> 'v job_options \<Rightarrow> ('s, 'v) qservice \<Rightarrow>
     (service_error + string) \<times> ('s, 'v) qservice" where
  "svc_add S now uuid queueName jobType d options s =
     (case getQueueOrThrow s queueName of
        Inl e \<Rightarrow> (Inl e, s)
      | Inr queue \<Rightarrow>
          (case map_get (qsv_handlerRegistry s) (registry_key queueName jobType) of
             None \<Rightarrow> (Inl (HandlerNotFoundError jobType queueName (queue_job_types (qsv_handlerRegistry s) queueName)), s)
           | Some registration \<Rightarrow>
               (case reg_inputSchema registration d of
                  Issues is \<Rightarrow> (Inl (JobValidationError jobType queueName is), s)
                | Parsed v \<Rightarrow>
                    (let (jobId, queue) = qi_add S now uuid jobType v options queue;
                         s = put_queue queueName queue s
                     in (Inr jobId, s\<lparr>qsv_jobQueueMap := map_set jobId queueName (qsv_jobQueueMap s)\<rparr>)))))"

fun search_job :: "('s, 'v) storage_ops \<Rightarrow> string \<Rightarrow> (string \<times> ('s, 'v) qinst) list \<Rightarrow> ('s, 'v) qservice \<Rightarrow>
     'v job option \<times> ('s, 'v) qservice" where
  \<comment> \<open>the loop over all queues\<close>
  "search_job S jobId [] s = (None, s)"
| "search_job S jobId ((name, q) # qs) s =
     (case qi_getJob S (q\<lparr>qi_storage := qsv_storage s\<rparr>) jobId of
        Some job \<Rightarrow> (Some job, s\<lparr>qsv_jobQueueMap := map_set jobId (qi_name q) (qsv_jobQueueMap s)\<rparr>)
      | None \<Rightarrow> search_job S jobId qs s)"

definition svc_getJob ::
  "('s, 'v) storage_ops \<Rightarrow> string \<Rightarrow> string option \<Rightarrow> ('s, 'v) qservice \<Rightarrow> 'v job option \<times> ('s, 'v) qservice" where
  \<comment> \<open>an empty queue name counts as none\<close>
  "svc_getJob S jobId queueName s =
     (case queueName of
        Some (c # cs) \<Rightarrow> (case the_queue s (c # cs) of None \<Rightarrow> None | Some q \<Rightarrow> qi_getJob S q jobId, s)
      | _ \<Rightarrow>
          (case map_get (qsv_jobQueueMap s) jobId of
             Some (c # cs) \<Rightarrow>
               (case (case the_queue s (c # cs) of None \<Rightarrow> None | Some q \<Rightarrow> qi_getJob S q jobId) of
                  Some job \<Rightarrow> (Some job, s)
                | None \<Rightarrow> search_job S jobId (qsv_queues s) (s\<lparr>qsv_jobQueueMap := map_delete jobId (qsv_jobQueueMap s)\<rparr>))
           | _ \<Rightarrow> search_job S jobId (qsv_queues s) s))"

definition cancel_in ::
  "('s, 'v) storage_ops \<Rightarrow> int \<Rightarrow> string \<Rightarrow> string option \<Rightarrow> string \<Rightarrow> ('s, 'v) qservice \<Rightarrow> bool \<times> ('s, 'v) qservice" where
  "cancel_in S now jobId reason name s =
     (case the_queue s name of
        None \<Rightarrow> (False, s)
      | Some q \<Rightarrow> (let (cancelled, q) = cancelJob S now jobId reason q in (cancelled, put_queue name q s)))"

fun search_cancel ::
  "('s, 'v) storage_ops \<Rightarrow> int \<Rightarrow> string \<Rightarrow> string option \<Rightarrow> string list \<Rightarrow> ('s, 'v) qservice \<Rightarrow> bool \<times> ('s, 'v) qservice" where
  "search_cancel S now jobId reason [] s = (False, s)"
| "search_cancel S now jobId reason (name # names) s =
     (let (cancelled, s) = cancel_in S now jobId reason name s
      in if cancelled then (True, s\<lparr>qsv_jobQueueMap := map_set jobId name (qsv_jobQueueMap s)\<rparr>)
         else search_cancel S now jobId reason names s)"

definition svc_cancelJob ::
  "('s, 'v) storage_ops \<Rightarrow> int \<Rightarrow> string \<Rightarrow> string option \<Rightarrow> string option \<Rightarrow> ('s, 'v) qservice \<Rightarrow> bool \<times> ('s, 'v) qservice" where
  "svc_cancelJob S now jobId queueName reason s =
     (case queueName of
        Some (c # cs) \<Rightarrow> cancel_in S now jobId reason (c # cs) s
      | _ \<Rightarrow>
          (let (cancelled, s) = (case map_get (qsv_jobQueueMap s) jobId of
                                   Some (c # cs) \<Rightarrow> cancel_in S now jobId reason (c # cs) s | _ \<Rightarrow> (False, s))
           in if cancelled then (True, s) else search_cancel S now jobId reason (listQueues s) s))"

section \<open>Life cycle, statistics and lists\<close>

definition startAll :: "('s, 'v) qservice \<Rightarrow> ('s, 'v) qservice" where
  "startAll s = s\<lparr>qsv_queues := map (\<lambda>(n, q). (n, qi_start q)) (qsv_queues s)\<rparr>"

definition stopAll :: "('s, 'v) storage_ops \<Rightarrow> int \<Rightarrow> stop_options \<Rightarrow> ('s, 'v) qservice \<Rightarrow> ('s, 'v) qservice" where
  "stopAll S now options s =
     foldl (\<lambda>s name. case the_queue s name of None \<Rightarrow> s | Some q \<Rightarrow> put_queue name (qi_stop S now options q) s) s (listQueues s)"

definition getQueueStats :: "('s, 'v) storage_ops \<Rightarrow> string \<Rightarrow> ('s, 'v) qservice \<Rightarrow> service_error + queue_stats" where
  "getQueueStats S name s = (case getQueueOrThrow s name of Inl e \<Rightarrow> Inl e | Inr q \<Rightarrow> Inr (qi_getStats S q))"

definition add_stats :: "queue_stats \<Rightarrow> queue_stats \<Rightarrow> queue_stats" where
  "add_stats a b = \<lparr>qs_total = qs_total a + qs_total b, qs_queued = qs_queued a + qs_queued b,
     qs_running = qs_running a + qs_running b, qs_completed = qs_completed a + qs_completed b,
     qs_failed = qs_failed a + qs_failed b, qs_cancelled = qs_cancelled a + qs_cancelled b\<rparr>"

definition getAllStats :: "('s, 'v) storage_ops \<Rightarrow> ('s, 'v) qservice \<Rightarrow> queue_stats" where
  "getAllStats S s =
     foldl add_stats DEFAULT_STATS (map (\<lambda>(n, q). qi_getStats S (q\<lparr>qi_storage := qsv_storage s\<rparr>)) (qsv_queues s))"

definition svc_listJobs ::
  "('s, 'v) storage_ops \<Rightarrow> string \<Rightarrow> job_status option \<Rightarrow> int option \<Rightarrow> ('s, 'v) qservice \<Rightarrow> service_error + 'v job list" where
  "svc_listJobs S name status limit s =
     (case getQueueOrThrow s name of Inl e \<Rightarrow> Inl e | Inr q \<Rightarrow> Inr (qi_listJobs S q status limit))"

section \<open>Subscriptions\<close>

definition subscribe_targets :: "string \<Rightarrow> ('s, 'v) qservice \<Rightarrow> string list" where
  \<comment> \<open>the queues that get the handlers of a subscription\<close>
  "subscribe_targets jobId s = (case map_get (qsv_jobQueueMap s) jobId of
     Some (c # cs) \<Rightarrow> if map_has (qsv_queues s) (c # cs) then [c # cs] else listQueues s
   | _ \<Rightarrow> listQueues s)"

record job_subscription =
  js_onProgress :: bool
  js_onCompleted :: bool
  js_onFailed :: bool
  js_onCancelled :: bool

datatype 'v callback = OnProgress rat "string option" | OnCompleted 'v | OnFailed job_error | OnCancelled "string option"

fun subscription_call :: "string \<Rightarrow> job_subscription \<Rightarrow> 'v queue_event \<Rightarrow> 'v callback option" where
  \<comment> \<open>what the handlers of a subscription do with an event of a queue they are attached to\<close>
  "subscription_call jobId cb (EvProgress i percent msg) = (if js_onProgress cb \<and> i = jobId then Some (OnProgress percent msg) else None)"
| "subscription_call jobId cb (EvCompleted job r) = (if js_onCompleted cb \<and> job_id job = jobId then Some (OnCompleted r) else None)"
| "subscription_call jobId cb (EvFailed job e) = (if js_onFailed cb \<and> job_id job = jobId then Some (OnFailed e) else None)"
| "subscription_call jobId cb (EvCancelled job r) = (if js_onCancelled cb \<and> job_id job = jobId then Some (OnCancelled r) else None)"
| "subscription_call jobId cb _ = None"

section \<open>Lookup by id\<close>

definition svc_ok :: "('s, 'v) qservice \<Rightarrow> bool" where
  "svc_ok s \<longleftrightarrow> map_ok (qsv_queues s) \<and> (\<forall>(n, q) \<in> set (qsv_queues s). qi_name q = n)"

lemma svc_ok_get: "svc_ok s \<Longrightarrow> map_get (qsv_queues s) n = Some q \<Longrightarrow> qi_name q = n"
  by (auto simp: svc_ok_def dest: map_of_SomeD)

lemma queues_from_configs:
  assumes "\<And>n c. qi_name (f n c) = n"
  shows "map_ok (foldl (\<lambda>m (n, c). map_set n (f n c) m) [] xs) \<and>
    (\<forall>(n, q) \<in> set (foldl (\<lambda>m (n, c). map_set n (f n c) m) [] xs). qi_name q = n)"
proof (induction xs rule: rev_induct)
  case (snoc x xs)
  obtain n c where x: "x = (n, c)" by (cases x)
  let ?m = "foldl (\<lambda>m (n, c). map_set n (f n c) m) [] xs"
  have "\<forall>(k, q) \<in> set (map_set n (f n c) ?m). qi_name q = k"
    using snoc set_map_set [of n "f n c" ?m] assms by fast
  then show ?case using snoc x by simp
qed simp

lemma new_service_ok: "svc_ok (new_service queues storage registry serverId)"
  using queues_from_configs [of "\<lambda>n c. new_queue_instance (c\<lparr>qc_name := n\<rparr>) storage registry serverId" queues]
  by (simp add: svc_ok_def new_service_def new_queue_instance_def)

lemma put_queue_ok: "svc_ok s \<Longrightarrow> qi_name q = n \<Longrightarrow> svc_ok (put_queue n q s)"
  by (auto simp: svc_ok_def put_queue_def dest!: set_mp [OF set_map_set])

lemma listQueues_put: "svc_ok s \<Longrightarrow> the_queue s n \<noteq> None \<Longrightarrow> listQueues (put_queue n q s) = listQueues s"
  by (auto simp: listQueues_def put_queue_def the_queue_def map_keys_set_known map_of_eq_None_iff)

lemma qi_name_cancel [simp]: "qi_name (snd (cancelJob S now i r q)) = qi_name q"
  by (simp add: cancelJob_def Let_def update_job_def publishStateChange_def emit_def split: option.split)

lemma the_queue_get: "svc_ok s \<Longrightarrow> the_queue s n = Some q \<Longrightarrow> qi_getJob S q i = so_getJob S (qsv_storage s) i (Some n)"
  by (auto simp: the_queue_def qi_getJob_def dest: svc_ok_get)

lemma the_queue_iff: "the_queue s n \<noteq> None \<longleftrightarrow> n \<in> set (listQueues s)"
  by (simp add: the_queue_def listQueues_def map_of_eq_None_iff)

locale exclusive_storage = queue_storage +
  assumes exclusive: "ok s \<Longrightarrow> so_getJob S s i (Some q) = Some j \<Longrightarrow> so_getJob S s i (Some q') = Some j' \<Longrightarrow> q = q'"
begin

definition holds_job :: "('a, 'b) qservice \<Rightarrow> string \<Rightarrow> 'b job \<Rightarrow> bool" where
  "holds_job s i j \<longleftrightarrow> (\<exists>n \<in> set (listQueues s). so_getJob S (qsv_storage s) i (Some n) = Some j)"

lemma holds_unique: "ok (qsv_storage s) \<Longrightarrow> holds_job s i j \<Longrightarrow> holds_job s i j' \<Longrightarrow> j = j'"
  unfolding holds_job_def by (metis exclusive option.inject)

lemma search_job_iff:
  assumes "ok (qsv_storage s)" "\<forall>(n, q) \<in> set qs. qi_name q = n"
  shows "fst (search_job S i qs s) = Some j \<longleftrightarrow> (\<exists>n \<in> set (map fst qs). so_getJob S (qsv_storage s) i (Some n) = Some j)"
  using assms(2)
proof (induction qs)
  case (Cons x qs)
  obtain n q where x: "x = (n, q)" by (cases x)
  have n: "qi_getJob S (q\<lparr>qi_storage := qsv_storage s\<rparr>) i = so_getJob S (qsv_storage s) i (Some n)"
    using Cons.prems x by (simp add: qi_getJob_def)
  show ?case
  proof (cases "so_getJob S (qsv_storage s) i (Some n)")
    case None
    then show ?thesis using Cons x n by simp
  next
    case (Some j')
    then have "j' = j \<longleftrightarrow> (\<exists>m \<in> set (map fst (x # qs)). so_getJob S (qsv_storage s) i (Some m) = Some j)"
      using exclusive [OF assms(1)] x by (metis (no_types, lifting) fst_conv list.set_intros(1) list.simps(9) option.inject)
    then show ?thesis using x n Some by simp
  qed
qed simp

lemma search_job_storage: "qsv_storage (snd (search_job S i qs s)) = qsv_storage s \<and> qsv_queues (snd (search_job S i qs s)) = qsv_queues s"
  by (induction qs) (auto split: option.split)

lemma search_job_ignores_map:
  "fst (search_job S i qs (s\<lparr>qsv_jobQueueMap := m\<rparr>)) = fst (search_job S i qs s)"
  by (induction qs) (auto split: option.split)

text \<open>The cached queue of a job changes no answer.\<close>
lemma getJob_iff:
  assumes "ok (qsv_storage s)" "svc_ok s"
  shows "fst (svc_getJob S i None s) = Some j \<longleftrightarrow> holds_job s i j"
proof -
  have search: "fst (search_job S i (qsv_queues s) s) = Some j \<longleftrightarrow> holds_job s i j" for j
    using search_job_iff [OF assms(1), of "qsv_queues s" i j] assms(2) by (simp add: holds_job_def listQueues_def svc_ok_def)
  have cached: "fst (svc_getJob S i None s) = Some j \<longleftrightarrow> holds_job s i j"
    if q: "map_get (qsv_jobQueueMap s) i = Some n" "the_queue s n = Some q" "qi_getJob S q i = Some j'" "n \<noteq> []" for n q j'
  proof -
    have "holds_job s i j'"
      using q the_queue_get [OF assms(2) q(2)] the_queue_iff [of s n] by (auto simp: holds_job_def)
    moreover have "fst (svc_getJob S i None s) = Some j'" using q by (cases n) (simp_all add: svc_getJob_def)
    ultimately show ?thesis using holds_unique [OF assms(1)] by auto
  qed
  show ?thesis
  proof (cases "map_get (qsv_jobQueueMap s) i")
    case None
    then show ?thesis using search by (simp add: svc_getJob_def)
  next
    case (Some n)
    show ?thesis
    proof (cases "n = [] \<or> the_queue s n = None \<or> (\<exists>q. the_queue s n = Some q \<and> qi_getJob S q i = None)")
      case True
      then have "fst (svc_getJob S i None s) = fst (search_job S i (qsv_queues s) s)"
        using Some by (cases n) (auto simp: svc_getJob_def search_job_ignores_map)
      then show ?thesis using search by simp
    next
      case False
      then show ?thesis using cached Some by auto
    qed
  qed
qed

end

section \<open>Cancelling by id\<close>

definition cancel_update :: "int \<Rightarrow> 'v job_updates" where
  "cancel_update now = no_updates\<lparr>upd_status := Some Cancelled, upd_completedAt := Some (Some now)\<rparr>"

lemma cancelJob_effect:
  "fst (cancelJob S now i r q) = (qi_getJob S q i \<noteq> None)"
  "qi_storage (snd (cancelJob S now i r q)) =
     (if qi_getJob S q i = None then qi_storage q else so_updateJob S (qi_storage q) i (cancel_update now))"
  by (simp_all add: cancelJob_def Let_def update_job_def publishStateChange_def emit_def cancel_update_def split: option.split)

definition cancel_effect :: "('s, 'v) storage_ops \<Rightarrow> int \<Rightarrow> string \<Rightarrow> bool \<Rightarrow> ('s, 'v) qservice \<Rightarrow> bool \<times> ('s, 'v) qservice \<Rightarrow> bool" where
  \<comment> \<open>\<open>r\<close> is the result of a cancellation that finds the job if \<open>found\<close>\<close>
  "cancel_effect S now i found s r \<longleftrightarrow> fst r = found \<and> svc_ok (snd r) \<and> listQueues (snd r) = listQueues s \<and>
     qsv_storage (snd r) = (if found then so_updateJob S (qsv_storage s) i (cancel_update now) else qsv_storage s)"

lemma cancel_in_effect:
  assumes "svc_ok s"
  shows "cancel_effect S now i (n \<in> set (listQueues s) \<and> so_getJob S (qsv_storage s) i (Some n) \<noteq> None) s (cancel_in S now i r n s)"
proof (cases "the_queue s n")
  case None
  then show ?thesis using assms the_queue_iff [of s n] by (simp add: cancel_in_def cancel_effect_def)
next
  case (Some q)
  have n: "n \<in> set (listQueues s)" using Some the_queue_iff [of s n] by simp
  have g: "qi_getJob S q i = so_getJob S (qsv_storage s) i (Some n)" by (rule the_queue_get [OF assms Some])
  have st: "qi_storage q = qsv_storage s" "qi_name q = n"
    using Some svc_ok_get [OF assms] by (auto simp: the_queue_def)
  have "cancel_in S now i r n s = (fst (cancelJob S now i r q), put_queue n (snd (cancelJob S now i r q)) s)"
    using Some by (simp add: cancel_in_def split_beta)
  then show ?thesis
    using assms n st Some g cancelJob_effect [of S now i r q] listQueues_put [OF assms, of n]
    by (simp add: cancel_effect_def put_queue_ok) (simp add: put_queue_def)
qed

lemma cancel_effect_map:
  "cancel_effect S now i found s (b, s') \<Longrightarrow> cancel_effect S now i found s (b, s'\<lparr>qsv_jobQueueMap := m\<rparr>)"
  by (auto simp: cancel_effect_def svc_ok_def listQueues_def)

lemma search_cancel_effect:
  assumes "svc_ok s" "set names \<subseteq> set (listQueues s)"
  shows "cancel_effect S now i (\<exists>n \<in> set names. so_getJob S (qsv_storage s) i (Some n) \<noteq> None) s (search_cancel S now i r names s)"
  using assms
proof (induction names arbitrary: s)
  case Nil
  then show ?case by (simp add: cancel_effect_def)
next
  case (Cons n names)
  obtain b s' where c: "cancel_in S now i r n s = (b, s')" by (cases "cancel_in S now i r n s")
  have e: "cancel_effect S now i (so_getJob S (qsv_storage s) i (Some n) \<noteq> None) s (b, s')"
    using cancel_in_effect [OF Cons.prems(1), of S now i n r] Cons.prems(2) c by simp
  show ?case
  proof (cases "so_getJob S (qsv_storage s) i (Some n)")
    case (Some j)
    have "cancel_effect S now i True s (True, s'\<lparr>qsv_jobQueueMap := map_set i n (qsv_jobQueueMap s')\<rparr>)"
      using e Some cancel_effect_map [of S now i True s True s'] by (simp add: cancel_effect_def)
    moreover have b using e Some by (simp add: cancel_effect_def)
    ultimately show ?thesis using c Some by auto
  next
    case None
    then have s': "svc_ok s'" "listQueues s' = listQueues s" "qsv_storage s' = qsv_storage s" "\<not> b"
      using e by (simp_all add: cancel_effect_def)
    have "cancel_effect S now i (\<exists>n \<in> set names. so_getJob S (qsv_storage s') i (Some n) \<noteq> None) s' (search_cancel S now i r names s')"
      by (rule Cons.IH) (use s' Cons.prems in auto)
    then show ?thesis using s' c None by (simp add: cancel_effect_def)
  qed
qed

lemma svc_cancel_effect:
  assumes "svc_ok s"
  shows "cancel_effect S now i (\<exists>n \<in> set (listQueues s). so_getJob S (qsv_storage s) i (Some n) \<noteq> None) s (svc_cancelJob S now i None r s)"
proof -
  define c where "c = (case map_get (qsv_jobQueueMap s) i of Some (c # cs) \<Rightarrow> cancel_in S now i r (c # cs) s | _ \<Rightarrow> (False, s))"
  have sv: "svc_cancelJob S now i None r s = (if fst c then (True, snd c) else search_cancel S now i r (listQueues (snd c)) (snd c))"
    by (simp add: svc_cancelJob_def c_def split_beta)
  have "(\<exists>n. c = cancel_in S now i r n s) \<or> c = (False, s)"
    by (auto simp: c_def split: option.split list.split)
  then obtain n where "cancel_effect S now i (n \<in> set (listQueues s) \<and> so_getJob S (qsv_storage s) i (Some n) \<noteq> None) s c \<or> c = (False, s)"
    using cancel_in_effect [OF assms] by metis
  then have "cancel_effect S now i True s c \<and> (\<exists>n \<in> set (listQueues s). so_getJob S (qsv_storage s) i (Some n) \<noteq> None) \<or>
      cancel_effect S now i False s c"
    using assms by (auto simp: cancel_effect_def)
  then show ?thesis
  proof (elim disjE conjE)
    assume t: "cancel_effect S now i True s c" "\<exists>n \<in> set (listQueues s). so_getJob S (qsv_storage s) i (Some n) \<noteq> None"
    then show ?thesis using sv by (simp add: cancel_effect_def)
  next
    assume f: "cancel_effect S now i False s c"
    then have "svc_ok (snd c)" "listQueues (snd c) = listQueues s" "qsv_storage (snd c) = qsv_storage s" "\<not> fst c"
      by (simp_all add: cancel_effect_def)
    then show ?thesis using sv search_cancel_effect [of "snd c" "listQueues s" S now i r] by (simp add: cancel_effect_def)
  qed
qed

section \<open>The service over the in-memory storage\<close>

interpretation mem_excl: exclusive_storage "mem_ops H" storage_ok for H
  by unfold_locales (auto simp: mem_ops_def st_getJob_def split: option.splits if_splits)

context queue_storage
begin

lemma cancelled_job:
  assumes "ok s" "so_getJob S s i (Some n) = Some j"
  shows "\<exists>j'. so_getJob S (so_updateJob S s i (cancel_update now)) i (Some n) = Some j' \<and> job_status j' = Cancelled \<and> job_id j' = i"
  using assms get_id by (force simp: get_update merge_job_def cancel_update_def no_updates_def upd_def)

lemma other_jobs_kept:
  "ok s \<Longrightarrow> k \<noteq> i \<Longrightarrow> so_getJob S (so_updateJob S s i u) k oq = so_getJob S s k oq"
  by (simp add: get_update)

end

lemma qi_add_fields [simp]:
  "fst (qi_add S now uuid t d opt q) = uuid" "qi_name (snd (qi_add S now uuid t d opt q)) = qi_name q"
  "qi_storage (snd (qi_add S now uuid t d opt q)) = so_enqueue S now (qi_storage q) (qi_name q) (make_job now uuid q t d opt)"
  by (simp_all add: qi_add_def Let_def publishStateChange_def emit_def)

lemma svc_add_storage:
  assumes "svc_ok s" "svc_add S now uuid n t d opt s = (Inr i, s')"
  shows "\<exists>q v. the_queue s n = Some q \<and> i = uuid \<and> svc_ok s' \<and> listQueues s' = listQueues s \<and>
    qsv_storage s' = so_enqueue S now (qsv_storage s) n (make_job now uuid q t v opt) \<and> map_get (qsv_jobQueueMap s') uuid = Some n"
proof -
  obtain q where q: "the_queue s n = Some q"
    using assms(2) by (auto simp: svc_add_def getQueueOrThrow_def split: option.splits)
  have st: "qi_storage q = qsv_storage s" "qi_name q = n" using q svc_ok_get [OF assms(1)] by (auto simp: the_queue_def)
  from assms(2) q obtain v where v: "i = uuid" "s' = (put_queue n (snd (qi_add S now uuid t v opt q)) s)
      \<lparr>qsv_jobQueueMap := map_set uuid n (qsv_jobQueueMap s)\<rparr>"
    by (auto simp: svc_add_def getQueueOrThrow_def split_beta put_queue_def split: option.splits schema_result.splits)
  have "svc_ok (put_queue n (snd (qi_add S now uuid t v opt q)) s)" by (rule put_queue_ok [OF assms(1)]) (simp add: st)
  then show ?thesis
    using q v st listQueues_put [OF assms(1), of n] by (auto simp: svc_ok_def listQueues_def put_queue_def)
qed

text \<open>An added job is found under its id, with or without the name of its queue.\<close>
lemma added_job_found:
  assumes "storage_ok (qsv_storage s)" "svc_ok s" "svc_add (mem_ops H) now uuid n t d opt s = (Inr i, s')"
  shows "\<exists>j. fst (svc_getJob (mem_ops H) i None s') = Some j \<and> job_id j = i \<and> job_type j = t \<and> job_queueName j = n \<and> job_status j = Queued"
proof -
  obtain q v where a: "the_queue s n = Some q" "i = uuid" "svc_ok s'" "listQueues s' = listQueues s"
    "qsv_storage s' = so_enqueue (mem_ops H) now (qsv_storage s) n (make_job now uuid q t v opt)"
    using svc_add_storage [OF assms(2,3)] by blast
  have n: "n \<in> set (listQueues s')" using a the_queue_iff [of s n] by simp
  have "qi_name q = n" using a(1) svc_ok_get [OF assms(2)] by (auto simp: the_queue_def)
  moreover have "so_getJob (mem_ops H) (qsv_storage s') i (Some n) = Some (make_job now uuid q t v opt)"
    unfolding a(5) using a(2) by (simp add: mem.get_enqueue [OF assms(1)] make_job_def)
  moreover have "storage_ok (qsv_storage s')" unfolding a(5) by (rule mem.enqueue_keeps [OF assms(1)])
  ultimately show ?thesis
    using mem_excl.getJob_iff [of s' H i "make_job now uuid q t v opt"] a(2,3) n
    by (auto simp: mem_excl.holds_job_def make_job_def)
qed

text \<open>C27: a job is found and cancelled by its id alone. Over the in-memory storage and whatever the cache of job locations
  contains: looking up an id answers the job that one of the queues holds under it, and nothing when none
  does; cancelling it succeeds exactly when a queue holds it, then the job is cancelled in that queue, and
  every other job is left as it was.\<close>
theorem service_finds_and_cancels_jobs:
  assumes "storage_ok (qsv_storage s)" "svc_ok s"
    and "c = svc_cancelJob (mem_ops H) now i None reason s"
  shows "(fst (svc_getJob (mem_ops H) i None s) = Some j \<longleftrightarrow> (\<exists>n \<in> set (listQueues s). st_getJob (qsv_storage s) i (Some n) = Some j)) \<and>
    (fst c \<longleftrightarrow> (\<exists>n \<in> set (listQueues s). st_getJob (qsv_storage s) i (Some n) \<noteq> None)) \<and>
    (\<forall>n \<in> set (listQueues s). st_getJob (qsv_storage s) i (Some n) \<noteq> None \<longrightarrow>
       (\<exists>j'. st_getJob (qsv_storage (snd c)) i (Some n) = Some j' \<and> job_status j' = Cancelled)) \<and>
    (\<forall>k oq. k \<noteq> i \<longrightarrow> st_getJob (qsv_storage (snd c)) k oq = st_getJob (qsv_storage s) k oq)"
proof -
  have g: "so_getJob (mem_ops H) = st_getJob" by (simp add: mem_ops_def)
  have e: "cancel_effect (mem_ops H) now i (\<exists>n \<in> set (listQueues s). st_getJob (qsv_storage s) i (Some n) \<noteq> None) s c"
    using svc_cancel_effect [OF assms(2), of "mem_ops H" now i reason] by (simp add: assms(3) g)
  have look: "fst (svc_getJob (mem_ops H) i None s) = Some j \<longleftrightarrow> (\<exists>n \<in> set (listQueues s). st_getJob (qsv_storage s) i (Some n) = Some j)"
    using mem_excl.getJob_iff [OF assms(1,2), of H i j] by (simp add: mem_excl.holds_job_def g)
  have canc: "\<exists>j'. st_getJob (qsv_storage (snd c)) i (Some n) = Some j' \<and> job_status j' = Cancelled"
    if "n \<in> set (listQueues s)" "st_getJob (qsv_storage s) i (Some n) = Some y" for n y
    using e that mem.cancelled_job [OF assms(1), of H i n y now] by (auto simp: cancel_effect_def g)
  have keep: "st_getJob (qsv_storage (snd c)) k oq = st_getJob (qsv_storage s) k oq" if "k \<noteq> i" for k oq
    using e that mem.other_jobs_kept [OF assms(1), of k i H "cancel_update now" oq] by (auto simp: cancel_effect_def g)
  have "fst c \<longleftrightarrow> (\<exists>n \<in> set (listQueues s). st_getJob (qsv_storage s) i (Some n) \<noteq> None)"
    using e unfolding cancel_effect_def by blast
  then show ?thesis using look canc keep by blast
qed

definition sample_registration :: "nat registration" where
  "sample_registration = \<lparr>reg_inputSchema = Parsed, reg_outputSchema = Parsed\<rparr>"

definition no_options :: "nat job_options" where
  "no_options = \<lparr>jo_priority = None, jo_maxRetries = None, jo_timeout = None, jo_metadata = None\<rparr>"

definition no_config :: queue_config where
  "no_config = \<lparr>qc_name = [], qc_concurrency = None, qc_defaultTimeout = None, qc_defaultMaxRetries = None\<rparr>"

definition empty_service :: "(((nat job pq_item \<Rightarrow> int) \<times> nat job pq_item list, nat) storage, nat) qservice" where
  "empty_service = new_service [(''reports'', no_config), (''emails'', no_config)] new_storage [(''emails:send'', sample_registration)] None"

definition sample_service :: "(((nat job pq_item \<Rightarrow> int) \<times> nat job pq_item list, nat) storage, nat) qservice" where
  "sample_service = snd (svc_add (mem_ops list_heap) 5 ''j1'' ''emails'' ''send'' 7 no_options empty_service)"

lemma sample_service_ok: "storage_ok (qsv_storage sample_service)" "svc_ok sample_service"
  "listQueues sample_service = [''reports'', ''emails'']"
proof -
  have e: "svc_ok empty_service" "qsv_storage empty_service = new_storage" "listQueues empty_service = [''reports'', ''emails'']"
    by (simp_all add: empty_service_def new_service_ok) (simp_all add: new_service_def listQueues_def)
  have "fst (svc_add (mem_ops list_heap) 5 ''j1'' ''emails'' ''send'' 7 no_options empty_service) = Inr ''j1''" by code_simp
  then have "svc_add (mem_ops list_heap) 5 ''j1'' ''emails'' ''send'' 7 no_options empty_service = (Inr ''j1'', sample_service)"
    by (simp add: sample_service_def prod_eq_iff)
  from svc_add_storage [OF e(1) this] e show "storage_ok (qsv_storage sample_service)" "svc_ok sample_service"
    "listQueues sample_service = [''reports'', ''emails'']"
    using mem.enqueue_keeps [OF new_storage_ok] by auto
qed

theorem service_finds_and_cancels_jobs_witness:
  "fst (svc_cancelJob (mem_ops list_heap) 9 ''j1'' None None sample_service)"
proof -
  have "st_getJob (qsv_storage sample_service) ''j1'' (Some ''emails'') \<noteq> None" by code_simp
  then show ?thesis
    using service_finds_and_cancels_jobs [OF sample_service_ok(1,2) refl, of list_heap "''j1''"] by (simp add: sample_service_ok(3))
qed

section \<open>Statistics over all queues\<close>

definition service_count :: "('h, 'v) storage \<Rightarrow> string list \<Rightarrow> ('v job \<Rightarrow> bool) \<Rightarrow> int" where
  "service_count st names P =
     entry_count (\<lambda>(i, j). (case map_of (st_jobToQueue st) i of Some q \<Rightarrow> q \<in> set names | None \<Rightarrow> False) \<and> P j) (st_jobs st)"

lemma entry_count_disjoint:
  "(\<And>x. x \<in> set m \<Longrightarrow> \<not> (P x \<and> Q x)) \<Longrightarrow> entry_count P m + entry_count Q m = entry_count (\<lambda>x. P x \<or> Q x) m"
  by (induction m) auto

lemma service_count_sum: "distinct names \<Longrightarrow> (\<Sum>n\<leftarrow>names. job_count st n P) = service_count st names P"
proof (induction names)
  case Nil
  then show ?case by (auto simp: service_count_def entry_count_def split: option.splits intro!: filter_False)
next
  case (Cons n names)
  have "job_count st n P + service_count st names P = service_count st (n # names) P"
    unfolding job_count_def service_count_def
    by (subst entry_count_disjoint) (use Cons.prems in \<open>auto split: option.splits intro!: entry_count_cong\<close>)
  then show ?case using Cons by simp
qed

lemma foldl_add_stats:
  "qs_total (foldl add_stats a xs) = qs_total a + (\<Sum>x\<leftarrow>xs. qs_total x)"
  "stat_of (foldl add_stats a xs) y = stat_of a y + (\<Sum>x\<leftarrow>xs. stat_of x y)"
proof -
  have "stat_of (add_stats a b) y = stat_of a y + stat_of b y" for a b by (cases y) (simp_all add: add_stats_def)
  then show "stat_of (foldl add_stats a xs) y = stat_of a y + (\<Sum>x\<leftarrow>xs. stat_of x y)"
    by (induction xs arbitrary: a) simp_all
  show "qs_total (foldl add_stats a xs) = qs_total a + (\<Sum>x\<leftarrow>xs. qs_total x)"
    by (induction xs arbitrary: a) (simp_all add: add_stats_def)
qed

text \<open>With exact statistics per queue, the statistics of the service count the jobs of all its queues.\<close>
lemma all_stats_exact:
  assumes "svc_ok s" "stats_exact (qsv_storage s)" "[] \<notin> set (listQueues s)"
  shows "counts_match (getAllStats (mem_ops H) s) (service_count (qsv_storage s) (listQueues s) (\<lambda>_. True))
    (\<lambda>x. service_count (qsv_storage s) (listQueues s) (\<lambda>j. job_status j = x))"
proof -
  let ?st = "qsv_storage s"
  have d: "distinct (listQueues s)" using assms(1) by (simp add: svc_ok_def listQueues_def)
  have stats: "map (\<lambda>(n, q). qi_getStats (mem_ops H) (q\<lparr>qi_storage := ?st\<rparr>)) (qsv_queues s) = map (st_getQueueStats ?st) (listQueues s)"
    using assms(1) by (auto simp: svc_ok_def listQueues_def qi_getStats_def mem_ops_def)
  have m: "counts_match (st_getQueueStats ?st n) (job_count ?st n (\<lambda>_. True)) (\<lambda>x. job_count ?st n (\<lambda>j. job_status j = x))"
    if "n \<in> set (listQueues s)" for n
  proof -
    have "n \<noteq> []" using assms(3) that by auto
    then show ?thesis using assms(2) unfolding stats_exact_def by blast
  qed
  have "(\<Sum>x\<leftarrow>map (st_getQueueStats ?st) (listQueues s). qs_total x) = (\<Sum>n\<leftarrow>listQueues s. job_count ?st n (\<lambda>_. True))"
    unfolding map_map by (intro arg_cong [where f = sum_list] map_cong refl) (use m in \<open>simp add: counts_match_def\<close>)
  moreover have "(\<Sum>x\<leftarrow>map (st_getQueueStats ?st) (listQueues s). stat_of x y) = (\<Sum>n\<leftarrow>listQueues s. job_count ?st n (\<lambda>j. job_status j = y))" for y
    unfolding map_map by (intro arg_cong [where f = sum_list] map_cong refl) (use m in \<open>simp add: counts_match_def\<close>)
  moreover have "stat_of DEFAULT_STATS y = 0" for y by (cases y) (simp_all add: DEFAULT_STATS_def)
  ultimately show ?thesis
    unfolding counts_match_def getAllStats_def stats foldl_add_stats service_count_sum [OF d, symmetric]
    by (simp add: DEFAULT_STATS_def)
qed

end
