(* ===== verification/Circuit_Breaker.thy ===== *)
theory Circuit_Breaker
  imports Blaize_Prelude
begin

text \<open>
  The circuit breaker of the Redis adapter (\<open>adapters/redis/src/circuit-breaker.ts\<close>).

  The private fields of \<open>CircuitBreakerImpl\<close> are the record \<open>breaker\<close>. Three fields describe
  the runtime rather than the class: \<open>timers\<close> are the pending \<open>setTimeout\<close> handles,
  \<open>nextTimer\<close> the next fresh handle, and \<open>inFlight\<close> the calls admitted by \<open>execute\<close> whose
  function has not settled yet (\<open>True\<close> when the call was admitted as the test call of
  \<open>HALF_OPEN\<close>). \<open>execute\<close> is cut at its only \<open>await\<close>: \<open>execute_begin\<close> runs up to the call of
  \<open>fn\<close>, \<open>execute_end\<close> runs when the promise settles, the \<open>finally\<close> block included. User
  callbacks are wrapped in \<open>try\<close> / \<open>catch\<close> by the code; the model records which of them is
  invoked. \<open>cb_step\<close> interleaves calls, settlements, timers and the two manual operations.
\<close>

section \<open>State\<close>

datatype circuitState = CLOSED | OPEN | HALF_OPEN

record breaker_config =
  failureThreshold :: int
  resetTimeout :: int
  successThreshold :: int

record breaker_options =
  opt_failureThreshold :: "int option"
  opt_resetTimeout :: "int option"
  opt_successThreshold :: "int option"

record breaker =
  currentState :: circuitState
  failureCount :: int
  successCount :: int
  lastFailureTime :: "int option"
  lastSuccessTime :: "int option"
  resetTimer :: "nat option"
  testInProgress :: bool
  timers :: "nat list"
  nextTimer :: nat
  inFlight :: "bool list"
  callbacks :: "circuitState list"

record breaker_stats =
  stat_state :: circuitState
  stat_failures :: int
  stat_successes :: int
  stat_lastFailure :: "int option"
  stat_lastSuccess :: "int option"

record open_error =
  oe_message :: string
  oe_state :: circuitState
  oe_failures :: int
  oe_lastFailure :: "int option"
  oe_resetTimeout :: int

definition breaker_DEFAULT_CONFIG :: breaker_config where
  "breaker_DEFAULT_CONFIG =
     \<lparr>failureThreshold = 5, resetTimeout = 30000, successThreshold = 1\<rparr>"

definition resolve_config :: "breaker_options \<Rightarrow> breaker_config" where
  "resolve_config o' =
     \<lparr>failureThreshold = (case opt_failureThreshold o' of None \<Rightarrow> failureThreshold breaker_DEFAULT_CONFIG
                          | Some n \<Rightarrow> n),
      resetTimeout = (case opt_resetTimeout o' of None \<Rightarrow> resetTimeout breaker_DEFAULT_CONFIG
                      | Some n \<Rightarrow> n),
      successThreshold = (case opt_successThreshold o' of None \<Rightarrow> successThreshold breaker_DEFAULT_CONFIG
                          | Some n \<Rightarrow> n)\<rparr>"

definition createCircuitBreaker :: breaker where
  "createCircuitBreaker =
     \<lparr>currentState = CLOSED, failureCount = 0, successCount = 0, lastFailureTime = None,
      lastSuccessTime = None, resetTimer = None, testInProgress = False, timers = [],
      nextTimer = 0, inFlight = [], callbacks = []\<rparr>"

section \<open>Operations\<close>

definition transitionTo :: "circuitState \<Rightarrow> breaker \<Rightarrow> breaker" where
  "transitionTo newState b =
     b\<lparr>currentState := newState, callbacks := callbacks b @ [newState]\<rparr>"

definition clearResetTimer :: "breaker \<Rightarrow> breaker" where
  "clearResetTimer b =
     (case resetTimer b of
        None \<Rightarrow> b
      | Some t \<Rightarrow> b\<lparr>timers := filter (\<lambda>u. u \<noteq> t) (timers b), resetTimer := None\<rparr>)"

definition startResetTimer :: "breaker_config \<Rightarrow> breaker \<Rightarrow> breaker" where
  "startResetTimer cfg b0 =
     (let b = clearResetTimer b0
      in if resetTimeout cfg = 0 then transitionTo HALF_OPEN (b\<lparr>successCount := 0\<rparr>)
         else b\<lparr>resetTimer := Some (nextTimer b), timers := timers b @ [nextTimer b],
                nextTimer := Suc (nextTimer b)\<rparr>)"

definition resetTimer_fires :: "nat \<Rightarrow> breaker \<Rightarrow> breaker" where
  \<comment> \<open>the callback handed to \<open>setTimeout\<close>; the field \<open>resetTimer\<close> keeps the spent handle\<close>
  "resetTimer_fires t b =
     transitionTo HALF_OPEN (b\<lparr>timers := filter (\<lambda>u. u \<noteq> t) (timers b), successCount := 0\<rparr>)"

definition onSuccess :: "breaker_config \<Rightarrow> int \<Rightarrow> breaker \<Rightarrow> breaker" where
  "onSuccess cfg now b0 =
     (let b = b0\<lparr>lastSuccessTime := Some now\<rparr>
      in case currentState b of
           CLOSED \<Rightarrow> if failureCount b > 0 then b\<lparr>failureCount := 0\<rparr> else b
         | HALF_OPEN \<Rightarrow>
             (let b = b\<lparr>successCount := successCount b + 1\<rparr>
              in if successCount b \<ge> successThreshold cfg
                 then transitionTo CLOSED (b\<lparr>failureCount := 0, successCount := 0\<rparr>)
                 else b)
         | OPEN \<Rightarrow> b)"

definition onFailure :: "breaker_config \<Rightarrow> int \<Rightarrow> breaker \<Rightarrow> breaker" where
  "onFailure cfg now b0 =
     (let b = b0\<lparr>lastFailureTime := Some now, failureCount := failureCount b0 + 1\<rparr>
      in case currentState b of
           CLOSED \<Rightarrow>
             if failureCount b \<ge> failureThreshold cfg
             then startResetTimer cfg (transitionTo OPEN b) else b
         | HALF_OPEN \<Rightarrow> startResetTimer cfg (transitionTo OPEN (b\<lparr>successCount := 0\<rparr>))
         | OPEN \<Rightarrow> b)"

definition rejection :: "breaker_config \<Rightarrow> string \<Rightarrow> breaker \<Rightarrow> open_error" where
  "rejection cfg msg b =
     \<lparr>oe_message = msg, oe_state = currentState b, oe_failures = failureCount b,
      oe_lastFailure = lastFailureTime b, oe_resetTimeout = resetTimeout cfg\<rparr>"

definition execute_begin :: "breaker_config \<Rightarrow> breaker \<Rightarrow> open_error + breaker" where
  \<comment> \<open>\<open>Inl\<close>: the error thrown before \<open>fn\<close> is called; \<open>Inr\<close>: \<open>fn\<close> has been called\<close>
  "execute_begin cfg b =
     (if currentState b = OPEN then Inl (rejection cfg ''Circuit breaker is OPEN'' b)
      else if currentState b = HALF_OPEN then
        if testInProgress b
        then Inl (rejection cfg ''Circuit breaker test call already in progress'' b)
        else Inr (b\<lparr>testInProgress := True, inFlight := inFlight b @ [True]\<rparr>)
      else Inr (b\<lparr>inFlight := inFlight b @ [False]\<rparr>))"

definition execute_finally :: "breaker \<Rightarrow> breaker" where
  "execute_finally b = (if currentState b = HALF_OPEN then b\<lparr>testInProgress := False\<rparr> else b)"

definition execute_end :: "breaker_config \<Rightarrow> int \<Rightarrow> bool \<Rightarrow> breaker \<Rightarrow> breaker" where
  "execute_end cfg now ok b =
     execute_finally (if ok then onSuccess cfg now b else onFailure cfg now b)"

definition settle_call :: "nat \<Rightarrow> breaker \<Rightarrow> breaker" where
  \<comment> \<open>the promise of the \<open>i\<close>-th call in flight settles\<close>
  "settle_call i b = b\<lparr>inFlight := take i (inFlight b) @ drop (Suc i) (inFlight b)\<rparr>"

definition breaker_open :: "breaker_config \<Rightarrow> breaker \<Rightarrow> breaker" where
  "breaker_open cfg b =
     (if currentState b \<noteq> OPEN then startResetTimer cfg (transitionTo OPEN b) else b)"

definition breaker_close :: "breaker \<Rightarrow> breaker" where
  "breaker_close b =
     (if currentState b \<noteq> CLOSED
      then transitionTo CLOSED ((clearResetTimer b)\<lparr>failureCount := 0, successCount := 0\<rparr>)
      else b)"

definition breaker_getStats :: "breaker \<Rightarrow> breaker_stats" where
  "breaker_getStats b =
     \<lparr>stat_state = currentState b, stat_failures = failureCount b, stat_successes = successCount b,
      stat_lastFailure = lastFailureTime b, stat_lastSuccess = lastSuccessTime b\<rparr>"

lemmas breaker_defs = transitionTo_def clearResetTimer_def startResetTimer_def resetTimer_fires_def
  onSuccess_def onFailure_def execute_begin_def execute_finally_def execute_end_def settle_call_def
  breaker_open_def breaker_close_def

section \<open>Interleavings\<close>

inductive cb_call_step :: "breaker_config \<Rightarrow> breaker \<Rightarrow> breaker \<Rightarrow> bool" for cfg where
  cb_begin: "execute_begin cfg b = Inr b' \<Longrightarrow> cb_call_step cfg b b'"
| cb_reject: "execute_begin cfg b = Inl e \<Longrightarrow> cb_call_step cfg b b"
| cb_settle: "i < length (inFlight b) \<Longrightarrow>
    cb_call_step cfg b (execute_end cfg now ok (settle_call i b))"
| cb_timer: "t \<in> set (timers b) \<Longrightarrow> cb_call_step cfg b (resetTimer_fires t b)"

inductive cb_step :: "breaker_config \<Rightarrow> breaker \<Rightarrow> breaker \<Rightarrow> bool" for cfg where
  cb_call: "cb_call_step cfg b b' \<Longrightarrow> cb_step cfg b b'"
| cb_manual_open: "cb_step cfg b (breaker_open cfg b)"
| cb_manual_close: "cb_step cfg b (breaker_close b)"

inductive_cases cb_call_stepE: "cb_call_step cfg b b'"
inductive_cases cb_stepE: "cb_step cfg b b'"

abbreviation cb_reachable :: "breaker_config \<Rightarrow> breaker \<Rightarrow> bool" where
  "cb_reachable cfg \<equiv> reachable (\<lambda>b. b = createCircuitBreaker) (cb_step cfg)"

section \<open>The invariant\<close>

text \<open>
  An open circuit always has exactly one pending timer, which is the one \<open>resetTimer\<close> names,
  and no timer is pending in the other states: no stale timer can half-open a closed circuit,
  and no open circuit is left without one.
\<close>

definition set_option_list :: "'a option \<Rightarrow> 'a list" where
  "set_option_list x = (case x of None \<Rightarrow> [] | Some y \<Rightarrow> [y])"

lemma set_option_list_simps [simp]:
  "set_option_list None = []" "set_option_list (Some y) = [y]"
  by (simp_all add: set_option_list_def)

definition breaker_ok :: "breaker_config \<Rightarrow> breaker \<Rightarrow> bool" where
  "breaker_ok cfg b \<longleftrightarrow>
     (currentState b = OPEN \<longrightarrow> resetTimeout cfg \<noteq> 0 \<and> resetTimer b \<noteq> None) \<and>
     timers b = (if currentState b = OPEN then set_option_list (resetTimer b) else []) \<and>
     0 \<le> failureCount b \<and> 0 \<le> successCount b \<and>
     (currentState b = CLOSED \<longrightarrow>
        successCount b = 0 \<and> (failureCount b = 0 \<or> failureCount b < failureThreshold cfg)) \<and>
     (currentState b = HALF_OPEN \<longrightarrow>
        successCount b = 0 \<or> successCount b < successThreshold cfg)"

lemma breaker_ok_init: "breaker_ok cfg createCircuitBreaker"
  by (simp add: breaker_ok_def createCircuitBreaker_def)

lemma startResetTimer_ok:
  assumes "timers b = [] \<or> timers b = set_option_list (resetTimer b)"
    and "currentState b = OPEN" "0 \<le> failureCount b" "0 \<le> successCount b"
  shows "breaker_ok cfg (startResetTimer cfg b)"
  using assms
  by (cases "resetTimer b") (auto simp: breaker_ok_def breaker_defs Let_def)

lemma breaker_ok_timers:
  "breaker_ok cfg b \<Longrightarrow> timers b = [] \<or> timers b = set_option_list (resetTimer b)"
  by (auto simp: breaker_ok_def split: if_splits)

lemma open_restart_ok:
  assumes "breaker_ok cfg b" "resetTimer b' = resetTimer b" "timers b' = timers b"
    "0 \<le> failureCount b'" "0 \<le> successCount b'"
  shows "breaker_ok cfg (startResetTimer cfg (transitionTo OPEN b'))"
  using assms breaker_ok_timers [OF assms(1)]
  by (intro startResetTimer_ok) (simp_all add: transitionTo_def)

lemma breaker_ok_counts: "breaker_ok cfg b \<Longrightarrow> 0 \<le> failureCount b \<and> 0 \<le> successCount b"
  by (simp add: breaker_ok_def)

lemma onSuccess_ok:
  "breaker_ok cfg b \<Longrightarrow> breaker_ok cfg (onSuccess cfg now b)"
  by (cases "currentState b") (auto simp: breaker_ok_def onSuccess_def transitionTo_def Let_def)

lemma onFailure_ok:
  assumes "breaker_ok cfg b"
  shows "breaker_ok cfg (onFailure cfg now b)"
proof -
  let ?b = "b\<lparr>lastFailureTime := Some now, failureCount := failureCount b + 1\<rparr>"
  have start: "breaker_ok cfg (startResetTimer cfg (transitionTo OPEN ?b))"
    "breaker_ok cfg (startResetTimer cfg (transitionTo OPEN (?b\<lparr>successCount := 0\<rparr>)))"
    using breaker_ok_counts [OF assms] by (simp_all add: open_restart_ok [OF assms])
  show ?thesis
    using assms start
    by (cases "currentState b") (auto simp: onFailure_def Let_def breaker_ok_def)
qed

lemma execute_finally_ok: "breaker_ok cfg b \<Longrightarrow> breaker_ok cfg (execute_finally b)"
  by (simp add: breaker_ok_def execute_finally_def)

lemma settle_call_ok: "breaker_ok cfg b \<Longrightarrow> breaker_ok cfg (settle_call i b)"
  by (simp add: breaker_ok_def settle_call_def)

lemma execute_begin_ok: "breaker_ok cfg b \<Longrightarrow> execute_begin cfg b = Inr b' \<Longrightarrow> breaker_ok cfg b'"
  by (auto simp: breaker_ok_def execute_begin_def split: if_splits)

lemma resetTimer_fires_ok:
  "breaker_ok cfg b \<Longrightarrow> t \<in> set (timers b) \<Longrightarrow> breaker_ok cfg (resetTimer_fires t b)"
  by (auto simp: breaker_ok_def resetTimer_fires_def transitionTo_def)

lemma breaker_open_ok: "breaker_ok cfg b \<Longrightarrow> breaker_ok cfg (breaker_open cfg b)"
  by (simp add: breaker_open_def open_restart_ok breaker_ok_counts)

lemma breaker_close_ok: "breaker_ok cfg b \<Longrightarrow> breaker_ok cfg (breaker_close b)"
  by (cases "resetTimer b") (auto simp: breaker_close_def clearResetTimer_def transitionTo_def breaker_ok_def)

lemmas breaker_ok_intros = onSuccess_ok onFailure_ok execute_finally_ok settle_call_ok
  execute_begin_ok resetTimer_fires_ok breaker_open_ok breaker_close_ok

lemma cb_call_step_ok: "cb_call_step cfg b b' \<Longrightarrow> breaker_ok cfg b \<Longrightarrow> breaker_ok cfg b'"
  by (erule cb_call_stepE) (auto simp: execute_end_def intro: breaker_ok_intros)

interpretation cb: inductive_invariant "\<lambda>b. b = createCircuitBreaker" "cb_step cfg" "breaker_ok cfg"
  for cfg
  by unfold_locales
     (auto simp: breaker_ok_init elim!: cb_stepE intro: cb_call_step_ok breaker_ok_intros)


section \<open>Sequential use\<close>

definition execute_call :: "breaker_config \<Rightarrow> int \<Rightarrow> bool \<Rightarrow> breaker \<Rightarrow> breaker" where
  \<comment> \<open>one call of \<open>execute\<close> awaited to its end; \<open>ok\<close> tells whether \<open>fn\<close> resolves\<close>
  "execute_call cfg now ok b =
     (case execute_begin cfg b of
        Inl e \<Rightarrow> b
      | Inr b' \<Rightarrow> execute_end cfg now ok (settle_call (length (inFlight b)) b'))"

fun execute_calls :: "breaker_config \<Rightarrow> (int \<times> bool) list \<Rightarrow> breaker \<Rightarrow> breaker" where
  "execute_calls cfg [] b = b"
| "execute_calls cfg ((now, ok) # cs) b = execute_calls cfg cs (execute_call cfg now ok b)"

lemma execute_call_step: "(cb_call_step cfg)\<^sup>*\<^sup>* b (execute_call cfg now ok b)"
proof (cases "execute_begin cfg b")
  case (Inr b')
  then have "length (inFlight b) < length (inFlight b')"
    by (auto simp: execute_begin_def split: if_splits)
  then show ?thesis
    using Inr by (auto simp: execute_call_def intro: cb_begin cb_settle rtranclp_trans r_into_rtranclp)
qed (simp add: execute_call_def)

lemma execute_calls_steps: "(cb_call_step cfg)\<^sup>*\<^sup>* b (execute_calls cfg cs b)"
  by (induction cfg cs b rule: execute_calls.induct) (auto intro: rtranclp_trans execute_call_step)

lemma execute_calls_reachable:
  assumes "cb_reachable cfg b" shows "cb_reachable cfg (execute_calls cfg cs b)"
proof -
  have "(cb_step cfg)\<^sup>*\<^sup>* b (execute_calls cfg cs b)"
    using execute_calls_steps mono_rtranclp [of "cb_call_step cfg" "cb_step cfg"] cb_call by blast
  then show ?thesis using assms by (blast intro: reachable_steps)
qed

text \<open>The reference: a circuit trips on the first run of \<open>n\<close> failures in a row.\<close>

fun trips :: "nat \<Rightarrow> nat \<Rightarrow> bool list \<Rightarrow> bool" where
  "trips n k [] = False"
| "trips n k (ok # oks) = (if ok then trips n 0 oks else n \<le> Suc k \<or> trips n (Suc k) oks)"

definition failure_run :: "nat \<Rightarrow> bool list \<Rightarrow> bool" where
  "failure_run n oks \<longleftrightarrow> (\<exists>xs ys. oks = xs @ replicate n False @ ys)"

lemma failure_run_Cons:
  "failure_run n (ok # oks) \<longleftrightarrow> (\<exists>ys. ok # oks = replicate n False @ ys) \<or> failure_run n oks"
  unfolding failure_run_def by (metis append_Cons append_Nil neq_Nil_conv list.inject)

lemma failure_run_prefix: "oks = replicate n False @ ys \<Longrightarrow> failure_run n oks"
  unfolding failure_run_def by (metis append_Nil)

lemma replicate_prefix_shorter:
  "m \<le> n \<Longrightarrow> (\<exists>ys. oks = replicate n False @ ys) \<Longrightarrow> \<exists>ys. oks = replicate m False @ ys"
  by (metis append.assoc le_add_diff_inverse replicate_add)

lemma trips_iff:
  "k < n \<Longrightarrow> trips n k oks \<longleftrightarrow> failure_run n oks \<or> (\<exists>ys. oks = replicate (n - k) False @ ys)"
proof (induction oks arbitrary: k)
  case Nil
  then show ?case by (simp add: failure_run_def)
next
  case (Cons ok oks)
  obtain m where m: "n - k = Suc m" using Cons.prems by (metis Suc_diff_Suc)
  obtain n' where n': "n = Suc n'" using Cons.prems by (cases n) auto
  show ?case
  proof (cases ok)
    case True
    then show ?thesis
      using Cons.IH [of 0] n' m by (auto simp: failure_run_Cons intro: failure_run_prefix)
  next
    case False
    have short: "(\<exists>ys. oks = replicate n' False @ ys) \<Longrightarrow> \<exists>ys. oks = replicate m False @ ys"
      by (rule replicate_prefix_shorter [of m n']) (use m n' in auto)
    show ?thesis
    proof (cases "n \<le> Suc k")
      case True
      then have "m = 0" using m by simp
      then show ?thesis using False True m by simp
    next
      case far: False
      then have "n - Suc k = m" using m by simp
      then show ?thesis
        using Cons.IH [of "Suc k"] far False m n' short by (auto simp: failure_run_Cons)
    qed
  qed
qed

lemma trips_failure_run: "0 < n \<Longrightarrow> trips n 0 oks \<longleftrightarrow> failure_run n oks"
  by (auto simp: trips_iff intro: failure_run_prefix)

lemma execute_calls_open: "currentState b = OPEN \<Longrightarrow> execute_calls cfg cs b = b"
  by (induction cfg cs b rule: execute_calls.induct) (auto simp: execute_call_def execute_begin_def)

lemma execute_call_closed:
  assumes "currentState b = CLOSED" "failureCount b = int k" "resetTimeout cfg \<noteq> 0"
  shows "currentState (execute_call cfg now ok b) =
           (if \<not> ok \<and> failureThreshold cfg \<le> int k + 1 then OPEN else CLOSED)"
    and "\<not> (\<not> ok \<and> failureThreshold cfg \<le> int k + 1) \<Longrightarrow>
           failureCount (execute_call cfg now ok b) = (if ok then 0 else int k + 1)"
  using assms
  by (auto simp: execute_call_def breaker_defs Let_def split: option.splits)

lemma execute_calls_trips:
  assumes "resetTimeout cfg \<noteq> 0" "0 < failureThreshold cfg"
  shows "currentState b = CLOSED \<Longrightarrow> failureCount b = int k \<Longrightarrow>
    currentState (execute_calls cfg cs b) =
      (if trips (nat (failureThreshold cfg)) k (map snd cs) then OPEN else CLOSED)"
proof (induction cs arbitrary: b k)
  case (Cons c cs)
  obtain now ok where c: "c = (now, ok)" by (cases c)
  note next_state = execute_call_closed [OF Cons.prems assms(1), where now = now and ok = ok]
  show ?case
  proof (cases "\<not> ok \<and> failureThreshold cfg \<le> int k + 1")
    case True
    then show ?thesis using c next_state(1) by (simp add: execute_calls_open nat_le_iff)
  next
    case False
    then show ?thesis
      using c next_state Cons.IH [of "execute_call cfg now ok b" "if ok then 0 else Suc k"]
      by (auto simp: nat_le_iff)
  qed
qed simp

text \<open>C39: a fresh breaker used by sequential calls (no reset timer elapsing in between) is open
  exactly when some \<open>failureThreshold\<close> calls in a row have failed, and closed otherwise:
  every success resets the count, and no shorter or interrupted run of failures trips it.\<close>
theorem opens_exactly_on_failure_run:
  assumes "0 < failureThreshold cfg" "resetTimeout cfg \<noteq> 0"
  shows "currentState (execute_calls cfg cs createCircuitBreaker) =
    (if failure_run (nat (failureThreshold cfg)) (map snd cs) then OPEN else CLOSED)"
  using execute_calls_trips [OF assms(2,1), of createCircuitBreaker 0 cs] assms(1)
  by (simp add: createCircuitBreaker_def trips_failure_run)

section \<open>Rejection and recovery\<close>

text \<open>While the circuit is open every call is rejected, before its function is called,
  with an error that carries the breaker's state; the pending timer moves the circuit to
  half-open with its success count cleared, and the first call after that is admitted (as the
  test call) unless the test flag is still set.\<close>
theorem open_circuit_rejects_then_tests:
  assumes "cb_reachable cfg b" "currentState b = OPEN"
  shows "execute_begin cfg b = Inl (rejection cfg ''Circuit breaker is OPEN'' b) \<and>
    (\<exists>t b'. timers b = [t] \<and> b' = resetTimer_fires t b \<and> cb_step cfg b b' \<and>
       currentState b' = HALF_OPEN \<and> successCount b' = 0 \<and> timers b' = [] \<and>
       (if testInProgress b
        then execute_begin cfg b' = Inl (rejection cfg ''Circuit breaker test call already in progress'' b')
        else execute_begin cfg b' = Inr (b'\<lparr>testInProgress := True, inFlight := inFlight b' @ [True]\<rparr>)))"
proof -
  obtain t where t: "timers b = [t]"
    using cb.reachable_inv [OF assms(1)] assms(2) by (auto simp: breaker_ok_def)
  then have "cb_step cfg b (resetTimer_fires t b)"
    by (intro cb_call cb_timer) simp
  then show ?thesis
    using t assms(2) by (auto simp: execute_begin_def resetTimer_fires_def transitionTo_def)
qed

section \<open>The test flag\<close>

text \<open>
  The \<open>finally\<close> block of \<open>execute\<close> clears \<open>testInProgress\<close> only while the circuit is still
  half-open. A test call that closes or reopens the circuit therefore leaves the flag set, and
  nothing else ever clears it: \<open>stuck\<close> is the state this leads to.
\<close>

definition stuck :: "breaker \<Rightarrow> bool" where
  "stuck b \<longleftrightarrow> currentState b = HALF_OPEN \<and> testInProgress b \<and> inFlight b = [] \<and> timers b = []"

lemma stuck_step: "cb_call_step cfg b b' \<Longrightarrow> stuck b \<Longrightarrow> b' = b"
  by (erule cb_call_stepE) (auto simp: stuck_def execute_begin_def split: if_splits)

lemma stuck_steps: "(cb_call_step cfg)\<^sup>*\<^sup>* b b' \<Longrightarrow> stuck b \<Longrightarrow> b' = b"
  by (induction rule: rtranclp_induct) (auto dest: stuck_step)

definition one_failure :: breaker_config where
  "one_failure = \<lparr>failureThreshold = 1, resetTimeout = 30000, successThreshold = 1\<rparr>"

definition recovered_once :: breaker where
  \<comment> \<open>one failure opens, the timer half-opens, a successful test closes; then it fails again\<close>
  "recovered_once =
     resetTimer_fires 1
       (execute_calls one_failure [(2, True), (3, False)]
         (resetTimer_fires 0 (execute_calls one_failure [(1, False)] createCircuitBreaker)))"

lemmas breaker_eval = one_failure_def recovered_once_def createCircuitBreaker_def
  execute_call_def breaker_defs rejection_def

lemma timer_reachable:
  "cb_reachable cfg b \<Longrightarrow> t \<in> set (timers b) \<Longrightarrow> cb_reachable cfg (resetTimer_fires t b)"
  by (blast intro: reachable.reach_step cb_call cb_timer)

lemma recovered_once_reachable: "cb_reachable one_failure recovered_once"
  unfolding recovered_once_def
  by (intro timer_reachable execute_calls_reachable reachable.reach_init)
     (simp_all add: breaker_eval)

text \<open>A breaker that has recovered once can never recover again. With a failure threshold
  of 1, the run "failure, reset timeout, successful test call, failure, reset timeout" ends
  half-open with the test flag set and no call in flight; from there every further call is
  rejected, and no call, settlement or timer ever changes the state.\<close>
theorem recovered_breaker_gets_stuck:
  "cb_reachable one_failure recovered_once \<and> currentState recovered_once = HALF_OPEN \<and>
   inFlight recovered_once = [] \<and>
   (\<forall>b. (cb_call_step one_failure)\<^sup>*\<^sup>* recovered_once b \<longrightarrow>
      execute_begin one_failure b =
        Inl (rejection one_failure ''Circuit breaker test call already in progress'' recovered_once))"
proof -
  have st: "stuck recovered_once" by (simp add: stuck_def breaker_eval)
  then have "execute_begin one_failure recovered_once =
      Inl (rejection one_failure ''Circuit breaker test call already in progress'' recovered_once)"
    by (simp add: stuck_def execute_begin_def)
  then show ?thesis
    using st recovered_once_reachable stuck_steps [OF _ st] by (auto simp: stuck_def)
qed

text \<open>
  A call that was admitted while the circuit was closed and settles while it is half-open also
  runs the \<open>finally\<close> block, and clears the flag of the test call that is still in flight.
\<close>

definition two_successes :: breaker_config where
  "two_successes = \<lparr>failureThreshold = 1, resetTimeout = 30000, successThreshold = 2\<rparr>"

definition begin_call :: "breaker_config \<Rightarrow> breaker \<Rightarrow> breaker" where
  "begin_call cfg b = (case execute_begin cfg b of Inl e \<Rightarrow> b | Inr b' \<Rightarrow> b')"

lemma begin_call_reachable: "cb_reachable cfg b \<Longrightarrow> cb_reachable cfg (begin_call cfg b)"
  by (auto simp: begin_call_def split: sum.split intro: reachable.reach_step cb_call cb_begin)

lemma settle_reachable:
  "cb_reachable cfg b \<Longrightarrow> i < length (inFlight b) \<Longrightarrow>
     cb_reachable cfg (execute_end cfg now ok (settle_call i b))"
  by (blast intro: reachable.reach_step cb_call cb_settle)

definition late_settlement :: breaker where
  "late_settlement =
     begin_call two_successes
       (execute_end two_successes 3 True (settle_call 0
         (begin_call two_successes
           (resetTimer_fires 0
             (execute_end two_successes 2 False (settle_call 1
               (begin_call two_successes (begin_call two_successes createCircuitBreaker))))))))"

text \<open>Two test calls can be in flight at once in the half-open state, when a call admitted
  before the circuit opened settles after the first test call was admitted.\<close>
theorem two_test_calls_in_flight:
  "cb_reachable two_successes late_settlement \<and> currentState late_settlement = HALF_OPEN \<and>
   inFlight late_settlement = [True, True]"
proof
  show "cb_reachable two_successes late_settlement"
    unfolding late_settlement_def
    by (intro begin_call_reachable settle_reachable timer_reachable reachable.reach_init)
       (simp_all add: breaker_eval begin_call_def two_successes_def)
qed (simp add: breaker_eval begin_call_def two_successes_def late_settlement_def)

section \<open>Witnesses\<close>


theorem opens_exactly_on_failure_run_witness:
  "0 < failureThreshold breaker_DEFAULT_CONFIG \<and> resetTimeout breaker_DEFAULT_CONFIG \<noteq> 0 \<and>
   currentState (execute_calls breaker_DEFAULT_CONFIG
     [(1, True), (2, False), (3, False), (4, False), (5, False), (6, False)] createCircuitBreaker) = OPEN"
proof -
  have "failure_run 5 [True, False, False, False, False, False]"
    by (rule trips_failure_run [THEN iffD1]) (simp_all add: numeral_eq_Suc)
  then show ?thesis
    using opens_exactly_on_failure_run [of breaker_DEFAULT_CONFIG
        "[(1, True), (2, False), (3, False), (4, False), (5, False), (6, False)]"]
    by (simp add: breaker_DEFAULT_CONFIG_def)
qed

theorem open_circuit_rejects_then_tests_witness:
  "cb_reachable one_failure (execute_calls one_failure [(1, False)] createCircuitBreaker) \<and>
   currentState (execute_calls one_failure [(1, False)] createCircuitBreaker) = OPEN \<and>
   timers (execute_calls one_failure [(1, False)] createCircuitBreaker) = [0]"
  (is "cb_reachable one_failure ?b \<and> _ \<and> _")
proof -
  have r: "cb_reachable one_failure ?b"
    by (intro execute_calls_reachable reachable.reach_init) simp
  moreover have o: "currentState ?b = OPEN" by (simp add: breaker_eval)
  moreover obtain t where "timers ?b = [t]"
    using open_circuit_rejects_then_tests [OF r o] by blast
  ultimately show ?thesis by (simp add: breaker_eval)
qed

theorem recovered_breaker_gets_stuck_witness:
  "\<exists>e. execute_begin one_failure recovered_once = Inl e"
  using recovered_breaker_gets_stuck by blast

end
