(* ===== verification/Cache_Memory.thy ===== *)
theory Cache_Memory
  imports Blaize_Prelude
begin

text \<open>
  The in-memory cache adapter (\<open>plugins/cache/src/storage/memory.ts\<close>): an LRU map with a time
  to live per entry.

  \<open>mem_cache\<close> holds the private fields of \<open>MemoryAdapter\<close>; \<open>cm_store\<close> is the JavaScript \<open>Map\<close>
  whose insertion order is the recency order. \<open>cm_pending\<close> and \<open>cm_nextTimer\<close> are the runtime's
  timer queue: handle, key captured by the callback, due time. Times are milliseconds, TTLs are
  whole seconds. \<open>Date.now()\<close> is the argument \<open>now\<close>; every operation runs without
  interleaving, so one value serves a whole operation. Operations whose eviction loop might not
  end return \<open>None\<close> in that case.
\<close>

section \<open>State\<close>

record cache_entry =
  ce_value :: string
  ce_expiresAt :: int
  ce_size :: int

record mem_cache =
  cm_store :: "(string, cache_entry) js_map"
  cm_timers :: "(string, nat) js_map"
  cm_maxEntries :: int
  cm_defaultTtl :: "int option"
  cm_hits :: int
  cm_misses :: int
  cm_evictions :: int
  cm_startTime :: int
  cm_pending :: "(nat, string \<times> int) js_map"
  cm_nextTimer :: nat

record cache_stats =
  cs_hits :: int
  cs_misses :: int
  cs_evictions :: int
  cs_memoryUsage :: int
  cs_entryCount :: int
  cs_uptime :: int

definition new_MemoryAdapter :: "int option \<Rightarrow> int option \<Rightarrow> int \<Rightarrow> mem_cache" where
  "new_MemoryAdapter maxE ttl now =
     \<lparr>cm_store = [], cm_timers = [],
      cm_maxEntries = (case maxE of None \<Rightarrow> 1000 | Some n \<Rightarrow> n), cm_defaultTtl = ttl,
      cm_hits = 0, cm_misses = 0, cm_evictions = 0, cm_startTime = now,
      cm_pending = [], cm_nextTimer = 0\<rparr>"

section \<open>Operations\<close>

definition node_delay :: "int \<Rightarrow> int" where
  \<comment> \<open>\<open>setTimeout\<close> of the runtime: a delay below 1 or above \<open>2^31 - 1\<close> becomes 1 ms\<close>
  "node_delay d = (if 1 \<le> d \<and> d \<le> 2147483647 then d else 1)"

definition clear_key_timer :: "string \<Rightarrow> mem_cache \<Rightarrow> mem_cache" where
  "clear_key_timer key c =
     (case map_get (cm_timers c) key of
        None \<Rightarrow> c
      | Some t \<Rightarrow> c\<lparr>cm_pending := map_delete t (cm_pending c),
                    cm_timers := map_delete key (cm_timers c)\<rparr>)"

definition cm_delete :: "string \<Rightarrow> mem_cache \<Rightarrow> bool \<times> mem_cache" where
  "cm_delete key c =
     (let c = clear_key_timer key c
      in (map_has (cm_store c) key, c\<lparr>cm_store := map_delete key (cm_store c)\<rparr>))"

definition entry_expired :: "int \<Rightarrow> cache_entry \<Rightarrow> bool" where
  "entry_expired now e \<longleftrightarrow> ce_expiresAt e > 0 \<and> now \<ge> ce_expiresAt e"

definition cm_get :: "int \<Rightarrow> string \<Rightarrow> mem_cache \<Rightarrow> string option \<times> mem_cache" where
  "cm_get now key c =
     (case map_get (cm_store c) key of
        None \<Rightarrow> (None, c\<lparr>cm_misses := cm_misses c + 1\<rparr>)
      | Some e \<Rightarrow>
          if entry_expired now e
          then (let c = snd (cm_delete key c) in (None, c\<lparr>cm_misses := cm_misses c + 1\<rparr>))
          else (Some (ce_value e),
                c\<lparr>cm_store := map_set key e (map_delete key (cm_store c)),
                  cm_hits := cm_hits c + 1\<rparr>))"

definition evictLRU :: "mem_cache \<Rightarrow> mem_cache" where
  "evictLRU c =
     (case map_keys (cm_store c) of
        [] \<Rightarrow> c
      | k # _ \<Rightarrow> (let c = snd (cm_delete k c) in c\<lparr>cm_evictions := cm_evictions c + 1\<rparr>))"

partial_function (option) evict_loop :: "mem_cache \<Rightarrow> mem_cache option" where
  "evict_loop c =
     (if int (length (cm_store c)) > cm_maxEntries c then evict_loop (evictLRU c) else Some c)"

definition estimateSize :: "string \<Rightarrow> string \<Rightarrow> int" where
  "estimateSize key value =
     (let keySize = int (length key) * 2; valueSize = int (length value) * 2; overhead = 40
      in keySize + valueSize + overhead)"

definition effective_ttl :: "int option \<Rightarrow> mem_cache \<Rightarrow> int option" where
  "effective_ttl ttl c = (case ttl of None \<Rightarrow> cm_defaultTtl c | Some t \<Rightarrow> Some t)"

definition new_entry :: "int \<Rightarrow> string \<Rightarrow> string \<Rightarrow> int option \<Rightarrow> cache_entry" where
  \<comment> \<open>a TTL of \<open>0\<close> is falsy: no expiry\<close>
  "new_entry now key v ttl =
     \<lparr>ce_value = v,
      ce_expiresAt = (case ttl of None \<Rightarrow> 0 | Some t \<Rightarrow> if t \<noteq> 0 then now + t * 1000 else 0),
      ce_size = estimateSize key v\<rparr>"

definition arm_timer :: "int \<Rightarrow> string \<Rightarrow> int option \<Rightarrow> mem_cache \<Rightarrow> mem_cache" where
  "arm_timer now key ttl c =
     (case ttl of
        None \<Rightarrow> c
      | Some t \<Rightarrow>
          if t > 0
          then c\<lparr>cm_pending := map_set (cm_nextTimer c) (key, now + node_delay (t * 1000)) (cm_pending c),
                 cm_timers := map_set key (cm_nextTimer c) (cm_timers c),
                 cm_nextTimer := Suc (cm_nextTimer c)\<rparr>
          else c)"

definition store_entry :: "int \<Rightarrow> string \<Rightarrow> string \<Rightarrow> int option \<Rightarrow> mem_cache \<Rightarrow> mem_cache" where
  \<comment> \<open>\<open>set\<close> up to its eviction loop\<close>
  "store_entry now key v ttl c0 =
     (let c = clear_key_timer key c0;
          c = (if map_has (cm_store c) key then c\<lparr>cm_store := map_delete key (cm_store c)\<rparr> else c);
          c = (if int (length (cm_store c)) \<ge> cm_maxEntries c then evictLRU c else c)
      in c\<lparr>cm_store := map_set key (new_entry now key v (effective_ttl ttl c)) (cm_store c)\<rparr>)"

definition cm_set ::
  "int \<Rightarrow> string \<Rightarrow> string \<Rightarrow> int option \<Rightarrow> mem_cache \<Rightarrow> (string + mem_cache) option" where
  "cm_set now key v ttl c =
     (case ttl of
        Some t \<Rightarrow> if t < 0 then Some (Inl ''TTL must be non-negative'')
                  else map_option (\<lambda>c'. Inr (arm_timer now key (effective_ttl ttl c') c'))
                         (evict_loop (store_entry now key v ttl c))
      | None \<Rightarrow> map_option (\<lambda>c'. Inr (arm_timer now key (effective_ttl ttl c') c'))
                  (evict_loop (store_entry now key v ttl c)))"

fun cm_mget :: "int \<Rightarrow> string list \<Rightarrow> mem_cache \<Rightarrow> string option list \<times> mem_cache" where
  "cm_mget now [] c = ([], c)"
| "cm_mget now (k # ks) c =
     (let (v, c') = cm_get now k c; (vs, c'') = cm_mget now ks c' in (v # vs, c''))"

fun cm_mset ::
  "int \<Rightarrow> (string \<times> string \<times> int option) list \<Rightarrow> mem_cache \<Rightarrow> (string option \<times> mem_cache) option" where
  \<comment> \<open>an error ends the loop; the entries written before it stay\<close>
  "cm_mset now [] c = Some (None, c)"
| "cm_mset now ((k, v, ttl) # es) c =
     (case cm_set now k v ttl c of
        None \<Rightarrow> None
      | Some (Inl e) \<Rightarrow> Some (Some e, c)
      | Some (Inr c') \<Rightarrow> cm_mset now es c')"

text \<open>
  \<open>globToRegex\<close> builds \<open>^...$\<close> from literal characters, \<open>.*\<close> and \<open>.\<close>; the dot does not match
  line terminators. \<open>globToRegex\<close> here yields that sequence of atoms and \<open>regex_test\<close> matches it.
\<close>

datatype glob_atom = Lit char | AnyOne | AnyMany

definition globToRegex :: "string \<Rightarrow> glob_atom list" where
  "globToRegex pattern =
     map (\<lambda>c. if c = CHR ''*'' then AnyMany else if c = CHR ''?'' then AnyOne else Lit c) pattern"

definition regex_dot :: "char \<Rightarrow> bool" where
  "regex_dot c \<longleftrightarrow> c \<noteq> CHR 0x0A \<and> c \<noteq> CHR 0x0D"

fun regex_test :: "glob_atom list \<Rightarrow> string \<Rightarrow> bool" where
  "regex_test [] s = (s = [])"
| "regex_test (Lit c # as) [] = False"
| "regex_test (Lit c # as) (d # s) = (c = d \<and> regex_test as s)"
| "regex_test (AnyOne # as) [] = False"
| "regex_test (AnyOne # as) (d # s) = (regex_dot d \<and> regex_test as s)"
| "regex_test (AnyMany # as) [] = regex_test as []"
| "regex_test (AnyMany # as) (d # s) =
     (regex_test as (d # s) \<or> (regex_dot d \<and> regex_test (AnyMany # as) s))"

definition valid_keys :: "int \<Rightarrow> mem_cache \<Rightarrow> string list" where
  "valid_keys now c =
     filter (\<lambda>key. case map_get (cm_store c) key of
                     None \<Rightarrow> False
                   | Some e \<Rightarrow> ce_expiresAt e = 0 \<or> now < ce_expiresAt e)
       (map_keys (cm_store c))"

definition cm_keys :: "int \<Rightarrow> string \<Rightarrow> mem_cache \<Rightarrow> string list" where
  "cm_keys now pattern c =
     (if pattern = ''*'' then valid_keys now c
      else filter (regex_test (globToRegex pattern)) (valid_keys now c))"

fun cm_delete_all :: "string list \<Rightarrow> mem_cache \<Rightarrow> mem_cache" where
  "cm_delete_all [] c = c"
| "cm_delete_all (k # ks) c = cm_delete_all ks (snd (cm_delete k c))"

definition cm_clear :: "int \<Rightarrow> string \<Rightarrow> mem_cache \<Rightarrow> int \<times> mem_cache" where
  "cm_clear now pattern c =
     (let keysToDelete = cm_keys now pattern c
      in (int (length keysToDelete), cm_delete_all keysToDelete c))"

definition cm_getTTL :: "int \<Rightarrow> string \<Rightarrow> mem_cache \<Rightarrow> int option" where
  "cm_getTTL now key c =
     (case map_get (cm_store c) key of
        None \<Rightarrow> None
      | Some e \<Rightarrow>
          if ce_expiresAt e = 0 then None
          else (let remainingMs = ce_expiresAt e - now
                in if remainingMs \<le> 0 then None else Some ((remainingMs + 999) div 1000)))"

definition calculateMemoryUsage :: "mem_cache \<Rightarrow> int" where
  "calculateMemoryUsage c = foldl (\<lambda>total ke. total + ce_size (snd ke)) 0 (cm_store c)"

definition cm_getStats :: "int \<Rightarrow> mem_cache \<Rightarrow> cache_stats" where
  "cm_getStats now c =
     \<lparr>cs_hits = cm_hits c, cs_misses = cm_misses c, cs_evictions = cm_evictions c,
      cs_memoryUsage = calculateMemoryUsage c, cs_entryCount = int (length (cm_store c)),
      cs_uptime = now - cm_startTime c\<rparr>"

definition cm_healthCheck :: "mem_cache \<Rightarrow> bool \<times> string \<times> int \<times> int \<times> int" where
  "cm_healthCheck c =
     (True, ''In-memory adapter operational'',
      int (length (cm_store c)), cm_maxEntries c, calculateMemoryUsage c)"

definition cm_disconnect :: "mem_cache \<Rightarrow> mem_cache" where
  "cm_disconnect c =
     c\<lparr>cm_pending := filter (\<lambda>(t, _). t \<notin> snd ` set (cm_timers c)) (cm_pending c),
       cm_timers := [], cm_store := []\<rparr>"

definition cm_timer_fires :: "nat \<Rightarrow> mem_cache \<Rightarrow> mem_cache" where
  \<comment> \<open>the callback of an expiration timer: \<open>this.delete(key)\<close>\<close>
  "cm_timer_fires t c =
     (case map_get (cm_pending c) t of
        None \<Rightarrow> c
      | Some (key, due) \<Rightarrow>
          snd (cm_delete key (c\<lparr>cm_pending := map_delete t (cm_pending c)\<rparr>)))"

lemmas cm_defs = clear_key_timer_def cm_delete_def cm_get_def evictLRU_def store_entry_def
  arm_timer_def cm_set_def cm_disconnect_def cm_timer_fires_def

section \<open>The invariant\<close>

text \<open>
  Timers and entries stay paired: a pending timer is the one registered for its key, it is due
  no later than the entry's expiry, and it was armed for that very entry, so firing it never
  removes an entry written later.
\<close>

definition paired :: "(nat \<rightharpoonup> string \<times> int) \<Rightarrow> (string \<rightharpoonup> nat) \<Rightarrow> nat \<Rightarrow> bool" where
  "paired pend tm n \<longleftrightarrow>
     (\<forall>t k d. pend t = Some (k, d) \<longrightarrow> t < n \<and> tm k = Some t) \<and>
     (\<forall>k t. tm k = Some t \<longrightarrow> (\<exists>d. pend t = Some (k, d)))"

definition armed_for :: "cache_entry \<Rightarrow> int \<Rightarrow> bool" where
  "armed_for e d \<longleftrightarrow>
     (\<exists>s ttl. 0 < ttl \<and> ce_expiresAt e = s + ttl * 1000 \<and> d = s + node_delay (ttl * 1000))"

definition timers_match :: "(nat \<rightharpoonup> string \<times> int) \<Rightarrow> (string \<rightharpoonup> cache_entry) \<Rightarrow> int \<Rightarrow> bool" where
  "timers_match pend st m \<longleftrightarrow>
     (\<forall>t k d. pend t = Some (k, d) \<longrightarrow>
        (st k = None \<longrightarrow> m \<le> 0) \<and> (\<forall>e. st k = Some e \<longrightarrow> armed_for e d))"

definition timers_ok :: "mem_cache \<Rightarrow> bool" where
  "timers_ok c \<longleftrightarrow>
     paired (map_get (cm_pending c)) (map_get (cm_timers c)) (cm_nextTimer c) \<and>
     timers_match (map_get (cm_pending c)) (map_get (cm_store c)) (cm_maxEntries c)"

definition cache_ok :: "mem_cache \<Rightarrow> bool" where
  "cache_ok c \<longleftrightarrow>
     map_ok (cm_store c) \<and> int (length (cm_store c)) \<le> cm_maxEntries c \<and> timers_ok c"

lemma cache_ok_new:
  "0 \<le> (case m of None \<Rightarrow> 1000 | Some n \<Rightarrow> n) \<Longrightarrow> cache_ok (new_MemoryAdapter m ttl now)"
  by (simp add: cache_ok_def timers_ok_def paired_def timers_match_def new_MemoryAdapter_def)

lemma pendingD:
  assumes "cache_ok c" "map_get (cm_pending c) t = Some (k, d)"
  shows "map_get (cm_timers c) k = Some t" "map_get (cm_store c) k = Some e \<Longrightarrow> armed_for e d"
  using assms unfolding cache_ok_def timers_ok_def paired_def timers_match_def by blast+

lemma registeredD:
  assumes "cache_ok c" "map_get (cm_timers c) k = Some t"
  obtains d where "map_get (cm_pending c) t = Some (k, d)"
  using assms unfolding cache_ok_def timers_ok_def paired_def by blast

lemma paired_delete:
  "paired pend tm n \<Longrightarrow> tm k = Some t \<Longrightarrow> paired (pend(t := None)) (tm(k := None)) n"
  unfolding paired_def by (smt (verit) fun_upd_apply option.distinct(1) option.inject prod.inject)

lemma timers_match_delete:
  "timers_match pend st m \<Longrightarrow> timers_match (pend(t := None)) st m"
  unfolding timers_match_def by (auto split: if_splits)

lemma timers_match_free:
  \<comment> \<open>without a timer for \<open>k\<close> the entry of \<open>k\<close> may change\<close>
  "paired pend tm n \<Longrightarrow> tm k = None \<Longrightarrow> timers_match pend st m \<Longrightarrow> timers_match pend (st(k := x)) m"
  unfolding timers_match_def paired_def by (smt (verit) fun_upd_apply option.distinct(1))

lemma clear_key_timer_fields [simp]:
  "cm_store (clear_key_timer k c) = cm_store c"
  "cm_maxEntries (clear_key_timer k c) = cm_maxEntries c"
  "cm_defaultTtl (clear_key_timer k c) = cm_defaultTtl c"
  "cm_nextTimer (clear_key_timer k c) = cm_nextTimer c"
  "cm_evictions (clear_key_timer k c) = cm_evictions c"
  by (simp_all add: clear_key_timer_def split: option.splits)

lemma cm_delete_fields [simp]:
  "cm_store (snd (cm_delete k c)) = map_delete k (cm_store c)"
  "cm_maxEntries (snd (cm_delete k c)) = cm_maxEntries c"
  "cm_defaultTtl (snd (cm_delete k c)) = cm_defaultTtl c"
  "cm_nextTimer (snd (cm_delete k c)) = cm_nextTimer c"
  "cm_evictions (snd (cm_delete k c)) = cm_evictions c"
  "fst (cm_delete k c) = map_has (cm_store c) k"
  by (simp_all add: cm_delete_def Let_def)

lemma clear_key_timer_ok:
  assumes "timers_ok c"
  shows "timers_ok (clear_key_timer k c)" "map_get (cm_timers (clear_key_timer k c)) k = None"
  using assms
  by (auto simp: clear_key_timer_def timers_ok_def paired_delete timers_match_delete
      split: option.splits)

lemma timers_ok_store:
  assumes "timers_ok c" "map_get (cm_timers c) k = None"
    "map_get s = (map_get (cm_store c))(k := x)"
  shows "timers_ok (c\<lparr>cm_store := s\<rparr>)"
  using assms timers_match_free by (auto simp: timers_ok_def)

lemma timers_ok_counters [simp]:
  "timers_ok (c\<lparr>cm_hits := h\<rparr>) = timers_ok c" "timers_ok (c\<lparr>cm_misses := n\<rparr>) = timers_ok c"
  "timers_ok (c\<lparr>cm_evictions := n\<rparr>) = timers_ok c"
  by (simp_all add: timers_ok_def)

lemma cache_ok_counters [simp]:
  "cache_ok (c\<lparr>cm_hits := h\<rparr>) = cache_ok c" "cache_ok (c\<lparr>cm_misses := n\<rparr>) = cache_ok c"
  "cache_ok (c\<lparr>cm_evictions := n\<rparr>) = cache_ok c"
  by (simp_all add: cache_ok_def)

lemma cm_delete_timers_ok: "timers_ok c \<Longrightarrow> timers_ok (snd (cm_delete k c))"
  using clear_key_timer_ok [of c k]
  by (simp add: cm_delete_def Let_def timers_ok_store [where k = k and x = None])

lemma cm_delete_ok: "cache_ok c \<Longrightarrow> cache_ok (snd (cm_delete k c))"
  using length_delete_le [of k "cm_store c"] by (simp add: cache_ok_def cm_delete_timers_ok)

lemma touched_store_length:
  "map_ok s \<Longrightarrow> map_get s k = Some e \<Longrightarrow> length (map_set k e (map_delete k s)) = length s"
  by (cases "s = []") (simp_all add: length_map_set length_map_delete)

lemma touched_store_get:
  "map_get s k = Some e \<Longrightarrow> map_get (map_set k e (map_delete k s)) = map_get s"
  by auto

lemma cm_get_ok: "cache_ok c \<Longrightarrow> cache_ok (snd (cm_get now k c))"
proof (cases "map_get (cm_store c) k")
  case (Some e)
  assume ok: "cache_ok c"
  let ?s = "map_set k e (map_delete k (cm_store c))"
  have "cache_ok (c\<lparr>cm_store := ?s\<rparr>)"
    using ok Some touched_store_length [OF _ Some] touched_store_get [OF Some]
    by (simp add: cache_ok_def timers_ok_def del: map_get_set map_get_delete)
  then have "cache_ok (c\<lparr>cm_store := ?s, cm_hits := cm_hits c + 1\<rparr>)"
    using cache_ok_counters(1) [where c = "c\<lparr>cm_store := ?s\<rparr>"] by simp
  then show ?thesis
    using ok Some by (simp add: cm_get_def Let_def cm_delete_ok)
qed (simp add: cm_get_def)

section \<open>Eviction\<close>

lemma evictLRU_fields [simp]:
  "cm_maxEntries (evictLRU c) = cm_maxEntries c"
  "cm_defaultTtl (evictLRU c) = cm_defaultTtl c"
  "cm_nextTimer (evictLRU c) = cm_nextTimer c"
  by (simp_all add: evictLRU_def Let_def split: list.splits)

lemma map_delete_hd: "map_ok ((k, v) # s) \<Longrightarrow> map_delete k ((k, v) # s) = s"
  by simp

lemma evictLRU_store: "map_ok (cm_store c) \<Longrightarrow> cm_store (evictLRU c) = tl (cm_store c)"
  by (cases "cm_store c") (auto simp: evictLRU_def Let_def)

lemma evictLRU_timers_ok: "timers_ok c \<Longrightarrow> timers_ok (evictLRU c)"
  by (simp add: evictLRU_def Let_def cm_delete_timers_ok split: list.splits)

lemma evict_loop_done: "int (length (cm_store c)) \<le> cm_maxEntries c \<Longrightarrow> evict_loop c = Some c"
  by (simp add: evict_loop.simps)

lemma evict_loop_once:
  "map_ok (cm_store c) \<Longrightarrow> int (length (cm_store c)) = cm_maxEntries c + 1 \<Longrightarrow> 0 \<le> cm_maxEntries c
     \<Longrightarrow> evict_loop c = Some (evictLRU c)"
  by (subst evict_loop.simps, simp, subst evict_loop_done) (auto simp: evictLRU_store)

lemma evict_loop_result:
  "evict_loop c = Some c' \<Longrightarrow>
     cm_maxEntries c' = cm_maxEntries c \<and> int (length (cm_store c')) \<le> cm_maxEntries c"
proof (erule evict_loop.raw_induct [rotated])
  fix loop c c'
  assume IH: "\<And>c c'. loop c = Some c' \<Longrightarrow>
      cm_maxEntries c' = cm_maxEntries c \<and> int (length (cm_store c')) \<le> cm_maxEntries c"
    and body: "(if int (length (cm_store c)) > cm_maxEntries c then loop (evictLRU c) else Some c) = Some c'"
  show "cm_maxEntries c' = cm_maxEntries c \<and> int (length (cm_store c')) \<le> cm_maxEntries c"
  proof (cases "int (length (cm_store c)) > cm_maxEntries c")
    case True
    then have "loop (evictLRU c) = Some c'" using body by simp
    from IH [OF this] show ?thesis by simp
  next
    case False
    then show ?thesis using body by simp
  qed
qed

lemma evict_loop_diverges: "cm_maxEntries c < 0 \<Longrightarrow> evict_loop c = None"
  using evict_loop_result [of c] by (cases "evict_loop c") auto

section \<open>Writing\<close>

definition without_key :: "string \<Rightarrow> mem_cache \<Rightarrow> (string, cache_entry) js_map" where
  "without_key k c = map_delete k (cm_store c)"

lemma map_delete_absent: "\<not> map_has s k \<Longrightarrow> map_delete k s = s"
  by (simp add: map_has_def)

lemma map_delete_key_gone: "k \<notin> set (map fst (map_delete k s))"
  by (simp add: delete_keys)

lemma map_set_after_delete: "map_set k v (map_delete k s) = map_delete k s @ [(k, v)]"
  by (rule map_set_fresh) (rule map_delete_key_gone)

definition kept :: "string \<Rightarrow> mem_cache \<Rightarrow> (string, cache_entry) js_map" where
  \<comment> \<open>the entries that stay when \<open>k\<close> is written: all others, less the least recent one when
    there is no room\<close>
  "kept k c = (if int (length (without_key k c)) \<ge> cm_maxEntries c
               then tl (without_key k c) else without_key k c)"

lemma kept_absent: "k \<notin> set (map fst (kept k c))"
  using map_delete_key_gone [of k "cm_store c"]
  by (cases "map_delete k (cm_store c)") (auto simp: kept_def without_key_def)

lemma kept_ok: "map_ok (cm_store c) \<Longrightarrow> map_ok (kept k c)"
  by (simp add: kept_def without_key_def distinct_delete map_tl distinct_tl)

definition cleared :: "string \<Rightarrow> mem_cache \<Rightarrow> mem_cache" where
  "cleared k c = (clear_key_timer k c)\<lparr>cm_store := without_key k c\<rparr>"

lemma cleared_fields [simp]:
  "cm_store (cleared k c) = without_key k c" "cm_maxEntries (cleared k c) = cm_maxEntries c"
  "cm_defaultTtl (cleared k c) = cm_defaultTtl c" "cm_nextTimer (cleared k c) = cm_nextTimer c"
  by (simp_all add: cleared_def)

lemma cleared_ok: "cache_ok c \<Longrightarrow> cache_ok (cleared k c)"
  using clear_key_timer_ok [of c k] length_delete_le [of k "cm_store c"]
  by (simp add: cache_ok_def cleared_def without_key_def timers_ok_store [where k = k and x = None])

lemma cleared_no_timer: "timers_ok c \<Longrightarrow> map_get (cm_timers (cleared k c)) k = None"
  using clear_key_timer_ok(2) [of c k] by (simp add: cleared_def)

lemma store_entry_alt:
  "store_entry now k v ttl c =
     (let c' = (if int (length (without_key k c)) \<ge> cm_maxEntries c then evictLRU (cleared k c)
                else cleared k c)
      in c'\<lparr>cm_store := map_set k (new_entry now k v (effective_ttl ttl c)) (cm_store c')\<rparr>)"
proof -
  have "(if map_has (cm_store (clear_key_timer k c)) k
         then (clear_key_timer k c)\<lparr>cm_store := map_delete k (cm_store (clear_key_timer k c))\<rparr>
         else clear_key_timer k c) = cleared k c"
    by (simp add: cleared_def without_key_def map_delete_absent)
  moreover have "effective_ttl ttl (evictLRU (cleared k c)) = effective_ttl ttl c"
    "effective_ttl ttl (cleared k c) = effective_ttl ttl c"
    by (simp_all add: effective_ttl_def split: option.splits)
  ultimately show ?thesis unfolding store_entry_def Let_def by simp
qed

lemma store_entry_store:
  assumes "map_ok (cm_store c)"
  shows "cm_store (store_entry now k v ttl c) =
           kept k c @ [(k, new_entry now k v (effective_ttl ttl c))]"
proof -
  have "map_ok (without_key k c)" using assms by (simp add: without_key_def)
  then have "cm_store (store_entry now k v ttl c) =
      map_set k (new_entry now k v (effective_ttl ttl c)) (kept k c)"
    by (simp add: store_entry_alt Let_def kept_def evictLRU_store)
  then show ?thesis by (simp add: map_set_fresh [OF kept_absent])
qed

lemma store_entry_fields [simp]:
  "cm_maxEntries (store_entry now k v ttl c) = cm_maxEntries c"
  "cm_defaultTtl (store_entry now k v ttl c) = cm_defaultTtl c"
  by (simp_all add: store_entry_alt Let_def)

lemma kept_length:
  "int (length (cm_store c)) \<le> cm_maxEntries c \<Longrightarrow> 0 < cm_maxEntries c \<Longrightarrow>
     int (length (kept k c)) < cm_maxEntries c"
  using length_delete_le [of k "cm_store c"] by (auto simp: kept_def without_key_def)

lemma evictLRU_no_timer:
  "timers_ok c \<Longrightarrow> map_get (cm_timers c) k = None \<Longrightarrow> map_get (cm_timers (evictLRU c)) k = None"
  by (auto simp: evictLRU_def cm_delete_def clear_key_timer_def Let_def split: list.splits option.splits)

lemma store_entry_timers_ok:
  assumes "cache_ok c"
  shows "timers_ok (store_entry now k v ttl c)"
    and "map_get (cm_timers (store_entry now k v ttl c)) k = None"
proof -
  have ok: "timers_ok (cleared k c)" "map_get (cm_timers (cleared k c)) k = None"
    using assms cleared_ok [of c k] cleared_no_timer by (simp_all add: cache_ok_def)
  then have "timers_ok (evictLRU (cleared k c))" "map_get (cm_timers (evictLRU (cleared k c))) k = None"
    by (simp_all add: evictLRU_timers_ok evictLRU_no_timer)
  with ok show "timers_ok (store_entry now k v ttl c)"
    and "map_get (cm_timers (store_entry now k v ttl c)) k = None"
    by (simp_all add: store_entry_alt Let_def
        timers_ok_store [where k = k and x = "Some (new_entry now k v (effective_ttl ttl c))"])
qed

lemma paired_add:
  "paired pend tm n \<Longrightarrow> tm k = None \<Longrightarrow> paired (pend(n \<mapsto> (k, d))) (tm(k \<mapsto> n)) (Suc n)"
  unfolding paired_def
  by (smt (verit) fun_upd_apply less_Suc_eq nat_neq_iff option.distinct(1) option.inject prod.inject)

lemma arm_timer_ok:
  assumes "timers_ok c" "map_get (cm_timers c) k = None"
    and "\<And>t. ttl = Some t \<Longrightarrow> t > 0 \<Longrightarrow>
      (case map_get (cm_store c) k of None \<Rightarrow> cm_maxEntries c \<le> 0
       | Some e \<Rightarrow> armed_for e (now + node_delay (t * 1000)))"
  shows "timers_ok (arm_timer now k ttl c)"
  using assms
  by (auto simp: arm_timer_def timers_ok_def paired_add timers_match_def split: option.splits)

lemma arm_timer_fields [simp]:
  "cm_store (arm_timer now k ttl c) = cm_store c"
  "cm_maxEntries (arm_timer now k ttl c) = cm_maxEntries c"
  "cm_defaultTtl (arm_timer now k ttl c) = cm_defaultTtl c"
  by (simp_all add: arm_timer_def split: option.splits)

lemma new_entry_armed: "t > 0 \<Longrightarrow> armed_for (new_entry now k v (Some t)) (now + node_delay (t * 1000))"
  by (auto simp: armed_for_def new_entry_def)

definition after_set :: "int \<Rightarrow> string \<Rightarrow> string \<Rightarrow> int option \<Rightarrow> mem_cache \<Rightarrow> (string, cache_entry) js_map" where
  "after_set now k v ttl c =
     (if cm_maxEntries c = 0 then []
      else kept k c @ [(k, new_entry now k v (effective_ttl ttl c))])"

lemma cm_set_accepts:
  "(\<forall>t. ttl = Some t \<longrightarrow> 0 \<le> t) \<Longrightarrow>
   cm_set now k v ttl c = map_option (\<lambda>c'. Inr (arm_timer now k (effective_ttl ttl c') c'))
     (evict_loop (store_entry now k v ttl c))"
  by (cases ttl) (simp_all add: cm_set_def)

lemma evicted_store_entry:
  assumes "cache_ok c"
  shows "\<exists>c'. evict_loop (store_entry now k v ttl c) = Some c' \<and> timers_ok c' \<and>
    map_get (cm_timers c') k = None \<and> cm_store c' = after_set now k v ttl c \<and>
    cm_maxEntries c' = cm_maxEntries c \<and> cm_defaultTtl c' = cm_defaultTtl c"
proof -
  let ?c = "store_entry now k v ttl c"
  have ok: "map_ok (cm_store c)" "int (length (cm_store c)) \<le> cm_maxEntries c"
    using assms by (simp_all add: cache_ok_def)
  note st = store_entry_store [OF ok(1), of now k v ttl]
  have t: "timers_ok ?c" "map_get (cm_timers ?c) k = None"
    using store_entry_timers_ok [OF assms] by simp_all
  show ?thesis
  proof (cases "cm_maxEntries c = 0")
    case True
    then have "cm_store ?c = [(k, new_entry now k v (effective_ttl ttl c))]"
      using ok st by (simp add: kept_def without_key_def)
    then have "evict_loop ?c = Some (evictLRU ?c)" "cm_store (evictLRU ?c) = []"
      using True evict_loop_once [of ?c] evictLRU_store [of ?c] by simp_all
    then show ?thesis
      using True t by (simp add: after_set_def evictLRU_timers_ok evictLRU_no_timer)
  next
    case False
    then have "int (length (cm_store ?c)) \<le> cm_maxEntries ?c"
      using ok kept_length [of c k] by (simp add: st)
    then show ?thesis using False t st by (simp add: evict_loop_done after_set_def)
  qed
qed

lemma after_set_ok:
  assumes "cache_ok c"
  shows "map_ok (after_set now k v ttl c)" "int (length (after_set now k v ttl c)) \<le> cm_maxEntries c"
  using assms kept_absent [of k c] kept_ok [of c k] kept_length [of c k]
  by (auto simp: after_set_def cache_ok_def)

lemma cm_set_result:
  assumes "cache_ok c" "\<forall>t. ttl = Some t \<longrightarrow> 0 \<le> t"
  shows "\<exists>c'. cm_set now k v ttl c = Some (Inr c') \<and> cache_ok c' \<and>
    cm_store c' = after_set now k v ttl c \<and>
    cm_maxEntries c' = cm_maxEntries c \<and> cm_defaultTtl c' = cm_defaultTtl c"
proof -
  obtain c' where c': "evict_loop (store_entry now k v ttl c) = Some c'" "timers_ok c'"
    "map_get (cm_timers c') k = None" "cm_store c' = after_set now k v ttl c"
    "cm_maxEntries c' = cm_maxEntries c" "cm_defaultTtl c' = cm_defaultTtl c"
    using evicted_store_entry [OF assms(1)] by blast
  have eff: "effective_ttl ttl c' = effective_ttl ttl c"
    using c' by (simp add: effective_ttl_def split: option.splits)
  have "map_get (after_set now k v ttl c) k =
      (if cm_maxEntries c = 0 then None else Some (new_entry now k v (effective_ttl ttl c)))"
    using kept_absent [of k c] map_of_eq_None_iff [of "kept k c" k]
    by (simp add: after_set_def map_add_def)
  then have "timers_ok (arm_timer now k (effective_ttl ttl c') c')"
    using c' eff by (intro arm_timer_ok) (auto simp: new_entry_armed dest: sym)
  then show ?thesis
    using c' eff after_set_ok [OF assms(1), of now k v ttl]
    by (simp add: cm_set_accepts [OF assms(2)] cache_ok_def)
qed

lemma cm_set_cases:
  assumes "cache_ok c" "cm_set now k v ttl c = Some (Inr c')"
  shows "cache_ok c' \<and> cm_store c' = after_set now k v ttl c \<and>
    cm_maxEntries c' = cm_maxEntries c \<and> cm_defaultTtl c' = cm_defaultTtl c"
proof -
  have "\<forall>t. ttl = Some t \<longrightarrow> 0 \<le> t"
    using assms(2) by (auto simp: cm_set_def split: if_splits)
  then show ?thesis using cm_set_result [OF assms(1), of ttl now k v] assms(2) by auto
qed

section \<open>Runs of the adapter\<close>

lemma cm_delete_all_fields [simp]:
  "cm_maxEntries (cm_delete_all ks c) = cm_maxEntries c"
  "cm_defaultTtl (cm_delete_all ks c) = cm_defaultTtl c"
  by (induction ks c rule: cm_delete_all.induct) simp_all

lemma cm_delete_all_ok: "cache_ok c \<Longrightarrow> cache_ok (cm_delete_all ks c)"
  by (induction ks c rule: cm_delete_all.induct) (simp_all add: cm_delete_ok)

lemma cm_delete_all_get:
  "map_get (cm_store (cm_delete_all ks c)) k = (if k \<in> set ks then None else map_get (cm_store c) k)"
  by (induction ks c rule: cm_delete_all.induct) auto

lemma cm_mget_ok: "cache_ok c \<Longrightarrow> cache_ok (snd (cm_mget now ks c))"
proof (induction ks arbitrary: c)
  case (Cons k ks)
  then have "cache_ok (snd (cm_mget now ks (snd (cm_get now k c))))" by (simp add: cm_get_ok)
  then show ?case by (simp add: split_beta Let_def)
qed simp

lemma cm_mset_ok: "cache_ok c \<Longrightarrow> cm_mset now es c = Some (r, c') \<Longrightarrow> cache_ok c'"
  by (induction now es c rule: cm_mset.induct)
     (auto split: option.splits sum.splits dest: cm_set_cases)

lemma map_get_filter_keys:
  "map_get (filter (\<lambda>(t, _). P t) m) t = (if P t then map_get m t else None)"
  by (induction m) auto

lemma cm_disconnect_pending:
  assumes "cache_ok c" shows "map_get (cm_pending (cm_disconnect c)) t = None"
proof (cases "map_get (cm_pending c) t")
  case (Some kd)
  then have "map_get (cm_timers c) (fst kd) = Some t"
    using pendingD(1) [OF assms, of t "fst kd" "snd kd"] by simp
  then have "t \<in> snd ` set (cm_timers c)" using map_of_SomeD by force
  then show ?thesis by (simp add: cm_disconnect_def map_get_filter_keys)
qed (simp add: cm_disconnect_def map_get_filter_keys)

lemma cm_disconnect_ok: "cache_ok c \<Longrightarrow> cache_ok (cm_disconnect c)"
proof -
  assume ok: "cache_ok c"
  have "map_get (cm_pending (cm_disconnect c)) = Map.empty"
    by (rule ext) (rule cm_disconnect_pending [OF ok])
  moreover have "0 \<le> cm_maxEntries c" using ok by (simp add: cache_ok_def)
  ultimately show ?thesis
    unfolding cache_ok_def timers_ok_def paired_def timers_match_def by (simp add: cm_disconnect_def)
qed

lemma cm_timer_fires_ok:
  assumes "cache_ok c" shows "cache_ok (cm_timer_fires t c)"
proof (cases "map_get (cm_pending c) t")
  case (Some kd)
  obtain k d where kd: "kd = (k, d)" by (cases kd)
  let ?c = "c\<lparr>cm_pending := map_delete t (cm_pending c)\<rparr>"
  have "map_get (cm_timers c) k = Some t"
    using assms Some kd by (auto intro: pendingD)
  then have "snd (cm_delete k ?c) = snd (cm_delete k c)"
    by (simp add: cm_delete_def clear_key_timer_def Let_def delete_idem)
  then show ?thesis
    using assms Some kd by (simp add: cm_timer_fires_def cm_delete_ok)
qed (use assms in \<open>simp add: cm_timer_fires_def\<close>)

inductive cache_step :: "mem_cache \<Rightarrow> mem_cache \<Rightarrow> bool" where
  cache_get: "cache_step c (snd (cm_get now k c))"
| cache_set: "cm_set now k v ttl c = Some (Inr c') \<Longrightarrow> cache_step c c'"
| cache_delete: "cache_step c (snd (cm_delete k c))"
| cache_mget: "cache_step c (snd (cm_mget now ks c))"
| cache_mset: "cm_mset now es c = Some (r, c') \<Longrightarrow> cache_step c c'"
| cache_clear: "cache_step c (snd (cm_clear now p c))"
| cache_disconnect: "cache_step c (cm_disconnect c)"
| cache_timer: "map_get (cm_pending c) t = Some (k, due) \<Longrightarrow> cache_step c (cm_timer_fires t c)"

inductive_cases cache_stepE: "cache_step c c'"

definition cache_init :: "mem_cache \<Rightarrow> bool" where
  "cache_init c \<longleftrightarrow> (\<exists>m ttl now. c = new_MemoryAdapter m ttl now \<and> 0 \<le> cm_maxEntries c)"

interpretation cache: inductive_invariant cache_init cache_step cache_ok
proof unfold_locales
  show "cache_init s \<Longrightarrow> cache_ok s" for s
    by (auto simp: cache_init_def new_MemoryAdapter_def intro!: cache_ok_new [unfolded new_MemoryAdapter_def])
  show "cache_step s t \<Longrightarrow> cache_ok s \<Longrightarrow> cache_ok t" for s t
    by (erule cache_stepE)
       (auto simp: cm_get_ok cm_delete_ok cm_mget_ok cm_clear_def Let_def cm_delete_all_ok
         cm_disconnect_ok cm_timer_fires_ok dest: cm_set_cases cm_mset_ok)
qed

text \<open>C29: whatever sequence of operations and timer callbacks has run on an adapter with a
  non-negative \<open>maxEntries\<close>: no more than \<open>maxEntries\<close> entries are stored, under distinct keys;
  every pending timer is the one registered for its key, every registered timer is pending, and
  a pending timer whose key is present was armed together with that very entry and is due no
  later than the entry expires.\<close>
theorem cache_bounded_and_timers_paired:
  assumes "reachable cache_init cache_step c"
  shows "int (length (cm_store c)) \<le> cm_maxEntries c \<and> map_ok (cm_store c) \<and>
    (\<forall>t k d. map_get (cm_pending c) t = Some (k, d) \<longrightarrow>
       map_get (cm_timers c) k = Some t \<and>
       (\<forall>e. map_get (cm_store c) k = Some e \<longrightarrow> armed_for e d \<and> d \<le> ce_expiresAt e)) \<and>
    (\<forall>k t. map_get (cm_timers c) k = Some t \<longrightarrow> (\<exists>d. map_get (cm_pending c) t = Some (k, d)))"
proof -
  have "armed_for e d \<Longrightarrow> d \<le> ce_expiresAt e" for e d
    by (auto simp: armed_for_def node_delay_def)
  moreover note ok = cache.reachable_inv [OF assms]
  ultimately show ?thesis
    using pendingD [OF ok] registeredD [OF ok] by (meson cache_ok_def ok)
qed

section \<open>Reading back\<close>

lemma cm_get_value:
  "fst (cm_get now k c) =
     (case map_get (cm_store c) k of
        None \<Rightarrow> None | Some e \<Rightarrow> if entry_expired now e then None else Some (ce_value e))"
  by (simp add: cm_get_def Let_def split: option.splits)

lemma after_set_get:
  "cm_maxEntries c \<noteq> 0 \<Longrightarrow>
   map_get (after_set now k v ttl c) k = Some (new_entry now k v (effective_ttl ttl c))"
  using kept_absent [of k c] map_of_eq_None_iff [of "kept k c" k]
  by (simp add: after_set_def map_add_def)

lemma map_get_tl:
  "map_ok s \<Longrightarrow> map_get (tl s) k' = (if s \<noteq> [] \<and> k' = fst (hd s) then None else map_get s k')"
  by (cases s) (auto simp: map_of_eq_None_iff)

lemma after_set_other:
  assumes "map_ok (cm_store c)" "0 < cm_maxEntries c" "k' \<noteq> k"
  shows "map_get (after_set now k v ttl c) k' =
    (if int (length (without_key k c)) \<ge> cm_maxEntries c \<and> without_key k c \<noteq> [] \<and>
        k' = fst (hd (without_key k c))
     then None else map_get (cm_store c) k')"
proof -
  have "map_ok (without_key k c)" using assms(1) by (simp add: without_key_def)
  then show ?thesis
    using assms by (auto simp: after_set_def map_add_def kept_def map_get_tl without_key_def
        split: option.splits)
qed

text \<open>A value written with \<open>set\<close> is returned by \<open>get\<close> until its time to live has elapsed
  (for ever when there is none, or when it is 0), and not after; every other key keeps its
  entry, except the least recently used one, and only if the cache was full.\<close>
theorem get_after_set:
  assumes "cache_ok c" "0 < cm_maxEntries c" "0 \<le> now"
    and ttl: "effective_ttl ttl c = Some t \<and> 0 \<le> t \<or> effective_ttl ttl c = None \<and> t = 0"
  shows "\<exists>c'. cm_set now k v ttl c = Some (Inr c') \<and>
    (\<forall>now'. fst (cm_get now' k c') = (if t = 0 \<or> now' < now + t * 1000 then Some v else None)) \<and>
    (\<forall>k'. k' \<noteq> k \<longrightarrow> map_get (cm_store c') k' = map_get (cm_store c) k' \<or>
       map_get (cm_store c') k' = None \<and> k' = fst (hd (without_key k c)) \<and>
       int (length (without_key k c)) \<ge> cm_maxEntries c)"
proof -
  have "\<forall>s. ttl = Some s \<longrightarrow> 0 \<le> s" using assms(4) by (auto simp: effective_ttl_def)
  then obtain c' where c': "cm_set now k v ttl c = Some (Inr c')"
      "cm_store c' = after_set now k v ttl c"
    using cm_set_result [OF assms(1), of ttl now k v] by blast
  have "map_get (cm_store c') k = Some (new_entry now k v (effective_ttl ttl c))"
    using c' after_set_get assms(2) by simp
  then have "fst (cm_get now' k c') = (if t = 0 \<or> now' < now + t * 1000 then Some v else None)" for now'
    using assms by (cases "t = 0") (auto simp: cm_get_value entry_expired_def new_entry_def)
  moreover have "map_ok (cm_store c)" using assms(1) by (simp add: cache_ok_def)
  ultimately show ?thesis
    using c' after_set_other [of c _ k now v ttl] assms(2) by auto
qed

text \<open>C30: \<open>set\<close> does not return when \<open>maxEntries\<close> is negative: the loop that evicts while the
  store is larger than \<open>maxEntries\<close> cannot make it smaller than empty. For every non-negative
  capacity it returns (and rejects exactly the negative time to live).\<close>
theorem set_returns_iff_capacity_nonneg:
  "(cm_maxEntries c < 0 \<and> (\<forall>s. ttl = Some s \<longrightarrow> 0 \<le> s) \<longrightarrow> cm_set now k v ttl c = None) \<and>
   (cache_ok c \<longrightarrow>
      (case ttl of
         Some s \<Rightarrow> if s < 0 then cm_set now k v ttl c = Some (Inl ''TTL must be non-negative'')
                    else \<exists>c'. cm_set now k v ttl c = Some (Inr c') \<and> cache_ok c'
       | None \<Rightarrow> \<exists>c'. cm_set now k v ttl c = Some (Inr c') \<and> cache_ok c'))"
proof (intro conjI impI)
  assume "cm_maxEntries c < 0 \<and> (\<forall>s. ttl = Some s \<longrightarrow> 0 \<le> s)"
  then show "cm_set now k v ttl c = None"
    by (simp add: cm_set_accepts evict_loop_diverges)
next
  assume "cache_ok c"
  then show "case ttl of
         Some s \<Rightarrow> if s < 0 then cm_set now k v ttl c = Some (Inl ''TTL must be non-negative'')
                    else \<exists>c'. cm_set now k v ttl c = Some (Inr c') \<and> cache_ok c'
       | None \<Rightarrow> \<exists>c'. cm_set now k v ttl c = Some (Inr c') \<and> cache_ok c'"
    using cm_set_result [of c ttl now k v] by (auto simp: cm_set_def split: option.splits)
qed

section \<open>Least recently used\<close>

text \<open>
  The reference is a history of uses: every write uses its key, a read uses it when it is
  cached. \<open>most_recent m h\<close> are the \<open>m\<close> most recently used distinct keys of the history \<open>h\<close>.
\<close>

definition most_recent :: "nat \<Rightarrow> 'k list \<Rightarrow> 'k list" where
  "most_recent m h = drop (length (remdups h) - m) (remdups h)"

datatype lru_op = LSet string string | LGet string

fun touches :: "nat \<Rightarrow> string list \<Rightarrow> lru_op list \<Rightarrow> string list" where
  "touches m h [] = h"
| "touches m h (LSet k v # ops) = touches m (h @ [k]) ops"
| "touches m h (LGet k # ops) = touches m (if k \<in> set (most_recent m h) then h @ [k] else h) ops"

fun lru_run :: "(int \<times> lru_op) list \<Rightarrow> mem_cache \<Rightarrow> mem_cache option" where
  "lru_run [] c = Some c"
| "lru_run ((now, LSet k v) # ops) c =
     (case cm_set now k v None c of Some (Inr c') \<Rightarrow> lru_run ops c' | _ \<Rightarrow> None)"
| "lru_run ((now, LGet k) # ops) c = lru_run ops (snd (cm_get now k c))"

lemma remdups_snoc: "remdups (xs @ [x]) = removeAll x (remdups xs) @ [x]"
  by (induction xs) auto

lemma removeAll_absent_prefix:
  "distinct (p @ s) \<Longrightarrow> x \<in> set s \<Longrightarrow> removeAll x (p @ s) = p @ removeAll x s"
  by (metis disjoint_iff distinct_append removeAll_append removeAll_id)

lemma drop_touched:
  assumes "distinct (p @ s)" "p \<noteq> [] \<longrightarrow> length s = m" "length s \<le> m" "0 < m"
  shows "drop (Suc (length (removeAll k (p @ s))) - m) (removeAll k (p @ s) @ [k]) =
    (if m \<le> length (removeAll k s) then tl (removeAll k s) else removeAll k s) @ [k]"
proof (cases "k \<in> set s")
  case True
  have rem: "removeAll k (p @ s) = p @ removeAll k s"
    by (rule removeAll_absent_prefix) (use assms True in auto)
  have "length (removeAll k s) = length s - 1" "0 < length s"
    using True assms(1) distinct_remove1_removeAll [of s k] length_remove1 [of k s]
    by (auto simp: length_pos_if_in_set)
  then show ?thesis using assms unfolding rem by (cases "p = []"; cases s) auto
next
  case False
  then have rem: "removeAll k (p @ s) = removeAll k p @ s" by simp
  show ?thesis
    using assms False unfolding rem
    by (cases "p = []"; cases "length s = m") (auto simp: drop_Suc Suc_diff_le)
qed

lemma most_recent_snoc:
  assumes "0 < m"
  shows "most_recent m (h @ [k]) =
    (if m \<le> length (removeAll k (most_recent m h)) then tl (removeAll k (most_recent m h))
     else removeAll k (most_recent m h)) @ [k]"
proof -
  define r where "r = remdups h"
  define p where "p = take (length r - m) r"
  define s where "s = drop (length r - m) r"
  have r: "r = p @ s" by (simp add: p_def s_def)
  have "most_recent m (h @ [k]) = drop (Suc (length (removeAll k r)) - m) (removeAll k r @ [k])"
    by (simp add: most_recent_def remdups_snoc r_def)
  also have "\<dots> = (if m \<le> length (removeAll k s) then tl (removeAll k s) else removeAll k s) @ [k]"
    unfolding r by (rule drop_touched) (use assms r in \<open>auto simp: r_def p_def s_def\<close>)
  finally show ?thesis by (simp add: most_recent_def r_def s_def)
qed

lemma most_recent_touch_present:
  assumes "0 < m" "k \<in> set (most_recent m h)"
  shows "most_recent m (h @ [k]) = removeAll k (most_recent m h) @ [k]"
proof -
  have "length (removeAll k (most_recent m h)) < m"
    using assms(2) length_removeAll_less [of k "most_recent m h"]
    by (simp add: most_recent_def)
  then show ?thesis by (simp add: most_recent_snoc [OF assms(1)])
qed

lemma map_keys_delete: "map_keys (map_delete k s) = removeAll k (map_keys s)"
  by (induction s) auto

definition lru_rel :: "nat \<Rightarrow> string list \<Rightarrow> mem_cache \<Rightarrow> bool" where
  "lru_rel m h c \<longleftrightarrow> cache_ok c \<and> cm_maxEntries c = int m \<and> cm_defaultTtl c = None \<and>
     map_keys (cm_store c) = most_recent m h \<and>
     (\<forall>k e. map_get (cm_store c) k = Some e \<longrightarrow> ce_expiresAt e = 0)"

lemma kept_keys:
  "cm_maxEntries c = int m \<Longrightarrow> map_keys (kept k c) =
     (let s = removeAll k (map_keys (cm_store c)) in if m \<le> length s then tl s else s)"
  unfolding kept_def without_key_def Let_def map_keys_delete [symmetric] by (simp add: map_tl)

lemma lru_rel_present:
  "lru_rel m h c \<Longrightarrow> k \<in> set (most_recent m h) \<longleftrightarrow> map_get (cm_store c) k \<noteq> None"
  unfolding lru_rel_def by (metis list.set_map map_of_eq_None_iff)

lemma lru_rel_set:
  assumes "lru_rel m h c" "0 < m"
  shows "\<exists>c'. cm_set now k v None c = Some (Inr c') \<and> lru_rel m (h @ [k]) c'"
proof -
  have ok: "cache_ok c" and m: "cm_maxEntries c = int m" and d: "cm_defaultTtl c = None"
    using assms(1) by (simp_all add: lru_rel_def)
  obtain c' where c': "cm_set now k v None c = Some (Inr c')" "cache_ok c'"
      "cm_store c' = after_set now k v None c" "cm_maxEntries c' = int m" "cm_defaultTtl c' = None"
    using cm_set_result [OF ok, of None now k v] m d by auto
  have "map_keys (cm_store c') = most_recent m (h @ [k])"
    using c'(3) assms m kept_keys [OF m, of k]
    by (simp add: after_set_def most_recent_snoc lru_rel_def Let_def)
  moreover have "map_get (cm_store c') k' = Some e \<Longrightarrow> ce_expiresAt e = 0" for k' e
    using assms c'(3) ok m d after_set_get [of c now k v None] after_set_other [of c k' k now v None]
    by (cases "k' = k")
       (auto simp: new_entry_def effective_ttl_def lru_rel_def cache_ok_def split: if_splits)
  ultimately show ?thesis using c' by (auto simp: lru_rel_def)
qed

lemma lru_rel_get:
  assumes "lru_rel m h c" "0 < m"
  shows "lru_rel m (if k \<in> set (most_recent m h) then h @ [k] else h) (snd (cm_get now k c))"
proof (cases "map_get (cm_store c) k")
  case None
  then have "k \<notin> set (most_recent m h)"
    using lru_rel_present [OF assms(1)] by simp
  then show ?thesis using None assms(1) by (simp add: cm_get_def lru_rel_def)
next
  case (Some e)
  then have k: "k \<in> set (most_recent m h)"
    using lru_rel_present [OF assms(1)] by simp
  have "snd (cm_get now k c) =
      c\<lparr>cm_store := map_delete k (cm_store c) @ [(k, e)], cm_hits := cm_hits c + 1\<rparr>"
    using Some assms(1)
    by (auto simp: cm_get_def entry_expired_def lru_rel_def map_set_after_delete)
  moreover have "cache_ok (snd (cm_get now k c))"
    using assms(1) by (simp add: lru_rel_def cm_get_ok)
  ultimately show ?thesis
    using assms k Some
    by (auto simp: lru_rel_def map_keys_delete most_recent_touch_present map_add_def
        split: option.splits if_splits)
qed

lemma lru_run_rel:
  "lru_rel m h c \<Longrightarrow> 0 < m \<Longrightarrow>
     \<exists>c'. lru_run ops c = Some c' \<and> lru_rel m (touches m h (map snd ops)) c'"
proof (induction ops c arbitrary: h rule: lru_run.induct)
  case (2 now k v ops c)
  then obtain c' where "cm_set now k v None c = Some (Inr c')" "lru_rel m (h @ [k]) c'"
    using lru_rel_set by blast
  then show ?case using "2.IH" "2.prems"(2) by fastforce
next
  case (3 now k ops c)
  then show ?case using lru_rel_get [OF "3.prems"] by simp
qed auto

text \<open>C28: the eviction policy is exactly LRU. For a fresh adapter of capacity \<open>m > 0\<close> without
  expiry, after any sequence of writes and reads the stored keys are the \<open>m\<close> most recently used
  ones of the history, in order of use, where a read counts as a use when the key was cached.\<close>
theorem eviction_is_lru:
  assumes "0 < m"
  shows "\<exists>c'. lru_run ops (new_MemoryAdapter (Some (int m)) None t0) = Some c' \<and>
           map_keys (cm_store c') = most_recent m (touches m [] (map snd ops))"
proof -
  have "lru_rel m [] (new_MemoryAdapter (Some (int m)) None t0)"
    using cache_ok_new [of "Some (int m)"]
    by (simp add: lru_rel_def most_recent_def) (simp add: new_MemoryAdapter_def)
  from lru_run_rel [OF this assms, of ops] show ?thesis by (auto simp: lru_rel_def)
qed

section \<open>Patterns\<close>

text \<open>What a glob pattern means, as an independent specification.\<close>

inductive glob_match :: "string \<Rightarrow> string \<Rightarrow> bool" where
  gm_nil: "glob_match [] []"
| gm_star: "list_all regex_dot u \<Longrightarrow> glob_match p s \<Longrightarrow> glob_match (CHR ''*'' # p) (u @ s)"
| gm_one: "regex_dot c \<Longrightarrow> glob_match p s \<Longrightarrow> glob_match (CHR ''?'' # p) (c # s)"
| gm_lit: "c \<noteq> CHR ''*'' \<Longrightarrow> c \<noteq> CHR ''?'' \<Longrightarrow> glob_match p s \<Longrightarrow> glob_match (c # p) (c # s)"

lemma regex_test_many:
  "regex_test (AnyMany # as) s \<longleftrightarrow> (\<exists>u r. s = u @ r \<and> list_all regex_dot u \<and> regex_test as r)"
proof (induction s)
  case (Cons d s)
  show ?case
  proof
    assume "regex_test (AnyMany # as) (d # s)"
    then show "\<exists>u r. d # s = u @ r \<and> list_all regex_dot u \<and> regex_test as r"
      using Cons.IH by (auto intro: exI [of _ "[]"]) (metis append_Cons list.pred_inject(2))
  next
    assume "\<exists>u r. d # s = u @ r \<and> list_all regex_dot u \<and> regex_test as r"
    then obtain u r where ur: "d # s = u @ r" "list_all regex_dot u" "regex_test as r" by blast
    then show "regex_test (AnyMany # as) (d # s)" using Cons.IH by (cases u) auto
  qed
qed simp

lemma globToRegex_Cons:
  "globToRegex (c # p) = (if c = CHR ''*'' then AnyMany else if c = CHR ''?'' then AnyOne else Lit c)
     # globToRegex p"
  by (simp add: globToRegex_def)

lemma glob_match_sound: "glob_match p s \<Longrightarrow> regex_test (globToRegex p) s"
  by (induction rule: glob_match.induct)
     (auto simp: globToRegex_Cons regex_test_many simp del: regex_test.simps(6,7), simp add: globToRegex_def)

lemma glob_match_complete: "regex_test (globToRegex p) s \<Longrightarrow> glob_match p s"
proof (induction p arbitrary: s)
  case Nil
  then show ?case by (simp add: globToRegex_def gm_nil)
next
  case (Cons c p)
  show ?case
  proof (cases "c = CHR ''*''")
    case True
    then obtain u r where "s = u @ r" "list_all regex_dot u" "regex_test (globToRegex p) r"
      using Cons.prems by (auto simp: globToRegex_Cons regex_test_many simp del: regex_test.simps(6,7))
    then show ?thesis using True Cons.IH by (auto intro: gm_star)
  next
    case False
    then show ?thesis
      using Cons.prems Cons.IH
      by (cases s; cases "c = CHR ''?''") (auto simp: globToRegex_Cons intro: glob_match.intros)
  qed
qed

lemma regex_test_glob: "regex_test (globToRegex p) s \<longleftrightarrow> glob_match p s"
  using glob_match_sound glob_match_complete by blast

definition live :: "int \<Rightarrow> mem_cache \<Rightarrow> string \<Rightarrow> bool" where
  "live now c k \<longleftrightarrow>
     (\<exists>e. map_get (cm_store c) k = Some e \<and> (ce_expiresAt e = 0 \<or> now < ce_expiresAt e))"

lemma set_valid_keys: "set (valid_keys now c) = {k. live now c k}"
proof -
  have "live now c k \<Longrightarrow> k \<in> fst ` set (cm_store c)" for k
    unfolding live_def using map_of_SomeD by force
  then show ?thesis by (auto simp: valid_keys_def live_def split: option.splits)
qed

lemma set_cm_keys:
  "set (cm_keys now p c) = {k. live now c k \<and> (p = ''*'' \<or> glob_match p k)}"
  by (auto simp: cm_keys_def set_valid_keys regex_test_glob)

lemma distinct_cm_keys: "cache_ok c \<Longrightarrow> distinct (cm_keys now p c)"
  by (simp add: cm_keys_def valid_keys_def cache_ok_def)

text \<open>\<open>keys\<close> lists every live key that matches the pattern, once, and nothing else (a pattern
  matches by the usual rules for \<open>*\<close> and \<open>?\<close>, every other character stands for itself);
  \<open>clear\<close> removes exactly those entries, leaves all others as they were and returns their
  number.\<close>
theorem clear_removes_exactly_matches:
  assumes "cache_ok c"
  shows "distinct (cm_keys now p c) \<and>
    (\<forall>k. k \<in> set (cm_keys now p c) \<longleftrightarrow> live now c k \<and> (p = ''*'' \<or> glob_match p k)) \<and>
    fst (cm_clear now p c) = int (length (cm_keys now p c)) \<and>
    (\<forall>k. map_get (cm_store (snd (cm_clear now p c))) k =
       (if live now c k \<and> (p = ''*'' \<or> glob_match p k) then None else map_get (cm_store c) k)) \<and>
    cm_keys now p (snd (cm_clear now p c)) = []"
proof -
  have get: "map_get (cm_store (snd (cm_clear now p c))) k =
      (if k \<in> set (cm_keys now p c) then None else map_get (cm_store c) k)" for k
    by (simp add: cm_clear_def Let_def cm_delete_all_get)
  then have "set (cm_keys now p (snd (cm_clear now p c))) = {}"
    by (auto simp: set_cm_keys live_def split: if_splits)
  then have "cm_keys now p (snd (cm_clear now p c)) = []" by simp
  then show ?thesis
    using get assms by (simp add: distinct_cm_keys set_cm_keys cm_clear_def Let_def)
qed

section \<open>Long times to live\<close>

text \<open>A time to live above 2147483 seconds (about 24.8 days) is lost: the delay overflows the
  timer of the runtime, which then fires after one millisecond, and its callback deletes the
  entry although \<open>getTTL\<close> reports the full time to live.\<close>
theorem long_ttl_deleted_early:
  assumes "cache_ok c" "0 < cm_maxEntries c" "2147483 < t" "0 \<le> now"
  shows "\<exists>c' h. cm_set now k v (Some t) c = Some (Inr c') \<and> cm_getTTL now k c' = Some t \<and>
    map_get (cm_pending c') h = Some (k, now + 1) \<and>
    map_get (cm_store (cm_timer_fires h c')) k = None"
proof -
  have pos: "\<forall>s. Some t = Some s \<longrightarrow> 0 \<le> s" using assms(3) by simp
  obtain c1 where c1: "evict_loop (store_entry now k v (Some t) c) = Some c1"
      "cm_store c1 = after_set now k v (Some t) c"
    using evicted_store_entry [OF assms(1)] by blast
  let ?c = "arm_timer now k (Some t) c1"
  have set: "cm_set now k v (Some t) c = Some (Inr ?c)"
    using c1 by (simp add: cm_set_accepts [OF pos] effective_ttl_def)
  have "map_get (cm_store ?c) k = Some (new_entry now k v (Some t))"
    using c1 after_set_get [of c now k v "Some t"] assms(2) by (simp add: effective_ttl_def)
  then have ttl: "cm_getTTL now k ?c = Some t"
    using assms by (simp add: cm_getTTL_def new_entry_def)
  have pend: "map_get (cm_pending ?c) (cm_nextTimer c1) = Some (k, now + 1)"
    using assms(3) by (simp add: arm_timer_def node_delay_def)
  then have "map_get (cm_store (cm_timer_fires (cm_nextTimer c1) ?c)) k = None"
    by (simp add: cm_timer_fires_def)
  then show ?thesis using set ttl pend by blast
qed

section \<open>Witnesses\<close>

definition small_cache :: mem_cache where
  "small_cache = new_MemoryAdapter (Some 2) None 0"

lemma small_cache_ok: "cache_ok small_cache" "cm_maxEntries small_cache = 2"
  unfolding small_cache_def by (rule cache_ok_new, simp, simp add: new_MemoryAdapter_def)

theorem cache_bounded_and_timers_paired_witness:
  "reachable cache_init cache_step (snd (cm_get 5 ''a'' small_cache)) \<and>
   int (length (cm_store (snd (cm_get 5 ''a'' small_cache)))) \<le> 2"
proof -
  have "cache_init small_cache"
    using small_cache_ok by (auto simp: cache_init_def small_cache_def)
  then have r: "reachable cache_init cache_step (snd (cm_get 5 ''a'' small_cache))"
    by (blast intro: reachable.intros cache_get)
  then show ?thesis
    using cache_bounded_and_timers_paired [OF r]
    by (simp add: cm_get_def small_cache_def new_MemoryAdapter_def)
qed

theorem get_after_set_witness:
  "\<exists>c'. cm_set 100 ''a'' ''1'' (Some 60) small_cache = Some (Inr c') \<and>
     fst (cm_get 60099 ''a'' c') = Some ''1'' \<and> fst (cm_get 60100 ''a'' c') = None"
proof -
  have "effective_ttl (Some 60) small_cache = Some 60" by (simp add: effective_ttl_def)
  then obtain c' where "cm_set 100 ''a'' ''1'' (Some 60) small_cache = Some (Inr c')"
    "\<forall>now'. fst (cm_get now' ''a'' c') = (if (60::int) = 0 \<or> now' < 100 + 60 * 1000 then Some ''1'' else None)"
    using get_after_set [of small_cache 100 "Some 60" 60 "''a''" "''1''"] small_cache_ok by fastforce
  then show ?thesis by simp
qed

theorem set_returns_iff_capacity_nonneg_witness:
  "cm_set 0 ''a'' ''1'' None (new_MemoryAdapter (Some (-1)) None 0) = None \<and>
   (\<exists>c'. cm_set 0 ''a'' ''1'' None small_cache = Some (Inr c'))"
  using set_returns_iff_capacity_nonneg [of "new_MemoryAdapter (Some (-1)) None 0" None 0 "''a''" "''1''"]
    set_returns_iff_capacity_nonneg [of small_cache None 0 "''a''" "''1''"] small_cache_ok
  by (auto simp: new_MemoryAdapter_def)

theorem eviction_is_lru_witness:
  "\<exists>c'. lru_run [(0, LSet ''a'' ''1''), (1, LSet ''b'' ''2''), (2, LGet ''a''), (3, LSet ''c'' ''3'')]
      (new_MemoryAdapter (Some 2) None 0) = Some c' \<and> map_keys (cm_store c') = [''a'', ''c'']"
  using eviction_is_lru [of 2 "[(0, LSet ''a'' ''1''), (1, LSet ''b'' ''2''), (2, LGet ''a''), (3, LSet ''c'' ''3'')]" 0]
  by (simp add: most_recent_def)

definition two_keys :: mem_cache where
  "two_keys = small_cache\<lparr>cm_store := [(''user:1'', new_entry 0 ''user:1'' ''x'' None),
                                         (''post:1'', new_entry 0 ''post:1'' ''y'' None)]\<rparr>"

theorem clear_removes_exactly_matches_witness:
  "cache_ok two_keys \<and> cm_keys 0 ''user:*'' two_keys = [''user:1''] \<and>
   map_get (cm_store (snd (cm_clear 0 ''user:*'' two_keys))) ''user:1'' = None"
proof -
  have ok: "cache_ok two_keys"
    by (simp add: cache_ok_def timers_ok_def paired_def timers_match_def two_keys_def small_cache_def
        new_MemoryAdapter_def)
  moreover have keys: "cm_keys 0 ''user:*'' two_keys = [''user:1'']"
    by (simp add: cm_keys_def valid_keys_def globToRegex_def regex_dot_def two_keys_def
        small_cache_def new_MemoryAdapter_def new_entry_def)
  ultimately show ?thesis
    using clear_removes_exactly_matches [OF ok, of 0 "''user:*''"] by (metis list.set_intros(1))
qed

theorem long_ttl_deleted_early_witness:
  "\<exists>c' h. cm_set 0 ''a'' ''1'' (Some 2592000) small_cache = Some (Inr c') \<and>
     cm_getTTL 0 ''a'' c' = Some 2592000 \<and> map_get (cm_store (cm_timer_fires h c')) ''a'' = None"
  using long_ttl_deleted_early [of small_cache 2592000 0 "''a''" "''1''"] small_cache_ok by auto

end
