(* ===== verification/Cache_Service.thy ===== *)
theory Cache_Service
  imports Cache_Memory
begin

text \<open>
  The cache service (\<open>plugins/cache/src/cache-service.ts\<close>) and the adapter contract it relies on.

  \<open>cache_ops\<close> is the part of the \<open>CacheAdapter\<close> interface the service calls, over an abstract
  adapter state; \<open>svc_*\<close> are the methods of \<open>CacheService\<close>, which run an adapter operation and
  publish events. The event bus is a parameter: \<open>bus_accepts ev\<close> tells whether \<open>publish\<close>
  resolves for that event (the service catches and logs a rejection); without a bus nothing is
  published. The state pairs the adapter's state with the events published so far.

  The locale \<open>cache_adapter\<close> states what an adapter promises in terms of the entries visible at
  a time; it is interpreted on the in-memory adapter.
\<close>

section \<open>Interface and operations\<close>

record 's cache_ops =
  op_get :: "int \<Rightarrow> string \<Rightarrow> 's \<Rightarrow> string option \<times> 's"
  op_set :: "int \<Rightarrow> string \<Rightarrow> string \<Rightarrow> int option \<Rightarrow> 's \<Rightarrow> (string + 's) option"
  op_delete :: "string \<Rightarrow> 's \<Rightarrow> bool \<times> 's"
  op_mget :: "int \<Rightarrow> string list \<Rightarrow> 's \<Rightarrow> string option list \<times> 's"
  op_mset :: "int \<Rightarrow> (string \<times> string \<times> int option) list \<Rightarrow> 's \<Rightarrow> (string option \<times> 's) option"
  op_keys :: "int \<Rightarrow> string \<Rightarrow> 's \<Rightarrow> string list"
  op_clear :: "int \<Rightarrow> string \<Rightarrow> 's \<Rightarrow> int \<times> 's"
  op_getTTL :: "(int \<Rightarrow> string \<Rightarrow> 's \<Rightarrow> int option) option"

datatype cache_event =
    CacheHit string
  | CacheMiss string
  | CacheSet string "int option" int int   \<comment> \<open>key, ttl, timestamp, size\<close>
  | CacheDelete string int

record bus_config =
  has_bus :: bool
  bus_accepts :: "cache_event \<Rightarrow> bool"

type_synonym 's service = "'s \<times> cache_event list"

definition publishEvent :: "bus_config \<Rightarrow> cache_event \<Rightarrow> cache_event list \<Rightarrow> cache_event list" where
  "publishEvent B ev evlog =
     (if \<not> has_bus B then evlog else if bus_accepts B ev then evlog @ [ev] else evlog)"

definition svc_get ::
  "'s cache_ops \<Rightarrow> bus_config \<Rightarrow> int \<Rightarrow> string \<Rightarrow> 's service \<Rightarrow> string option \<times> 's service" where
  "svc_get A B now key sv =
     (let (value, s) = op_get A now key (fst sv)
      in if value \<noteq> None then (value, s, publishEvent B (CacheHit key) (snd sv))
         else (value, s, publishEvent B (CacheMiss key) (snd sv)))"

definition svc_set ::
  "'s cache_ops \<Rightarrow> bus_config \<Rightarrow> int \<Rightarrow> string \<Rightarrow> string \<Rightarrow> int option \<Rightarrow> 's service \<Rightarrow>
     (string + 's service) option" where
  "svc_set A B now key v ttl sv =
     (case op_set A now key v ttl (fst sv) of
        None \<Rightarrow> None
      | Some (Inl e) \<Rightarrow> Some (Inl e)
      | Some (Inr s) \<Rightarrow>
          Some (Inr (s, publishEvent B (CacheSet key ttl now (int (length v))) (snd sv))))"

definition svc_delete ::
  "'s cache_ops \<Rightarrow> bus_config \<Rightarrow> int \<Rightarrow> string \<Rightarrow> 's service \<Rightarrow> bool \<times> 's service" where
  "svc_delete A B now key sv =
     (let (deleted, s) = op_delete A key (fst sv)
      in (deleted, s, if deleted then publishEvent B (CacheDelete key now) (snd sv) else snd sv))"

definition svc_mget ::
  "'s cache_ops \<Rightarrow> int \<Rightarrow> string list \<Rightarrow> 's service \<Rightarrow> string option list \<times> 's service" where
  "svc_mget A now keys sv = (let (vs, s) = op_mget A now keys (fst sv) in (vs, s, snd sv))"

fun publish_all :: "bus_config \<Rightarrow> cache_event list \<Rightarrow> cache_event list \<Rightarrow> cache_event list" where
  "publish_all B [] evlog = evlog"
| "publish_all B (ev # evs) evlog = publish_all B evs (publishEvent B ev evlog)"

definition svc_mset ::
  "'s cache_ops \<Rightarrow> bus_config \<Rightarrow> int \<Rightarrow> (string \<times> string \<times> int option) list \<Rightarrow> 's service \<Rightarrow>
     (string option \<times> 's service) option" where
  "svc_mset A B now entries sv =
     (case op_mset A now entries (fst sv) of
        None \<Rightarrow> None
      | Some (Some e, s) \<Rightarrow> Some (Some e, s, snd sv)
      | Some (None, s) \<Rightarrow>
          Some (None, s,
            publish_all B (map (\<lambda>(key, v, ttl). CacheSet key ttl now (int (length v))) entries) (snd sv)))"

definition svc_keys :: "'s cache_ops \<Rightarrow> int \<Rightarrow> string option \<Rightarrow> 's service \<Rightarrow> string list" where
  \<comment> \<open>an absent pattern is the adapter's default \<open>'*'\<close>\<close>
  "svc_keys A now pattern sv = op_keys A now (case pattern of None \<Rightarrow> ''*'' | Some p \<Rightarrow> p) (fst sv)"

definition svc_clear ::
  "'s cache_ops \<Rightarrow> bus_config \<Rightarrow> int \<Rightarrow> string option \<Rightarrow> 's service \<Rightarrow> int \<times> 's service" where
  "svc_clear A B now pattern sv =
     (let p = (case pattern of None \<Rightarrow> ''*'' | Some p \<Rightarrow> p);
          keysToDelete = op_keys A now p (fst sv);
          (deletedCount, s) = op_clear A now p (fst sv)
      in (deletedCount, s, publish_all B (map (\<lambda>key. CacheDelete key now) keysToDelete) (snd sv)))"

definition svc_getWithTTL ::
  "'s cache_ops \<Rightarrow> int \<Rightarrow> string \<Rightarrow> 's service \<Rightarrow> (string option \<times> int option) \<times> 's service" where
  \<comment> \<open>\<open>!value\<close> holds for \<open>null\<close> and for the empty string\<close>
  "svc_getWithTTL A now key sv =
     (let (value, s) = op_get A now key (fst sv)
      in if value = None \<or> value = Some [] then ((None, None), s, snd sv)
         else ((value, case op_getTTL A of None \<Rightarrow> None | Some f \<Rightarrow> f now key s), s, snd sv))"

section \<open>The adapter contract\<close>

locale cache_adapter =
  fixes A :: "'s cache_ops"
    and ok :: "'s \<Rightarrow> bool"
    and visible :: "int \<Rightarrow> 's \<Rightarrow> string \<rightharpoonup> string"   \<comment> \<open>what a reader sees at a time\<close>
    and room :: "'s \<Rightarrow> bool"                       \<comment> \<open>the adapter can hold an entry at all\<close>
    and matches :: "string \<Rightarrow> string \<Rightarrow> bool"
  assumes get_law: "ok s \<Longrightarrow> fst (op_get A now k s) = visible now s k \<and> ok (snd (op_get A now k s)) \<and>
      visible now (snd (op_get A now k s)) = visible now s"
    and set_law: "ok s \<Longrightarrow> room s \<Longrightarrow> 0 \<le> now \<Longrightarrow> 0 < t \<Longrightarrow>
      \<exists>s'. op_set A now k v (Some t) s = Some (Inr s') \<and> ok s' \<and>
        (\<forall>now'. now \<le> now' \<and> now' < now + t * 1000 \<longrightarrow> visible now' s' k = Some v) \<and>
        (\<forall>now' k'. k' \<noteq> k \<longrightarrow> visible now' s' k' \<in> {None, visible now' s k'})"
    and delete_law: "ok s \<Longrightarrow> ok (snd (op_delete A k s)) \<and>
      visible now (snd (op_delete A k s)) = (visible now s)(k := None) \<and>
      (visible now s k \<noteq> None \<longrightarrow> fst (op_delete A k s))"
    and keys_law: "ok s \<Longrightarrow> set (op_keys A now p s) = {k \<in> dom (visible now s). matches p k}"
    and clear_law: "ok s \<Longrightarrow> ok (snd (op_clear A now p s)) \<and>
      visible now (snd (op_clear A now p s)) =
        (visible now s) |` {k. \<not> matches p k} \<and>
      fst (op_clear A now p s) = int (length (op_keys A now p s))"
begin

lemma publish_all_accepting:
  "has_bus B \<Longrightarrow> (\<And>ev. bus_accepts B ev) \<Longrightarrow> publish_all B evs evlog = evlog @ evs"
  by (induction evs arbitrary: evlog) (simp_all add: publishEvent_def)

lemma set_then_get:
  assumes "ok s" "room s" "0 \<le> now" "0 < t" "now \<le> now'" "now' < now + t * 1000"
  shows "\<exists>s' l'. svc_set A B now k v (Some t) (s, evlog) = Some (Inr (s', l')) \<and> ok s' \<and>
    fst (svc_get A B now' k (s', l')) = Some v"
proof -
  obtain s' where "op_set A now k v (Some t) s = Some (Inr s')" "ok s'" "visible now' s' k = Some v"
    using set_law [OF assms(1-4), of k v] assms(5,6) by blast
  then show ?thesis using get_law [of s' now' k] by (simp add: svc_set_def svc_get_def split_beta Let_def)
qed

lemma delete_then_get:
  assumes "ok s"
  shows "fst (svc_get A B now k (snd (svc_delete A B now k (s, evlog)))) = None"
  using delete_law [OF assms, of k now] get_law [of "snd (op_delete A k s)" now k]
  by (simp add: svc_delete_def svc_get_def split_beta Let_def)

lemma clear_events:
  assumes "ok s" "has_bus B" "\<And>ev. bus_accepts B ev"
  shows "set (drop (length evlog) (snd (snd (svc_clear A B now (Some p) (s, evlog))))) =
    {CacheDelete k now | k. visible now s k \<noteq> None \<and> matches p k}"
  using assms keys_law [of s now p]
  by (auto simp: svc_clear_def Let_def split_beta publish_all_accepting dom_def)

lemma clear_then_get:
  assumes "ok s"
  shows "fst (svc_get A B now k (snd (svc_clear A B now (Some p) (s, evlog)))) =
    (if matches p k then None else visible now s k)"
  using clear_law [OF assms, of now p] get_law [of "snd (op_clear A now p s)" now k]
  by (simp add: svc_clear_def svc_get_def Let_def split_beta restrict_map_def)

end

section \<open>The in-memory adapter meets it\<close>

definition memory_adapter :: "mem_cache cache_ops" where
  "memory_adapter =
     \<lparr>op_get = cm_get, op_set = cm_set, op_delete = cm_delete, op_mget = cm_mget, op_mset = cm_mset,
      op_keys = cm_keys, op_clear = cm_clear, op_getTTL = Some cm_getTTL\<rparr>"

definition cm_visible :: "int \<Rightarrow> mem_cache \<Rightarrow> string \<rightharpoonup> string" where
  "cm_visible now c k =
     (case map_get (cm_store c) k of
        None \<Rightarrow> None | Some e \<Rightarrow> if entry_expired now e then None else Some (ce_value e))"

definition mem_ok :: "mem_cache \<Rightarrow> bool" where
  "mem_ok c \<longleftrightarrow> cache_ok c \<and> (\<forall>k e. map_get (cm_store c) k = Some e \<longrightarrow> 0 \<le> ce_expiresAt e)"

definition glob_matches :: "string \<Rightarrow> string \<Rightarrow> bool" where
  "glob_matches p k \<longleftrightarrow> p = ''*'' \<or> glob_match p k"

lemma visible_iff_live: "mem_ok c \<Longrightarrow> cm_visible now c k \<noteq> None \<longleftrightarrow> live now c k"
  unfolding cm_visible_def live_def entry_expired_def mem_ok_def
  by (auto split: option.splits) (metis linorder_not_le order_le_less)+

lemma visible_cong:
  "map_get (cm_store c') k = map_get (cm_store c) k \<Longrightarrow> cm_visible now c' k = cm_visible now c k"
  by (simp add: cm_visible_def)

lemma cm_get_store:
  "map_get (cm_store (snd (cm_get now k c))) =
     (case map_get (cm_store c) k of
        Some e \<Rightarrow> if entry_expired now e then (map_get (cm_store c))(k := None) else map_get (cm_store c)
      | None \<Rightarrow> map_get (cm_store c))"
  by (auto simp: cm_get_def Let_def split: option.splits)

lemma mem_get_law:
  assumes "mem_ok c"
  shows "fst (cm_get now k c) = cm_visible now c k \<and> mem_ok (snd (cm_get now k c)) \<and>
    cm_visible now (snd (cm_get now k c)) = cm_visible now c"
  using assms
  by (auto simp: mem_ok_def cm_get_value cm_visible_def cm_get_ok cm_get_store fun_eq_iff
      split: option.splits if_splits)

lemma mem_set_law:
  assumes "mem_ok c" "0 < cm_maxEntries c" "0 \<le> now" "0 < t"
  shows "\<exists>c'. cm_set now k v (Some t) c = Some (Inr c') \<and> mem_ok c' \<and>
        (\<forall>now'. now \<le> now' \<and> now' < now + t * 1000 \<longrightarrow> cm_visible now' c' k = Some v) \<and>
        (\<forall>now' k'. k' \<noteq> k \<longrightarrow> cm_visible now' c' k' \<in> {None, cm_visible now' c k'})"
proof -
  have ok: "cache_ok c" "map_ok (cm_store c)" using assms(1) by (simp_all add: mem_ok_def cache_ok_def)
  obtain c' where c': "cm_set now k v (Some t) c = Some (Inr c')" "cache_ok c'"
      "cm_store c' = after_set now k v (Some t) c"
    using cm_set_result [OF ok(1), of "Some t" now k v] assms(4) by auto
  have get: "map_get (cm_store c') k = Some (new_entry now k v (Some t))"
    using c' after_set_get [of c now k v "Some t"] assms(2) by (simp add: effective_ttl_def)
  have other: "map_get (cm_store c') k' \<in> {None, map_get (cm_store c) k'}" if "k' \<noteq> k" for k'
    using after_set_other [OF ok(2) assms(2) that] c'(3) by simp
  have "0 \<le> ce_expiresAt e" if "map_get (cm_store c') k' = Some e" for k' e
    using that get other [of k'] assms by (cases "k' = k") (auto simp: new_entry_def mem_ok_def)
  then have "mem_ok c'" using c' by (simp add: mem_ok_def)
  moreover have "\<forall>now'. now \<le> now' \<and> now' < now + t * 1000 \<longrightarrow> cm_visible now' c' k = Some v"
    using get by (simp add: cm_visible_def entry_expired_def new_entry_def)
  moreover have "cm_visible now' c' k' \<in> {None, cm_visible now' c k'}" if "k' \<noteq> k" for now' k'
    using other [OF that] by (auto simp: cm_visible_def)
  ultimately show ?thesis using c' by blast
qed

lemma mem_delete_law:
  assumes "mem_ok c"
  shows "mem_ok (snd (cm_delete k c)) \<and>
    cm_visible now (snd (cm_delete k c)) = (cm_visible now c)(k := None) \<and>
    (cm_visible now c k \<noteq> None \<longrightarrow> fst (cm_delete k c))"
  using assms
  by (auto simp: mem_ok_def cm_delete_ok cm_visible_def map_has_get fun_eq_iff split: option.splits if_splits)

lemma mem_keys_law:
  assumes "mem_ok c"
  shows "set (cm_keys now p c) = {k \<in> dom (cm_visible now c). glob_matches p k}"
  using visible_iff_live [OF assms, of now] by (auto simp: set_cm_keys glob_matches_def)

lemma mem_clear_law:
  assumes "mem_ok c"
  shows "mem_ok (snd (cm_clear now p c)) \<and>
    cm_visible now (snd (cm_clear now p c)) = cm_visible now c |` {k. \<not> glob_matches p k} \<and>
    fst (cm_clear now p c) = int (length (cm_keys now p c))"
proof -
  have get: "map_get (cm_store (snd (cm_clear now p c))) k =
      (if live now c k \<and> glob_matches p k then None else map_get (cm_store c) k)" for k
    by (simp add: cm_clear_def Let_def cm_delete_all_get set_cm_keys glob_matches_def)
  have vis: "cm_visible now (snd (cm_clear now p c)) = cm_visible now c |` {k. \<not> glob_matches p k}"
  proof
    fix k
    show "cm_visible now (snd (cm_clear now p c)) k = (cm_visible now c |` {k. \<not> glob_matches p k}) k"
      using get [of k] visible_iff_live [OF assms, of now k]
      by (auto simp: restrict_map_def cm_visible_def)
  qed
  have "cache_ok (snd (cm_clear now p c))"
    using assms by (simp add: mem_ok_def cm_clear_def Let_def cm_delete_all_ok)
  then show ?thesis
    using vis get assms by (auto simp: mem_ok_def cm_clear_def Let_def split: if_splits)
qed

interpretation mem_cache: cache_adapter memory_adapter mem_ok cm_visible "\<lambda>c. 0 < cm_maxEntries c"
  glob_matches
  unfolding memory_adapter_def
  by unfold_locales
     (use mem_get_law mem_set_law mem_delete_law mem_keys_law mem_clear_law in \<open>simp_all\<close>)

section \<open>Properties of the service\<close>


text \<open>The empty string can be cached and read with \<open>get\<close>, but \<open>getWithTTL\<close> reports the same
  key as missing: it tests the value for truth, not for \<open>null\<close>.\<close>
theorem empty_value_lost_by_getWithTTL:
  assumes "mem_ok c" "cm_visible now c k = Some []"
  shows "fst (svc_get memory_adapter B now k (c, evs)) = Some [] \<and>
         fst (svc_getWithTTL memory_adapter now k (c, evs)) = (None, None)"
  using mem_get_law [OF assms(1), of now k] assms(2)
  by (simp add: svc_get_def svc_getWithTTL_def memory_adapter_def split_beta Let_def)

section \<open>Witnesses\<close>

definition open_bus :: bus_config where
  "open_bus = \<lparr>has_bus = True, bus_accepts = (\<lambda>_. True)\<rparr>"

definition with_empty_value :: mem_cache where
  "with_empty_value = small_cache\<lparr>cm_store := [(''k'', new_entry 0 ''k'' [] None)]\<rparr>"

lemma witness_states_ok: "mem_ok small_cache" "mem_ok with_empty_value" "0 < cm_maxEntries small_cache"
  by (simp_all add: mem_ok_def with_empty_value_def small_cache_ok)
     (simp_all add: cache_ok_def timers_ok_def paired_def timers_match_def small_cache_def
       new_MemoryAdapter_def new_entry_def)


theorem empty_value_lost_by_getWithTTL_witness:
  "fst (svc_getWithTTL memory_adapter 7 ''k'' (with_empty_value, [])) = (None, None) \<and>
   cm_visible 7 with_empty_value ''k'' = Some []"
proof -
  have "cm_visible 7 with_empty_value ''k'' = Some []"
    by (simp add: cm_visible_def with_empty_value_def entry_expired_def new_entry_def)
  then show ?thesis
    using empty_value_lost_by_getWithTTL [of with_empty_value 7 "''k''" open_bus "[]"]
      witness_states_ok by simp
qed

end
