(* ===== verification/Blaize_Errors.thy ===== *)
theory Blaize_Errors
  imports Blaize_Prelude
begin

text \<open>
  Errors and their HTTP form: the error hierarchy (\<open>blaize-types/src/errors.ts\<close> and
  \<open>blaize-core/src/errors\<close>), correlation ids (\<open>tracing/correlation.ts\<close>) and the formatting of
  errors (\<open>errors/boundary.ts\<close>).

  Values that reach \<open>JSON.stringify\<close> are of type \<open>json\<close>; an absent value is \<open>None\<close>. The current
  time (as ISO text) and the result of the id generator are arguments.
\<close>

datatype json =
    JNull
  | JBool bool
  | JNum int
  | JStr string
  | JArr "json list"
  | JObj "(string \<times> json) list"

section \<open>Error classes\<close>

datatype errorType =
    VALIDATION_ERROR | NOT_FOUND | UNAUTHORIZED | FORBIDDEN | SSE_NOT_ACCEPTABLE | CONFLICT
  | RATE_LIMITED | INTERNAL_SERVER_ERROR | PAYLOAD_TOO_LARGE | UNSUPPORTED_MEDIA_TYPE
  | UPLOAD_TIMEOUT | UNPROCESSABLE_ENTITY | NETWORK_ERROR | TIMEOUT_ERROR | PARSE_ERROR
  | HTTP_ERROR | SSE_CONNECTION_ERROR | SSE_BUFFER_OVERFLOW | SSE_STREAM_CLOSED
  | SERVICE_UNAVAILABLE | COMPRESSION_CONFIGURATION_ERROR

fun errorType_name :: "errorType \<Rightarrow> string" where
  "errorType_name VALIDATION_ERROR = ''VALIDATION_ERROR''"
| "errorType_name NOT_FOUND = ''NOT_FOUND''"
| "errorType_name UNAUTHORIZED = ''UNAUTHORIZED''"
| "errorType_name FORBIDDEN = ''FORBIDDEN''"
| "errorType_name SSE_NOT_ACCEPTABLE = ''SSE_NOT_ACCEPTABLE''"
| "errorType_name CONFLICT = ''CONFLICT''"
| "errorType_name RATE_LIMITED = ''RATE_LIMITED''"
| "errorType_name INTERNAL_SERVER_ERROR = ''INTERNAL_SERVER_ERROR''"
| "errorType_name PAYLOAD_TOO_LARGE = ''PAYLOAD_TOO_LARGE''"
| "errorType_name UNSUPPORTED_MEDIA_TYPE = ''UNSUPPORTED_MEDIA_TYPE''"
| "errorType_name UPLOAD_TIMEOUT = ''UPLOAD_TIMEOUT''"
| "errorType_name UNPROCESSABLE_ENTITY = ''UNPROCESSABLE_ENTITY''"
| "errorType_name NETWORK_ERROR = ''NETWORK_ERROR''"
| "errorType_name TIMEOUT_ERROR = ''TIMEOUT_ERROR''"
| "errorType_name PARSE_ERROR = ''PARSE_ERROR''"
| "errorType_name HTTP_ERROR = ''HTTP_ERROR''"
| "errorType_name SSE_CONNECTION_ERROR = ''SSE_CONNECTION_ERROR''"
| "errorType_name SSE_BUFFER_OVERFLOW = ''SSE_BUFFER_OVERFLOW''"
| "errorType_name SSE_STREAM_CLOSED = ''SSE_STREAM_CLOSED''"
| "errorType_name SERVICE_UNAVAILABLE = ''SERVICE_UNAVAILABLE''"
| "errorType_name COMPRESSION_CONFIGURATION_ERROR = ''COMPRESSION_CONFIGURATION_ERROR''"

record blaize_error =
  er_type :: errorType
  er_title :: string
  er_status :: int
  er_correlationId :: string
  er_timestamp :: string
  er_details :: "json option"

definition BlaizeError :: "errorType \<Rightarrow> string \<Rightarrow> int \<Rightarrow> string \<Rightarrow> string \<Rightarrow> json option \<Rightarrow> blaize_error" where
  "BlaizeError type title status correlationId now details =
     \<lparr>er_type = type, er_title = title, er_status = status, er_correlationId = correlationId,
      er_timestamp = now, er_details = details\<rparr>"

definition ValidationError :: "string \<Rightarrow> string \<Rightarrow> string \<Rightarrow> json option \<Rightarrow> blaize_error" where
  "ValidationError cid now title details = BlaizeError VALIDATION_ERROR title 400 cid now details"

definition UnauthorizedError :: "string \<Rightarrow> string \<Rightarrow> string \<Rightarrow> json option \<Rightarrow> blaize_error" where
  "UnauthorizedError cid now title details = BlaizeError UNAUTHORIZED title 401 cid now details"

definition ForbiddenError :: "string \<Rightarrow> string \<Rightarrow> string \<Rightarrow> json option \<Rightarrow> blaize_error" where
  "ForbiddenError cid now title details = BlaizeError FORBIDDEN title 403 cid now details"

definition NotFoundError :: "string \<Rightarrow> string \<Rightarrow> string \<Rightarrow> json option \<Rightarrow> blaize_error" where
  "NotFoundError cid now title details = BlaizeError NOT_FOUND title 404 cid now details"

definition RequestTimeoutError :: "string \<Rightarrow> string \<Rightarrow> string \<Rightarrow> json option \<Rightarrow> blaize_error" where
  "RequestTimeoutError cid now title details = BlaizeError UPLOAD_TIMEOUT title 408 cid now details"

definition ConflictError :: "string \<Rightarrow> string \<Rightarrow> string \<Rightarrow> json option \<Rightarrow> blaize_error" where
  "ConflictError cid now title details = BlaizeError CONFLICT title 409 cid now details"

definition PayloadTooLargeError :: "string \<Rightarrow> string \<Rightarrow> string \<Rightarrow> json option \<Rightarrow> blaize_error" where
  "PayloadTooLargeError cid now title details = BlaizeError PAYLOAD_TOO_LARGE title 413 cid now details"

definition UnsupportedMediaTypeError :: "string \<Rightarrow> string \<Rightarrow> string \<Rightarrow> json option \<Rightarrow> blaize_error" where
  "UnsupportedMediaTypeError cid now title details = BlaizeError UNSUPPORTED_MEDIA_TYPE title 415 cid now details"

definition UnprocessableEntityError :: "string \<Rightarrow> string \<Rightarrow> string \<Rightarrow> json option \<Rightarrow> blaize_error" where
  "UnprocessableEntityError cid now title details = BlaizeError UNPROCESSABLE_ENTITY title 422 cid now details"

definition RateLimitError :: "string \<Rightarrow> string \<Rightarrow> string \<Rightarrow> json option \<Rightarrow> blaize_error" where
  "RateLimitError cid now title details = BlaizeError RATE_LIMITED title 429 cid now details"

definition InternalServerError :: "string \<Rightarrow> string \<Rightarrow> string \<Rightarrow> json option \<Rightarrow> blaize_error" where
  "InternalServerError cid now title details = BlaizeError INTERNAL_SERVER_ERROR title 500 cid now details"

definition ServiceNotAvailableError :: "string \<Rightarrow> string \<Rightarrow> string \<Rightarrow> json option \<Rightarrow> blaize_error" where
  "ServiceNotAvailableError cid now title details = BlaizeError SERVICE_UNAVAILABLE title 503 cid now details"

datatype thrown =
    BlaizeErr blaize_error   \<comment> \<open>an instance of \<open>BlaizeError\<close>\<close>
  | ErrorObj string          \<comment> \<open>any other \<open>Error\<close>, with its message\<close>
  | NullThrown               \<comment> \<open>\<open>null\<close> or \<open>undefined\<close>\<close>
  | OtherThrown string       \<comment> \<open>another value, with its string form\<close>

section \<open>Correlation ids\<close>

definition is_space :: "char \<Rightarrow> bool" where
  "is_space c \<longleftrightarrow> of_char c \<in> {9, 10, 11, 12, 13, 32, 160 :: nat}"

definition blank :: "string \<Rightarrow> bool" where
  \<comment> \<open>\<open>s.trim()\<close> is empty\<close>
  "blank s \<longleftrightarrow> list_all is_space s"

datatype header_value = HOne string | HMany "string list"

definition getCorrelationId :: "string option \<Rightarrow> string" where
  "getCorrelationId stored = (case stored of
     Some s \<Rightarrow> if blank s then ''unknown'' else s | None \<Rightarrow> ''unknown'')"

definition createCorrelationIdFromHeaders :: "string \<Rightarrow> string \<Rightarrow> (string, header_value) js_map \<Rightarrow> string" where
  "createCorrelationIdFromHeaders headerName generated headers =
     (let correlationId = (case map_get headers headerName of
                             Some (HMany (v # vs)) \<Rightarrow> Some v
                           | Some (HOne v) \<Rightarrow> Some v
                           | _ \<Rightarrow> None)
      in case correlationId of
           Some c \<Rightarrow> if blank c then generated else c
         | None \<Rightarrow> generated)"

section \<open>Error responses\<close>

definition isHandledError :: "thrown \<Rightarrow> bool" where
  "isHandledError e = (case e of BlaizeErr _ \<Rightarrow> True | _ \<Rightarrow> False)"

definition formatErrorResponse :: "string option \<Rightarrow> string \<Rightarrow> thrown \<Rightarrow> blaize_error" where
  \<comment> \<open>the fields of the response object; \<open>stored\<close> is the correlation id of the request\<close>
  "formatErrorResponse stored now error =
     (case error of
        BlaizeErr e \<Rightarrow> e
      | ErrorObj msg \<Rightarrow>
          InternalServerError (getCorrelationId stored) now ''Internal Server Error'' (Some (JObj [(''originalMessage'', JStr msg)]))
      | NullThrown \<Rightarrow>
          InternalServerError (getCorrelationId stored) now ''Internal Server Error''
            (Some (JObj [(''originalMessage'', JStr ''Unknown error occurred'')]))
      | OtherThrown s \<Rightarrow>
          InternalServerError (getCorrelationId stored) now ''Internal Server Error'' (Some (JObj [(''originalMessage'', JStr s)])))"

definition error_json :: "blaize_error \<Rightarrow> json" where
  \<comment> \<open>an absent \<open>details\<close> is dropped by \<open>JSON.stringify\<close>\<close>
  "error_json e = JObj ([(''type'', JStr (errorType_name (er_type e))), (''title'', JStr (er_title e)),
     (''status'', JNum (er_status e)), (''correlationId'', JStr (er_correlationId e)),
     (''timestamp'', JStr (er_timestamp e))] @ (case er_details e of Some d \<Rightarrow> [(''details'', d)] | None \<Rightarrow> []))"

definition extractOrGenerateCorrelationId :: "string \<Rightarrow> string \<Rightarrow> (string \<Rightarrow> string option) \<Rightarrow> string" where
  "extractOrGenerateCorrelationId headerName generated headerGetter =
     createCorrelationIdFromHeaders headerName generated
       (case headerGetter headerName of Some v \<Rightarrow> [(headerName, HOne v)] | None \<Rightarrow> [])"

definition error_status :: "thrown \<Rightarrow> int" where
  \<comment> \<open>the status an error stands for\<close>
  "error_status e = (case e of BlaizeErr b \<Rightarrow> er_status b | _ \<Rightarrow> 500)"

lemma formatErrorResponse_status [simp]: "er_status (formatErrorResponse stored now e) = error_status e"
  by (cases e) (simp_all add: formatErrorResponse_def error_status_def InternalServerError_def BlaizeError_def)

end
