(* ===== verification/Http_Context.thy ===== *)
theory Http_Context
  imports Blaize_Errors
begin

text \<open>
  The request context (\<open>context/create.ts\<close> of \<open>blaize-core\<close>): request fields, the guarded response
  object and body parsing.

  \<open>http_context\<close> holds what the closures of \<open>createContext\<close> share: request data, \<open>state.correlationId\<close>,
  \<open>responseState.sent\<close>, and of the runtime's response object the status, the headers, whether the
  headers are on the wire, and the body it was ended with. Header names are compared without case,
  as the runtime does. Response methods return what they throw, if anything. Reading the raw body,
  \<open>JSON.parse\<close>, the URL parser and the multipart parser are parameters.
\<close>

section \<open>Text helpers\<close>

definition lower_char :: "char \<Rightarrow> char" where
  "lower_char c = (let n = (of_char c :: nat) in if 65 \<le> n \<and> n \<le> 90 then char_of (n + 32) else c)"

definition toLowerCase :: "string \<Rightarrow> string" where
  "toLowerCase = map lower_char"

definition upper_char :: "char \<Rightarrow> char" where
  "upper_char c = (let n = (of_char c :: nat) in if 97 \<le> n \<and> n \<le> 122 then char_of (n - 32) else c)"

definition js_trim :: "string \<Rightarrow> string" where
  "js_trim s = rev (dropWhile is_space (rev (dropWhile is_space s)))"

definition digits10 :: "string \<Rightarrow> int option" where
  "digits10 s = (case s of c # cs \<Rightarrow> (case char_digit c of Some d \<Rightarrow> Some (int (read_digits 0 s)) | None \<Rightarrow> None) | [] \<Rightarrow> None)"

definition parseInt10 :: "string \<Rightarrow> int option" where
  \<comment> \<open>\<open>parseInt(s, 10)\<close>; \<open>None\<close> is \<open>NaN\<close>\<close>
  "parseInt10 s =
     (case dropWhile is_space s of
        [] \<Rightarrow> None
      | c # r \<Rightarrow> if c = CHR ''-'' then map_option uminus (digits10 r)
                 else if c = CHR ''+'' then digits10 r else digits10 (c # r))"

section \<open>The context\<close>

datatype response_body = JsonBody json | TextBody string | HtmlBody string | EmptyBody

type_synonym schema = "json option \<Rightarrow> (string list \<times> string) list + json"
  \<comment> \<open>a schema's \<open>parse\<close>: the issues (path, message), or the parsed value\<close>

record http_context =
  cx_method :: string
  cx_path :: string
  cx_reqHeaders :: "(string, header_value) js_map"
  cx_params :: "json option"
  cx_query :: "json option"
  cx_body :: "json option"
  cx_files :: "json option"
  cx_correlationId :: "string option"
  rs_statusCode :: int
  rs_headers :: "(string, string) js_map"
  rs_headersSent :: bool
  rs_body :: "response_body option"
  rs_sent :: bool
  rs_streaming :: bool
  rs_json :: "(bool \<times> schema) list"   \<comment> \<open>validators wrapped around \<open>response.json\<close>, outermost first\<close>

type_synonym ctx_op = "http_context \<Rightarrow> thrown option \<times> http_context"

definition then_do :: "ctx_op \<Rightarrow> ctx_op \<Rightarrow> ctx_op" where
  "then_do f g c = (let (r, c') = f c in case r of None \<Rightarrow> g c' | Some e \<Rightarrow> (Some e, c'))"

definition request_header :: "http_context \<Rightarrow> string \<Rightarrow> string option" where
  "request_header c name =
     (case map_get (cx_reqHeaders c) (toLowerCase name) of
        None \<Rightarrow> None
      | Some (HMany vs) \<Rightarrow> Some (str_join '', '' vs)
      | Some (HOne v) \<Rightarrow> if v = [] then None else Some v)"

section \<open>The response object\<close>

definition ResponseSentError :: thrown where
  \<comment> \<open>the message in the code starts with a cross mark\<close>
  "ResponseSentError = ErrorObj ''Response has already been sent''"

definition ResponseSentHeaderError :: thrown where
  "ResponseSentHeaderError = ErrorObj ''Cannot set header after response has been sent''"

definition ResponseSentContentError :: thrown where
  "ResponseSentContentError = ErrorObj ''Cannot set content type after response has been sent''"

definition res_setHeader :: "string \<Rightarrow> string \<Rightarrow> ctx_op" where
  \<comment> \<open>the runtime's \<open>setHeader\<close>, which throws once the headers are sent\<close>
  "res_setHeader name v c =
     (if rs_headersSent c then (Some (ErrorObj ''Cannot set headers after they are sent to the client''), c)
      else (None, c\<lparr>rs_headers := map_set (toLowerCase name) v (rs_headers c)\<rparr>))"

definition res_end :: "response_body \<Rightarrow> ctx_op" where
  "res_end b c = (None, c\<lparr>rs_body := Some b, rs_headersSent := True\<rparr>)"

definition mark_sent :: ctx_op where
  "mark_sent c = (None, c\<lparr>rs_sent := True\<rparr>)"

definition guard_sent :: "thrown \<Rightarrow> ctx_op \<Rightarrow> ctx_op" where
  "guard_sent e f c = (if rs_sent c then (Some e, c) else f c)"

definition set_status :: "int option \<Rightarrow> ctx_op" where
  "set_status s c = (None, case s of Some n \<Rightarrow> c\<lparr>rs_statusCode := n\<rparr> | None \<Rightarrow> c)"

definition addCorrelationHeader :: "string \<Rightarrow> ctx_op" where
  "addCorrelationHeader headerName c =
     (case cx_correlationId c of
        Some (x # xs) \<Rightarrow> res_setHeader headerName (x # xs) c
      | _ \<Rightarrow> (None, c))"

definition response_status :: "int \<Rightarrow> ctx_op" where
  "response_status code = guard_sent ResponseSentError (set_status (Some code))"

definition response_header :: "string \<Rightarrow> string \<Rightarrow> ctx_op" where
  "response_header name v = guard_sent ResponseSentHeaderError (res_setHeader name v)"

definition response_headers :: "(string \<times> string) list \<Rightarrow> ctx_op" where
  "response_headers hs = guard_sent ResponseSentHeaderError
     (foldr (\<lambda>(n, v). then_do (res_setHeader n v)) hs (\<lambda>c. (None, c)))"

definition response_type :: "string \<Rightarrow> ctx_op" where
  "response_type t = guard_sent ResponseSentContentError (res_setHeader ''Content-Type'' t)"

definition send_body :: "string \<Rightarrow> int option \<Rightarrow> string \<Rightarrow> response_body \<Rightarrow> ctx_op" where
  \<comment> \<open>the common body of the JSON, text and HTML responders\<close>
  "send_body hn status type b = guard_sent ResponseSentError
     (then_do (set_status status) (then_do (addCorrelationHeader hn)
       (then_do (res_setHeader ''Content-Type'' type) (then_do (res_end b) mark_sent))))"

definition json_responder :: "string \<Rightarrow> json \<Rightarrow> int option \<Rightarrow> ctx_op" where
  "json_responder hn body status = send_body hn status ''application/json'' (JsonBody body)"

definition text_responder :: "string \<Rightarrow> string \<Rightarrow> int option \<Rightarrow> ctx_op" where
  "text_responder hn body status = send_body hn status ''text/plain'' (TextBody body)"

definition html_responder :: "string \<Rightarrow> string \<Rightarrow> int option \<Rightarrow> ctx_op" where
  "html_responder hn body status = send_body hn status ''text/html'' (HtmlBody body)"

definition redirect_responder :: "string \<Rightarrow> string \<Rightarrow> int option \<Rightarrow> ctx_op" where
  "redirect_responder hn url status = guard_sent ResponseSentError
     (then_do (addCorrelationHeader hn)
       (then_do (set_status (Some (case status of Some s \<Rightarrow> s | None \<Rightarrow> 302)))
         (then_do (res_setHeader ''Location'' url) (then_do (res_end EmptyBody) mark_sent))))"

definition stream_responder ::
  "string \<Rightarrow> int option \<Rightarrow> string option \<Rightarrow> (string \<times> string) list \<Rightarrow> ctx_op" where
  \<comment> \<open>up to \<open>readable.pipe(res)\<close>; the data and the end come later\<close>
  "stream_responder hn status contentType hs = guard_sent ResponseSentError
     (then_do (set_status status) (then_do (addCorrelationHeader hn)
       (then_do (case contentType of Some (t # ts) \<Rightarrow> res_setHeader ''Content-Type'' (t # ts) | _ \<Rightarrow> (\<lambda>c. (None, c)))
         (then_do (foldr (\<lambda>(n, v). then_do (res_setHeader n v)) hs (\<lambda>c. (None, c)))
           (\<lambda>c. (None, c\<lparr>rs_streaming := True\<rparr>))))))"

definition stream_on_end :: "http_context \<Rightarrow> http_context" where
  "stream_on_end c = c\<lparr>rs_sent := True\<rparr>"

definition stream_on_error :: "http_context \<Rightarrow> http_context" where
  "stream_on_error c = (if rs_sent c then c
     else c\<lparr>rs_statusCode := 500, rs_body := Some (TextBody ''Stream error''), rs_headersSent := True, rs_sent := True\<rparr>)"

section \<open>Request bodies\<close>

fun group_entry :: "string \<Rightarrow> string \<Rightarrow> (string \<times> json) list \<Rightarrow> (string \<times> json) list" where
  \<comment> \<open>one step of the \<open>forEach\<close> over \<open>URLSearchParams\<close>: a first value is a string, more make an array\<close>
  "group_entry k v obj =
     (case map_get obj k of
        None \<Rightarrow> map_set k (JStr v) obj
      | Some (JArr vs) \<Rightarrow> map_set k (JArr (vs @ [JStr v])) obj
      | Some old \<Rightarrow> map_set k (JArr [old, JStr v]) obj)"

definition parseUrlEncodedData :: "(string \<times> string) list \<Rightarrow> json" where
  \<comment> \<open>on the entries of \<open>URLSearchParams\<close>; also the query parameters of \<open>parseRequestUrl\<close>\<close>
  "parseUrlEncodedData es = JObj (foldl (\<lambda>obj (k, v). group_entry k v obj) [] es)"

record body_limits =
  bl_json :: int
  bl_form :: int
  bl_text :: int
  bl_raw :: int

record body_env =
  be_raw :: string                                   \<comment> \<open>what \<open>readRequestBody\<close> resolves to\<close>
  be_parseJson :: "string \<Rightarrow> string + json"          \<comment> \<open>\<open>JSON.parse\<close>: the message, or the value\<close>
  be_entries :: "string \<Rightarrow> (string \<times> string) list"  \<comment> \<open>\<open>new URLSearchParams\<close>\<close>
  be_multipart :: "thrown + (json \<times> json)"           \<comment> \<open>\<open>parseMultipartRequest\<close>: fields and files\<close>

definition shouldSkipParsing :: "string \<Rightarrow> bool" where
  "shouldSkipParsing m \<longleftrightarrow> m \<in> set [''GET'', ''HEAD'', ''OPTIONS'']"

definition body_error :: "string \<Rightarrow> string \<Rightarrow> string \<Rightarrow> string list \<Rightarrow> thrown" where
  "body_error cid now title messages = BlaizeErr (ValidationError cid now title
     (Some (JObj [(''fields'', JArr [JObj [(''field'', JStr ''body''), (''messages'', JArr (map JStr messages))]]),
                  (''errorCount'', JNum 1), (''section'', JStr ''body'')])))"

definition parseJsonBody :: "body_env \<Rightarrow> string \<Rightarrow> string \<Rightarrow> ctx_op" where
  "parseJsonBody env cid now c =
     (if be_raw env = [] then (None, c)
      else if js_trim (be_raw env) = ''null'' then (None, c\<lparr>cx_body := Some JNull\<rparr>)
      else case be_parseJson env (be_raw env) of
             Inr v \<Rightarrow> (None, c\<lparr>cx_body := Some v\<rparr>)
           | Inl msg \<Rightarrow> (Some (body_error cid now ''Invalid JSON in request body''
                                [''Request body contains malformed JSON'', msg]), c))"

definition parseFormUrlEncodedBody :: "body_env \<Rightarrow> ctx_op" where
  \<comment> \<open>\<open>URLSearchParams\<close> does not throw, so the error path of the code is not taken\<close>
  "parseFormUrlEncodedBody env c =
     (if be_raw env = [] then (None, c)
      else (None, c\<lparr>cx_body := Some (parseUrlEncodedData (be_entries env (be_raw env)))\<rparr>))"

definition parseTextBody :: "body_env \<Rightarrow> ctx_op" where
  "parseTextBody env c = (if be_raw env = [] then (None, c) else (None, c\<lparr>cx_body := Some (JStr (be_raw env))\<rparr>))"

definition parseMultipartBody :: "body_env \<Rightarrow> string \<Rightarrow> string \<Rightarrow> string \<Rightarrow> ctx_op" where
  "parseMultipartBody env cid now contentType c =
     (case be_multipart env of
        Inr (form, uploads) \<Rightarrow> (None, c\<lparr>cx_files := Some uploads, cx_body := Some form\<rparr>)
      | Inl e \<Rightarrow>
          (Some (if (case e of BlaizeErr b \<Rightarrow> er_type b = PAYLOAD_TOO_LARGE \<or> er_type b = UNSUPPORTED_MEDIA_TYPE | _ \<Rightarrow> False)
                 then e
                 else BlaizeErr (UnsupportedMediaTypeError cid now ''Failed to parse multipart/form-data''
                        (Some (JObj [(''receivedContentType'', JStr contentType),
                                     (''expectedFormat'', JStr ''multipart/form-data; boundary=...'')])))), c))"

definition too_large :: "string \<Rightarrow> string \<Rightarrow> string \<Rightarrow> int option \<Rightarrow> int \<Rightarrow> string \<Rightarrow> thrown" where
  "too_large cid now title len limit contentType = BlaizeErr (PayloadTooLargeError cid now title
     (Some (JObj [(''currentSize'', case len of Some n \<Rightarrow> JNum n | None \<Rightarrow> JNull), (''maxSize'', JNum limit),
                  (''contentType'', JStr contentType)])))"

definition exceeds :: "int option \<Rightarrow> int \<Rightarrow> bool" where
  "exceeds len limit = (case len of Some n \<Rightarrow> limit < n | None \<Rightarrow> False)"

definition header_text :: "http_context \<Rightarrow> string \<Rightarrow> string" where
  \<comment> \<open>\<open>req.headers[name] || ''\<close>\<close>
  "header_text c name = (case map_get (cx_reqHeaders c) name of Some (HOne v) \<Rightarrow> v | _ \<Rightarrow> [])"

definition parseBodyIfNeeded :: "body_env \<Rightarrow> body_limits \<Rightarrow> string \<Rightarrow> string \<Rightarrow> ctx_op" where
  "parseBodyIfNeeded env limits cid now c =
     (let contentType = header_text c ''content-type'';
          contentLength = parseInt10 (if header_text c ''content-length'' = [] then ''0'' else header_text c ''content-length'')
      in if shouldSkipParsing (cx_method c) then (None, c)
         else if contentLength = Some 0 then (None, c)
         else if str_includes contentType ''application/json'' then
           (if exceeds contentLength (bl_json limits)
            then (Some (too_large cid now ''JSON body exceeds size limit'' contentLength (bl_json limits) ''application/json''), c)
            else parseJsonBody env cid now c)
         else if str_includes contentType ''application/x-www-form-urlencoded'' then
           (if exceeds contentLength (bl_form limits)
            then (Some (too_large cid now ''Form body exceeds size limit'' contentLength (bl_form limits)
                    ''application/x-www-form-urlencoded''), c)
            else parseFormUrlEncodedBody env c)
         else if str_includes contentType ''text/'' then
           (if exceeds contentLength (bl_text limits)
            then (Some (too_large cid now ''Text body exceeds size limit'' contentLength (bl_text limits) contentType), c)
            else parseTextBody env c)
         else if str_includes (toLowerCase contentType) ''multipart/form-data'' then parseMultipartBody env cid now contentType c
         else if exceeds contentLength (bl_raw limits)
            then (Some (too_large cid now ''Request body exceeds size limit'' contentLength (bl_raw limits)
                    (if contentType = [] then ''unknown'' else contentType)), c)
         else (None, c))"

section \<open>The response is sent once\<close>

lemma then_do_simps:
  "f c = (None, c') \<Longrightarrow> then_do f g c = g c'" "f c = (Some e, c') \<Longrightarrow> then_do f g c = (Some e, c')"
  by (simp_all add: then_do_def)

definition response_unchanged :: "http_context \<Rightarrow> http_context \<Rightarrow> bool" where
  "response_unchanged c d \<longleftrightarrow> rs_statusCode d = rs_statusCode c \<and> rs_headers d = rs_headers c \<and>
     rs_body d = rs_body c \<and> rs_sent d = rs_sent c \<and> rs_headersSent d = rs_headersSent c"

definition body_only :: "http_context \<Rightarrow> http_context \<Rightarrow> bool" where
  "body_only c d \<longleftrightarrow> (\<exists>b f. d = c\<lparr>cx_body := b, cx_files := f\<rparr>)"

lemma body_onlyI: "body_only c c" "body_only c (c\<lparr>cx_body := b\<rparr>)" "body_only c (c\<lparr>cx_files := f, cx_body := b\<rparr>)"
  unfolding body_only_def
  by (rule exI [of _ "cx_body c"], rule exI [of _ "cx_files c"], simp,
      rule exI [of _ b], rule exI [of _ "cx_files c"], simp, rule exI [of _ b], rule exI [of _ f], simp)

lemma body_only_if: "body_only c (snd x) \<Longrightarrow> body_only c (snd y) \<Longrightarrow> body_only c (snd (if b then x else y))"
  by simp

lemma body_only_parsers:
  "body_only c (snd (parseJsonBody env cid now c))" "body_only c (snd (parseFormUrlEncodedBody env c))"
  "body_only c (snd (parseTextBody env c))" "body_only c (snd (parseMultipartBody env cid now t c))"
  by (simp_all add: parseJsonBody_def parseFormUrlEncodedBody_def parseTextBody_def parseMultipartBody_def body_onlyI
      split: sum.split prod.split)

lemma body_only_snd: "body_only c (snd (e, c))"
  by (simp add: body_onlyI)

text \<open>Parsing changes the body and the files of the request and nothing else.\<close>
lemma parseBody_body_only: "body_only c (snd (parseBodyIfNeeded env limits cid now c))"
  unfolding parseBodyIfNeeded_def Let_def by (intro body_only_if body_only_parsers body_only_snd)

lemma parseBody_response: "response_unchanged c (snd (parseBodyIfNeeded env limits cid now c))"
  using parseBody_body_only [of c env limits cid now] by (auto simp: body_only_def response_unchanged_def)

lemma send_body_sent:
  "rs_sent c \<Longrightarrow> send_body hn status type b c = (Some ResponseSentError, c)"
  by (simp add: send_body_def guard_sent_def)

lemma send_body_ok:
  assumes "\<not> rs_sent c" "\<not> rs_headersSent c"
  shows "fst (send_body hn status type b c) = None"
    "rs_sent (snd (send_body hn status type b c))" "rs_headersSent (snd (send_body hn status type b c))"
    "rs_body (snd (send_body hn status type b c)) = Some b"
    "rs_statusCode (snd (send_body hn status type b c)) = (case status of Some n \<Rightarrow> n | None \<Rightarrow> rs_statusCode c)"
    "rs_headers (snd (send_body hn status type b c)) =
       map_set ''content-type'' type
         (case cx_correlationId c of Some (x # xs) \<Rightarrow> map_set (toLowerCase hn) (x # xs) (rs_headers c) | _ \<Rightarrow> rs_headers c)"
proof -
  have "toLowerCase ''Content-Type'' = ''content-type''" by code_simp
  then show "fst (send_body hn status type b c) = None"
    "rs_sent (snd (send_body hn status type b c))" "rs_headersSent (snd (send_body hn status type b c))"
    "rs_body (snd (send_body hn status type b c)) = Some b"
    "rs_statusCode (snd (send_body hn status type b c)) = (case status of Some n \<Rightarrow> n | None \<Rightarrow> rs_statusCode c)"
    "rs_headers (snd (send_body hn status type b c)) =
       map_set ''content-type'' type
         (case cx_correlationId c of Some (x # xs) \<Rightarrow> map_set (toLowerCase hn) (x # xs) (rs_headers c) | _ \<Rightarrow> rs_headers c)"
    using assms
    by (auto simp: send_body_def guard_sent_def then_do_def set_status_def addCorrelationHeader_def res_setHeader_def
        res_end_def mark_sent_def Let_def split: option.split list.split)
qed

end
