(* ===== verification/Middleware.thy ===== *)
theory Middleware
  imports Blaize_Errors
begin

text \<open>
  The middleware engine of \<open>blaize-core\<close> (\<open>middleware/create.ts\<close>, \<open>middleware/execute.ts\<close>,
  \<open>middleware/compose.ts\<close>).

  A middleware function is user code. \<open>prog\<close> is the type of all such functions as far as the
  engine can see them: they act on the request context (an action may throw), branch on it,
  throw, and await \<open>next()\<close> any number of times, each time going on in a way that depends on how
  \<open>next()\<close> settled (so \<open>try\<close> / \<open>catch\<close> / \<open>finally\<close> around \<open>next()\<close> are such programs). A function
  that calls \<open>next()\<close> without awaiting it is outside this type. The state of one run of a
  composed chain is the context, the set \<open>called\<close> of the indices whose \<open>next\<close> was used, and a
  trace of the functions entered and left, which the code does not keep.
\<close>

section \<open>Middleware\<close>

datatype 's prog =
    Done
  | Raise thrown
  | Act "'s \<Rightarrow> thrown option \<times> 's" "thrown option \<Rightarrow> 's prog"
  | Branch "'s \<Rightarrow> bool" "'s prog" "'s prog"
  | AwaitNext "thrown option \<Rightarrow> 's prog"

record 's middleware =
  mw_name :: string
  mw_execute :: "'s prog"
  mw_skip :: "('s \<Rightarrow> bool) option"
  mw_debug :: bool

datatype 's handler_or_options =
    HandlerFunction "'s prog"
  | MiddlewareOptions "string option" "'s prog" "('s \<Rightarrow> bool) option" "bool option"

fun create :: "'s handler_or_options \<Rightarrow> 's middleware" where
  "create (HandlerFunction f) = \<lparr>mw_name = ''anonymous'', mw_execute = f, mw_skip = None, mw_debug = False\<rparr>"
| "create (MiddlewareOptions name handler skip debug) =
     \<lparr>mw_name = (case name of Some n \<Rightarrow> n | None \<Rightarrow> ''anonymous''), mw_execute = handler, mw_skip = skip,
      mw_debug = (case debug of Some d \<Rightarrow> d | None \<Rightarrow> False)\<rparr>"

definition stateMiddleware :: "'s prog \<Rightarrow> 's middleware" where
  "stateMiddleware handler = create (MiddlewareOptions (Some ''state-middleware'') handler None None)"

definition serviceMiddleware :: "'s prog \<Rightarrow> 's middleware" where
  "serviceMiddleware handler = create (MiddlewareOptions (Some ''service-middleware'') handler None None)"

section \<open>Running a chain\<close>

datatype mw_event = Enter nat | Exit nat | FinalHandler

record 's mw_run =
  ctx :: 's
  called :: "nat list"
  trace :: "mw_event list"

type_synonym 's step_fun = "'s mw_run \<Rightarrow> thrown option \<times> 's mw_run"

primrec run_prog :: "'s prog \<Rightarrow> 's step_fun \<Rightarrow> 's step_fun" where
  "run_prog Done next st = (None, st)"
| "run_prog (Raise e) next st = (Some e, st)"
| "run_prog (Act f k) next st = run_prog (k (fst (f (ctx st)))) next (st\<lparr>ctx := snd (f (ctx st))\<rparr>)"
| "run_prog (Branch b p q) next st = (if b (ctx st) then run_prog p next st else run_prog q next st)"
| "run_prog (AwaitNext k) next st = run_prog (k (fst (next st))) next (snd (next st))"

definition execute :: "nat \<Rightarrow> 's middleware option \<Rightarrow> 's step_fun \<Rightarrow> 's step_fun" where
  \<comment> \<open>\<open>i\<close> is the position in the chain, for the trace only\<close>
  "execute i middleware next st =
     (case middleware of
        None \<Rightarrow> next st
      | Some m \<Rightarrow>
          if (case mw_skip m of Some skip \<Rightarrow> skip (ctx st) | None \<Rightarrow> False) then next st
          else (let (r, st') = run_prog (mw_execute m) next (st\<lparr>trace := trace st @ [Enter i]\<rparr>)
                in (r, st'\<lparr>trace := trace st' @ [Exit i]\<rparr>)))"

definition next_twice :: thrown where
  "next_twice = ErrorObj ''next() called multiple times''"

fun dispatch :: "'s middleware option list \<Rightarrow> nat \<Rightarrow> ('s \<Rightarrow> thrown option \<times> 's) \<Rightarrow> 's step_fun" where
  "dispatch [] i finalHandler st =
     (let (r, c) = finalHandler (ctx st) in (r, st\<lparr>ctx := c, trace := trace st @ [FinalHandler]\<rparr>))"
| "dispatch (m # ms) i finalHandler st =
     execute i m
       (\<lambda>st. if i \<in> set (called st) then (Some next_twice, st)
             else dispatch ms (Suc i) finalHandler (st\<lparr>called := i # called st\<rparr>)) st"

definition compose_run :: "'s middleware option list \<Rightarrow> ('s \<Rightarrow> thrown option \<times> 's) \<Rightarrow> 's \<Rightarrow> thrown option \<times> 's mw_run" where
  "compose_run middlewareStack finalHandler c =
     dispatch middlewareStack 0 finalHandler \<lparr>ctx = c, called = [], trace = []\<rparr>"

definition compose :: "'s middleware option list \<Rightarrow> ('s \<Rightarrow> thrown option \<times> 's) \<Rightarrow> 's \<Rightarrow> thrown option \<times> 's" where
  "compose middlewareStack finalHandler c =
     (let (r, st) = compose_run middlewareStack finalHandler c in (r, ctx st))"

section \<open>Reference semantics\<close>

text \<open>
  The onion: each middleware sees the rest of the chain as one function on contexts that it may
  use once; a second use is an error and has no effect. There is no shared state besides the
  context.
\<close>

primrec run_layer :: "'s prog \<Rightarrow> ('s \<Rightarrow> thrown option \<times> 's) \<Rightarrow> bool \<Rightarrow> 's \<Rightarrow> thrown option \<times> 's" where
  "run_layer Done rest used c = (None, c)"
| "run_layer (Raise e) rest used c = (Some e, c)"
| "run_layer (Act f k) rest used c = run_layer (k (fst (f c))) rest used (snd (f c))"
| "run_layer (Branch b p q) rest used c = (if b c then run_layer p rest used c else run_layer q rest used c)"
| "run_layer (AwaitNext k) rest used c =
     (if used then run_layer (k (Some next_twice)) rest True c
      else run_layer (k (fst (rest c))) rest True (snd (rest c)))"

fun onion :: "'s middleware option list \<Rightarrow> ('s \<Rightarrow> thrown option \<times> 's) \<Rightarrow> 's \<Rightarrow> thrown option \<times> 's" where
  "onion [] finalHandler c = finalHandler c"
| "onion (None # ms) finalHandler c = onion ms finalHandler c"
| "onion (Some m # ms) finalHandler c =
     (if (case mw_skip m of Some skip \<Rightarrow> skip c | None \<Rightarrow> False) then onion ms finalHandler c
      else run_layer (mw_execute m) (onion ms finalHandler) False c)"

section \<open>Correctness of the engine\<close>

definition fresh_from :: "nat \<Rightarrow> nat list \<Rightarrow> bool" where
  "fresh_from i cl \<longleftrightarrow> (\<forall>j\<ge>i. j \<notin> set cl)"

definition nested :: "nat \<Rightarrow> mw_event list \<Rightarrow> bool" where
  \<comment> \<open>functions at increasing positions from \<open>i\<close> on are entered, perhaps the final handler, and
    they are left in the opposite order\<close>
  "nested i tr \<longleftrightarrow> (\<exists>js fin. sorted_wrt (<) js \<and> (\<forall>j\<in>set js. i \<le> j) \<and>
     tr = map Enter js @ (if fin then [FinalHandler] else []) @ map Exit (rev js))"

lemma nested_empty: "nested i []"
  unfolding nested_def by (intro exI [of _ "[]"] exI [of _ False]) simp

lemma nested_final: "nested i [FinalHandler]"
  unfolding nested_def by (intro exI [of _ "[]"] exI [of _ True]) simp

lemma nested_wrap:
  assumes "nested (Suc i) tr" shows "nested i (Enter i # tr @ [Exit i])"
proof -
  obtain js fin where "sorted_wrt (<) js" "\<forall>j\<in>set js. Suc i \<le> j"
    "tr = map Enter js @ (if fin then [FinalHandler] else []) @ map Exit (rev js)"
    using assms unfolding nested_def by blast
  then show ?thesis unfolding nested_def by (intro exI [of _ "i # js"] exI [of _ fin]) auto
qed

lemma nested_Suc: "nested (Suc i) tr \<Longrightarrow> nested i tr"
  unfolding nested_def by (metis Suc_leD)

definition good_next ::
  "nat \<Rightarrow> ('s \<Rightarrow> thrown option \<times> 's) \<Rightarrow> 's step_fun \<Rightarrow> bool" where
  \<comment> \<open>what the \<open>next\<close> function of position \<open>i\<close> does: the rest of the chain on first use, an error later\<close>
  "good_next i rest next \<longleftrightarrow>
     (\<forall>st. i \<in> set (called st) \<longrightarrow> next st = (Some next_twice, st)) \<and>
     (\<forall>st. fresh_from i (called st) \<longrightarrow>
        fst (next st) = fst (rest (ctx st)) \<and> ctx (snd (next st)) = snd (rest (ctx st)) \<and>
        insert i (set (called st)) \<subseteq> set (called (snd (next st))) \<and>
        (\<exists>tr. nested (Suc i) tr \<and> trace (snd (next st)) = trace st @ tr))"

lemma run_prog_used:
  assumes "good_next i rest nxt" "i \<in> set (called st)"
  shows "fst (run_prog p nxt st) = fst (run_layer p rest True (ctx st)) \<and>
    ctx (snd (run_prog p nxt st)) = snd (run_layer p rest True (ctx st)) \<and>
    called (snd (run_prog p nxt st)) = called st \<and> trace (snd (run_prog p nxt st)) = trace st"
  using assms(2)
proof (induction p arbitrary: st)
  case (AwaitNext k)
  then show ?case using assms(1) by (simp add: good_next_def)
qed auto

lemma run_prog_layer:
  assumes "good_next i rest nxt" "fresh_from i (called st)"
  shows "fst (run_prog p nxt st) = fst (run_layer p rest False (ctx st)) \<and>
    ctx (snd (run_prog p nxt st)) = snd (run_layer p rest False (ctx st)) \<and>
    set (called st) \<subseteq> set (called (snd (run_prog p nxt st))) \<and>
    (\<exists>tr. nested (Suc i) tr \<and> trace (snd (run_prog p nxt st)) = trace st @ tr)"
  using assms(2)
proof (induction p arbitrary: st)
  case (Act f k)
  then show ?case using Act.IH [of "k (fst (f (ctx st)))" "st\<lparr>ctx := snd (f (ctx st))\<rparr>"] by simp
next
  case (AwaitNext k)
  obtain tr where n: "fst (nxt st) = fst (rest (ctx st))" "ctx (snd (nxt st)) = snd (rest (ctx st))"
    "insert i (set (called st)) \<subseteq> set (called (snd (nxt st)))" "nested (Suc i) tr" "trace (snd (nxt st)) = trace st @ tr"
    using assms(1) AwaitNext.prems unfolding good_next_def by blast
  show ?case using run_prog_used [OF assms(1), of "snd (nxt st)" "k (fst (rest (ctx st)))"] n by auto
qed (auto intro: nested_empty)

lemma onion_empty [simp]: "onion [] final = final"
  by (rule ext) simp

lemma execute_good:
  assumes "good_next i rest nxt" "fresh_from i (called st)"
  shows "fst (execute i m nxt st) = fst (onion [m] rest (ctx st)) \<and>
    ctx (snd (execute i m nxt st)) = snd (onion [m] rest (ctx st)) \<and>
    set (called st) \<subseteq> set (called (snd (execute i m nxt st))) \<and>
    (\<exists>tr. nested i tr \<and> trace (snd (execute i m nxt st)) = trace st @ tr)"
proof -
  have n: "fst (nxt st) = fst (rest (ctx st))" "ctx (snd (nxt st)) = snd (rest (ctx st))"
    "set (called st) \<subseteq> set (called (snd (nxt st)))"
    "\<exists>tr. nested i tr \<and> trace (snd (nxt st)) = trace st @ tr"
    using assms nested_Suc unfolding good_next_def by auto
  show ?thesis
  proof (cases "\<exists>m'. m = Some m' \<and> \<not> (case mw_skip m' of Some skip \<Rightarrow> skip (ctx st) | None \<Rightarrow> False)")
    case False
    then show ?thesis using n by (cases m) (auto simp: execute_def)
  next
    case True
    then obtain m' where m: "m = Some m'" "\<not> (case mw_skip m' of Some skip \<Rightarrow> skip (ctx st) | None \<Rightarrow> False)" by blast
    let ?st = "st\<lparr>trace := trace st @ [Enter i]\<rparr>"
    have "fresh_from i (called ?st)" using assms(2) by simp
    from run_prog_layer [OF assms(1) this, of "mw_execute m'"] obtain tr where
      r: "fst (run_prog (mw_execute m') nxt ?st) = fst (run_layer (mw_execute m') rest False (ctx st))"
      "ctx (snd (run_prog (mw_execute m') nxt ?st)) = snd (run_layer (mw_execute m') rest False (ctx st))"
      "set (called st) \<subseteq> set (called (snd (run_prog (mw_execute m') nxt ?st)))"
      "nested (Suc i) tr" "trace (snd (run_prog (mw_execute m') nxt ?st)) = trace st @ Enter i # tr" by auto
    have "nested i (Enter i # tr @ [Exit i])" by (rule nested_wrap [OF r(4)])
    moreover have "execute i m nxt st = (fst (run_prog (mw_execute m') nxt ?st),
        (snd (run_prog (mw_execute m') nxt ?st))\<lparr>trace := trace st @ (Enter i # tr @ [Exit i])\<rparr>)"
      using m by (simp add: execute_def split_beta r(5))
    ultimately show ?thesis
      using r(1-3) m by (intro conjI exI [of _ "Enter i # tr @ [Exit i]"]) simp_all
  qed
qed

lemma onion_Cons: "onion (m # ms) final c = onion [m] (onion ms final) c"
  by (cases m) simp_all

lemma dispatch_onion:
  assumes "fresh_from i (called st)"
  shows "fst (dispatch ms i final st) = fst (onion ms final (ctx st)) \<and>
    ctx (snd (dispatch ms i final st)) = snd (onion ms final (ctx st)) \<and>
    set (called st) \<subseteq> set (called (snd (dispatch ms i final st))) \<and>
    (\<exists>tr. nested i tr \<and> trace (snd (dispatch ms i final st)) = trace st @ tr)"
  using assms
proof (induction ms arbitrary: i st)
  case Nil
  then show ?case by (auto simp: split_beta intro: nested_final)
next
  case (Cons m ms)
  let ?next = "\<lambda>st. if i \<in> set (called st) then (Some next_twice, st)
    else dispatch ms (Suc i) final (st\<lparr>called := i # called st\<rparr>)"
  have "good_next i (onion ms final) ?next"
    unfolding good_next_def
  proof (intro conjI allI impI)
    fix st :: "'a mw_run" assume "fresh_from i (called st)"
    then have f: "i \<notin> set (called st)" "fresh_from (Suc i) (called (st\<lparr>called := i # called st\<rparr>))"
      by (auto simp: fresh_from_def)
    note d = Cons.IH [OF f(2)]
    show "fst (?next st) = fst (onion ms final (ctx st))" "ctx (snd (?next st)) = snd (onion ms final (ctx st))"
      "insert i (set (called st)) \<subseteq> set (called (snd (?next st)))"
      "\<exists>tr. nested (Suc i) tr \<and> trace (snd (?next st)) = trace st @ tr"
      using d f(1) by auto
  qed simp
  from execute_good [OF this Cons.prems, of m] show ?case by (simp add: onion_Cons [of m ms])
qed

lemma compose_onion: "compose ms final c = onion ms final c"
proof -
  have "fresh_from 0 (called \<lparr>ctx = c, called = [], trace = []\<rparr>)" by (simp add: fresh_from_def)
  from dispatch_onion [OF this, of ms final] show ?thesis
    by (simp add: compose_def compose_run_def split_beta prod_eq_iff)
qed

text \<open>C1: the engine implements the onion. For every chain of middleware functions, whatever they
  do with the context, with \<open>next()\<close> and with errors, the composed function settles like the
  reference semantics and leaves the same context: the shared set of used indices is as good as
  one flag per layer, a second call of \<open>next()\<close> is an error without effect, skipped and undefined
  entries are passed over.\<close>

theorem compose_is_onion: "compose ms final c = onion ms final c"
  by (rule compose_onion)

text \<open>C4: order of execution. For every chain, whatever the functions do, they are entered in
  chain order, each at most once, the final handler runs at most once and after all of them,
  and they settle in the opposite order, also when errors are thrown or \<open>next()\<close> is called
  several times.\<close>

theorem middleware_runs_nested:
  "\<exists>js fin. sorted_wrt (<) js \<and>
     trace (snd (compose_run ms final c)) =
       map Enter js @ (if fin then [FinalHandler] else []) @ map Exit (rev js)"
proof -
  have "fresh_from 0 (called \<lparr>ctx = c, called = [], trace = []\<rparr>)" by (simp add: fresh_from_def)
  from dispatch_onion [OF this, of ms final] show ?thesis
    by (auto simp: compose_run_def nested_def)
qed

end
