(* ===== verification/Route_Pattern.thy ===== *)
theory Route_Pattern
  imports Blaize_Prelude
begin

text \<open>
  Path patterns (\<open>router/matching/params.ts\<close> of \<open>blaize-core\<close>): compilation of a route path to
  a regular expression with capture groups, and extraction of the parameters.

  \<open>compilePathPattern\<close> is modelled as the pipeline of text replacements the code performs. The
  text of a capture group \<open>([^/]+)\<close> is the single element \<open>Grp\<close>; every other character of the
  pattern text is \<open>Chr c\<close>. A path that leaves an opening bracket in the text after the two
  replacements (a bracket that does not open a parameter after a slash) would become a character
  class of the regular expression; it has no translation here and \<open>compilePathPattern\<close> yields
  \<open>None\<close> for it. \<open>rx_exec\<close> is the matching of the resulting expressions with greedy groups.
\<close>

section \<open>Compilation\<close>

datatype ptext = Chr char | Grp

definition regex_special :: "char \<Rightarrow> bool" where
  \<comment> \<open>the class in \<open>path.replace(/([.+*?^$(){}|\\])/g, '\\$1')\<close>\<close>
  "regex_special c \<longleftrightarrow> c \<in> set ''.+*?^$(){}|'' \<or> c = CHR 0x5C"

definition escape_path :: "string \<Rightarrow> ptext list" where
  "escape_path path =
     concat (map (\<lambda>c. if regex_special c then [Chr CHR 0x5C, Chr c] else [Chr c]) path)"

fun chr_text :: "ptext \<Rightarrow> string" where
  "chr_text (Chr c) = [c]"
| "chr_text Grp = ''([^/]+)''"

definition text_of :: "ptext list \<Rightarrow> string" where
  "text_of ps = concat (map chr_text ps)"

function colon_params :: "ptext list \<Rightarrow> string list \<times> ptext list" where
  \<comment> \<open>\<open>.replace(/\/:([^/]+)/g, ...)\<close>: names pushed, text with groups\<close>
  "colon_params ps =
     (case ps of
        Chr a # Chr b # rest \<Rightarrow>
          (let name = takeWhile (\<lambda>x. x \<noteq> Chr CHR ''/'') rest
           in if a = CHR ''/'' \<and> b = CHR '':'' \<and> name \<noteq> []
              then (let (ns, out) = colon_params (drop (length name) rest)
                    in (text_of name # ns, Chr CHR ''/'' # Grp # out))
              else (let (ns, out) = colon_params (Chr b # rest) in (ns, Chr a # out)))
      | x # rest \<Rightarrow> (let (ns, out) = colon_params rest in (ns, x # out))
      | [] \<Rightarrow> ([], []))"
  by pat_completeness auto
termination
  by (relation "measure length") auto

declare colon_params.simps [simp del]

function bracket_params :: "ptext list \<Rightarrow> (string list \<times> ptext list) option" where
  \<comment> \<open>\<open>.replace(/\/\[([^\]]+)\]/g, ...)\<close>; \<open>None\<close>: a bracket with no translation\<close>
  "bracket_params ps =
     (case ps of
        Chr a # Chr b # rest \<Rightarrow>
          (let name = takeWhile (\<lambda>x. x \<noteq> Chr CHR '']'' \<and> x \<noteq> Grp) rest;
               after = drop (length name) rest
           in if a = CHR ''/'' \<and> b = CHR ''['' \<and> name \<noteq> [] \<and> after \<noteq> [] \<and> hd after = Chr CHR '']''
              then map_option (\<lambda>(ns, out). (text_of name # ns, Chr CHR ''/'' # Grp # out))
                     (bracket_params (tl after))
              else if a = CHR ''['' then None
              else map_option (\<lambda>(ns, out). (ns, Chr a # out)) (bracket_params (Chr b # rest)))
      | x # rest \<Rightarrow>
          if x = Chr CHR ''['' then None
          else map_option (\<lambda>(ns, out). (ns, x # out)) (bracket_params rest)
      | [] \<Rightarrow> Some ([], []))"
  by pat_completeness auto
termination
  by (relation "measure length") auto

declare bracket_params.simps [simp del]

datatype rx_tok = RLit char | RGroup

fun regex_tokens :: "ptext list \<Rightarrow> rx_tok list" where
  \<comment> \<open>\<open>new RegExp\<close> reads a backslash and the next character as that character\<close>
  "regex_tokens [] = []"
| "regex_tokens (Grp # ps) = RGroup # regex_tokens ps"
| "regex_tokens (Chr c # Chr d # ps) =
     (if c = CHR 0x5C then RLit d # regex_tokens ps else RLit c # regex_tokens (Chr d # ps))"
| "regex_tokens (Chr c # ps) = RLit c # regex_tokens ps"

datatype path_regex =
    RootPattern              \<comment> \<open>\<open>/^\/$/\<close>\<close>
  | Pattern "rx_tok list"    \<comment> \<open>\<open>^...(?:/)?$\<close>\<close>

record compiled_path =
  cp_pattern :: path_regex
  cp_paramNames :: "string list"

definition compilePathPattern :: "string \<Rightarrow> compiled_path option" where
  "compilePathPattern path =
     (if path = ''/'' then Some \<lparr>cp_pattern = RootPattern, cp_paramNames = []\<rparr>
      else (let (names, ps) = colon_params (escape_path path)
            in map_option (\<lambda>(names', ps').
                 \<lparr>cp_pattern = Pattern (regex_tokens ps'), cp_paramNames = names @ names'\<rparr>)
                 (bracket_params ps)))"

section \<open>Matching\<close>

fun first_some :: "('a \<Rightarrow> 'b option) \<Rightarrow> 'a list \<Rightarrow> 'b option" where
  "first_some f [] = None"
| "first_some f (x # xs) = (case f x of None \<Rightarrow> first_some f xs | Some y \<Rightarrow> Some y)"

fun rx_match :: "rx_tok list \<Rightarrow> string \<Rightarrow> string list option" where
  "rx_match [] s = (if s = [] \<or> s = ''/'' then Some [] else None)"
| "rx_match (RLit c # ts) s =
     (case s of [] \<Rightarrow> None | d # s' \<Rightarrow> if c = d then rx_match ts s' else None)"
| "rx_match (RGroup # ts) s =
     first_some (\<lambda>n. map_option (\<lambda>cs. take n s # cs) (rx_match ts (drop n s)))
       (rev [1..<Suc (length (takeWhile (\<lambda>c. c \<noteq> CHR ''/'') s))])"

definition rx_exec :: "path_regex \<Rightarrow> string \<Rightarrow> string list option" where
  \<comment> \<open>the capture groups of \<open>pattern.exec(s)\<close>\<close>
  "rx_exec p s =
     (case p of RootPattern \<Rightarrow> if s = ''/'' then Some [] else None | Pattern ts \<Rightarrow> rx_match ts s)"

definition rx_test :: "path_regex \<Rightarrow> string \<Rightarrow> bool" where
  "rx_test p s \<longleftrightarrow> rx_exec p s \<noteq> None"

fun set_params :: "string list \<Rightarrow> string list \<Rightarrow> (string, string) js_map \<Rightarrow> (string, string) js_map" where
  \<comment> \<open>\<open>params[paramNames[i]] = match[i + 1] || ''\<close> for every index of \<open>paramNames\<close>\<close>
  "set_params [] vs m = m"
| "set_params (n # ns) vs m =
     set_params ns (tl vs) (map_set n (case vs of [] \<Rightarrow> [] | v # _ \<Rightarrow> v) m)"

definition extractParams :: "string \<Rightarrow> path_regex \<Rightarrow> string list \<Rightarrow> (string, string) js_map" where
  "extractParams path pattern paramNames =
     (case rx_exec pattern path of None \<Rightarrow> [] | Some vs \<Rightarrow> set_params paramNames vs [])"

section \<open>Route templates\<close>

text \<open>
  The reference semantics: a template is a list of segments, each fixed or a parameter. It
  matches the paths obtained by filling its parameters with non-empty values without a slash,
  with or without a trailing slash.
\<close>

datatype tseg = Static string | Param string

fun seg_text :: "tseg \<Rightarrow> string" where
  "seg_text (Static s) = s"
| "seg_text (Param n) = CHR '':'' # n"

definition render :: "tseg list \<Rightarrow> string" where
  "render t = concat (map (\<lambda>g. CHR ''/'' # seg_text g) t)"

fun seg_ok :: "tseg \<Rightarrow> bool" where
  "seg_ok (Static s) \<longleftrightarrow> s \<noteq> [] \<and> CHR ''/'' \<notin> set s \<and> CHR ''['' \<notin> set s \<and> hd s \<noteq> CHR '':''"
| "seg_ok (Param n) \<longleftrightarrow> n \<noteq> [] \<and> CHR ''/'' \<notin> set n \<and> (\<forall>c\<in>set n. \<not> regex_special c)"

fun names :: "tseg list \<Rightarrow> string list" where
  "names [] = []"
| "names (Static s # t) = names t"
| "names (Param n # t) = n # names t"

fun fill :: "tseg list \<Rightarrow> string list \<Rightarrow> string" where
  "fill [] vs = []"
| "fill (Static s # t) vs = CHR ''/'' # s @ fill t vs"
| "fill (Param n # t) [] = CHR ''/'' # fill t []"
| "fill (Param n # t) (v # vs) = CHR ''/'' # v @ fill t vs"

definition value_ok :: "string \<Rightarrow> bool" where
  "value_ok v \<longleftrightarrow> v \<noteq> [] \<and> CHR ''/'' \<notin> set v"

definition toks :: "tseg list \<Rightarrow> rx_tok list" where
  "toks t = concat (map (\<lambda>g. RLit CHR ''/'' #
     (case g of Static s \<Rightarrow> map RLit s | Param n \<Rightarrow> [RGroup])) t)"

lemma toks_simps [simp]:
  "toks [] = []"
  "toks (Static s # t) = RLit CHR ''/'' # map RLit s @ toks t"
  "toks (Param n # t) = RLit CHR ''/'' # RGroup # toks t"
  by (simp_all add: toks_def)

subsection \<open>The replacements on a template\<close>

lemma escape_path_simps [simp]:
  "escape_path [] = []" "escape_path (xs @ ys) = escape_path xs @ escape_path ys"
  "escape_path (c # xs) = (if regex_special c then [Chr CHR 0x5C, Chr c] else [Chr c]) @ escape_path xs"
  by (simp_all add: escape_path_def)

lemma escape_path_set: "x \<in> set (escape_path s) \<Longrightarrow> x = Chr CHR 0x5C \<or> (\<exists>c\<in>set s. x = Chr c)"
  by (induction s) (auto split: if_splits)

lemma escape_path_plain: "\<forall>c\<in>set s. \<not> regex_special c \<Longrightarrow> escape_path s = map Chr s"
  by (induction s) auto

lemma text_of_plain: "text_of (map Chr s) = s"
  by (induction s) (simp_all add: text_of_def)

lemma regex_special_chars [simp]:
  "\<not> regex_special CHR ''/''" "\<not> regex_special CHR '':''" "\<not> regex_special CHR ''[''"
  "regex_special CHR 0x5C"
  by (simp_all add: regex_special_def)

lemma colon_params_Nil [simp]: "colon_params [] = ([], [])"
  by (simp add: colon_params.simps)

lemma colon_params_step:
  "x \<noteq> Chr CHR ''/'' \<or> r = [] \<or> hd r \<noteq> Chr CHR '':'' \<Longrightarrow>
   colon_params (x # r) = (fst (colon_params r), x # snd (colon_params r))"
  by (subst colon_params.simps) (auto split: ptext.splits list.splits simp: split_beta Let_def)

lemma colon_params_chars:
  "Chr CHR ''/'' \<notin> set ps \<Longrightarrow>
   colon_params (ps @ r) = (fst (colon_params r), ps @ snd (colon_params r))"
  by (induction ps) (auto simp: colon_params_step)

lemma takeWhile_segment:
  "x \<notin> set s \<Longrightarrow> r = [] \<or> hd r = x \<Longrightarrow> takeWhile (\<lambda>y. y \<noteq> x) (s @ r) = s"
  by (induction s) (cases r; auto)+

lemma colon_params_param:
  assumes "name \<noteq> []" "Chr CHR ''/'' \<notin> set name" "r = [] \<or> hd r = Chr CHR ''/''"
  shows "colon_params (Chr CHR ''/'' # Chr CHR '':'' # name @ r) =
    (text_of name # fst (colon_params r), Chr CHR ''/'' # Grp # snd (colon_params r))"
  using assms takeWhile_segment [OF assms(2,3)]
  by (subst colon_params.simps) (simp add: split_beta Let_def)

definition replaced :: "tseg list \<Rightarrow> ptext list" where
  "replaced t = concat (map (\<lambda>g. Chr CHR ''/'' #
     (case g of Static s \<Rightarrow> escape_path s | Param n \<Rightarrow> [Grp])) t)"

lemma replaced_simps [simp]:
  "replaced [] = []"
  "replaced (Static s # t) = Chr CHR ''/'' # escape_path s @ replaced t"
  "replaced (Param n # t) = Chr CHR ''/'' # Grp # replaced t"
  by (simp_all add: replaced_def)

lemma render_simps [simp]:
  "render [] = []" "render (g # t) = CHR ''/'' # seg_text g @ render t"
  by (simp_all add: render_def)

lemma render_start: "escape_path (render t) = [] \<or> hd (escape_path (render t)) = Chr CHR ''/''"
  by (cases t) simp_all

lemma escape_static_head:
  "s \<noteq> [] \<Longrightarrow> hd s \<noteq> CHR '':'' \<Longrightarrow> escape_path s \<noteq> [] \<and> hd (escape_path s) \<noteq> Chr CHR '':''"
  by (cases s) auto

lemma colon_params_template:
  "list_all seg_ok t \<Longrightarrow> colon_params (escape_path (render t)) = (names t, replaced t)"
proof (induction t)
  case (Cons g t)
  then have IH: "colon_params (escape_path (render t)) = (names t, replaced t)" by simp
  show ?case
  proof (cases g)
    case (Static s)
    then have s: "s \<noteq> []" "CHR ''/'' \<notin> set s" "hd s \<noteq> CHR '':''" using Cons.prems by simp_all
    have "Chr CHR ''/'' \<notin> set (escape_path s)" using s(2) by (auto dest: escape_path_set)
    moreover have "hd (escape_path s @ r) \<noteq> Chr CHR '':''" for r
      using escape_static_head [OF s(1,3)] by simp
    ultimately show ?thesis
      using Static IH by (simp add: colon_params_step colon_params_chars)
  next
    case (Param n)
    then have n: "n \<noteq> []" "CHR ''/'' \<notin> set n" "\<forall>c\<in>set n. \<not> regex_special c"
      using Cons.prems by simp_all
    then show ?thesis
      using Param IH render_start [of t] colon_params_param [of "map Chr n" "escape_path (render t)"]
      by (auto simp: escape_path_plain text_of_plain)
  qed
qed simp

lemma bracket_params_none:
  "Chr CHR ''['' \<notin> set ps \<Longrightarrow> bracket_params ps = Some ([], ps)"
proof (induction ps)
  case (Cons x ps)
  then show ?case
    by (subst bracket_params.simps) (auto split: ptext.splits list.splits)
qed (simp add: bracket_params.simps)

lemma replaced_no_bracket: "list_all seg_ok t \<Longrightarrow> Chr CHR ''['' \<notin> set (replaced t)"
  by (induction t) (auto simp: replaced_def split: tseg.splits dest!: escape_path_set)

lemma regex_tokens_char: "c \<noteq> CHR 0x5C \<Longrightarrow> regex_tokens (Chr c # ps) = RLit c # regex_tokens ps"
  by (cases ps rule: regex_tokens.cases) auto

lemma regex_tokens_escape: "regex_tokens (escape_path s @ ps) = map RLit s @ regex_tokens ps"
proof (induction s)
  case (Cons c s)
  then show ?case by (cases "c = CHR 0x5C") (auto simp: regex_tokens_char)
qed simp

lemma regex_tokens_replaced: "regex_tokens (replaced t) = toks t"
proof (induction t)
  case (Cons g t)
  then show ?case by (cases g) (simp_all add: regex_tokens_char regex_tokens_escape)
qed simp

lemma render_not_root: "t \<noteq> [] \<Longrightarrow> list_all seg_ok t \<Longrightarrow> render t \<noteq> ''/''"
  by (cases t; cases "hd t") auto

lemma compile_template:
  assumes "t \<noteq> []" "list_all seg_ok t"
  shows "compilePathPattern (render t) = Some \<lparr>cp_pattern = Pattern (toks t), cp_paramNames = names t\<rparr>"
  using assms render_not_root [OF assms]
  by (simp add: compilePathPattern_def colon_params_template bracket_params_none replaced_no_bracket
      regex_tokens_replaced)

subsection \<open>Matching a template\<close>

lemma rx_match_literals:
  "rx_match (map RLit s @ ts) u = Some vs \<longleftrightarrow> (\<exists>r. u = s @ r \<and> rx_match ts r = Some vs)"
  by (induction s arbitrary: u) (auto split: list.splits)

lemma rx_match_off_boundary: "u \<noteq> [] \<Longrightarrow> hd u \<noteq> CHR ''/'' \<Longrightarrow> rx_match (toks t) u = None"
  by (cases t; cases "hd t"; cases u) auto

lemma first_some_head: "(\<And>x. x \<in> set xs \<Longrightarrow> f x = None) \<Longrightarrow> first_some f (x # xs) = f x"
proof -
  assume "\<And>x. x \<in> set xs \<Longrightarrow> f x = None"
  then have "first_some f xs = None" by (induction xs) simp_all
  then show ?thesis by (simp split: option.splits)
qed

lemma drop_inside_segment:
  assumes "n < length (takeWhile P u)"
  shows "drop n u \<noteq> [] \<and> P (hd (drop n u))"
proof -
  have "n < length u" using assms length_takeWhile_le [of P u] by linarith
  then show ?thesis
    using assms by (simp add: hd_drop_conv_nth takeWhile_nth nth_mem set_takeWhileD [of _ P u]
        flip: takeWhile_nth)
qed

lemma rx_match_group:
  "rx_match (RGroup # toks t) u =
     (let v = takeWhile (\<lambda>c. c \<noteq> CHR ''/'') u
      in if v = [] then None else map_option (\<lambda>cs. v # cs) (rx_match (toks t) (drop (length v) u)))"
proof -
  define v where "v = takeWhile (\<lambda>c. c \<noteq> CHR ''/'') u"
  have take: "take (length v) u = v" by (simp add: v_def takeWhile_eq_take [symmetric])
  show ?thesis
  proof (cases "v = []")
    case True
    then show ?thesis by (simp add: v_def)
  next
    case False
    then have "rev [1..<Suc (length v)] = length v # rev [1..<length v]"
      by (simp add: Suc_le_eq)
    moreover have "rx_match (toks t) (drop n u) = None" if "n < length v" for n
      using drop_inside_segment [of n _ u] that unfolding v_def by (blast intro: rx_match_off_boundary)
    then have "first_some (\<lambda>n. map_option (\<lambda>cs. take n u # cs) (rx_match (toks t) (drop n u)))
          (length v # rev [1..<length v]) =
        map_option (\<lambda>cs. take (length v) u # cs) (rx_match (toks t) (drop (length v) u))"
      by (intro first_some_head) simp
    ultimately have "rx_match (RGroup # toks t) u =
        map_option (\<lambda>cs. take (length v) u # cs) (rx_match (toks t) (drop (length v) u))"
      unfolding rx_match.simps v_def [symmetric] by (simp only:)
    then show ?thesis using False take by (simp add: v_def Let_def)
  qed
qed

lemma fill_start: "fill t vs = [] \<or> hd (fill t vs) = CHR ''/''"
  by (cases "(t, vs)" rule: fill.cases) auto

definition template_matches :: "tseg list \<Rightarrow> string \<Rightarrow> string list \<Rightarrow> bool" where
  "template_matches t u vs \<longleftrightarrow>
     length vs = length (names t) \<and> list_all value_ok vs \<and> (u = fill t vs \<or> u = fill t vs @ ''/'')"

lemma fill_slash_start: "r \<in> {fill t vs, fill t vs @ ''/''} \<Longrightarrow> r = [] \<or> hd r = CHR ''/''"
  using fill_start [of t vs] by (cases "fill t vs") auto

lemma rx_match_template: "rx_match (toks t) u = Some vs \<longleftrightarrow> template_matches t u vs"
proof (induction t arbitrary: u vs)
  case Nil
  then show ?case by (auto simp: template_matches_def)
next
  case (Cons g t)
  show ?case
  proof (cases g)
    case (Static s)
    then have "rx_match (toks (g # t)) u = Some vs \<longleftrightarrow>
        (\<exists>r. u = CHR ''/'' # s @ r \<and> template_matches t r vs)"
      using Cons.IH by (auto simp: rx_match_literals split: list.splits)
    then show ?thesis using Static by (auto simp: template_matches_def)
  next
    case (Param n)
    let ?seg = "takeWhile (\<lambda>c. c \<noteq> CHR ''/'')"
    have match: "rx_match (toks (g # t)) u = Some vs \<longleftrightarrow>
        (\<exists>w vs'. u = CHR ''/'' # w \<and> ?seg w \<noteq> [] \<and> vs = ?seg w # vs' \<and>
           template_matches t (drop (length (?seg w)) w) vs')"
      unfolding Param toks_simps rx_match.simps(2) rx_match_group
      using Cons.IH by (auto simp: Let_def split: list.splits if_splits)
    show ?thesis
    proof
      assume "rx_match (toks (g # t)) u = Some vs"
      then obtain w vs' where w: "u = CHR ''/'' # w" "?seg w \<noteq> []" "vs = ?seg w # vs'"
          "template_matches t (drop (length (?seg w)) w) vs'"
        using match by blast
      have "w = ?seg w @ drop (length (?seg w)) w"
        by (metis takeWhile_dropWhile_id dropWhile_eq_drop)
      moreover have "value_ok (?seg w)"
        using w(2) by (auto simp: value_ok_def dest: set_takeWhileD)
      ultimately show "template_matches (g # t) u vs"
        using w Param by (simp add: template_matches_def) (metis append.assoc)
    next
      assume m: "template_matches (g # t) u vs"
      then obtain v vs' where v: "vs = v # vs'" "value_ok v" "length vs' = length (names t)"
          "list_all value_ok vs'"
        using Param by (cases vs) (auto simp: template_matches_def)
      then obtain r where r: "u = CHR ''/'' # v @ r" "r \<in> {fill t vs', fill t vs' @ ''/''}"
        using m Param by (auto simp: template_matches_def)
      have "?seg (v @ r) = v"
        using v(2) fill_slash_start [OF r(2)] by (intro takeWhile_segment) (auto simp: value_ok_def)
      then show "rx_match (toks (g # t)) u = Some vs"
        using match v r by (auto simp: template_matches_def value_ok_def)
    qed
  qed
qed

lemma set_params_zip:
  "length ns = length vs \<Longrightarrow> distinct (map fst m @ ns) \<Longrightarrow> set_params ns vs m = m @ zip ns vs"
proof (induction ns arbitrary: vs m)
  case (Cons n ns)
  then obtain v vs' where vs: "vs = v # vs'" by (cases vs) auto
  have "map_set n v m = m @ [(n, v)]" by (rule map_set_fresh) (use Cons.prems in auto)
  then show ?case using vs Cons.prems Cons.IH [of vs' "m @ [(n, v)]"] by simp
qed simp

lemma exec_template: "rx_exec (Pattern (toks t)) u = Some vs \<longleftrightarrow> template_matches t u vs"
  by (simp add: rx_exec_def rx_match_template)

lemma extract_template:
  assumes "rx_exec (Pattern (toks t)) u = Some vs" "distinct (names t)"
  shows "extractParams u (Pattern (toks t)) (names t) = zip (names t) vs"
  using assms set_params_zip [of "names t" vs "[]"] exec_template [of t u vs]
  by (simp add: extractParams_def template_matches_def)

lemma pattern_accepts_fill:
  assumes "t \<noteq> []" "list_all seg_ok t" "list_all value_ok vs" "length vs = length (names t)" "distinct (names t)"
  shows "\<exists>c. compilePathPattern (render t) = Some c \<and> rx_exec (cp_pattern c) (fill t vs) = Some vs \<and>
    extractParams (fill t vs) (cp_pattern c) (cp_paramNames c) = zip (names t) vs"
proof -
  have m: "rx_exec (Pattern (toks t)) (fill t vs) = Some vs" using assms by (simp add: exec_template template_matches_def)
  show ?thesis using compile_template [OF assms(1,2)] m extract_template [OF m assms(5)] by auto
qed

text \<open>C16: compilation and matching of a route path mean what the template says. A path built from
  fixed segments and \<open>:name\<close> segments compiles to a pattern that matches exactly the paths
  obtained by filling every parameter with a non-empty value without a slash, with an optional
  trailing slash; special characters of regular expressions in fixed segments stand for
  themselves; and the extracted parameters pair the names with those values in order.\<close>
theorem route_pattern_correct:
  assumes "t \<noteq> []" "list_all seg_ok t"
  shows "\<exists>c. compilePathPattern (render t) = Some c \<and> cp_paramNames c = names t \<and>
    (\<forall>u vs. rx_exec (cp_pattern c) u = Some vs \<longleftrightarrow>
       length vs = length (names t) \<and> list_all value_ok vs \<and>
       (u = fill t vs \<or> u = fill t vs @ ''/'')) \<and>
    (\<forall>u vs. rx_exec (cp_pattern c) u = Some vs \<and> distinct (names t) \<longrightarrow>
       extractParams u (cp_pattern c) (cp_paramNames c) = zip (names t) vs)"
proof -
  show ?thesis
    using compile_template [OF assms] exec_template [of t] extract_template [of t] by (auto simp: template_matches_def)
qed

text \<open>A path that mixes the two parameter syntaxes swaps its values. The names of \<open>:name\<close>
  parameters are collected before those of \<open>[name]\<close> parameters, the capture groups are numbered
  by position: the route \<open>/[a]/:b\<close> gives the first segment to \<open>b\<close> and the second to \<open>a\<close>.\<close>
theorem mixed_parameter_syntax_swaps:
  "map_option (\<lambda>c. extractParams ''/1/2'' (cp_pattern c) (cp_paramNames c))
     (compilePathPattern ''/[a]/:b'') = Some [(''b'', ''1''), (''a'', ''2'')]"
  by code_simp

theorem route_pattern_correct_witness:
  "\<exists>c. compilePathPattern ''/users/:id'' = Some c \<and> rx_exec (cp_pattern c) ''/users/42/'' = Some [''42'']"
proof -
  let ?t = "[Static ''users'', Param ''id'']"
  have "?t \<noteq> []" "list_all seg_ok ?t" by (simp_all add: regex_special_def)
  from route_pattern_correct [OF this] show ?thesis
  proof (elim exE conjE, goal_cases)
    case (1 c)
    have "rx_exec (cp_pattern c) ''/users/42/'' = Some [''42'']"
      using 1(3) [rule_format, of "''/users/42/''" "[''42'']"] by (simp add: value_ok_def)
    then show ?case using 1(1) by simp
  qed
qed

end
