(* ===== verification/Route_Matcher.thy ===== *)
theory Route_Matcher
  imports Route_Pattern
begin

text \<open>
  The route matcher (\<open>router/matching/matcher.ts\<close>) and the helpers that add, remove and update
  the routes of a file in it (\<open>router/utils/matching-helpers.ts\<close>).

  The private array \<open>routes\<close> of the matcher is a list of \<open>route_entry\<close>. The route options (handler,
  middleware, schema) are the type variable \<open>'o\<close>: the matcher only passes them on. The functions
  take the path compiler \<open>C\<close> as an argument; the properties use it where it agrees with
  \<open>compilePathPattern\<close>.
\<close>

record 'o route_entry =
  re_path :: string
  re_method :: string
  re_pattern :: path_regex
  re_paramNames :: "string list"
  re_options :: 'o

record 'o route =
  r_path :: string
  r_methods :: "(string \<times> 'o option) list"
    \<comment> \<open>\<open>Object.entries\<close> without \<open>path\<close>; \<open>None\<close> is a falsy method entry\<close>

datatype 'o route_match =
    Matched 'o "(string, string) js_map"
  | MethodNotAllowed "string list"

section \<open>Operations\<close>

fun findIndex :: "('a \<Rightarrow> bool) \<Rightarrow> 'a list \<Rightarrow> nat option" where
  "findIndex P [] = None"
| "findIndex P (x # xs) = (if P x then Some 0 else map_option Suc (findIndex P xs))"

definition entry_for :: "(string \<Rightarrow> compiled_path) \<Rightarrow> string \<Rightarrow> string \<Rightarrow> 'o \<Rightarrow> 'o route_entry" where
  "entry_for C path method options =
     \<lparr>re_path = path, re_method = method, re_pattern = cp_pattern (C path),
      re_paramNames = cp_paramNames (C path), re_options = options\<rparr>"

definition matcher_add ::
  "(string \<Rightarrow> compiled_path) \<Rightarrow> string \<Rightarrow> string \<Rightarrow> 'o \<Rightarrow> 'o route_entry list \<Rightarrow> 'o route_entry list" where
  "matcher_add C path method options routes =
     (let newRoute = entry_for C path method options
      in case findIndex (\<lambda>r. length (re_paramNames newRoute) < length (re_paramNames r)) routes of
           None \<Rightarrow> routes @ [newRoute]
         | Some i \<Rightarrow> take i routes @ newRoute # drop i routes)"

fun remove_loop :: "string \<Rightarrow> nat \<Rightarrow> 'o route_entry list \<Rightarrow> 'o route_entry list" where
  \<comment> \<open>\<open>for (let i = routes.length - 1; i >= 0; i--)\<close> with \<open>splice(i, 1)\<close>\<close>
  "remove_loop path 0 routes = routes"
| "remove_loop path (Suc i) routes =
     remove_loop path i
       (if re_path (routes ! i) = path then take i routes @ drop (Suc i) routes else routes)"

definition matcher_remove :: "string \<Rightarrow> 'o route_entry list \<Rightarrow> 'o route_entry list" where
  "matcher_remove path routes = remove_loop path (length routes) routes"

definition matcher_clear :: "'o route_entry list \<Rightarrow> 'o route_entry list" where
  "matcher_clear routes = []"

definition matcher_match :: "'o route_entry list \<Rightarrow> string \<Rightarrow> string \<Rightarrow> 'o route_match option" where
  "matcher_match routes path method =
     (let pathname = takeWhile (\<lambda>c. c \<noteq> CHR ''?'') path
      in if pathname = [] then None
         else case find (\<lambda>r. re_method r = method \<and> rx_test (re_pattern r) pathname) routes of
                Some r \<Rightarrow> Some (Matched (re_options r) (extractParams path (re_pattern r) (re_paramNames r)))
              | None \<Rightarrow>
                  (case find (\<lambda>r. re_method r \<noteq> method \<and> rx_test (re_pattern r) path) routes of
                     Some _ \<Rightarrow> Some (MethodNotAllowed
                                 (map re_method (filter (\<lambda>r. rx_test (re_pattern r) path) routes)))
                   | None \<Rightarrow> None))"

definition matcher_getRoutes :: "'o route_entry list \<Rightarrow> (string \<times> string) list" where
  "matcher_getRoutes routes = map (\<lambda>r. (re_path r, re_method r)) routes"

definition matcher_findRoutes ::
  "'o route_entry list \<Rightarrow> string \<Rightarrow> (string \<times> string \<times> (string, string) js_map) list" where
  "matcher_findRoutes routes path =
     map (\<lambda>r. (re_path r, re_method r, extractParams path (re_pattern r) (re_paramNames r)))
       (filter (\<lambda>r. rx_test (re_pattern r) path) routes)"

fun add_methods ::
  "(string \<Rightarrow> compiled_path) \<Rightarrow> string \<Rightarrow> (string \<times> 'o option) list \<Rightarrow> 'o route_entry list \<Rightarrow> 'o route_entry list" where
  "add_methods C path [] routes = routes"
| "add_methods C path ((method, opts) # ms) routes =
     add_methods C path ms
       (case opts of None \<Rightarrow> routes | Some x \<Rightarrow> matcher_add C path method x routes)"

definition addRouteToMatcher ::
  "(string \<Rightarrow> compiled_path) \<Rightarrow> 'o route \<Rightarrow> 'o route_entry list \<Rightarrow> 'o route_entry list" where
  "addRouteToMatcher C r routes = add_methods C (r_path r) (r_methods r) routes"

definition removeRouteFromMatcher :: "string \<Rightarrow> 'o route_entry list \<Rightarrow> 'o route_entry list" where
  "removeRouteFromMatcher path routes = matcher_remove path routes"

definition updateRouteInMatcher ::
  "(string \<Rightarrow> compiled_path) \<Rightarrow> 'o route \<Rightarrow> 'o route_entry list \<Rightarrow> 'o route_entry list" where
  "updateRouteInMatcher C r routes = addRouteToMatcher C r (removeRouteFromMatcher (r_path r) routes)"

definition rebuildMatcherWithRoutes ::
  "(string \<Rightarrow> compiled_path) \<Rightarrow> 'o route list \<Rightarrow> 'o route_entry list \<Rightarrow> 'o route_entry list" where
  "rebuildMatcherWithRoutes C rs routes =
     foldl (\<lambda>acc r. addRouteToMatcher C r acc) (matcher_clear routes) rs"

section \<open>The entries of a matcher\<close>

definition by_params :: "'o route_entry list \<Rightarrow> bool" where
  "by_params routes \<longleftrightarrow> sorted (map (\<lambda>r. length (re_paramNames r)) routes)"

lemma findIndex_None: "findIndex P xs = None \<longleftrightarrow> (\<forall>x\<in>set xs. \<not> P x)"
  by (induction xs) auto

lemma findIndex_Some:
  "findIndex P xs = Some i \<Longrightarrow> i < length xs \<and> P (xs ! i) \<and> (\<forall>x\<in>set (take i xs). \<not> P x)"
  by (induction xs arbitrary: i) (auto split: if_splits)

lemma matcher_add_mset:
  "mset (matcher_add C path method x routes) = add_mset (entry_for C path method x) (mset routes)"
proof -
  have "mset (take i routes) + mset (drop i routes) = mset routes" for i
    by (metis append_take_drop_id mset_append)
  then show ?thesis by (simp add: matcher_add_def Let_def split: option.splits)
qed

lemma set_matcher_add:
  "set (matcher_add C path method x routes) = insert (entry_for C path method x) (set routes)"
  using arg_cong [OF matcher_add_mset, of set_mset C path "method" x routes] by simp

lemma matcher_add_sorted:
  assumes "by_params routes" shows "by_params (matcher_add C path method x routes)"
proof (cases "findIndex (\<lambda>r. length (re_paramNames (entry_for C path method x)) < length (re_paramNames r)) routes")
  case None
  then have "\<forall>r\<in>set routes. length (re_paramNames r) \<le> length (re_paramNames (entry_for C path method x))"
    by (simp add: findIndex_None not_less)
  then show ?thesis
    using assms None by (simp add: matcher_add_def Let_def by_params_def sorted_append)
next
  case (Some i)
  let ?f = "\<lambda>r. length (re_paramNames r)"
  note i = findIndex_Some [OF Some]
  have split: "sorted (map ?f (take i routes) @ map ?f (drop i routes))"
    using assms by (simp add: by_params_def flip: map_append)
  have "hd (drop i routes) = routes ! i" using i by (simp add: hd_drop_conv_nth)
  then have "\<forall>r\<in>set (drop i routes). ?f (entry_for C path method x) \<le> ?f r"
    using split i by (cases "drop i routes") (auto simp: sorted_append)
  then show ?thesis
    using split i Some
    by (auto simp: matcher_add_def Let_def by_params_def sorted_append not_less)
qed

lemma remove_loop_filter:
  "n \<le> length routes \<Longrightarrow>
   remove_loop path n routes = filter (\<lambda>r. re_path r \<noteq> path) (take n routes) @ drop n routes"
proof (induction path n routes rule: remove_loop.induct)
  case (2 path i routes)
  then have i: "i < length routes" by simp
  then have "take (Suc i) routes = take i routes @ [routes ! i]"
    "drop i routes = routes ! i # drop (Suc i) routes"
    by (simp_all add: take_Suc_conv_app_nth Cons_nth_drop_Suc)
  then show ?case using "2.IH" i by (cases "re_path (routes ! i) = path") auto
qed simp

lemma matcher_remove_filter: "matcher_remove path routes = filter (\<lambda>r. re_path r \<noteq> path) routes"
  by (simp add: matcher_remove_def remove_loop_filter)

lemma by_params_filter: "by_params routes \<Longrightarrow> by_params (filter P routes)"
  by (simp add: by_params_def sorted_filter)

inductive matcher_step :: "(string \<Rightarrow> compiled_path) \<Rightarrow> 'o route_entry list \<Rightarrow> 'o route_entry list \<Rightarrow> bool"
  for C where
  step_add: "matcher_step C rs (matcher_add C path method x rs)"
| step_remove: "matcher_step C rs (matcher_remove path rs)"
| step_clear: "matcher_step C rs (matcher_clear rs)"

inductive_cases matcher_stepE: "matcher_step C rs rs'"

definition entries_ok :: "(string \<Rightarrow> compiled_path) \<Rightarrow> 'o route_entry list \<Rightarrow> bool" where
  "entries_ok C rs \<longleftrightarrow> by_params rs \<and>
     (\<forall>r\<in>set rs. re_pattern r = cp_pattern (C (re_path r)) \<and> re_paramNames r = cp_paramNames (C (re_path r)))"

interpretation matcher: inductive_invariant "\<lambda>rs. rs = []" "matcher_step C" "entries_ok C" for C
proof unfold_locales
  show "matcher_step C s t \<Longrightarrow> entries_ok C s \<Longrightarrow> entries_ok C t" for s t
    by (erule matcher_stepE)
       (auto simp: entries_ok_def matcher_add_sorted by_params_filter set_matcher_add
         entry_for_def matcher_remove_filter matcher_clear_def by_params_def [of "[]"])
qed (simp add: entries_ok_def by_params_def)

section \<open>Matching\<close>

lemma matcher_match_entries:
  \<comment> \<open>matching in terms of the entries as they stand\<close>
  assumes "path \<noteq> []" "CHR ''?'' \<notin> set path"
  shows "case matcher_match rs path method of
    Some (Matched x ps) \<Rightarrow> \<exists>i<length rs. re_method (rs ! i) = method \<and> rx_test (re_pattern (rs ! i)) path \<and>
        x = re_options (rs ! i) \<and> ps = extractParams path (re_pattern (rs ! i)) (re_paramNames (rs ! i)) \<and>
        (\<forall>j<length rs. re_method (rs ! j) = method \<and> rx_test (re_pattern (rs ! j)) path \<longrightarrow> i \<le> j)
  | Some (MethodNotAllowed ms) \<Rightarrow> ms \<noteq> [] \<and> method \<notin> set ms \<and> set ms = {re_method r | r. r \<in> set rs \<and> rx_test (re_pattern r) path}
  | None \<Rightarrow> \<forall>r\<in>set rs. \<not> rx_test (re_pattern r) path"
proof -
  have pn: "takeWhile (\<lambda>c. c \<noteq> CHR ''?'') path = path" using assms(2) by (auto simp: takeWhile_eq_all_conv)
  note match = matcher_match_def [of rs path "method", unfolded Let_def pn]
  show ?thesis
  proof (cases "find (\<lambda>r. re_method r = method \<and> rx_test (re_pattern r) path) rs")
    case (Some r)
    then obtain i where i: "i < length rs" "re_method (rs ! i) = method \<and> rx_test (re_pattern (rs ! i)) path" "r = rs ! i"
      "\<forall>j<i. \<not> (re_method (rs ! j) = method \<and> rx_test (re_pattern (rs ! j)) path)" unfolding find_Some_iff by blast
    have "i \<le> j" if "re_method (rs ! j) = method \<and> rx_test (re_pattern (rs ! j)) path" for j
      using i(4) that not_le [of i j] by blast
    moreover have "matcher_match rs path method =
        Some (Matched (re_options (rs ! i)) (extractParams path (re_pattern (rs ! i)) (re_paramNames (rs ! i))))"
      using Some i(3) assms(1) by (simp add: match)
    ultimately show ?thesis using i(1,2) by auto
  next
    case None
    then have no: "\<forall>r\<in>set rs. re_method r = method \<longrightarrow> \<not> rx_test (re_pattern r) path" by (auto simp: find_None_iff)
    show ?thesis
    proof (cases "find (\<lambda>r. re_method r \<noteq> method \<and> rx_test (re_pattern r) path) rs")
      case None': None
      then have "matcher_match rs path method = None" using None assms(1) by (simp add: match)
      then show ?thesis using None' no by (auto simp: find_None_iff)
    next
      case (Some r)
      then have "r \<in> set rs" "rx_test (re_pattern r) path" by (auto simp: find_Some_iff)
      moreover have "matcher_match rs path method = Some (MethodNotAllowed (map re_method (filter (\<lambda>r. rx_test (re_pattern r) path) rs)))"
        using None Some assms(1) by (simp add: match)
      ultimately show ?thesis using no by (auto simp: filter_empty_conv)
    qed
  qed
qed

text \<open>C17: matching picks the most specific route. In every matcher built by adding, removing and
  clearing routes, and for a non-empty path without a query string: a match is an entry of the
  requested method whose pattern matches, and no other such entry has fewer parameters or, with
  as many, was placed before it; "method not allowed" is answered exactly when only other
  methods match, and lists them; no answer means that no entry matches.\<close>
theorem match_prefers_specific_routes:
  assumes "reachable (\<lambda>rs. rs = []) (matcher_step C) rs" "path \<noteq> []" "CHR ''?'' \<notin> set path"
  shows "case matcher_match rs path method of
    Some (Matched x ps) \<Rightarrow> \<exists>i<length rs. re_method (rs ! i) = method \<and>
        rx_test (cp_pattern (C (re_path (rs ! i)))) path \<and> x = re_options (rs ! i) \<and>
        ps = extractParams path (cp_pattern (C (re_path (rs ! i)))) (cp_paramNames (C (re_path (rs ! i)))) \<and>
        (\<forall>j<length rs. re_method (rs ! j) = method \<and> rx_test (cp_pattern (C (re_path (rs ! j)))) path \<longrightarrow>
           i \<le> j \<and> length (cp_paramNames (C (re_path (rs ! i)))) \<le> length (cp_paramNames (C (re_path (rs ! j)))))
  | Some (MethodNotAllowed ms) \<Rightarrow> ms \<noteq> [] \<and> method \<notin> set ms \<and>
        set ms = {re_method r | r. r \<in> set rs \<and> rx_test (cp_pattern (C (re_path r))) path}
  | None \<Rightarrow> \<forall>r\<in>set rs. \<not> rx_test (cp_pattern (C (re_path r))) path"
proof -
  have ok: "entries_ok C rs" by (rule matcher.reachable_inv [OF assms(1)])
  then have C: "re_pattern r = cp_pattern (C (re_path r))" "re_paramNames r = cp_paramNames (C (re_path r))"
    if "r \<in> set rs" for r using that by (simp_all add: entries_ok_def)
  have mono: "length (cp_paramNames (C (re_path (rs ! i)))) \<le> length (cp_paramNames (C (re_path (rs ! j))))"
    if "i \<le> j" "j < length rs" for i j
    using ok that sorted_nth_mono [of "map (\<lambda>r. length (re_paramNames r)) rs" i j]
    by (simp add: entries_ok_def by_params_def)
  have eq: "rx_test (re_pattern r) path \<longleftrightarrow> rx_test (cp_pattern (C (re_path r))) path" if "r \<in> set rs" for r
    using C(1) [OF that] by simp
  then have sets: "{re_method r | r. r \<in> set rs \<and> rx_test (re_pattern r) path} = {re_method r | r. r \<in> set rs \<and> rx_test (cp_pattern (C (re_path r))) path}"
    by blast
  show ?thesis
    using matcher_match_entries [OF assms(2,3), of rs "method"] C [OF nth_mem] mono eq unfolding sets
    by (auto split: option.splits route_match.splits)
qed

section \<open>Witness\<close>

theorem match_prefers_specific_routes_witness:
  "\<exists>rs :: nat route_entry list.
     reachable (\<lambda>rs. rs = []) (matcher_step (\<lambda>p. case compilePathPattern p of Some c \<Rightarrow> c
         | None \<Rightarrow> \<lparr>cp_pattern = RootPattern, cp_paramNames = []\<rparr>)) rs \<and> length rs = 1 \<and>
     matcher_match rs ''/a'' ''GET'' \<noteq> None"
proof -
  define C where "C = (\<lambda>p. case compilePathPattern p of Some c \<Rightarrow> c
      | None \<Rightarrow> \<lparr>cp_pattern = RootPattern, cp_paramNames = []\<rparr>)"
  let ?rs = "matcher_add C ''/a'' ''GET'' (1::nat) []"
  have r: "reachable (\<lambda>rs. rs = []) (matcher_step C) ?rs"
    using reachable.reach_step [of "\<lambda>rs. rs = []" "matcher_step C" "[]" ?rs]
    by (simp add: reachable.reach_init step_add)
  have rs: "?rs = [entry_for C ''/a'' ''GET'' 1]" by (simp add: matcher_add_def)
  have "rx_test (cp_pattern (C ''/a'')) ''/a''" unfolding C_def by code_simp
  then have "matcher_match ?rs ''/a'' ''GET'' \<noteq> None"
    using match_prefers_specific_routes [OF r, of "''/a''" "''GET''"] unfolding rs
    by (auto simp: entry_for_def split: option.splits)
  then show ?thesis using r rs unfolding C_def by force
qed

end
