(* ===== verification/Route_Registry.thy ===== *)
theory Route_Registry
  imports Route_Matcher
begin

text \<open>
  The route registry (\<open>router/registry/fast-registry.ts\<close>) and the router that keeps registry and
  matcher in step (\<open>router/router.ts\<close>).

  The registry's three maps are the record \<open>registry\<close>; the \<open>Set\<close> of paths of a file is a list
  without duplicates in insertion order. \<open>router\<close> adds the matcher's entries and the set of
  registered directories. Reading files, watching them and executing handlers are outside: the
  routes found in a directory or file are arguments of the operations, and \<open>handleRequest\<close>
  returns what it decides to do. Console output is left out.
\<close>

record 'o registry =
  routesByPath :: "(string, 'o route) js_map"
  routesByFile :: "(string, string list) js_map"
  pathToFile :: "(string, string) js_map"

record 'o route_changes =
  ch_added :: "'o route list"
  ch_removed :: "string list"
  ch_changed :: "'o route list"

section \<open>The registry\<close>

definition createRouteRegistry :: "'o registry" where
  "createRouteRegistry = \<lparr>routesByPath = [], routesByFile = [], pathToFile = []\<rparr>"

definition file_paths :: "'o registry \<Rightarrow> string \<Rightarrow> string list" where
  "file_paths reg file = (case map_get (routesByFile reg) file of None \<Rightarrow> [] | Some ps \<Rightarrow> ps)"

definition js_set :: "'a list \<Rightarrow> 'a list" where
  \<comment> \<open>\<open>new Set(xs)\<close>: the first occurrence of every element\<close>
  "js_set xs = rev (remdups (rev xs))"

definition is_object :: "'o route \<Rightarrow> string \<Rightarrow> bool" where
  \<comment> \<open>\<open>typeof route[method]\<close> is \<open>'object'\<close>; otherwise it is \<open>'undefined'\<close>\<close>
  "is_object r method \<longleftrightarrow>
     (case map_get (r_methods r) method of Some (Some _) \<Rightarrow> True | _ \<Rightarrow> False)"

definition routesEqual :: "'o route \<Rightarrow> 'o route \<Rightarrow> bool" where
  "routesEqual route1 route2 \<longleftrightarrow>
     r_path route1 = r_path route2 \<and>
     length (r_methods route1) = length (r_methods route2) \<and>
     list_all (\<lambda>m. is_object route1 m = is_object route2 m) (map_keys (r_methods route1))"

definition applyRouteUpdates :: "string \<Rightarrow> 'o route_changes \<Rightarrow> 'o registry \<Rightarrow> 'o registry" where
  "applyRouteUpdates file ch reg =
     (let byPath = foldl (\<lambda>m p. map_delete p m) (routesByPath reg) (ch_removed ch);
          toFile = foldl (\<lambda>m p. map_delete p m) (pathToFile reg) (ch_removed ch);
          byPath = foldl (\<lambda>m r. map_set (r_path r) r m) byPath (ch_added ch @ ch_changed ch);
          toFile = foldl (\<lambda>m r. map_set (r_path r) file m) toFile (ch_added ch @ ch_changed ch);
          allPathsForFile = js_set (map r_path (ch_added ch) @ map r_path (ch_changed ch) @
            filter (\<lambda>p. p \<notin> set (ch_removed ch)) (file_paths reg file))
      in \<lparr>routesByPath = byPath,
          routesByFile = (if allPathsForFile \<noteq> [] then map_set file allPathsForFile (routesByFile reg)
                          else map_delete file (routesByFile reg)),
          pathToFile = toFile\<rparr>)"

definition compute_changes :: "'o registry \<Rightarrow> string \<Rightarrow> 'o route list \<Rightarrow> 'o route_changes" where
  "compute_changes reg file newRoutes =
     (let oldPaths = file_paths reg file;
          newPaths = map r_path newRoutes
      in \<lparr>ch_added = filter (\<lambda>r. r_path r \<notin> set oldPaths) newRoutes,
          ch_removed = filter (\<lambda>p. p \<notin> set newPaths) oldPaths,
          ch_changed = filter (\<lambda>r. r_path r \<in> set oldPaths \<and>
            (case map_get (routesByPath reg) (r_path r) of
               None \<Rightarrow> True | Some existing \<Rightarrow> \<not> routesEqual existing r)) newRoutes\<rparr>)"

definition updateRoutesFromFile ::
  "string \<Rightarrow> 'o route list \<Rightarrow> 'o registry \<Rightarrow> 'o route_changes \<times> 'o registry" where
  "updateRoutesFromFile file newRoutes reg =
     (let ch = compute_changes reg file newRoutes in (ch, applyRouteUpdates file ch reg))"

definition getRouteFromRegistry :: "'o registry \<Rightarrow> string \<Rightarrow> 'o route option" where
  "getRouteFromRegistry reg path = map_get (routesByPath reg) path"

definition getAllRoutesFromRegistry :: "'o registry \<Rightarrow> 'o route list" where
  "getAllRoutesFromRegistry reg = map snd (routesByPath reg)"

definition getFileRoutes :: "'o registry \<Rightarrow> string \<Rightarrow> 'o route list" where
  "getFileRoutes reg file = List.map_filter (map_get (routesByPath reg)) (file_paths reg file)"

section \<open>The router\<close>

record 'o router =
  rt_registry :: "'o registry"
  rt_matcher :: "'o route_entry list"
  rt_directories :: "string list"
  rt_initialized :: bool

definition createRouter :: "string \<Rightarrow> 'o router" where
  "createRouter routesDir =
     \<lparr>rt_registry = createRouteRegistry, rt_matcher = [], rt_directories = [routesDir],
      rt_initialized = False\<rparr>"

definition applyMatcherChanges ::
  "(string \<Rightarrow> compiled_path) \<Rightarrow> 'o route_changes \<Rightarrow> 'o route_entry list \<Rightarrow> 'o route_entry list" where
  "applyMatcherChanges C ch ms =
     (let ms = foldl (\<lambda>ms p. removeRouteFromMatcher p ms) ms (ch_removed ch);
          ms = foldl (\<lambda>ms r. addRouteToMatcher C r ms) ms (ch_added ch)
      in foldl (\<lambda>ms r. updateRouteInMatcher C r ms) ms (ch_changed ch))"

definition addRoutesWithSource ::
  "(string \<Rightarrow> compiled_path) \<Rightarrow> 'o route list \<Rightarrow> string \<Rightarrow> 'o router \<Rightarrow> 'o router" where
  "addRoutesWithSource C routes source R =
     (let (ch, reg) = updateRoutesFromFile source routes (rt_registry R)
      in R\<lparr>rt_registry := reg, rt_matcher := applyMatcherChanges C ch (rt_matcher R)\<rparr>)"

definition apply_prefix :: "string option \<Rightarrow> 'o route \<Rightarrow> 'o route" where
  \<comment> \<open>an empty prefix is falsy\<close>
  "apply_prefix prefix r =
     (case prefix of Some (c # p) \<Rightarrow> r\<lparr>r_path := (c # p) @ r_path r\<rparr> | _ \<Rightarrow> r)"

definition loadRoutesFromDirectory ::
  "(string \<Rightarrow> compiled_path) \<Rightarrow> 'o route list \<Rightarrow> string \<Rightarrow> string option \<Rightarrow> 'o router \<Rightarrow> 'o router" where
  "loadRoutesFromDirectory C discovered source prefix R =
     addRoutesWithSource C (map (apply_prefix prefix) discovered) source R"

fun load_directories ::
  "(string \<Rightarrow> compiled_path) \<Rightarrow> (string \<Rightarrow> 'o route list) \<Rightarrow> string list \<Rightarrow> 'o router \<Rightarrow> 'o router" where
  "load_directories C disk [] R = R"
| "load_directories C disk (d # ds) R =
     load_directories C disk ds (loadRoutesFromDirectory C (disk d) d None R)"

definition router_initialize ::
  "(string \<Rightarrow> compiled_path) \<Rightarrow> (string \<Rightarrow> 'o route list) \<Rightarrow> 'o router \<Rightarrow> 'o router" where
  "router_initialize C disk R =
     (if rt_initialized R then R
      else (load_directories C disk (rt_directories R) R)\<lparr>rt_initialized := True\<rparr>)"

definition onRouteAdded ::
  "(string \<Rightarrow> compiled_path) \<Rightarrow> string option \<Rightarrow> string \<Rightarrow> 'o route list \<Rightarrow> 'o router \<Rightarrow> 'o router" where
  "onRouteAdded C prefix file routes R = addRoutesWithSource C (map (apply_prefix prefix) routes) file R"

definition onRouteChanged ::
  "(string \<Rightarrow> compiled_path) \<Rightarrow> string option \<Rightarrow> string \<Rightarrow> 'o route list \<Rightarrow> 'o router \<Rightarrow> 'o router" where
  "onRouteChanged C prefix file routes R = addRoutesWithSource C (map (apply_prefix prefix) routes) file R"

definition onRouteRemoved :: "string option \<Rightarrow> 'o route list \<Rightarrow> 'o router \<Rightarrow> 'o router" where
  "onRouteRemoved prefix routes R =
     R\<lparr>rt_matcher := foldl (\<lambda>ms r. removeRouteFromMatcher (r_path (apply_prefix prefix r)) ms)
                      (rt_matcher R) routes\<rparr>"

definition router_addRoute :: "(string \<Rightarrow> compiled_path) \<Rightarrow> 'o route \<Rightarrow> 'o router \<Rightarrow> 'o router" where
  "router_addRoute C r R = addRoutesWithSource C [r] ''programmatic'' R"

definition router_addRoutes :: "(string \<Rightarrow> compiled_path) \<Rightarrow> 'o route list \<Rightarrow> 'o router \<Rightarrow> 'o router" where
  "router_addRoutes C rs R = addRoutesWithSource C rs ''programmatic'' R"

definition addRouteDirectory ::
  "(string \<Rightarrow> compiled_path) \<Rightarrow> (string \<Rightarrow> 'o route list) \<Rightarrow> string \<Rightarrow> string option \<Rightarrow> 'o router \<Rightarrow> 'o router" where
  "addRouteDirectory C disk directory prefix R =
     (if directory \<in> set (rt_directories R) then R
      else (let R = R\<lparr>rt_directories := rt_directories R @ [directory]\<rparr>
            in if rt_initialized R
               then loadRoutesFromDirectory C (disk directory) directory prefix R else R))"

definition router_getRoutes :: "'o router \<Rightarrow> 'o route list" where
  "router_getRoutes R = getAllRoutesFromRegistry (rt_registry R)"

datatype 'o outcome =
    NotFoundOutcome
  | MethodNotAllowedOutcome "string list"   \<comment> \<open>405\<close>
  | ExecuteOutcome 'o "(string, string) js_map"

definition handleRequest :: "string \<Rightarrow> string \<Rightarrow> 'o router \<Rightarrow> 'o outcome" where
  "handleRequest method path R =
     (case matcher_match (rt_matcher R) path method of
        None \<Rightarrow> NotFoundOutcome
      | Some (MethodNotAllowed allowed) \<Rightarrow> MethodNotAllowedOutcome allowed
      | Some (Matched opts params) \<Rightarrow> ExecuteOutcome opts params)"

section \<open>Registry and matcher agree\<close>

text \<open>
  \<open>entries_at p ms\<close> are the matcher's entries for the path \<open>p\<close>. Every helper changes them for the
  path it is given and for no other.
\<close>

definition entries_at :: "string \<Rightarrow> 'o route_entry list \<Rightarrow> 'o route_entry multiset" where
  "entries_at p ms = filter_mset (\<lambda>e. re_path e = p) (mset ms)"

definition entries_of :: "(string \<Rightarrow> compiled_path) \<Rightarrow> 'o route \<Rightarrow> 'o route_entry multiset" where
  "entries_of C r = mset (List.map_filter (\<lambda>(m, x). map_option (entry_for C (r_path r) m) x) (r_methods r))"

lemma entries_at_add:
  "entries_at p (matcher_add C q m x ms) =
     (if p = q then add_mset (entry_for C q m x) (entries_at p ms) else entries_at p ms)"
  by (simp add: entries_at_def matcher_add_mset entry_for_def)

lemma entries_at_remove [simp]:
  "entries_at p (removeRouteFromMatcher q ms) = (if p = q then {#} else entries_at p ms)"
  by (auto simp: entries_at_def removeRouteFromMatcher_def matcher_remove_filter filter_filter_mset
      filter_mset_eq_mempty_iff conj_commute intro!: filter_mset_cong)

lemma entries_at_add_methods:
  "entries_at p (add_methods C q methods ms) = entries_at p ms +
     (if p = q then mset (List.map_filter (\<lambda>(m, x). map_option (entry_for C q m) x) methods) else {#})"
  by (induction C q methods ms rule: add_methods.induct)
     (auto simp: entries_at_add List.map_filter_simps split: option.splits)

lemma entries_at_addRoute [simp]:
  "entries_at p (addRouteToMatcher C r ms) =
     entries_at p ms + (if p = r_path r then entries_of C r else {#})"
  by (simp add: addRouteToMatcher_def entries_at_add_methods entries_of_def)

lemma entries_at_update [simp]:
  "entries_at p (updateRouteInMatcher C r ms) =
     (if p = r_path r then entries_of C r else entries_at p ms)"
  by (simp add: updateRouteInMatcher_def)

lemma entries_at_removes:
  "entries_at p (foldl (\<lambda>ms q. removeRouteFromMatcher q ms) ms qs) =
     (if p \<in> set qs then {#} else entries_at p ms)"
  by (induction qs arbitrary: ms) auto

text \<open>What a fold of writes leaves under a key: the last write to it, or the old value.\<close>

definition route_for :: "string \<Rightarrow> 'o route list \<Rightarrow> 'o route option" where
  "route_for p rs = find (\<lambda>r. r_path r = p) rs"

lemma route_for_Nil [simp]: "route_for p [] = None"
  by (simp add: route_for_def)

lemma route_for_Cons [simp]:
  "route_for p (r # rs) = (if r_path r = p then Some r else route_for p rs)"
  by (simp add: route_for_def)

lemma route_for_None: "route_for p rs = None \<longleftrightarrow> p \<notin> r_path ` set rs"
  by (auto simp: route_for_def find_None_iff)

lemma route_for_absent [simp]: "p \<notin> r_path ` set rs \<Longrightarrow> route_for p rs = None"
  by (simp add: route_for_None)

lemma route_for_SomeD: "route_for p rs = Some r \<Longrightarrow> r \<in> set rs \<and> r_path r = p"
  by (auto simp: route_for_def find_Some_iff)

lemma route_for_append:
  "route_for p (rs @ rs') = (case route_for p rs of Some r \<Rightarrow> Some r | None \<Rightarrow> route_for p rs')"
  by (induction rs) auto

lemma entries_at_adds:
  "distinct (map r_path rs) \<Longrightarrow>
   entries_at p (foldl (\<lambda>ms r. addRouteToMatcher C r ms) ms rs) =
     entries_at p ms + (case route_for p rs of None \<Rightarrow> {#} | Some r \<Rightarrow> entries_of C r)"
  by (induction rs arbitrary: ms) (auto split: option.splits)

lemma entries_at_updates:
  "distinct (map r_path rs) \<Longrightarrow>
   entries_at p (foldl (\<lambda>ms r. updateRouteInMatcher C r ms) ms rs) =
     (case route_for p rs of None \<Rightarrow> entries_at p ms | Some r \<Rightarrow> entries_of C r)"
  by (induction rs arbitrary: ms) (auto split: option.splits)

lemma fold_delete_get:
  "map_get (foldl (\<lambda>m p. map_delete p m) m ps) k = (if k \<in> set ps then None else map_get m k)"
  by (induction ps arbitrary: m) auto

lemma fold_set_get:
  "distinct (map r_path rs) \<Longrightarrow>
   map_get (foldl (\<lambda>m r. map_set (r_path r) (f r) m) m rs) k =
     (case route_for k rs of None \<Rightarrow> map_get m k | Some r \<Rightarrow> Some (f r))"
  by (induction rs arbitrary: m) (auto split: option.splits)

lemma set_js_set [simp]: "set (js_set xs) = set xs"
  by (simp add: js_set_def)

subsection \<open>The effect of an update, path by path\<close>

lemma changes_simps:
  "ch_added (compute_changes reg file rs) = filter (\<lambda>r. r_path r \<notin> set (file_paths reg file)) rs"
  "ch_removed (compute_changes reg file rs) =
     filter (\<lambda>p. p \<notin> set (map r_path rs)) (file_paths reg file)"
  "ch_changed (compute_changes reg file rs) = filter (\<lambda>r. r_path r \<in> set (file_paths reg file) \<and>
     (case map_get (routesByPath reg) (r_path r) of
        None \<Rightarrow> True | Some existing \<Rightarrow> \<not> routesEqual existing r)) rs"
  by (simp_all add: compute_changes_def Let_def)

definition unchanged :: "'o registry \<Rightarrow> string \<Rightarrow> 'o route \<Rightarrow> bool" where
  \<comment> \<open>the file had this path already and the comparison sees no difference\<close>
  "unchanged reg file r \<longleftrightarrow> r_path r \<in> set (file_paths reg file) \<and>
     (\<exists>e. map_get (routesByPath reg) (r_path r) = Some e \<and> routesEqual e r)"

definition written :: "'o registry \<Rightarrow> string \<Rightarrow> 'o route list \<Rightarrow> 'o route list" where
  "written reg file rs = ch_added (compute_changes reg file rs) @ ch_changed (compute_changes reg file rs)"

lemma written_distinct: "distinct (map r_path rs) \<Longrightarrow> distinct (map r_path (written reg file rs))"
  by (auto simp: written_def changes_simps distinct_map_filter)

lemma set_written: "set (written reg file rs) = {r \<in> set rs. \<not> unchanged reg file r}"
  by (auto simp: written_def changes_simps unchanged_def split: option.splits)

lemma route_for_eqI:
  "distinct (map r_path rs) \<Longrightarrow> r \<in> set rs \<Longrightarrow> route_for (r_path r) rs = Some r"
  by (induction rs) (auto simp: image_iff)

lemma route_for_written:
  assumes "distinct (map r_path rs)"
  shows "route_for p (written reg file rs) =
    (case route_for p rs of None \<Rightarrow> None | Some r \<Rightarrow> if unchanged reg file r then None else Some r)"
proof (cases "route_for p rs")
  case None
  moreover have "p \<notin> r_path ` set (written reg file rs)"
    using None by (auto simp: route_for_None set_written)
  ultimately show ?thesis by simp
next
  case (Some r)
  then have r: "r \<in> set rs" "p = r_path r" by (auto dest: route_for_SomeD)
  show ?thesis
  proof (cases "unchanged reg file r")
    case True
    then have "p \<notin> r_path ` set (written reg file rs)"
      using r assms by (auto simp: set_written distinct_map inj_on_def)
    then show ?thesis using Some True by simp
  next
    case False
    then have "route_for p (written reg file rs) = Some r"
      using r route_for_eqI [OF written_distinct [OF assms], of r] by (simp add: set_written)
    then show ?thesis using Some False by simp
  qed
qed

lemma update_registry:
  fixes rs :: "'o route list" and src :: string and reg :: "'o registry"
  assumes "distinct (map r_path rs)"
  defines "reg' \<equiv> snd (updateRoutesFromFile src rs reg)"
  shows "map_get (routesByPath reg') p =
      (case route_for p (written reg src rs) of
         Some r \<Rightarrow> Some r
       | None \<Rightarrow> if p \<in> set (file_paths reg src) \<and> p \<notin> r_path ` set rs then None
                 else map_get (routesByPath reg) p)"
    and "map_get (pathToFile reg') p =
      (case route_for p (written reg src rs) of
         Some r \<Rightarrow> Some src
       | None \<Rightarrow> if p \<in> set (file_paths reg src) \<and> p \<notin> r_path ` set rs then None
                 else map_get (pathToFile reg) p)"
    and "set (file_paths reg' f) = (if f = src then r_path ` set rs else set (file_paths reg f))"
proof -
  let ?ch = "compute_changes reg src rs"
  have d: "distinct (map r_path (ch_added ?ch @ ch_changed ?ch))"
    using written_distinct [OF assms(1)] by (simp add: written_def)
  have rem: "p \<in> set (ch_removed ?ch) \<longleftrightarrow> p \<in> set (file_paths reg src) \<and> p \<notin> r_path ` set rs" for p
    by (auto simp: changes_simps)
  show "map_get (routesByPath reg') p =
      (case route_for p (written reg src rs) of
         Some r \<Rightarrow> Some r
       | None \<Rightarrow> if p \<in> set (file_paths reg src) \<and> p \<notin> r_path ` set rs then None
                 else map_get (routesByPath reg) p)"
    using fold_set_get [OF d, of "\<lambda>r. r"]
    by (simp add: reg'_def updateRoutesFromFile_def applyRouteUpdates_def Let_def fold_delete_get rem
        written_def split: option.split del: foldl_append)
  show "map_get (pathToFile reg') p =
      (case route_for p (written reg src rs) of
         Some r \<Rightarrow> Some src
       | None \<Rightarrow> if p \<in> set (file_paths reg src) \<and> p \<notin> r_path ` set rs then None
                 else map_get (pathToFile reg) p)"
    using fold_set_get [OF d, of "\<lambda>r. src"]
    by (simp add: reg'_def updateRoutesFromFile_def applyRouteUpdates_def Let_def fold_delete_get rem
        written_def split: option.split del: foldl_append)
  define paths where "paths = js_set (map r_path (ch_added ?ch) @ map r_path (ch_changed ?ch) @
            filter (\<lambda>p. p \<notin> set (ch_removed ?ch)) (file_paths reg src))"
  have "file_paths reg' f = (if f = src then paths else file_paths reg f)"
    by (simp add: reg'_def updateRoutesFromFile_def applyRouteUpdates_def Let_def
        flip: paths_def) (simp add: file_paths_def)
  moreover have "set paths = r_path ` set rs"
    using set_written [of reg src rs]
    by (auto simp: paths_def changes_simps unchanged_def written_def image_iff split: option.splits)
  ultimately show "set (file_paths reg' f) = (if f = src then r_path ` set rs else set (file_paths reg f))"
    by simp
qed

lemma update_matcher:
  assumes "distinct (map r_path rs)"
    and fresh: "\<And>r. r \<in> set rs \<Longrightarrow> r_path r \<notin> set (file_paths reg file) \<Longrightarrow> entries_at (r_path r) ms = {#}"
  shows "entries_at p (applyMatcherChanges C (fst (updateRoutesFromFile file rs reg)) ms) =
      (case route_for p (written reg file rs) of
         Some r \<Rightarrow> entries_of C r
       | None \<Rightarrow> if p \<in> set (file_paths reg file) \<and> p \<notin> r_path ` set rs then {#} else entries_at p ms)"
proof -
  let ?ch = "compute_changes reg file rs"
  have d: "distinct (map r_path (ch_added ?ch))" "distinct (map r_path (ch_changed ?ch))"
    using written_distinct [OF assms(1), of reg "file"] by (simp_all add: written_def)
  have app: "route_for p (written reg file rs) =
      (case route_for p (ch_added ?ch) of Some r \<Rightarrow> Some r | None \<Rightarrow> route_for p (ch_changed ?ch))" for p
    unfolding written_def by (rule route_for_append)
  have fr: "entries_at p ms = {#}" "p \<notin> set (ch_removed ?ch)" "route_for p (ch_changed ?ch) = None"
    if "route_for p (ch_added ?ch) = Some r" for r
  proof -
    have r: "r \<in> set rs" "p = r_path r" "p \<notin> set (file_paths reg file)"
      using route_for_SomeD [OF that] by (auto simp: changes_simps)
    then show "entries_at p ms = {#}" "p \<notin> set (ch_removed ?ch)"
      using fresh by (auto simp: changes_simps)
    show "route_for p (ch_changed ?ch) = None"
      by (rule route_for_absent) (use r in \<open>auto simp: changes_simps\<close>)
  qed
  have rem: "p \<in> set (ch_removed ?ch) \<longleftrightarrow> p \<in> set (file_paths reg file) \<and> p \<notin> r_path ` set rs"
    by (auto simp: changes_simps)
  have "entries_at p (applyMatcherChanges C ?ch ms) =
      (case route_for p (ch_changed ?ch) of
         Some r \<Rightarrow> entries_of C r
       | None \<Rightarrow> (if p \<in> set (ch_removed ?ch) then {#} else entries_at p ms) +
                 (case route_for p (ch_added ?ch) of None \<Rightarrow> {#} | Some r \<Rightarrow> entries_of C r))"
    by (simp add: applyMatcherChanges_def Let_def entries_at_updates [OF d(2)] entries_at_adds [OF d(1)]
        entries_at_removes split: option.split)
  then show ?thesis
    using fr app rem
    by (cases "route_for p (ch_added ?ch)"; cases "route_for p (ch_changed ?ch)")
       (simp_all add: updateRoutesFromFile_def Let_def)
qed

definition coherent :: "(string \<Rightarrow> compiled_path) \<Rightarrow> 'o router \<Rightarrow> bool" where
  "coherent C R \<longleftrightarrow>
     (\<forall>p f. map_get (pathToFile (rt_registry R)) p = Some f \<longleftrightarrow>
        p \<in> set (file_paths (rt_registry R) f)) \<and>
     (\<forall>p. map_get (routesByPath (rt_registry R)) p = None \<longleftrightarrow>
        map_get (pathToFile (rt_registry R)) p = None) \<and>
     (\<forall>p r. map_get (routesByPath (rt_registry R)) p = Some r \<longrightarrow> r_path r = p) \<and>
     (\<forall>p. entries_at p (rt_matcher R) =
        (case map_get (routesByPath (rt_registry R)) p of None \<Rightarrow> {#} | Some r \<Rightarrow> entries_of C r))"

definition no_conflict :: "string \<Rightarrow> 'o route list \<Rightarrow> 'o router \<Rightarrow> bool" where
  \<comment> \<open>no path twice, and none that another source has registered\<close>
  "no_conflict src rs R \<longleftrightarrow> distinct (map r_path rs) \<and>
     (\<forall>r\<in>set rs. \<forall>f. map_get (pathToFile (rt_registry R)) (r_path r) = Some f \<longrightarrow> f = src)"

lemma addRoutesWithSource_fields [simp]:
  "rt_registry (addRoutesWithSource C rs src R) = snd (updateRoutesFromFile src rs (rt_registry R))"
  "rt_matcher (addRoutesWithSource C rs src R) =
     applyMatcherChanges C (fst (updateRoutesFromFile src rs (rt_registry R))) (rt_matcher R)"
  by (simp_all add: addRoutesWithSource_def split_beta Let_def)

lemma coherentD:
  assumes "coherent C R"
  shows "map_get (pathToFile (rt_registry R)) p = Some f \<longleftrightarrow> p \<in> set (file_paths (rt_registry R) f)"
    and "map_get (routesByPath (rt_registry R)) p = None \<longleftrightarrow> map_get (pathToFile (rt_registry R)) p = None"
    and "map_get (routesByPath (rt_registry R)) p = Some r \<Longrightarrow> r_path r = p"
    and "entries_at p (rt_matcher R) =
      (case map_get (routesByPath (rt_registry R)) p of None \<Rightarrow> {#} | Some r \<Rightarrow> entries_of C r)"
  using assms unfolding coherent_def by blast+

lemma update_owner:
  assumes coh: "coherent C R" and nc: "no_conflict src rs R"
  shows "map_get (pathToFile (snd (updateRoutesFromFile src rs (rt_registry R)))) p = Some f \<longleftrightarrow>
      p \<in> set (file_paths (snd (updateRoutesFromFile src rs (rt_registry R))) f)"
proof -
  let ?reg = "rt_registry R"
  have d: "distinct (map r_path rs)" using nc by (simp add: no_conflict_def)
  note upd = update_registry [OF d, where src = src and reg = ?reg]
  note own = coherentD(1) [OF coh]
  show ?thesis
  proof (cases "route_for p (written ?reg src rs)")
    case (Some r)
    then have p: "p \<in> r_path ` set rs" using route_for_SomeD [OF Some] by (auto simp: set_written)
    then have "f = src" if "p \<in> set (file_paths ?reg f)"
      using nc own [of p f] that by (auto simp: no_conflict_def)
    then show ?thesis unfolding upd(2,3) Some using p by auto
  next
    case None
    have "p \<in> set (file_paths ?reg src)" if "p \<in> r_path ` set rs"
      using that None route_for_eqI [OF d]
      by (auto simp: route_for_written [OF d] unchanged_def split: if_splits)
    then have "(if p \<in> set (file_paths ?reg src) \<and> p \<notin> r_path ` set rs then None
           else map_get (pathToFile ?reg) p) = Some f \<longleftrightarrow>
        (if f = src then p \<in> r_path ` set rs else p \<in> set (file_paths ?reg f))"
      using own by (metis option.distinct(1) option.inject)
    then show ?thesis unfolding upd(2,3) None by simp
  qed
qed

lemma update_entries:
  assumes coh: "coherent C R" and nc: "no_conflict src rs R"
  shows "entries_at p (applyMatcherChanges C (fst (updateRoutesFromFile src rs (rt_registry R))) (rt_matcher R)) =
      (case map_get (routesByPath (snd (updateRoutesFromFile src rs (rt_registry R)))) p of
         None \<Rightarrow> {#} | Some r \<Rightarrow> entries_of C r)"
proof -
  let ?reg = "rt_registry R"
  have d: "distinct (map r_path rs)" using nc by (simp add: no_conflict_def)
  have fresh: "entries_at (r_path r) (rt_matcher R) = {#}"
    if "r \<in> set rs" "r_path r \<notin> set (file_paths ?reg src)" for r
  proof -
    have "map_get (pathToFile ?reg) (r_path r) = None"
      using nc that coherentD(1) [OF coh, of "r_path r" src]
      by (cases "map_get (pathToFile ?reg) (r_path r)") (auto simp: no_conflict_def)
    then have "map_get (routesByPath ?reg) (r_path r) = None" using coherentD(2) [OF coh] by simp
    then show ?thesis using coherentD(4) [OF coh, of "r_path r"] by simp
  qed
  have "entries_at p (applyMatcherChanges C (fst (updateRoutesFromFile src rs ?reg)) (rt_matcher R)) =
      (case route_for p (written ?reg src rs) of
         Some r \<Rightarrow> entries_of C r
       | None \<Rightarrow> if p \<in> set (file_paths ?reg src) \<and> p \<notin> r_path ` set rs then {#}
                 else entries_at p (rt_matcher R))"
    using fresh by (intro update_matcher [OF d]) blast
  then show ?thesis
    using coherentD(4) [OF coh, of p] unfolding update_registry(1) [OF d]
    by (cases "route_for p (written ?reg src rs)") simp_all
qed

lemma update_coherent:
  assumes coh: "coherent C R" and nc: "no_conflict src rs R"
  shows "coherent C (addRoutesWithSource C rs src R)"
proof -
  let ?reg = "rt_registry R" and ?reg' = "snd (updateRoutesFromFile src rs (rt_registry R))"
  have d: "distinct (map r_path rs)" using nc by (simp add: no_conflict_def)
  note upd = update_registry [OF d, where src = src and reg = ?reg]
  have "r_path r = p" if "map_get (routesByPath ?reg') p = Some r" for p r
  proof (cases "route_for p (written ?reg src rs)")
    case None
    then show ?thesis using that coherentD(3) [OF coh, of p r] unfolding upd(1) by (simp split: if_splits)
  next
    case (Some r')
    then show ?thesis using that route_for_SomeD [OF Some] unfolding upd(1) by simp
  qed
  moreover have "map_get (routesByPath ?reg') p = None \<longleftrightarrow> map_get (pathToFile ?reg') p = None" for p
    using coherentD(2) [OF coh, of p] by (auto simp: upd(1,2) split: option.splits)
  ultimately show ?thesis
    unfolding coherent_def addRoutesWithSource_fields
    using update_owner [OF assms] update_entries [OF assms] by blast
qed

section \<open>Runs of the router\<close>

inductive router_step :: "(string \<Rightarrow> compiled_path) \<Rightarrow> 'o router \<Rightarrow> 'o router \<Rightarrow> bool" for C where
  rs_source: "no_conflict src rs R \<Longrightarrow> router_step C R (addRoutesWithSource C rs src R)"
| rs_added: "no_conflict f (map (apply_prefix prefix) rs) R \<Longrightarrow> router_step C R (onRouteAdded C prefix f rs R)"
| rs_changed: "no_conflict f (map (apply_prefix prefix) rs) R \<Longrightarrow> router_step C R (onRouteChanged C prefix f rs R)"
| rs_programmatic: "no_conflict ''programmatic'' rs R \<Longrightarrow> router_step C R (router_addRoutes C rs R)"
| rs_directory: "no_conflict d (map (apply_prefix prefix) (disk d)) R \<Longrightarrow>
    router_step C R (addRouteDirectory C disk d prefix R)"

inductive_cases router_stepE: "router_step C R R'"

definition router_init :: "'o router \<Rightarrow> bool" where
  "router_init R \<longleftrightarrow> (\<exists>dir. R = createRouter dir)"

lemma coherent_cong:
  "rt_registry R' = rt_registry R \<Longrightarrow> rt_matcher R' = rt_matcher R \<Longrightarrow> coherent C R' = coherent C R"
  by (simp add: coherent_def)

lemma coherent_init: "coherent C (createRouter dir)"
  by (simp add: coherent_def createRouter_def createRouteRegistry_def file_paths_def entries_at_def)

lemma addRouteDirectory_coherent:
  assumes "coherent C R" "no_conflict d (map (apply_prefix prefix) (disk d)) R"
  shows "coherent C (addRouteDirectory C disk d prefix R)"
proof -
  let ?R = "R\<lparr>rt_directories := rt_directories R @ [d]\<rparr>"
  have "coherent C ?R" "no_conflict d (map (apply_prefix prefix) (disk d)) ?R"
    using assms coherent_cong [of ?R R C] by (simp_all add: no_conflict_def)
  then show ?thesis
    using assms(1) by (simp add: addRouteDirectory_def Let_def loadRoutesFromDirectory_def update_coherent)
qed

interpretation router: inductive_invariant router_init "router_step C" "coherent C" for C
  by unfold_locales
     (auto simp: router_init_def coherent_init onRouteAdded_def onRouteChanged_def router_addRoutes_def
       update_coherent addRouteDirectory_coherent elim!: router_stepE)




section \<open>Programmatic routes\<close>

lemma file_paths_after:
  "distinct (map r_path rs) \<Longrightarrow>
   set (file_paths (rt_registry (addRoutesWithSource C rs src R)) src) = r_path ` set rs"
  by (simp add: update_registry(3))

text \<open>Adding a route in code removes the one added before. All routes added with \<open>addRoute\<close>
  share one source name, and an update replaces the routes of its source: after \<open>addRoute\<close> of a
  first and then a second route with another path, on any router, the first is neither
  registered nor matched any more.\<close>
theorem addRoute_drops_previous_route:
  assumes "r_path a \<noteq> r_path b"
  shows "map_get (routesByPath (rt_registry (router_addRoute C b (router_addRoute C a R)))) (r_path a) = None \<and>
         (\<forall>e\<in>set (rt_matcher (router_addRoute C b (router_addRoute C a R))). re_path e \<noteq> r_path a)"
proof -
  let ?R = "addRoutesWithSource C [a] ''programmatic'' R" and ?src = "''programmatic''"
  have old: "set (file_paths (rt_registry ?R) ?src) = {r_path a}"
    using file_paths_after [of "[a]"] by simp
  have reg: "map_get (routesByPath (snd (updateRoutesFromFile ?src [b] (rt_registry ?R)))) (r_path a) = None"
    using old assms
    by (subst update_registry(1)) (auto simp: route_for_None set_written split: option.splits)
  let ?ch = "compute_changes (rt_registry ?R) ?src [b]"
  have "ch_removed ?ch = file_paths (rt_registry ?R) ?src" "ch_added ?ch = [b]" "ch_changed ?ch = []"
    using old assms by (auto simp: changes_simps filter_id_conv)
  then have "entries_at (r_path a) (applyMatcherChanges C ?ch ms) = {#}" for ms
    using old assms by (simp add: applyMatcherChanges_def Let_def entries_at_removes)
  then have "\<forall>e\<in>set (applyMatcherChanges C ?ch ms). re_path e \<noteq> r_path a" for ms
    unfolding entries_at_def by (auto simp: filter_mset_eq_mempty_iff)
  then show ?thesis using reg by (simp add: router_addRoute_def updateRoutesFromFile_def Let_def)
qed

section \<open>Hot reload\<close>

definition compiled :: "string \<Rightarrow> compiled_path" where
  \<comment> \<open>the compiler on the paths it translates\<close>
  "compiled p = (case compilePathPattern p of
      Some c \<Rightarrow> c | None \<Rightarrow> \<lparr>cp_pattern = RootPattern, cp_paramNames = []\<rparr>)"

definition users_v1 :: "nat route" where
  "users_v1 = \<lparr>r_path = ''/users'', r_methods = [(''GET'', Some 1)]\<rparr>"

definition users_v2 :: "nat route" where
  "users_v2 = \<lparr>r_path = ''/users'', r_methods = [(''GET'', Some 2)]\<rparr>"

definition hot_reloaded :: "nat router" where
  \<comment> \<open>\<open>users.ts\<close> is in the routes directory at start and its handler is edited\<close>
  "hot_reloaded =
     onRouteChanged compiled None ''routes/users.ts'' [users_v2]
       (router_initialize compiled (\<lambda>_. [users_v1]) (createRouter ''routes''))"

text \<open>Editing a handler that was loaded at start has no effect on requests. The start-up
  registers routes under the directory's name, the watcher under the file's name, so the edited
  route counts as new and its entry is placed behind the old one: the old handler (here 1) keeps
  being executed although the registry lists the new one (2).\<close>
theorem hot_reload_serves_stale_handler:
  "handleRequest ''GET'' ''/users'' hot_reloaded = ExecuteOutcome 1 [] \<and>
   map (\<lambda>r. r_methods r) (router_getRoutes hot_reloaded) = [[(''GET'', Some 2)]]"
  by code_simp

text \<open>Deleting a route file and creating it again leaves the route unserved: removal takes
  the route out of the matcher but not out of the registry, and the new file then looks
  unchanged, so nothing is added to the matcher.\<close>
theorem recreated_file_not_served:
  "handleRequest ''GET'' ''/users''
     (onRouteAdded compiled None ''users.ts'' [users_v1]
       (onRouteRemoved None [users_v1]
         (onRouteAdded compiled None ''users.ts'' [users_v1] (createRouter ''routes'')))) = NotFoundOutcome \<and>
   handleRequest ''GET'' ''/users''
     (onRouteAdded compiled None ''users.ts'' [users_v1] (createRouter ''routes'')) = ExecuteOutcome 1 []"
  by code_simp

section \<open>Witnesses\<close>




theorem addRoute_drops_previous_route_witness:
  "map_get (routesByPath (rt_registry
     (router_addRoute compiled (users_v1\<lparr>r_path := ''/posts''\<rparr>)
       (router_addRoute compiled users_v1 (createRouter ''routes''))))) ''/users'' = None"
  using addRoute_drops_previous_route [of users_v1 "users_v1\<lparr>r_path := ''/posts''\<rparr>" compiled "createRouter ''routes''"]
  by (simp add: users_v1_def)

end
