(* ===== verification/Request_Pipeline.thy ===== *)
theory Request_Pipeline
  imports Http_Context Middleware Route_Registry
begin

text \<open>
  A request from end to end: \<open>server/request-handler.ts\<close>, the error boundary
  (\<open>middleware/error-boundary/create.ts\<close>), request and response validation
  (\<open>router/validation/schema.ts\<close>), the execution of a route (\<open>router/handlers/executor.ts\<close>) and the
  answer of the router (\<open>handleRequest\<close> in \<open>router/router.ts\<close>).

  User code is arbitrary: global and route middleware are arbitrary \<open>middleware\<close> values, a route
  handler is an arbitrary function on contexts that returns a value or throws. Schemas are
  arbitrary parse functions. \<open>req_env\<close> collects what the code reads from its surroundings: the
  configured header name, the correlation id of the request, the time, and the next id of the
  generator. The CORS middleware is one of the global middleware values. HTTP/1 and HTTP/2 differ
  only in how the last-resort answer is written; it has one model.
\<close>

record req_env =
  en_headerName :: string
  en_stored :: string
  en_now :: string
  en_generated :: string

section \<open>Validation\<close>

definition field_path :: "string list \<Rightarrow> string" where
  "field_path p = (if p = [] then ''root'' else str_join ''.'' p)"

definition add_issue :: "(string, string list) js_map \<Rightarrow> string list \<times> string \<Rightarrow> (string, string list) js_map" where
  "add_issue m i = (let k = field_path (fst i); old = (case map_get m k of None \<Rightarrow> [] | Some ms \<Rightarrow> ms)
     in map_set k (old @ [snd i]) m)"

definition extractZodFieldErrors :: "(string list \<times> string) list \<Rightarrow> (string \<times> string list) list" where
  "extractZodFieldErrors issues = foldl add_issue [] issues"

definition other_field_errors :: "thrown \<Rightarrow> (string \<times> string list) list" where
  \<comment> \<open>\<open>extractZodFieldErrors\<close> on an error that is not a \<open>ZodError\<close>\<close>
  "other_field_errors e = [(''unknown'', [case e of BlaizeErr b \<Rightarrow> er_title b | ErrorObj m \<Rightarrow> m
     | NullThrown \<Rightarrow> ''undefined'' | OtherThrown s \<Rightarrow> s])]"

definition fields_json :: "(string \<times> string list) list \<Rightarrow> json" where
  "fields_json fs = JArr (map (\<lambda>(f, ms). JObj [(''field'', JStr f), (''messages'', JArr (map JStr ms))]) fs)"

definition section_error :: "req_env \<Rightarrow> string \<Rightarrow> (string list \<times> string) list \<Rightarrow> thrown" where
  "section_error env part issues =
     (let fieldErrors = extractZodFieldErrors issues
      in BlaizeErr (ValidationError (getCorrelationId (Some (en_stored env))) (en_now env) ''Request validation failed''
           (Some (JObj [(''fields'', fields_json fieldErrors),
                        (''errorCount'', JNum (sum_list (map (\<lambda>(f, ms). int (length ms)) fieldErrors))),
                        (''section'', JStr part)]))))"

record route_schema =
  sc_params :: "schema option"
  sc_query :: "schema option"
  sc_body :: "schema option"
  sc_files :: "schema option"
  sc_response :: "schema option"

definition validate_with ::
  "req_env \<Rightarrow> string \<Rightarrow> schema option \<Rightarrow> (http_context \<Rightarrow> json option) \<Rightarrow> (json \<Rightarrow> http_context \<Rightarrow> http_context) \<Rightarrow> ctx_op" where
  "validate_with env part s get put c =
     (case s of
        None \<Rightarrow> (None, c)
      | Some sch \<Rightarrow> (case sch (get c) of
                        Inr v \<Rightarrow> (None, put v c)
                      | Inl issues \<Rightarrow> (Some (section_error env part issues), c)))"

definition validate_present ::
  "req_env \<Rightarrow> string \<Rightarrow> schema option \<Rightarrow> (http_context \<Rightarrow> json option) \<Rightarrow> (json \<Rightarrow> http_context \<Rightarrow> http_context) \<Rightarrow> ctx_op" where
  \<comment> \<open>the \<open>params\<close> and \<open>query\<close> sections are validated only when they are there\<close>
  "validate_present env part s get put c = (if get c = None then (None, c) else validate_with env part s get put c)"

definition validate_request :: "req_env \<Rightarrow> route_schema \<Rightarrow> ctx_op" where
  "validate_request env s =
     then_do (validate_present env ''params'' (sc_params s) cx_params (\<lambda>v. cx_params_update (\<lambda>_. Some v)))
    (then_do (validate_present env ''query'' (sc_query s) cx_query (\<lambda>v. cx_query_update (\<lambda>_. Some v)))
    (then_do (validate_with env ''body'' (sc_body s) cx_body (\<lambda>v. cx_body_update (\<lambda>_. Some v)))
             (validate_with env ''files'' (sc_files s) cx_files (\<lambda>v. cx_files_update (\<lambda>_. Some v)))))"

definition rethrow :: "'s prog \<Rightarrow> thrown option \<Rightarrow> 's prog" where
  \<comment> \<open>the continuation of an \<open>await\<close> outside any \<open>try\<close>\<close>
  "rethrow p r = (case r of None \<Rightarrow> p | Some e \<Rightarrow> Raise e)"

definition createRequestValidator :: "req_env \<Rightarrow> route_schema \<Rightarrow> http_context middleware" where
  "createRequestValidator env s =
     create (MiddlewareOptions (Some ''RequestValidator'')
       (Act (validate_request env s) (rethrow (AwaitNext (rethrow Done)))) None (Some False))"

definition isErrorResponse :: "json \<Rightarrow> bool" where
  "isErrorResponse b = (case b of
     JObj kvs \<Rightarrow> map_has kvs ''type'' \<and> map_has kvs ''status'' \<and> map_has kvs ''correlationId'' \<and> map_has kvs ''timestamp''
   | _ \<Rightarrow> False)"

definition response_invalid :: "req_env \<Rightarrow> (string \<times> string list) list \<Rightarrow> thrown" where
  "response_invalid env fs =
     BlaizeErr (InternalServerError (getCorrelationId (Some (en_stored env))) (en_now env) ''Response validation failed''
       (Some (JObj [(''validationError'', fields_json fs),
          (''hint'', JStr ''The handler returned data that does not match the response schema'')])))"

fun json_chain ::
  "req_env \<Rightarrow> (bool \<times> schema) list \<Rightarrow> json \<Rightarrow> int option \<Rightarrow> http_context \<Rightarrow> thrown option \<times> (bool \<times> schema) list \<times> http_context" where
  \<comment> \<open>\<open>response.json\<close> through the validators wrapped around it\<close>
  "json_chain env [] body status c = (let (r, c') = json_responder (en_headerName env) body status c in (r, [], c'))"
| "json_chain env ((validatorActive, sch) # vs) body status c =
     (if \<not> validatorActive \<or> isErrorResponse body
      then (let (r, vs', c') = json_chain env vs body status c in (r, (validatorActive, sch) # vs', c'))
      else (case sch (Some body) of
              Inl issues \<Rightarrow> (Some (response_invalid env (extractZodFieldErrors issues)), (False, sch) # vs, c)
            | Inr v \<Rightarrow>
                (let (r, vs', c') = json_chain env vs v status c
                 in case r of
                      None \<Rightarrow> (None, (True, sch) # vs', c')
                    | Some e \<Rightarrow> (Some (response_invalid env (other_field_errors e)), (False, sch) # vs', c'))))"

definition response_json :: "req_env \<Rightarrow> json \<Rightarrow> int option \<Rightarrow> ctx_op" where
  "response_json env body status c =
     (let (r, vs, c') = json_chain env (rs_json c) body status c in (r, c'\<lparr>rs_json := vs\<rparr>))"

definition createResponseValidator :: "schema \<Rightarrow> http_context middleware" where
  "createResponseValidator sch =
     create (MiddlewareOptions (Some ''ResponseValidator'')
       (Act (\<lambda>c. (None, c\<lparr>rs_json := (True, sch) # rs_json c\<rparr>))
         (\<lambda>_. AwaitNext (\<lambda>r. Act (\<lambda>c. (None, c\<lparr>rs_json := tl (rs_json c)\<rparr>)) (\<lambda>_. rethrow Done r)))) None None)"

section \<open>Route execution\<close>

record route_options =
  ro_handler :: "json option \<Rightarrow> http_context \<Rightarrow> (thrown + json option) \<times> http_context"
  ro_middleware :: "http_context middleware list"
  ro_schema :: "route_schema option"

definition handler_step :: "req_env \<Rightarrow> route_options \<Rightarrow> json option \<Rightarrow> ctx_op" where
  "handler_step env opts params c =
     (let (res, c') = ro_handler opts params c
      in case res of
           Inl e \<Rightarrow> (Some e, c')
         | Inr result \<Rightarrow>
             (case result of
                Some v \<Rightarrow> if \<not> rs_sent c' then response_json env v None c' else (None, c')
              | None \<Rightarrow> (None, c')))"

definition route_chain :: "req_env \<Rightarrow> route_options \<Rightarrow> http_context middleware list" where
  "route_chain env opts =
     (case ro_schema opts of
        None \<Rightarrow> ro_middleware opts
      | Some s \<Rightarrow>
          (let mws = (if sc_params s \<noteq> None \<or> sc_query s \<noteq> None \<or> sc_body s \<noteq> None
                      then createRequestValidator env s # ro_middleware opts else ro_middleware opts)
           in case sc_response s of Some r \<Rightarrow> mws @ [createResponseValidator r] | None \<Rightarrow> mws))"

definition executeHandler :: "req_env \<Rightarrow> route_options \<Rightarrow> json option \<Rightarrow> ctx_op" where
  "executeHandler env opts params = compose (map Some (route_chain env opts)) (handler_step env opts params)"

definition params_json :: "(string, string) js_map \<Rightarrow> json" where
  "params_json ps = JObj (map (\<lambda>(k, v). (k, JStr v)) ps)"

definition method_not_allowed :: "req_env \<Rightarrow> string list \<Rightarrow> ctx_op" where
  \<comment> \<open>the error text in the code starts with a cross mark\<close>
  "method_not_allowed env allowed =
     then_do (response_status 405)
    (then_do (response_json env (JObj [(''error'', JStr ''Method Not Allowed''), (''allowed'', JArr (map JStr allowed))]) None)
             (if allowed \<noteq> [] then response_header ''Allow'' (str_join '', '' allowed) else (\<lambda>c. (None, c))))"

definition router_handleRequest :: "req_env \<Rightarrow> route_options router \<Rightarrow> ctx_op" where
  "router_handleRequest env R c =
     (case handleRequest (cx_method c) (cx_path c) R of
        NotFoundOutcome \<Rightarrow>
          (Some (BlaizeErr (NotFoundError (getCorrelationId (Some (en_stored env))) (en_now env) ''Not found'' None)), c)
      | MethodNotAllowedOutcome allowed \<Rightarrow> method_not_allowed env allowed c
      | ExecuteOutcome opts params \<Rightarrow>
          executeHandler env opts (Some (params_json params)) (c\<lparr>cx_params := Some (params_json params)\<rparr>))"

section \<open>The request handler\<close>

definition boundary_respond :: "req_env \<Rightarrow> thrown \<Rightarrow> ctx_op" where
  "boundary_respond env error c =
     (let correlationId = extractOrGenerateCorrelationId (en_headerName env) (en_generated env) (request_header c);
          errorResponse = (formatErrorResponse (Some (en_stored env)) (en_now env) error)\<lparr>er_correlationId := correlationId\<rparr>
      in then_do (response_header (en_headerName env) correlationId)
        (then_do (response_status (er_status errorResponse))
                 (response_json env (error_json errorResponse) None)) c)"

definition createErrorBoundary :: "req_env \<Rightarrow> http_context middleware" where
  "createErrorBoundary env =
     create (MiddlewareOptions (Some ''ErrorBoundary'')
       (AwaitNext (\<lambda>r. case r of
          None \<Rightarrow> Done
        | Some error \<Rightarrow> Branch rs_sent Done (Act (boundary_respond env error) (rethrow Done)))) None (Some False))"

definition nextFn :: "req_env \<Rightarrow> route_options router \<Rightarrow> ctx_op" where
  "nextFn env R c =
     (if rs_sent c then (None, c)
      else then_do (router_handleRequest env R)
             (\<lambda>c. if \<not> rs_headersSent c \<and> \<not> rs_sent c
                  then (Some (BlaizeErr (NotFoundError (getCorrelationId (Some (en_stored env))) (en_now env)
                          (''Route not found: '' @ cx_method c @ '' '' @ cx_path c) None)), c)
                  else (None, c)) c)"

definition unhandled :: "req_env \<Rightarrow> string \<Rightarrow> http_context \<Rightarrow> http_context" where
  \<comment> \<open>the \<open>catch\<close> of the request handler\<close>
  "unhandled env correlationId c =
     (if rs_headersSent c then c
      else c\<lparr>rs_headers := map_set ''content-type'' ''application/json''
               (map_set (toLowerCase (en_headerName env)) correlationId (rs_headers c)),
             rs_statusCode := 500, rs_headersSent := True,
             rs_body := Some (JsonBody (JObj [(''error'', JStr ''Internal Server Error''),
               (''message'', JStr ''An unexpected error occurred while processing the request''),
               (''correlationId'', JStr correlationId)]))\<rparr>)"

definition request_chain :: "req_env \<Rightarrow> http_context middleware option \<Rightarrow> http_context middleware list \<Rightarrow> http_context middleware option list" where
  "request_chain env cors middleware =
     [Some (createErrorBoundary env)] @ (case cors of Some m \<Rightarrow> [Some m] | None \<Rightarrow> []) @ map Some middleware"

record raw_request =
  rr_method :: string
  rr_url :: "(string \<times> (string \<times> string) list) option"   \<comment> \<open>\<open>new URL\<close>: path and search entries, or it throws\<close>
  rr_headers :: "(string, header_value) js_map"

record server_env =
  sv_headerName :: string
  sv_now :: string
  sv_generated1 :: string   \<comment> \<open>the id generator's result at the start of the request\<close>
  sv_generated2 :: string   \<comment> \<open>and in the error boundary\<close>

definition new_context :: "raw_request \<Rightarrow> string \<Rightarrow> (string \<times> (string \<times> string) list) \<Rightarrow> http_context" where
  \<comment> \<open>\<open>createContext\<close> before body parsing\<close>
  "new_context rq correlationId url =
     \<lparr>cx_method = (if rr_method rq = [] then ''GET'' else rr_method rq), cx_path = fst url,
      cx_reqHeaders = rr_headers rq, cx_params = Some (JObj []),
      cx_query = Some (parseUrlEncodedData (snd url)), cx_body = None, cx_files = None,
      cx_correlationId = Some correlationId, rs_statusCode = 200, rs_headers = [], rs_headersSent = False,
      rs_body = None, rs_sent = False, rs_streaming = False, rs_json = []\<rparr>"

definition request_id :: "server_env \<Rightarrow> raw_request \<Rightarrow> string" where
  "request_id sv rq = createCorrelationIdFromHeaders (sv_headerName sv) (sv_generated1 sv) (rr_headers rq)"

definition env_of :: "server_env \<Rightarrow> raw_request \<Rightarrow> req_env" where
  "env_of sv rq = \<lparr>en_headerName = sv_headerName sv, en_stored = request_id sv rq, en_now = sv_now sv,
     en_generated = sv_generated2 sv\<rparr>"

definition bare_response :: http_context where
  \<comment> \<open>the runtime's response object when no context was created\<close>
  "bare_response = new_context \<lparr>rr_method = [], rr_url = None, rr_headers = []\<rparr> [] ([], [])"

definition createContext ::
  "body_env \<Rightarrow> body_limits \<Rightarrow> server_env \<Rightarrow> raw_request \<Rightarrow> thrown + http_context" where
  "createContext benv limits sv rq =
     (case rr_url rq of
        None \<Rightarrow> Inl (ErrorObj ''Invalid URL'')
      | Some url \<Rightarrow>
          (let (r, c) = parseBodyIfNeeded benv limits (getCorrelationId (Some (request_id sv rq))) (sv_now sv)
                          (new_context rq (request_id sv rq) url)
           in case r of Some e \<Rightarrow> Inl e | None \<Rightarrow> Inr c))"

definition createRequestHandler ::
  "body_env \<Rightarrow> body_limits \<Rightarrow> http_context middleware option \<Rightarrow> http_context middleware list
     \<Rightarrow> route_options router \<Rightarrow> server_env \<Rightarrow> raw_request \<Rightarrow> http_context" where
  "createRequestHandler benv limits cors middleware R sv rq =
     (let env = env_of sv rq
      in case createContext benv limits sv rq of
           Inl e \<Rightarrow> unhandled env (request_id sv rq) bare_response
         | Inr c \<Rightarrow>
             (let (r, c') = compose (request_chain env cors middleware) (nextFn env R) c
              in case r of Some e \<Rightarrow> unhandled env (request_id sv rq) c' | None \<Rightarrow> c'))"

section \<open>What the error boundary guarantees\<close>

lemma isErrorResponse_error [simp]: "isErrorResponse (error_json e)"
  by (simp add: isErrorResponse_def error_json_def map_has_def)

lemma json_chain_error:
  "isErrorResponse body \<Longrightarrow> json_chain env vs body status c =
     (fst (json_responder (en_headerName env) body status c), vs, snd (json_responder (en_headerName env) body status c))"
  by (induction env vs body status c rule: json_chain.induct) (auto simp: split_beta)

lemma response_json_error:
  "isErrorResponse body \<Longrightarrow> response_json env body status c =
     (fst (json_responder (en_headerName env) body status c),
      (snd (json_responder (en_headerName env) body status c))\<lparr>rs_json := rs_json c\<rparr>)"
  by (simp add: response_json_def json_chain_error)

definition error_answer :: "req_env \<Rightarrow> thrown \<Rightarrow> http_context \<Rightarrow> blaize_error" where
  \<comment> \<open>the error object the boundary sends\<close>
  "error_answer env e c = (formatErrorResponse (Some (en_stored env)) (en_now env) e)
     \<lparr>er_correlationId := extractOrGenerateCorrelationId (en_headerName env) (en_generated env) (request_header c)\<rparr>"

lemma boundary_respond_ok:
  assumes "\<not> rs_sent c" "\<not> rs_headersSent c"
  shows "fst (boundary_respond env e c) = None"
    "rs_sent (snd (boundary_respond env e c))" "rs_headersSent (snd (boundary_respond env e c))"
    "rs_statusCode (snd (boundary_respond env e c)) = error_status e"
    "rs_body (snd (boundary_respond env e c)) = Some (JsonBody (error_json (error_answer env e c)))"
    "rs_headers (snd (boundary_respond env e c)) =
       map_set ''content-type'' ''application/json''
         (case cx_correlationId c of
            Some (x # xs) \<Rightarrow> map_set (toLowerCase (en_headerName env)) (x # xs)
              (map_set (toLowerCase (en_headerName env)) (er_correlationId (error_answer env e c)) (rs_headers c))
          | _ \<Rightarrow> map_set (toLowerCase (en_headerName env)) (er_correlationId (error_answer env e c)) (rs_headers c))"
proof -
  define a where "a = error_answer env e c"
  define d where "d = c\<lparr>rs_headers := map_set (toLowerCase (en_headerName env)) (er_correlationId a) (rs_headers c),
    rs_statusCode := error_status e\<rparr>"
  have a: "er_status a = error_status e" by (simp add: a_def error_answer_def)
  have d: "\<not> rs_sent d" "\<not> rs_headersSent d" using assms by (simp_all add: d_def)
  have "boundary_respond env e c = response_json env (error_json a) None d"
    using assms a by (simp add: boundary_respond_def Let_def then_do_def response_header_def response_status_def
        guard_sent_def res_setHeader_def set_status_def d_def a_def error_answer_def)
  also have "\<dots> = (fst (json_responder (en_headerName env) (error_json a) None d),
      (snd (json_responder (en_headerName env) (error_json a) None d))\<lparr>rs_json := rs_json d\<rparr>)"
    by (simp add: response_json_error)
  finally have b: "boundary_respond env e c = \<dots>" .
  note ok = send_body_ok [OF d]
  show "fst (boundary_respond env e c) = None"
    "rs_sent (snd (boundary_respond env e c))" "rs_headersSent (snd (boundary_respond env e c))"
    "rs_statusCode (snd (boundary_respond env e c)) = error_status e"
    "rs_body (snd (boundary_respond env e c)) = Some (JsonBody (error_json (error_answer env e c)))"
    unfolding b by (simp_all add: json_responder_def ok a_def) (simp add: d_def)
  show "rs_headers (snd (boundary_respond env e c)) =
       map_set ''content-type'' ''application/json''
         (case cx_correlationId c of
            Some (x # xs) \<Rightarrow> map_set (toLowerCase (en_headerName env)) (x # xs)
              (map_set (toLowerCase (en_headerName env)) (er_correlationId (error_answer env e c)) (rs_headers c))
          | _ \<Rightarrow> map_set (toLowerCase (en_headerName env)) (er_correlationId (error_answer env e c)) (rs_headers c))"
    unfolding b by (simp add: json_responder_def ok) (auto simp: d_def a_def split: option.split list.split)
qed

definition boundary_spec :: "req_env \<Rightarrow> thrown option \<times> http_context \<Rightarrow> http_context" where
  \<comment> \<open>the answer, from how the chain behind the boundary settled\<close>
  "boundary_spec env rc =
     (case fst rc of
        None \<Rightarrow> snd rc
      | Some e \<Rightarrow> if rs_sent (snd rc) \<or> rs_headersSent (snd rc) then snd rc else snd (boundary_respond env e (snd rc)))"

lemma boundary_layer:
  "run_layer (mw_execute (createErrorBoundary env)) rest False c =
     (case fst (rest c) of
        None \<Rightarrow> (None, snd (rest c))
      | Some e \<Rightarrow> if rs_sent (snd (rest c)) then (None, snd (rest c)) else boundary_respond env e (snd (rest c)))"
  by (auto simp: createErrorBoundary_def rethrow_def prod_eq_iff split: option.split)

lemma boundary_respond_headersSent:
  assumes "\<not> rs_sent c" "rs_headersSent c"
  shows "\<exists>x. boundary_respond env e c = (Some x, c)"
  using assms by (simp add: boundary_respond_def Let_def then_do_def response_header_def guard_sent_def res_setHeader_def)

lemma handler_after_context:
  assumes "createContext benv limits sv rq = Inr c"
  shows "createRequestHandler benv limits cors middleware R sv rq =
    boundary_spec (env_of sv rq)
      (onion (tl (request_chain (env_of sv rq) cors middleware)) (nextFn (env_of sv rq) R) c)"
proof -
  define env where "env = env_of sv rq"
  obtain r d where rest: "onion (tl (request_chain env cors middleware)) (nextFn env R) c = (r, d)" by fastforce
  have "compose (request_chain env cors middleware) (nextFn env R) c =
      run_layer (mw_execute (createErrorBoundary env)) (onion (tl (request_chain env cors middleware)) (nextFn env R)) False c"
    by (simp add: compose_onion request_chain_def) (simp add: createErrorBoundary_def)
  also have "\<dots> = (case r of None \<Rightarrow> (None, d) | Some e \<Rightarrow> if rs_sent d then (None, d) else boundary_respond env e d)"
    by (simp add: boundary_layer rest split: option.split)
  finally have chain: "compose (request_chain env cors middleware) (nextFn env R) c = \<dots>" .
  have h: "createRequestHandler benv limits cors middleware R sv rq =
      (let (r, c') = compose (request_chain env cors middleware) (nextFn env R) c
       in case r of Some e \<Rightarrow> unhandled env (request_id sv rq) c' | None \<Rightarrow> c')"
    unfolding createRequestHandler_def env_def by (simp add: assms Let_def)
  have "createRequestHandler benv limits cors middleware R sv rq = boundary_spec env (r, d)"
  proof (cases r)
    case None
    then show ?thesis by (simp add: h chain boundary_spec_def)
  next
    case (Some e)
    consider "rs_sent d" | "\<not> rs_sent d" "rs_headersSent d" | "\<not> rs_sent d" "\<not> rs_headersSent d" by blast
    then show ?thesis
    proof cases
      case 2
      obtain x where "boundary_respond env e d = (Some x, d)" using boundary_respond_headersSent [OF 2] by blast
      then show ?thesis using Some 2 by (simp add: h chain boundary_spec_def unhandled_def)
    next
      case 3
      then show ?thesis
        using Some boundary_respond_ok(1) [OF 3, of env e] by (simp add: h chain boundary_spec_def split_beta)
    qed (use Some in \<open>simp add: h chain boundary_spec_def\<close>)
  qed
  then show ?thesis by (simp add: rest env_def [symmetric])
qed

text \<open>C2: every error becomes an answer. For every chain of global middleware, every router and
  every request whose context could be created, with \<open>(r, d)\<close> the way the chain behind the error
  boundary settles: if it settles without error, or after the response was sent or started, the
  response stays as it is; otherwise a JSON response is sent whose status is the status of the
  error (500 for errors that are no \<open>BlaizeError\<close>) and whose body is the formatted error. Nothing
  is thrown past the request handler.\<close>

theorem every_error_is_answered:
  assumes "createContext benv limits sv rq = Inr c"
    and "onion (tl (request_chain (env_of sv rq) cors middleware)) (nextFn (env_of sv rq) R) c = (r, d)"
  shows "case r of
      None \<Rightarrow> createRequestHandler benv limits cors middleware R sv rq = d
    | Some e \<Rightarrow>
        if rs_sent d \<or> rs_headersSent d then createRequestHandler benv limits cors middleware R sv rq = d
        else rs_sent (createRequestHandler benv limits cors middleware R sv rq) \<and>
             rs_statusCode (createRequestHandler benv limits cors middleware R sv rq) = error_status e \<and>
             rs_body (createRequestHandler benv limits cors middleware R sv rq) =
               Some (JsonBody (error_json (error_answer (env_of sv rq) e d)))"
  using handler_after_context [OF assms(1), of cors middleware R] assms(2)
    boundary_respond_ok(2,4,5) [of d "env_of sv rq"]
  by (auto simp: boundary_spec_def split: option.split)

lemma parseBody_fields:
  "rs_json (snd (parseBodyIfNeeded env limits cid now c)) = rs_json c"
  "cx_correlationId (snd (parseBodyIfNeeded env limits cid now c)) = cx_correlationId c"
  "cx_reqHeaders (snd (parseBodyIfNeeded env limits cid now c)) = cx_reqHeaders c"
  "cx_method (snd (parseBodyIfNeeded env limits cid now c)) = cx_method c"
  "cx_path (snd (parseBodyIfNeeded env limits cid now c)) = cx_path c"
  using parseBody_body_only [of c env limits cid now] by (auto simp: body_only_def)

lemma createContext_fields:
  assumes "createContext benv limits sv rq = Inr c"
  shows "rs_json c = []" "cx_correlationId c = Some (request_id sv rq)" "cx_reqHeaders c = rr_headers rq"
    "\<not> rs_sent c" "\<not> rs_headersSent c" "rs_headers c = []" "rs_statusCode c = 200" "rs_body c = None"
proof -
  obtain url where u: "rr_url rq = Some url" using assms by (cases "rr_url rq") (auto simp: createContext_def)
  define p where "p = parseBodyIfNeeded benv limits (getCorrelationId (Some (request_id sv rq))) (sv_now sv)
    (new_context rq (request_id sv rq) url)"
  have c: "c = snd p" using assms u by (auto simp: createContext_def p_def split_beta split: option.splits)
  have "response_unchanged (new_context rq (request_id sv rq) url) c"
    unfolding c p_def by (rule parseBody_response)
  then show "\<not> rs_sent c" "\<not> rs_headersSent c" "rs_headers c = []" "rs_statusCode c = 200" "rs_body c = None"
    by (simp_all add: response_unchanged_def new_context_def)
  show "rs_json c = []" "cx_correlationId c = Some (request_id sv rq)" "cx_reqHeaders c = rr_headers rq"
    unfolding c p_def parseBody_fields by (simp_all add: new_context_def)
qed

definition demo_request :: raw_request where
  "demo_request = \<lparr>rr_method = ''GET'', rr_url = Some (''/missing'', []), rr_headers = []\<rparr>"

definition demo_env :: server_env where
  "demo_env = \<lparr>sv_headerName = ''x-correlation-id'', sv_now = ''2024'', sv_generated1 = ''req_1'', sv_generated2 = ''req_2''\<rparr>"

definition demo_body :: body_env where
  "demo_body = \<lparr>be_raw = [], be_parseJson = (\<lambda>_. Inr JNull), be_entries = (\<lambda>_. []), be_multipart = Inr (JObj [], JObj [])\<rparr>"

definition demo_limits :: body_limits where
  "demo_limits = \<lparr>bl_json = 10, bl_form = 20, bl_text = 30, bl_raw = 40\<rparr>"

definition empty_router :: "route_options router" where
  "empty_router = \<lparr>rt_registry = createRouteRegistry, rt_matcher = [], rt_directories = [], rt_initialized = True\<rparr>"

lemma demo_context:
  "createContext demo_body demo_limits demo_env demo_request =
     Inr (new_context demo_request ''req_1'' (''/missing'', []))"
  by (simp add: createContext_def demo_request_def demo_env_def request_id_def createCorrelationIdFromHeaders_def
      parseBodyIfNeeded_def shouldSkipParsing_def new_context_def Let_def)

lemma demo_chain:
  "onion (tl (request_chain (env_of demo_env demo_request) None [])) (nextFn (env_of demo_env demo_request) empty_router)
     (new_context demo_request ''req_1'' (''/missing'', [])) =
   (Some (BlaizeErr (NotFoundError ''req_1'' ''2024'' ''Not found'' None)), new_context demo_request ''req_1'' (''/missing'', []))"
proof -
  have "handleRequest m p empty_router = NotFoundOutcome" for m p
    by (simp add: handleRequest_def empty_router_def matcher_match_def Let_def)
  moreover have "en_stored (env_of demo_env demo_request) = ''req_1''" "en_now (env_of demo_env demo_request) = ''2024''"
    "getCorrelationId (Some ''req_1'') = ''req_1''" by code_simp+
  ultimately show ?thesis
    by (simp add: request_chain_def nextFn_def router_handleRequest_def then_do_def) (simp add: new_context_def)
qed

theorem every_error_is_answered_witness:
  "rs_statusCode (createRequestHandler demo_body demo_limits None [] empty_router demo_env demo_request) = 404"
  using every_error_is_answered [OF demo_context demo_chain]
  by (simp add: new_context_def error_status_def NotFoundError_def BlaizeError_def)

section \<open>Errors before the boundary\<close>

text \<open>An error while the context is created never reaches the error boundary. A body over its
  limit (413), malformed JSON (400) or an unreadable multipart body (415) is answered with status
  500 and a generic body, whatever the error says.\<close>

theorem body_errors_answered_with_500:
  assumes "createContext benv limits sv rq = Inl e"
  shows "rs_statusCode (createRequestHandler benv limits cors middleware R sv rq) = 500 \<and>
    rs_body (createRequestHandler benv limits cors middleware R sv rq) =
      Some (JsonBody (JObj [(''error'', JStr ''Internal Server Error''),
        (''message'', JStr ''An unexpected error occurred while processing the request''),
        (''correlationId'', JStr (request_id sv rq))]))"
  using assms by (simp add: createRequestHandler_def unhandled_def bare_response_def new_context_def Let_def)

definition big_request :: raw_request where
  "big_request = \<lparr>rr_method = ''POST'', rr_url = Some (''/upload'', []),
     rr_headers = [(''content-type'', HOne ''application/json''), (''content-length'', HOne ''12'')]\<rparr>"

theorem body_errors_answered_with_500_witness:
  "(\<exists>e. createContext demo_body demo_limits demo_env big_request = Inl e \<and> error_status e = 413) \<and>
   rs_statusCode (createRequestHandler demo_body demo_limits None [] empty_router demo_env big_request) = 500"
proof -
  have n: "parseInt10 ''12'' = Some 12" by code_simp
  have i: "str_includes ''application/json'' ''application/json''" by code_simp
  obtain e where e: "createContext demo_body demo_limits demo_env big_request = Inl e \<and> error_status e = 413"
    by (simp add: createContext_def big_request_def parseBodyIfNeeded_def shouldSkipParsing_def new_context_def
        header_text_def n i exceeds_def demo_limits_def too_large_def error_status_def PayloadTooLargeError_def
        BlaizeError_def Let_def)
  then show ?thesis using body_errors_answered_with_500 [of demo_body demo_limits demo_env big_request e] by blast
qed

section \<open>Correlation ids in error responses\<close>

lemma toLower_idem [simp]: "toLowerCase (toLowerCase s) = toLowerCase s"
proof -
  have "lower_char (lower_char c) = lower_char c" for c by (auto simp: lower_char_def Let_def)
  then show ?thesis by (simp add: toLowerCase_def)
qed

text \<open>When the client sent no correlation id, an error response carries two different ones.
  The boundary generates a new id for the body instead of using the id of the request, and sets
  it as header; \<open>json\<close> then overwrites the header with the id of the request.\<close>

theorem error_response_ids_disagree:
  assumes "createContext benv limits sv rq = Inr c"
    and "onion (tl (request_chain (env_of sv rq) cors middleware)) (nextFn (env_of sv rq) R) c = (Some e, d)"
    and "\<not> rs_sent d" "\<not> rs_headersSent d" "cx_reqHeaders d = rr_headers rq"
    and "cx_correlationId d = Some (request_id sv rq)" "sv_generated1 sv \<noteq> []"
    and "map_get (rr_headers rq) (sv_headerName sv) = None" "map_get (rr_headers rq) (toLowerCase (sv_headerName sv)) = None"
    and "toLowerCase (sv_headerName sv) \<noteq> ''content-type''"
  shows "map_get (rs_headers (createRequestHandler benv limits cors middleware R sv rq)) (toLowerCase (sv_headerName sv)) =
      Some (sv_generated1 sv) \<and>
    rs_body (createRequestHandler benv limits cors middleware R sv rq) =
      Some (JsonBody (error_json ((formatErrorResponse (Some (sv_generated1 sv)) (sv_now sv) e)
        \<lparr>er_correlationId := sv_generated2 sv\<rparr>)))"
proof -
  let ?env = "env_of sv rq"
  have id: "request_id sv rq = sv_generated1 sv"
    using assms(8) by (simp add: request_id_def createCorrelationIdFromHeaders_def)
  have h: "createRequestHandler benv limits cors middleware R sv rq = snd (boundary_respond ?env e d)"
    using handler_after_context [OF assms(1), of cors middleware R] assms(2-4) by (simp add: boundary_spec_def)
  have a: "error_answer ?env e d = (formatErrorResponse (Some (sv_generated1 sv)) (sv_now sv) e)\<lparr>er_correlationId := sv_generated2 sv\<rparr>"
    using assms(5,9)
    by (simp add: error_answer_def extractOrGenerateCorrelationId_def request_header_def createCorrelationIdFromHeaders_def
        env_of_def id)
  obtain x xs where x: "sv_generated1 sv = x # xs" using assms(7) by (cases "sv_generated1 sv") auto
  have "en_headerName ?env = sv_headerName sv" by (simp add: env_of_def)
  then show ?thesis
    using assms(6,10) by (simp add: h boundary_respond_ok(5,6) [OF assms(3,4)] a id x)
qed

theorem error_response_ids_disagree_witness:
  "map_get (rs_headers (createRequestHandler demo_body demo_limits None [] empty_router demo_env demo_request))
     ''x-correlation-id'' = Some ''req_1'' \<and>
   rs_body (createRequestHandler demo_body demo_limits None [] empty_router demo_env demo_request) =
     Some (JsonBody (error_json (NotFoundError ''req_2'' ''2024'' ''Not found'' None)))"
proof -
  have l: "toLowerCase (sv_headerName demo_env) = ''x-correlation-id''" "sv_headerName demo_env = ''x-correlation-id''"
    by code_simp+
  have r: "request_id demo_env demo_request = ''req_1''" by code_simp
  show ?thesis
    using error_response_ids_disagree [OF demo_context demo_chain] r l
    by (simp add: new_context_def formatErrorResponse_def NotFoundError_def BlaizeError_def)
       (simp add: demo_env_def demo_request_def)
qed

section \<open>Method not allowed\<close>

lemma send_405:
  assumes "\<not> rs_sent c" "\<not> rs_headersSent c" "rs_json c = []" "allowed \<noteq> []"
  shows "method_not_allowed env allowed c =
    (Some ResponseSentHeaderError,
     (snd (json_responder (en_headerName env)
        (JObj [(''error'', JStr ''Method Not Allowed''), (''allowed'', JArr (map JStr allowed))]) None
        (c\<lparr>rs_statusCode := 405\<rparr>)))\<lparr>rs_json := []\<rparr>)"
proof -
  let ?b = "JObj [(''error'', JStr ''Method Not Allowed''), (''allowed'', JArr (map JStr allowed))]"
  let ?j = "json_responder (en_headerName env) ?b None (c\<lparr>rs_statusCode := 405\<rparr>)"
  have ok: "fst ?j = None" "rs_sent (snd ?j)" using assms(1,2) by (simp_all add: json_responder_def send_body_ok)
  have "response_json env ?b None (c\<lparr>rs_statusCode := 405\<rparr>) = (None, (snd ?j)\<lparr>rs_json := []\<rparr>)"
    using assms(3) ok(1) by (simp add: response_json_def split_beta)
  then show ?thesis
    using assms(1,4) ok(2)
    by (simp add: method_not_allowed_def then_do_def response_status_def guard_sent_def set_status_def response_header_def)
qed

text \<open>A 405 answer never has the \<open>Allow\<close> header. The router sets the header after it has sent
  the response, which throws; the error boundary ignores the error because the response is out.\<close>

theorem method_not_allowed_lacks_allow_header:
  assumes "createContext benv limits sv rq = Inr c"
    and "handleRequest (cx_method c) (cx_path c) R = MethodNotAllowedOutcome allowed" "allowed \<noteq> []"
    and "toLowerCase (sv_headerName sv) \<noteq> ''allow''"
  shows "rs_statusCode (createRequestHandler benv limits None [] R sv rq) = 405 \<and>
    map_get (rs_headers (createRequestHandler benv limits None [] R sv rq)) ''allow'' = None"
proof -
  let ?env = "env_of sv rq"
  note c = createContext_fields [OF assms(1)]
  let ?d = "snd (json_responder (en_headerName ?env)
    (JObj [(''error'', JStr ''Method Not Allowed''), (''allowed'', JArr (map JStr allowed))]) None (c\<lparr>rs_statusCode := 405\<rparr>))"
  have ok: "\<not> rs_sent (c\<lparr>rs_statusCode := 405\<rparr>)" "\<not> rs_headersSent (c\<lparr>rs_statusCode := 405\<rparr>)" using c by simp_all
  have "nextFn ?env R c = (Some ResponseSentHeaderError, ?d\<lparr>rs_json := []\<rparr>)"
    using send_405 [OF c(4,5,1) assms(3)] c(4) assms(2)
    by (simp add: nextFn_def then_do_def router_handleRequest_def)
  moreover have "rs_sent ?d" by (simp add: json_responder_def send_body_ok(2) [OF ok])
  ultimately have h: "createRequestHandler benv limits None [] R sv rq = ?d\<lparr>rs_json := []\<rparr>"
    using handler_after_context [OF assms(1), of None "[]" R] by (simp add: request_chain_def boundary_spec_def)
  have "en_headerName ?env = sv_headerName sv" by (simp add: env_of_def)
  then show ?thesis
    using assms(4) c(6)
    by (simp add: h json_responder_def send_body_ok(5,6) [OF ok] split: option.split list.split)
qed

definition plain_route :: route_options where
  "plain_route = \<lparr>ro_handler = (\<lambda>p c. (Inr (Some (JStr ''ok'')), c)), ro_middleware = [], ro_schema = None\<rparr>"

definition users_router :: "route_options router" where
  "users_router = empty_router\<lparr>rt_matcher := [\<lparr>re_path = ''/users'', re_method = ''GET'',
     re_pattern = cp_pattern (compiled ''/users''), re_paramNames = [], re_options = plain_route\<rparr>]\<rparr>"

definition post_users :: raw_request where
  "post_users = \<lparr>rr_method = ''POST'', rr_url = Some (''/users'', []), rr_headers = []\<rparr>"

lemma post_users_context:
  "createContext demo_body demo_limits demo_env post_users = Inr (new_context post_users ''req_1'' (''/users'', []))"
proof -
  have n: "parseInt10 ''0'' = Some 0" by code_simp
  show ?thesis
    by (simp add: createContext_def post_users_def demo_env_def request_id_def createCorrelationIdFromHeaders_def
      parseBodyIfNeeded_def shouldSkipParsing_def header_text_def new_context_def n Let_def)
qed

theorem method_not_allowed_lacks_allow_header_witness:
  "rs_statusCode (createRequestHandler demo_body demo_limits None [] users_router demo_env post_users) = 405 \<and>
   map_get (rs_headers (createRequestHandler demo_body demo_limits None [] users_router demo_env post_users)) ''allow'' = None"
proof -
  let ?c = "new_context post_users ''req_1'' (''/users'', [])"
  have m: "rx_test (cp_pattern (compiled ''/users'')) ''/users''" by code_simp
  have c: "cx_method ?c = ''POST''" "cx_path ?c = ''/users''" by (simp_all add: new_context_def post_users_def)
  have "handleRequest (cx_method ?c) (cx_path ?c) users_router = MethodNotAllowedOutcome [''GET'']"
    unfolding c by (simp add: handleRequest_def matcher_match_def users_router_def m Let_def)
  moreover have "toLowerCase (sv_headerName demo_env) \<noteq> ''allow''" by code_simp
  ultimately show ?thesis using method_not_allowed_lacks_allow_header [OF post_users_context] by simp
qed

section \<open>Validation of routes\<close>





lemma section_error_status [simp]: "error_status (section_error env part issues) = 400"
  by (simp add: section_error_def error_status_def ValidationError_def BlaizeError_def Let_def)







end
