(* ===== verification/Server_Lifecycle.thy ===== *)
theory Server_Lifecycle
  imports Blaize_Prelude
begin

text \<open>
  Plugins and the life of a server: \<open>plugins/lifecycle.ts\<close>, \<open>server/start.ts\<close>, \<open>server/stop.ts\<close> and
  the \<open>listen\<close>, \<open>close\<close> and \<open>register\<close> methods of \<open>server/create.ts\<close>.

  Plugin hooks are user code: a hook is an arbitrary function on a user state \<open>'u\<close> that may throw
  (\<open>Some\<close> message). \<open>lf_trace\<close> records the hooks called; \<open>lf_listening\<close> says whether the socket
  accepts connections. What the environment decides (certificate files, the outcome of
  \<open>server.listen\<close> and \<open>server.close\<close>, timeouts) are the records \<open>start_env\<close> and \<open>stop_env\<close>. The
  two asynchronous functions run without interleaving except that \<open>stopServer\<close> is cut where it
  waits for the socket to close. The flag \<open>isShuttingDown\<close> of \<open>stop.ts\<close> is a module variable; here
  it is a field of the state of the one server considered. Hooks do not change the list of plugins.
\<close>

datatype phase = Register | Initialize | Terminate | OnServerStart | OnServerStop

type_synonym 'u hook = "'u \<Rightarrow> string option \<times> 'u"

record 'u plugin =
  pl_name :: string
  pl_register :: "'u hook"
  pl_initialize :: "'u hook option"
  pl_terminate :: "'u hook option"
  pl_onServerStart :: "'u hook option"
  pl_onServerStop :: "'u hook option"

fun hook_of :: "phase \<Rightarrow> 'u plugin \<Rightarrow> 'u hook option" where
  "hook_of Register p = Some (pl_register p)"
| "hook_of Initialize p = pl_initialize p"
| "hook_of Terminate p = pl_terminate p"
| "hook_of OnServerStart p = pl_onServerStart p"
| "hook_of OnServerStop p = pl_onServerStop p"

record 'u life =
  lf_user :: 'u
  lf_plugins :: "'u plugin list"
  lf_trace :: "(phase \<times> string) list"
  lf_errors :: "(phase \<times> string \<times> string) list"
  lf_server :: bool          \<comment> \<open>\<open>serverInstance.server\<close> is set\<close>
  lf_listening :: bool
  lf_signals :: bool         \<comment> \<open>signal handlers registered\<close>
  lf_shuttingDown :: bool
  lf_events :: "string list"
  lf_exited :: bool          \<comment> \<open>\<open>process.exit\<close> was called\<close>

section \<open>Plugin lifecycle manager\<close>

fun phase_name :: "phase \<Rightarrow> string" where
  "phase_name Register = ''register''"
| "phase_name Initialize = ''initialize''"
| "phase_name Terminate = ''terminate''"
| "phase_name OnServerStart = ''onServerStart''"
| "phase_name OnServerStop = ''onServerStop''"

definition handleError :: "bool \<Rightarrow> phase \<Rightarrow> string \<Rightarrow> string \<Rightarrow> 'u life \<Rightarrow> string option \<times> 'u life" where
  "handleError continueOnError ph name msg l =
     (if continueOnError then None else Some (''Plugin '' @ name @ '' failed during '' @ phase_name ph @ '': '' @ msg),
      l\<lparr>lf_errors := lf_errors l @ [(ph, name, msg)]\<rparr>)"

definition call_hook :: "phase \<Rightarrow> string \<Rightarrow> 'u hook \<Rightarrow> 'u life \<Rightarrow> string option \<times> 'u life" where
  "call_hook ph name h l =
     (let (r, u) = h (lf_user l) in (r, l\<lparr>lf_user := u, lf_trace := lf_trace l @ [(ph, name)]\<rparr>))"

fun run_phase :: "bool \<Rightarrow> phase \<Rightarrow> 'u plugin list \<Rightarrow> 'u life \<Rightarrow> string option \<times> 'u life" where
  \<comment> \<open>the loop of \<open>initializePlugins\<close>, \<open>terminatePlugins\<close>, \<open>onServerStart\<close> and \<open>onServerStop\<close>\<close>
  "run_phase cont ph [] l = (None, l)"
| "run_phase cont ph (p # ps) l =
     (case hook_of ph p of
        None \<Rightarrow> run_phase cont ph ps l
      | Some h \<Rightarrow>
          (let (r, l) = call_hook ph (pl_name p) h l
           in case r of
                None \<Rightarrow> run_phase cont ph ps l
              | Some msg \<Rightarrow>
                  (let (e, l) = handleError cont ph (pl_name p) msg l
                   in case e of None \<Rightarrow> run_phase cont ph ps l | Some x \<Rightarrow> (Some x, l))))"

fun register_loop :: "bool \<Rightarrow> 'u plugin list \<Rightarrow> 'u life \<Rightarrow> string option \<times> 'u life" where
  "register_loop cont [] l = (None, l)"
| "register_loop cont (p # ps) l =
     (let (r, l) = call_hook Register (pl_name p) (pl_register p) l
      in case r of
           None \<Rightarrow> register_loop cont ps l
         | Some msg \<Rightarrow>
             (let (e, l) = handleError cont Register (pl_name p) msg l
              in (Some (case e of None \<Rightarrow> msg | Some x \<Rightarrow> x), l)))"

definition registerPlugins :: "bool \<Rightarrow> 'u life \<Rightarrow> string option \<times> 'u life" where
  "registerPlugins cont l = register_loop cont (lf_plugins l) l"

definition initializePlugins :: "bool \<Rightarrow> 'u life \<Rightarrow> string option \<times> 'u life" where
  "initializePlugins cont l = run_phase cont Initialize (lf_plugins l) l"

definition terminatePlugins :: "bool \<Rightarrow> 'u life \<Rightarrow> string option \<times> 'u life" where
  "terminatePlugins cont l = run_phase cont Terminate (rev (lf_plugins l)) l"

definition plugins_onServerStart :: "bool \<Rightarrow> 'u life \<Rightarrow> string option \<times> 'u life" where
  "plugins_onServerStart cont l = run_phase cont OnServerStart (lf_plugins l) l"

definition plugins_onServerStop :: "bool \<Rightarrow> 'u life \<Rightarrow> string option \<times> 'u life" where
  "plugins_onServerStop cont l = run_phase cont OnServerStop (rev (lf_plugins l)) l"

section \<open>Starting\<close>

record start_env =
  se_http2 :: bool            \<comment> \<open>\<open>http2.enabled\<close>\<close>
  se_certFiles :: bool        \<comment> \<open>key and certificate file are both given\<close>
  se_devMode :: bool
  se_devCerts :: "string option"   \<comment> \<open>failure of \<open>generateDevCertificates\<close>\<close>
  se_readCerts :: "string option"  \<comment> \<open>failure of reading the files\<close>
  se_listen :: "string option"     \<comment> \<open>the \<open>error\<close> event of \<open>server.listen\<close>\<close>

definition prepareCertificates :: "start_env \<Rightarrow> string option" where
  "prepareCertificates env =
     (if \<not> se_http2 env then None
      else if \<not> se_certFiles env \<and> se_devMode env then se_devCerts env
      else if \<not> se_certFiles env then Some ''HTTP/2 requires SSL certificates''
      else None)"

definition createServerInstance :: "start_env \<Rightarrow> string option" where
  "createServerInstance env = (if \<not> se_http2 env then None else se_readCerts env)"

definition startServer :: "start_env \<Rightarrow> 'u life \<Rightarrow> string option \<times> 'u life" where
  "startServer env l =
     (if lf_server l then (None, l)
      else case prepareCertificates env of
             Some e \<Rightarrow> (Some e, l)
           | None \<Rightarrow>
               (case createServerInstance env of
                  Some e \<Rightarrow> (Some e, l)
                | None \<Rightarrow>
                    (case se_listen env of
                       Some e \<Rightarrow> (Some e, l\<lparr>lf_server := True\<rparr>)
                     | None \<Rightarrow> (None, l\<lparr>lf_server := True, lf_listening := True\<rparr>))))"

definition and_then ::
  "('u life \<Rightarrow> string option \<times> 'u life) \<Rightarrow> ('u life \<Rightarrow> string option \<times> 'u life) \<Rightarrow> 'u life \<Rightarrow> string option \<times> 'u life" where
  "and_then f g l = (case f l of (None, l') \<Rightarrow> g l' | (Some e, l') \<Rightarrow> (Some e, l'))"

definition setupServerLifecycle :: "'u life \<Rightarrow> string option \<times> 'u life" where
  "setupServerLifecycle l = (None, l\<lparr>lf_signals := True, lf_events := lf_events l @ [''started'']\<rparr>)"

definition listen :: "start_env \<Rightarrow> 'u life \<Rightarrow> string option \<times> 'u life" where
  \<comment> \<open>the server creates its plugin manager with \<open>continueOnError: true\<close>\<close>
  "listen env = and_then (registerPlugins True) (and_then (initializePlugins True)
     (and_then (startServer env) (and_then (plugins_onServerStart True) setupServerLifecycle)))"

definition server_register :: "'u plugin list \<Rightarrow> 'u life \<Rightarrow> 'u life" where
  \<comment> \<open>\<open>validatePlugin\<close> only checks the shape of the objects\<close>
  "server_register ps l = l\<lparr>lf_plugins := lf_plugins l @ ps\<rparr>"

section \<open>Stopping\<close>







definition new_server :: "'u \<Rightarrow> 'u plugin list \<Rightarrow> 'u life" where
  "new_server u ps = \<lparr>lf_user = u, lf_plugins = ps, lf_trace = [], lf_errors = [], lf_server = False,
     lf_listening = False, lf_signals = False, lf_shuttingDown = False, lf_events = [], lf_exited = False\<rparr>"

section \<open>Hooks in order\<close>

definition calls :: "phase \<Rightarrow> 'u plugin list \<Rightarrow> (phase \<times> string) list" where
  "calls ph ps = map (\<lambda>p. (ph, pl_name p)) (filter (\<lambda>p. hook_of ph p \<noteq> None) ps)"

lemma run_phase_tolerant:
  "fst (run_phase True ph ps l) = None \<and> lf_trace (snd (run_phase True ph ps l)) = lf_trace l @ calls ph ps \<and>
   lf_plugins (snd (run_phase True ph ps l)) = lf_plugins l \<and> lf_server (snd (run_phase True ph ps l)) = lf_server l \<and>
   lf_listening (snd (run_phase True ph ps l)) = lf_listening l \<and> lf_signals (snd (run_phase True ph ps l)) = lf_signals l \<and>
   lf_shuttingDown (snd (run_phase True ph ps l)) = lf_shuttingDown l \<and> lf_events (snd (run_phase True ph ps l)) = lf_events l \<and>
   lf_exited (snd (run_phase True ph ps l)) = lf_exited l"
  by (induction ps arbitrary: l)
     (auto simp: calls_def call_hook_def handleError_def split_beta Let_def split: option.split)


lemma register_loop_fields:
  "lf_plugins (snd (register_loop cont ps l)) = lf_plugins l \<and> lf_server (snd (register_loop cont ps l)) = lf_server l \<and>
   lf_listening (snd (register_loop cont ps l)) = lf_listening l \<and> lf_signals (snd (register_loop cont ps l)) = lf_signals l \<and>
   lf_shuttingDown (snd (register_loop cont ps l)) = lf_shuttingDown l \<and> lf_events (snd (register_loop cont ps l)) = lf_events l \<and>
   lf_exited (snd (register_loop cont ps l)) = lf_exited l"
  by (induction ps arbitrary: l)
     (auto simp: call_hook_def handleError_def split_beta Let_def split: option.splits)

lemma register_loop_fails:
  "fst (register_loop cont ps l) = Some e \<Longrightarrow>
   \<exists>qs p rs. ps = qs @ p # rs \<and> lf_trace (snd (register_loop cont ps l)) = lf_trace l @ calls Register (qs @ [p])"
proof (induction ps arbitrary: l)
  case (Cons p ps)
  let ?l = "snd (call_hook Register (pl_name p) (pl_register p) l)"
  have t: "lf_trace ?l = lf_trace l @ [(Register, pl_name p)]" by (simp add: call_hook_def split_beta)
  show ?case
  proof (cases "fst (call_hook Register (pl_name p) (pl_register p) l)")
    case None
    then have s: "register_loop cont (p # ps) l = register_loop cont ps ?l" by (simp add: split_beta)
    obtain qs q rs where "ps = qs @ q # rs"
      "lf_trace (snd (register_loop cont ps ?l)) = lf_trace ?l @ calls Register (qs @ [q])"
      using Cons.IH [of ?l] Cons.prems s by auto
    then show ?thesis using t s by (intro exI [of _ "p # qs"] exI [of _ q] exI [of _ rs]) (simp add: calls_def)
  next
    case (Some msg)
    then have "lf_trace (snd (register_loop cont (p # ps) l)) = lf_trace l @ [(Register, pl_name p)]"
      using t by (simp add: split_beta handleError_def)
    then show ?thesis by (intro exI [of _ "[]"] exI [of _ p] exI [of _ ps]) (simp add: calls_def)
  qed
qed simp

lemma phase_step:
  "and_then (run_phase True ph ps) g l = g (snd (run_phase True ph ps l))"
  using run_phase_tolerant [of ph ps l] by (simp add: and_then_def split_beta split: option.split)

lemmas manager_defs = registerPlugins_def initializePlugins_def terminatePlugins_def
  plugins_onServerStart_def plugins_onServerStop_def



lemma listen_registered:
  assumes "fst (registerPlugins True l) = None" "l1 = snd (registerPlugins True l)"
  shows "listen env l =
    and_then (startServer env) (and_then (plugins_onServerStart True) setupServerLifecycle)
      (snd (run_phase True Initialize (lf_plugins l) l1))"
proof -
  have "lf_plugins l1 = lf_plugins l" using register_loop_fields [of True "lf_plugins l" l] assms(2) by (simp add: manager_defs)
  then have "and_then (initializePlugins True) g l1 = g (snd (run_phase True Initialize (lf_plugins l) l1))" for g
    using phase_step [of Initialize "lf_plugins l" g l1] by (simp add: and_then_def initializePlugins_def)
  then show ?thesis using assms by (simp add: listen_def and_then_def [of "registerPlugins True"] split_beta split: option.split)
qed

lemma after_start:
  "and_then (plugins_onServerStart True) setupServerLifecycle l =
     setupServerLifecycle (snd (run_phase True OnServerStart (lf_plugins l) l))"
  using phase_step [of OnServerStart "lf_plugins l" setupServerLifecycle l]
  by (simp add: and_then_def plugins_onServerStart_def)




definition sample_plugin :: "string \<Rightarrow> nat plugin" where
  \<comment> \<open>its initialization throws, it has no start hook\<close>
  "sample_plugin name = \<lparr>pl_name = name, pl_register = (\<lambda>u. (None, u + 1)),
     pl_initialize = Some (\<lambda>u. (Some ''no database'', u)), pl_terminate = Some (\<lambda>u. (None, u)),
     pl_onServerStart = None, pl_onServerStop = Some (\<lambda>u. (None, u))\<rparr>"

definition plain_start :: start_env where
  "plain_start = \<lparr>se_http2 = False, se_certFiles = False, se_devMode = False, se_devCerts = None, se_readCerts = None,
     se_listen = None\<rparr>"



text \<open>A plugin that fails to register stops the start. The plugins up to the failing one have
  been registered, in order; none is initialized, no hook of another phase runs, and no server
  is created.\<close>

theorem register_failure_is_fatal:
  assumes "fst (registerPlugins True (new_server u ps)) = Some e"
  shows "fst (listen env (new_server u ps)) = Some e \<and>
    (\<exists>qs p rs. ps = qs @ p # rs \<and> lf_trace (snd (listen env (new_server u ps))) = calls Register (qs @ [p])) \<and>
    \<not> lf_server (snd (listen env (new_server u ps))) \<and> lf_events (snd (listen env (new_server u ps))) = []"
proof -
  have l: "listen env (new_server u ps) = (Some e, snd (register_loop True ps (new_server u ps)))"
    using assms by (simp add: listen_def and_then_def [of "registerPlugins True"] registerPlugins_def split_beta)
      (simp add: new_server_def)
  have "fst (register_loop True ps (new_server u ps)) = Some e"
    using assms by (simp add: registerPlugins_def) (simp add: new_server_def)
  from register_loop_fails [OF this] show ?thesis
    using register_loop_fields [of True ps "new_server u ps"] by (simp add: l) (simp add: new_server_def)
qed

theorem register_failure_is_fatal_witness:
  "fst (listen plain_start (new_server 0 [sample_plugin ''a'',
     (sample_plugin ''b'')\<lparr>pl_register := (\<lambda>u. (Some ''bad config'', u))\<rparr>, sample_plugin ''c''])) = Some ''bad config''"
proof -
  have "fst (registerPlugins True (new_server 0 [sample_plugin ''a'',
      (sample_plugin ''b'')\<lparr>pl_register := (\<lambda>u. (Some ''bad config'', u))\<rparr>, sample_plugin ''c''])) = Some ''bad config''"
    by code_simp
  then show ?thesis by (rule register_failure_is_fatal [THEN conjunct1])
qed

text \<open>After a failed start a second one reports success without serving. \<open>startServer\<close> stores
  the server object before it listens; when \<open>listen\<close> fails (the port is taken, say), the object
  stays, so the next call of \<open>listen\<close> takes the server for running: it emits \<open>started\<close>, registers
  signal handlers and returns normally, and nothing accepts connections.\<close>

theorem retry_after_failed_listen_serves_nothing:
  assumes "fst (registerPlugins True l) = None" "\<not> lf_server l" "\<not> lf_listening l"
    and "prepareCertificates env = None" "createServerInstance env = None" "se_listen env = Some e"
    and "l' = snd (listen env l)" "fst (registerPlugins True l') = None"
  shows "fst (listen env l) = Some e \<and> fst (listen env' l') = None \<and>
    last (lf_events (snd (listen env' l'))) = ''started'' \<and> \<not> lf_listening (snd (listen env' l'))"
proof -
  let ?l1 = "snd (registerPlugins True l)"
  let ?l2 = "snd (run_phase True Initialize (lf_plugins l) ?l1)"
  note f = register_loop_fields [of True "lf_plugins l" l, folded registerPlugins_def]
  note i = run_phase_tolerant [of Initialize "lf_plugins l" ?l1]
  have first: "listen env l = (Some e, ?l2\<lparr>lf_server := True\<rparr>)"
    using listen_registered [OF assms(1) refl, of env] assms(2,4-6) f i by (simp add: and_then_def startServer_def)
  have l': "lf_server l'" "\<not> lf_listening l'" using assms(3,7) first f i by simp_all
  let ?m1 = "snd (registerPlugins True l')"
  let ?m2 = "snd (run_phase True Initialize (lf_plugins l') ?m1)"
  note g = register_loop_fields [of True "lf_plugins l'" l', folded registerPlugins_def]
  note j = run_phase_tolerant [of Initialize "lf_plugins l'" ?m1]
  note s = run_phase_tolerant [of OnServerStart "lf_plugins ?m2" ?m2]
  have "startServer env' ?m2 = (None, ?m2)" using l' g j by (simp add: startServer_def)
  then have "listen env' l' = setupServerLifecycle (snd (run_phase True OnServerStart (lf_plugins ?m2) ?m2))"
    using listen_registered [OF assms(8) refl, of env'] after_start [of ?m2] by (simp add: and_then_def)
  then show ?thesis using first l' g j s by (simp add: setupServerLifecycle_def)
qed

theorem retry_after_failed_listen_serves_nothing_witness:
  "\<not> lf_listening (snd (listen plain_start (snd (listen (plain_start\<lparr>se_listen := Some ''EADDRINUSE''\<rparr>)
     (new_server 0 [sample_plugin ''a''])))))"
proof -
  let ?l = "new_server 0 [sample_plugin ''a'']"
  let ?env = "plain_start\<lparr>se_listen := Some ''EADDRINUSE''\<rparr>"
  have "fst (registerPlugins True ?l) = None" "\<not> lf_server ?l" "\<not> lf_listening ?l" "prepareCertificates ?env = None"
    "createServerInstance ?env = None" "se_listen ?env = Some ''EADDRINUSE''"
    "fst (registerPlugins True (snd (listen ?env ?l))) = None"
    by code_simp+
  then show ?thesis using retry_after_failed_listen_serves_nothing [of ?l ?env _ _ plain_start] by blast
qed

end
