(* ===== verification/Sse_Registry.thy ===== *)
theory Sse_Registry
  imports Blaize_Prelude
begin

text \<open>
  The registry of server-sent-event connections (\<open>sse/connection-registry.ts\<close> of
  \<open>blaize-core\<close>): connection limits in total and per client, and periodic cleanup.

  The closure state of \<open>createConnectionRegistry\<close> is the record \<open>conn_registry\<close>; a connection
  entry does not hold the stream object but is known by its id, and whether the stream behind
  an id is closed is an argument of \<open>cleanup\<close>. An absent or empty client address is \<open>None\<close> or
  \<open>Some []\<close>; both are falsy in the code.
\<close>

record registry_config =
  maxConnections :: int
  maxConnectionsPerClient :: int
  inactiveTimeout :: int
  cleanupInterval :: int

record conn_entry =
  connectedAt :: int
  lastActivity :: int
  clientIp :: "string option"
  userAgent :: "string option"

record conn_registry =
  connections :: "(string, conn_entry) js_map"
  clientConnectionCounts :: "(string, int) js_map"
  cleanupTimer :: bool

datatype registry_error = DuplicateId string | TotalLimit int | ClientLimit int

definition registry_DEFAULT_CONFIG :: registry_config where
  "registry_DEFAULT_CONFIG =
     \<lparr>maxConnections = 10000, maxConnectionsPerClient = 100,
      inactiveTimeout = 30 * 60 * 1000, cleanupInterval = 60 * 1000\<rparr>"

definition createConnectionRegistry :: conn_registry where
  "createConnectionRegistry = \<lparr>connections = [], clientConnectionCounts = [], cleanupTimer = False\<rparr>"

section \<open>Operations\<close>

fun ip_key :: "string option \<Rightarrow> string option" where
  \<comment> \<open>the truth test on the client address\<close>
  "ip_key (Some (c # cs)) = Some (c # cs)"
| "ip_key _ = None"

definition startCleanupTimer :: "registry_config \<Rightarrow> conn_registry \<Rightarrow> conn_registry" where
  "startCleanupTimer cfg R =
     (if \<not> cleanupTimer R \<and> cleanupInterval cfg > 0 then R\<lparr>cleanupTimer := True\<rparr> else R)"

definition stopCleanupTimer :: "conn_registry \<Rightarrow> conn_registry" where
  "stopCleanupTimer R = (if cleanupTimer R then R\<lparr>cleanupTimer := False\<rparr> else R)"

definition client_count :: "conn_registry \<Rightarrow> string \<Rightarrow> int" where
  "client_count R ip = (case map_get (clientConnectionCounts R) ip of None \<Rightarrow> 0 | Some n \<Rightarrow> n)"

definition updateClientCount :: "string option \<Rightarrow> int \<Rightarrow> conn_registry \<Rightarrow> conn_registry" where
  "updateClientCount ip delta R =
     (case ip_key ip of
        None \<Rightarrow> R
      | Some k \<Rightarrow>
          (let newCount = client_count R k + delta
           in if newCount \<le> 0
              then R\<lparr>clientConnectionCounts := map_delete k (clientConnectionCounts R)\<rparr>
              else R\<lparr>clientConnectionCounts := map_set k newCount (clientConnectionCounts R)\<rparr>))"

definition registry_add ::
  "registry_config \<Rightarrow> int \<Rightarrow> string \<Rightarrow> string option \<Rightarrow> string option \<Rightarrow> conn_registry
     \<Rightarrow> registry_error + conn_registry" where
  "registry_add cfg now i ip agent R =
     (if map_has (connections R) i then Inl (DuplicateId i)
      else if int (length (connections R)) \<ge> maxConnections cfg then Inl (TotalLimit (maxConnections cfg))
      else if (case ip_key ip of None \<Rightarrow> False | Some k \<Rightarrow> client_count R k \<ge> maxConnectionsPerClient cfg)
      then Inl (ClientLimit (maxConnectionsPerClient cfg))
      else
        (let R = R\<lparr>connections := map_set i \<lparr>connectedAt = now, lastActivity = now,
                     clientIp = ip, userAgent = agent\<rparr> (connections R)\<rparr>;
             R = updateClientCount ip 1 R
         in Inr (if length (connections R) = 1 then startCleanupTimer cfg R else R)))"

definition registry_remove :: "string \<Rightarrow> conn_registry \<Rightarrow> conn_registry" where
  "registry_remove i R =
     (case map_get (connections R) i of
        None \<Rightarrow> R
      | Some e \<Rightarrow>
          (let R = R\<lparr>connections := map_delete i (connections R)\<rparr>;
               R = updateClientCount (clientIp e) (-1) R
           in if connections R = [] then stopCleanupTimer R else R))"

definition registry_count :: "conn_registry \<Rightarrow> int" where
  "registry_count R = int (length (connections R))"

definition registry_has :: "conn_registry \<Rightarrow> string \<Rightarrow> bool" where
  "registry_has R i \<longleftrightarrow> map_has (connections R) i"

definition registry_getIds :: "conn_registry \<Rightarrow> string list" where
  "registry_getIds R = map_keys (connections R)"

definition stale_ids :: "registry_config \<Rightarrow> int \<Rightarrow> (string \<Rightarrow> bool) \<Rightarrow> conn_registry \<Rightarrow> string list" where
  \<comment> \<open>the ids \<open>cleanup\<close> collects, and whose streams it closes\<close>
  "stale_ids cfg now isClosed R =
     map fst (filter (\<lambda>(i, e). now - lastActivity e > inactiveTimeout cfg \<or> isClosed i) (connections R))"

definition remove_all :: "string list \<Rightarrow> conn_registry \<Rightarrow> conn_registry" where
  "remove_all is R = foldl (\<lambda>R i. registry_remove i R) R is"

definition registry_cleanup ::
  "registry_config \<Rightarrow> int \<Rightarrow> (string \<Rightarrow> bool) \<Rightarrow> conn_registry \<Rightarrow> string list \<times> conn_registry" where
  "registry_cleanup cfg now isClosed R =
     (let idsToRemove = stale_ids cfg now isClosed R in (idsToRemove, remove_all idsToRemove R))"

definition registry_shutdown :: "conn_registry \<Rightarrow> string list \<times> conn_registry" where
  \<comment> \<open>the streams it closes call \<open>remove\<close>, which only takes entries out; then all is cleared\<close>
  "registry_shutdown R =
     (map_keys (connections R),
      (stopCleanupTimer R)\<lparr>connections := [], clientConnectionCounts := []\<rparr>)"

section \<open>The invariant\<close>

definition client_connections :: "string \<Rightarrow> (string, conn_entry) js_map \<Rightarrow> int" where
  "client_connections k m = entry_count (\<lambda>(i, e). ip_key (clientIp e) = Some k) m"

definition counts_positive :: "(string, int) js_map \<Rightarrow> bool" where
  "counts_positive m \<longleftrightarrow> (\<forall>k n. map_get m k = Some n \<longrightarrow> 0 < n)"

definition registry_ok :: "registry_config \<Rightarrow> conn_registry \<Rightarrow> bool" where
  "registry_ok cfg R \<longleftrightarrow>
     map_ok (connections R) \<and>
     (connections R = [] \<or> int (length (connections R)) \<le> maxConnections cfg) \<and>
     (\<forall>k. client_count R k = client_connections k (connections R)) \<and>
     (\<forall>k. client_count R k = 0 \<or> client_count R k \<le> maxConnectionsPerClient cfg) \<and>
     counts_positive (clientConnectionCounts R) \<and>
     (cleanupTimer R \<longleftrightarrow> connections R \<noteq> [] \<and> cleanupInterval cfg > 0)"

lemma client_count_update:
  "client_count (updateClientCount ip d R) k =
     (if ip_key ip = Some k then max 0 (client_count R k + d) else client_count R k)"
  by (auto simp: updateClientCount_def client_count_def Let_def split: option.splits)

lemma updateClientCount_fields [simp]:
  "connections (updateClientCount ip d R) = connections R"
  "cleanupTimer (updateClientCount ip d R) = cleanupTimer R"
  by (auto simp: updateClientCount_def Let_def split: option.splits)

lemma updateClientCount_positive:
  "counts_positive (clientConnectionCounts R) \<Longrightarrow>
   counts_positive (clientConnectionCounts (updateClientCount ip d (R\<lparr>connections := m\<rparr>)))"
  by (auto simp: counts_positive_def updateClientCount_def Let_def split: option.splits)

lemma timer_fields [simp]:
  "connections (startCleanupTimer cfg R) = connections R"
  "clientConnectionCounts (startCleanupTimer cfg R) = clientConnectionCounts R"
  "cleanupTimer (startCleanupTimer cfg R) \<longleftrightarrow> cleanupTimer R \<or> cleanupInterval cfg > 0"
  "connections (stopCleanupTimer R) = connections R"
  "clientConnectionCounts (stopCleanupTimer R) = clientConnectionCounts R"
  "\<not> cleanupTimer (stopCleanupTimer R)"
  by (auto simp: startCleanupTimer_def stopCleanupTimer_def)

lemma client_count_timer [simp]:
  "client_count (startCleanupTimer cfg R) k = client_count R k"
  "client_count (stopCleanupTimer R) k = client_count R k"
  "client_count (R\<lparr>connections := m\<rparr>) k = client_count R k"
  by (simp_all add: client_count_def)

lemma client_connections_nonneg [simp]: "0 \<le> client_connections k m"
  by (simp add: client_connections_def)

lemma client_connections_add:
  "map_ok m \<Longrightarrow> map_get m i = None \<Longrightarrow> client_connections k (map_set i e m) =
     client_connections k m + (if ip_key (clientIp e) = Some k then 1 else 0)"
  by (simp add: client_connections_def entry_count_set)

lemma client_connections_delete:
  "map_ok m \<Longrightarrow> map_get m i = Some e \<Longrightarrow> client_connections k (map_delete i m) =
     client_connections k m - (if ip_key (clientIp e) = Some k then 1 else 0)"
  by (simp add: client_connections_def entry_count_delete)

lemma registry_okD:
  assumes "registry_ok cfg R"
  shows "map_ok (connections R)"
    "connections R = [] \<or> int (length (connections R)) \<le> maxConnections cfg"
    "client_count R k = client_connections k (connections R)"
    "client_count R k = 0 \<or> client_count R k \<le> maxConnectionsPerClient cfg"
    "counts_positive (clientConnectionCounts R)"
    "cleanupTimer R \<longleftrightarrow> connections R \<noteq> [] \<and> cleanupInterval cfg > 0"
  using assms unfolding registry_ok_def by blast+

lemma registry_ok_init: "registry_ok cfg createConnectionRegistry"
  by (simp add: registry_ok_def counts_positive_def createConnectionRegistry_def client_count_def client_connections_def)

lemma registry_add_cases:
  assumes "registry_add cfg now i ip agent R = Inr R'"
  shows "map_get (connections R) i = None" "int (length (connections R)) < maxConnections cfg"
    "ip_key ip = Some k \<Longrightarrow> client_count R k < maxConnectionsPerClient cfg"
    "connections R' = map_set i \<lparr>connectedAt = now, lastActivity = now, clientIp = ip, userAgent = agent\<rparr>
       (connections R)"
    "client_count R' k = (if ip_key ip = Some k then max 0 (client_count R k + 1) else client_count R k)"
  using assms
  by (auto simp: registry_add_def Let_def map_has_get client_count_update split: if_splits option.splits)

lemma registry_add_ok:
  assumes "registry_ok cfg R" "registry_add cfg now i ip agent R = Inr R'"
  shows "registry_ok cfg R'"
proof -
  note add = registry_add_cases [OF assms(2)]
  have ok: "map_ok (connections R)" and cnt: "client_count R k = client_connections k (connections R)"
    and lim: "client_count R k = 0 \<or> client_count R k \<le> maxConnectionsPerClient cfg" for k
    using registry_okD(1,3,4) [OF assms(1)] by simp_all
  have pos: "counts_positive (clientConnectionCounts R')"
    using assms(2) updateClientCount_positive [OF registry_okD(5) [OF assms(1)]]
    by (auto simp: registry_add_def Let_def split: if_splits)
  have count: "client_count R' k = client_connections k (connections R')" for k
    using add(5) [of k] client_connections_add [OF ok add(1)] cnt [of k] by (auto simp: add(4))
  have limit: "client_count R' k = 0 \<or> client_count R' k \<le> maxConnectionsPerClient cfg" for k
    using add(3) [of k] add(5) [of k] lim [of k] cnt [of k] client_connections_nonneg [of k "connections R"]
    by auto
  have len: "int (length (connections R')) \<le> maxConnections cfg"
    using add(1,2) by (simp add: add(4) length_map_set)
  have timer: "cleanupTimer R' \<longleftrightarrow> connections R' \<noteq> [] \<and> cleanupInterval cfg > 0"
    using assms(2) registry_okD(6) [OF assms(1)] add(1)
    by (auto simp: registry_add_def Let_def length_map_set split: if_splits)
  show ?thesis using ok pos count limit len timer by (simp add: registry_ok_def add(4))
qed

lemma registry_remove_fields:
  "connections (registry_remove i R) = map_delete i (connections R)"
  by (auto simp: registry_remove_def Let_def map_of_eq_None_iff split: option.splits)

lemma registry_remove_count:
  assumes "registry_ok cfg R"
  shows "client_count (registry_remove i R) k = client_connections k (connections (registry_remove i R))"
proof (cases "map_get (connections R) i")
  case None
  then show ?thesis using assms by (simp add: registry_remove_def registry_ok_def)
next
  case (Some e)
  have "client_count (registry_remove i R) k =
      (if ip_key (clientIp e) = Some k then max 0 (client_count R k - 1) else client_count R k)"
    using Some by (simp add: registry_remove_def Let_def client_count_update)
  moreover have "client_connections k (map_delete i (connections R)) =
      client_connections k (connections R) - (if ip_key (clientIp e) = Some k then 1 else 0)"
    using Some assms by (intro client_connections_delete) (simp_all add: registry_ok_def)
  moreover have "0 \<le> client_connections k (map_delete i (connections R))" by simp
  ultimately show ?thesis
    using assms by (auto simp: registry_ok_def registry_remove_fields)
qed

lemma client_connections_delete_le:
  "map_ok m \<Longrightarrow> client_connections k (map_delete i m) \<le> client_connections k m"
  by (cases "map_get m i") (auto simp: client_connections_delete map_of_eq_None_iff)

lemma registry_remove_ok:
  assumes "registry_ok cfg R" shows "registry_ok cfg (registry_remove i R)"
proof -
  let ?R = "registry_remove i R"
  note count = registry_remove_count [OF assms]
  have le: "client_count ?R k \<le> client_count R k" for k
    using registry_okD(1,3) [OF assms] client_connections_delete_le [of "connections R" k i]
    by (simp add: count registry_remove_fields)
  have limit: "client_count ?R k = 0 \<or> client_count ?R k \<le> maxConnectionsPerClient cfg" for k
    using registry_okD(4) [OF assms, of k] le [of k] registry_remove_count [OF assms, of i k]
      client_connections_nonneg [of k "connections ?R"] by linarith
  have pos: "counts_positive (clientConnectionCounts ?R)"
    using registry_okD(5) [OF assms] updateClientCount_positive [OF registry_okD(5) [OF assms]]
    by (auto simp: registry_remove_def Let_def split: option.splits)
  have timer: "cleanupTimer ?R \<longleftrightarrow> connections ?R \<noteq> [] \<and> cleanupInterval cfg > 0"
    using registry_okD(6) [OF assms] by (auto simp: registry_remove_def Let_def split: option.splits)
  show ?thesis
    using registry_okD(1,2) [OF assms] limit pos count timer length_delete_le [of i "connections R"]
    unfolding registry_ok_def registry_remove_fields by auto
qed

lemma remove_all_ok: "registry_ok cfg R \<Longrightarrow> registry_ok cfg (remove_all is R)"
  unfolding remove_all_def by (induction "is" arbitrary: R) (simp_all add: registry_remove_ok)

lemma remove_all_connections:
  "map_get (connections (remove_all is R)) i = (if i \<in> set is then None else map_get (connections R) i)"
  unfolding remove_all_def by (induction "is" arbitrary: R) (auto simp: registry_remove_fields)

lemma registry_shutdown_ok: "registry_ok cfg R \<Longrightarrow> registry_ok cfg (snd (registry_shutdown R))"
  by (simp add: registry_ok_def counts_positive_def registry_shutdown_def client_count_def client_connections_def)

end
