(* ===== verification/Sse_Stream.thy ===== *)
theory Sse_Stream
  imports Sse_Registry
begin

text \<open>
  Server-sent-event streams (\<open>sse/stream.ts\<close>, \<open>sse/back-pressure.ts\<close>) and their composition with
  the connection registry.

  \<open>sse_stream\<close> holds the private fields of \<open>SSEStreamImpl\<close>. The response is the environment: the
  argument \<open>W\<close> tells, for the \<open>n\<close>-th call of \<open>res.write\<close>, whether it returns true, returns false
  (the runtime has taken the chunk but asks the caller to wait for \<open>drain\<close>) or throws. \<open>ss_wire\<close>
  are the chunks the runtime has taken, \<open>ss_writes\<close> the number of calls so far, \<open>ss_waiting\<close> the
  number of \<open>_flushBuffer\<close> runs suspended until the next \<open>drain\<close> event. \<open>_flushBuffer\<close> runs to its
  next \<open>await\<close> without interruption. Data are \<open>null\<close>, \<open>undefined\<close>, a string, or any other value
  given by its JSON text. Not modelled: correlation ids, HTTP headers, the async iterator, and
  console output; no method registers an error callback, so none is ever called.
\<close>

section \<open>Configuration\<close>

datatype buffer_strategy = DropOldest | DropNewest | CloseStream

record sse_options =
  heartbeatInterval :: int
  maxEventSize :: int
  autoClose :: bool
  maxBufferSize :: int
  bufferStrategy :: buffer_strategy

record backpressure =
  bp_strategy :: buffer_strategy
  bp_low :: int
  bp_high :: int
  bp_maxMessages :: int
  bp_maxBytes :: "int option"
  bp_messageTimeout :: "int option"

definition sse_DEFAULT_OPTIONS :: sse_options where
  "sse_DEFAULT_OPTIONS =
     \<lparr>heartbeatInterval = 30000, maxEventSize = 1024 * 1024, autoClose = True,
      maxBufferSize = 1000, bufferStrategy = DropOldest\<rparr>"

definition watermarks_valid :: "int \<Rightarrow> int \<Rightarrow> bool" where
  "watermarks_valid low high \<longleftrightarrow> 0 < low \<and> 0 < high \<and> low < high"

definition limits_valid :: "backpressure \<Rightarrow> bool" where
  "limits_valid b \<longleftrightarrow> 0 < bp_maxMessages b \<and> bp_maxMessages b \<le> 100000 \<and>
     (case bp_maxBytes b of None \<Rightarrow> True | Some n \<Rightarrow> 0 < n \<and> n \<le> 100 * 1024 * 1024) \<and>
     (case bp_messageTimeout b of None \<Rightarrow> True | Some n \<Rightarrow> 0 \<le> n \<and> n \<le> 300000)"

definition isValidConfig :: "backpressure \<Rightarrow> bool" where
  \<comment> \<open>\<open>BackpressureConfigSchema\<close> on integers\<close>
  "isValidConfig b \<longleftrightarrow>
     watermarks_valid (bp_low b) (bp_high b) \<and> limits_valid b \<and> bp_high b \<le> bp_maxMessages b"

definition createDefaultConfig :: backpressure where
  "createDefaultConfig =
     \<lparr>bp_strategy = DropOldest, bp_low = 100, bp_high = 1000, bp_maxMessages = 10000,
      bp_maxBytes = None, bp_messageTimeout = None\<rparr>"

section \<open>Events on the wire\<close>

datatype sse_data = DNull | DUndefined | DString string | DJson string

fun data_text :: "sse_data \<Rightarrow> string" where
  "data_text DNull = ''null''"
| "data_text DUndefined = ''undefined''"
| "data_text (DString s) = s"
| "data_text (DJson s) = s"

abbreviation newline :: char where "newline \<equiv> CHR 0x0A"

definition byteLength :: "string \<Rightarrow> nat" where
  \<comment> \<open>UTF-8 length; characters from 128 on take two bytes\<close>
  "byteLength s = sum_list (map (\<lambda>c. if (of_char c :: nat) < 128 then 1 else 2) s)"

definition event_lines :: "string \<Rightarrow> sse_data \<Rightarrow> string option \<Rightarrow> nat option \<Rightarrow> string list" where
  "event_lines event data i retry =
     (case i of Some (c # cs) \<Rightarrow> [''id: '' @ c # cs] | _ \<Rightarrow> []) @
     (case retry of Some n \<Rightarrow> [''retry: '' @ show_nat n] | None \<Rightarrow> []) @
     [''event: '' @ event] @
     map (\<lambda>line. ''data: '' @ line) (str_split newline (data_text data)) @ [[]]"

definition pad_event :: "string \<Rightarrow> string" where
  "pad_event formatted =
     (let currentSize = byteLength formatted
      in if currentSize < 4096
         then formatted @ '': '' @ replicate (4096 - currentSize) CHR 0xB7 @ [newline]
         else formatted)"

definition formatSSEEvent :: "string \<Rightarrow> sse_data \<Rightarrow> string option \<Rightarrow> nat option \<Rightarrow> string" where
  "formatSSEEvent event data i retry =
     pad_event (str_join [newline] (event_lines event data i retry) @ [newline])"

definition estimateEventSize :: "string \<Rightarrow> sse_data \<Rightarrow> int" where
  "estimateEventSize event data = int (length event) + int (length (data_text data)) + 50"

section \<open>The stream\<close>

datatype sse_state = Connecting | Connected | Closed

record buffered_event =
  be_id :: int
  be_event :: string
  be_data :: sse_data
  be_size :: int
  be_timestamp :: int

record sse_metrics =
  eventsSent :: int
  eventsDropped :: int
  bytesWritten :: int
  bufferHighWatermark :: int
  lastEventTime :: int

record sse_stream =
  ss_id :: string
  ss_state :: sse_state
  ss_buffer :: "buffered_event list"
  ss_metrics :: sse_metrics
  ss_options :: sse_options
  ss_backpressure :: "backpressure option"
  ss_writable :: bool
  ss_cleanupExecuted :: bool
  ss_eventCounter :: int
  ss_lastEventId :: "string option"
  ss_heartbeat :: bool
  ss_closeCallbacks :: "nat list"
  ss_invoked :: "nat list"
  ss_waiting :: nat
  ss_wire :: "string list"
  ss_writes :: nat
  ss_ended :: bool

datatype write_result = WTrue | WFalse | WThrow

datatype sse_error =
    StreamClosedError
  | EventTooLarge int int
  | BufferOverflow int int
  | BadRetry

definition isWritable :: "sse_stream \<Rightarrow> bool" where
  "isWritable s \<longleftrightarrow> ss_writable s \<and> ss_state s = Connected"

definition writeRaw :: "(nat \<Rightarrow> write_result) \<Rightarrow> string \<Rightarrow> sse_stream \<Rightarrow> bool \<times> sse_stream" where
  "writeRaw W data s =
     (if \<not> ss_writable s \<or> ss_state s = Closed then (False, s)
      else (let s' = s\<lparr>ss_writes := Suc (ss_writes s)\<rparr>
            in case W (ss_writes s) of
                 WTrue \<Rightarrow> (True, s'\<lparr>ss_wire := ss_wire s @ [data],
                            ss_metrics := (ss_metrics s)\<lparr>bytesWritten := bytesWritten (ss_metrics s) + int (byteLength data)\<rparr>\<rparr>)
               | WFalse \<Rightarrow> (False, s'\<lparr>ss_wire := ss_wire s @ [data]\<rparr>)
               | WThrow \<Rightarrow> (False, s'\<lparr>ss_writable := False\<rparr>)))"

lemma writeRaw_buffer [simp]: "ss_buffer (snd (writeRaw W d s)) = ss_buffer s"
  by (simp add: writeRaw_def Let_def split: write_result.splits)

function flush_loop :: "(nat \<Rightarrow> write_result) \<Rightarrow> int \<Rightarrow> sse_stream \<Rightarrow> sse_stream" where
  \<comment> \<open>\<open>_flushBuffer\<close> up to its end or its \<open>await\<close>\<close>
  "flush_loop W now s =
     (if \<not> ss_writable s then s
      else case ss_buffer s of
             [] \<Rightarrow> s
           | ev # rest \<Rightarrow>
               (let formatted = formatSSEEvent (be_event ev) (be_data ev) (Some (show_int (be_id ev))) None;
                    (written, s') = writeRaw W formatted (s\<lparr>ss_buffer := rest\<rparr>)
                in if \<not> written
                   then s'\<lparr>ss_buffer := ev # ss_buffer s', ss_waiting := Suc (ss_waiting s')\<rparr>
                   else flush_loop W now
                          (s'\<lparr>ss_metrics := (ss_metrics s')\<lparr>eventsSent := eventsSent (ss_metrics s') + 1,
                                                              lastEventTime := now\<rparr>\<rparr>)))"
  by pat_completeness auto
termination
proof (relation "measure (\<lambda>(W, now, s). length (ss_buffer s))")
  fix W :: "nat \<Rightarrow> write_result" and now :: int and s ev rest formatted r written and s' :: sse_stream
  assume "ss_buffer s = ev # rest" "r = writeRaw W formatted (s\<lparr>ss_buffer := rest\<rparr>)" "(written, s') = r"
  then have "ss_buffer s' = rest" using writeRaw_buffer [of W formatted "s\<lparr>ss_buffer := rest\<rparr>"]
    by (metis snd_conv sse_stream.select_convs(3) sse_stream.surjective sse_stream.update_convs(3))
  then show "((W, now, s'\<lparr>ss_metrics := (ss_metrics s')\<lparr>eventsSent := eventsSent (ss_metrics s') + 1,
      lastEventTime := now\<rparr>\<rparr>), (W, now, s)) \<in> measure (\<lambda>(W, now, s). length (ss_buffer s))"
    using \<open>ss_buffer s = ev # rest\<close> by simp
qed simp

declare flush_loop.simps [simp del]

fun drop_oldest :: "int \<Rightarrow> 'a list \<Rightarrow> 'a list \<times> int" where
  \<comment> \<open>\<open>while (buffer.length >= maxSize && buffer.length > 0) buffer.shift()\<close>\<close>
  "drop_oldest maxSize [] = ([], 0)"
| "drop_oldest maxSize (x # xs) =
     (if int (length (x # xs)) \<ge> maxSize
      then (let (ys, n) = drop_oldest maxSize xs in (ys, n + 1)) else (x # xs, 0))"

definition applyBufferStrategy ::
  "buffered_event list \<Rightarrow> buffer_strategy \<Rightarrow> buffered_event \<Rightarrow> int \<Rightarrow> buffered_event list \<times> int" where
  "applyBufferStrategy buffer strategy newEvent maxSize =
     (case strategy of
        DropOldest \<Rightarrow> (let (b, dropped) = drop_oldest maxSize buffer in (b @ [newEvent], dropped))
      | DropNewest \<Rightarrow> if int (length buffer) \<ge> maxSize then (buffer, 1) else (buffer @ [newEvent], 0)
      | CloseStream \<Rightarrow> (buffer, 0))"

definition executeCleanup :: "sse_stream \<Rightarrow> sse_stream" where
  "executeCleanup s =
     (if ss_cleanupExecuted s then s
      else s\<lparr>ss_cleanupExecuted := True, ss_heartbeat := False,
             ss_invoked := ss_invoked s @ ss_closeCallbacks s, ss_closeCallbacks := [], ss_buffer := []\<rparr>)"

definition close_chunk :: string where
  "close_chunk = formatSSEEvent ''close''
     (DJson (CHR 0x7B # [CHR 0x22] @ ''reason'' @ [CHR 0x22] @ '':'' @ [CHR 0x22] @ ''stream-closed'' @ [CHR 0x22]
        @ '','' @ [CHR 0x22] @ ''reconnect'' @ [CHR 0x22] @ '':false'' @ [CHR 0x7D])) None None"

definition stream_close :: "(nat \<Rightarrow> write_result) \<Rightarrow> sse_stream \<Rightarrow> sse_stream" where
  "stream_close W s =
     (if ss_state s = Closed then s
      else (let s = s\<lparr>ss_state := Closed, ss_writable := False\<rparr>;
                s = s\<lparr>ss_wire := (if W (ss_writes s) = WThrow then ss_wire s else ss_wire s @ [close_chunk]),
                      ss_writes := Suc (ss_writes s)\<rparr>
            in executeCleanup (s\<lparr>ss_ended := True\<rparr>)))"

definition max_buffer :: "sse_stream \<Rightarrow> int" where
  "max_buffer s = (case ss_backpressure s of
     Some b \<Rightarrow> bp_high b | None \<Rightarrow> maxBufferSize (ss_options s))"

definition buffer_event :: "buffered_event \<Rightarrow> sse_stream \<Rightarrow> sse_stream" where
  \<comment> \<open>\<open>send\<close> from the buffer limit to the high watermark, without the \<open>close\<close> strategy\<close>
  "buffer_event ev s =
     (let s = (if int (length (ss_buffer s)) \<ge> max_buffer s
               then (let (b, dropped) = applyBufferStrategy (ss_buffer s) (bufferStrategy (ss_options s)) ev (max_buffer s)
                     in s\<lparr>ss_buffer := b,
                          ss_metrics := (ss_metrics s)\<lparr>eventsDropped := eventsDropped (ss_metrics s) + dropped\<rparr>\<rparr>)
               else s\<lparr>ss_buffer := ss_buffer s @ [ev]\<rparr>)
      in s\<lparr>ss_metrics := (ss_metrics s)\<lparr>bufferHighWatermark :=
            max (bufferHighWatermark (ss_metrics s)) (int (length (ss_buffer s)))\<rparr>\<rparr>)"

definition stream_send ::
  "(nat \<Rightarrow> write_result) \<Rightarrow> int \<Rightarrow> string \<Rightarrow> sse_data \<Rightarrow> sse_stream \<Rightarrow> sse_error option \<times> sse_stream" where
  "stream_send W now event data s =
     (if \<not> isWritable s then (Some StreamClosedError, s)
      else
        (let eventId = ss_eventCounter s + 1;
             s = s\<lparr>ss_eventCounter := eventId, ss_lastEventId := Some (show_int eventId)\<rparr>;
             size = estimateEventSize event data
         in if size > maxEventSize (ss_options s)
            then (Some (EventTooLarge size (maxEventSize (ss_options s))), s)
            else if int (length (ss_buffer s)) \<ge> max_buffer s \<and> bufferStrategy (ss_options s) = CloseStream
            then (Some (BufferOverflow (int (length (ss_buffer s))) (max_buffer s)), stream_close W s)
            else (None, flush_loop W now
                   (buffer_event \<lparr>be_id = eventId, be_event = event, be_data = data, be_size = size,
                                   be_timestamp = now\<rparr> s))))"

definition stream_sendError :: "(nat \<Rightarrow> write_result) \<Rightarrow> int \<Rightarrow> string \<Rightarrow> sse_stream \<Rightarrow> sse_stream" where
  \<comment> \<open>\<open>json\<close> is the text of the error object; an error of \<open>send\<close> is only logged\<close>
  "stream_sendError W now json s =
     (if \<not> isWritable s then s else snd (stream_send W now ''error'' (DJson json) s))"

definition stream_onClose :: "nat \<Rightarrow> sse_stream \<Rightarrow> sse_stream" where
  "stream_onClose cb s =
     (if ss_state s = Closed then s\<lparr>ss_invoked := ss_invoked s @ [cb]\<rparr>
      else s\<lparr>ss_closeCallbacks := ss_closeCallbacks s @ [cb]\<rparr>)"

definition stream_ping :: "(nat \<Rightarrow> write_result) \<Rightarrow> string option \<Rightarrow> sse_stream \<Rightarrow> sse_stream" where
  "stream_ping W comment s =
     (if \<not> isWritable s then s
      else snd (writeRaw W ((case comment of Some (c # cs) \<Rightarrow> '': '' @ c # cs | _ \<Rightarrow> '': ping'')
             @ [newline, newline]) s))"

definition stream_setRetry :: "(nat \<Rightarrow> write_result) \<Rightarrow> int \<Rightarrow> sse_stream \<Rightarrow> sse_error option \<times> sse_stream" where
  "stream_setRetry W ms s =
     (if \<not> isWritable s then (None, s)
      else if ms < 0 then (Some BadRetry, s)
      else (None, snd (writeRaw W (''retry: '' @ show_nat (nat ms) @ [newline, newline]) s)))"

definition stream_flush :: "(nat \<Rightarrow> write_result) \<Rightarrow> int \<Rightarrow> sse_stream \<Rightarrow> sse_stream" where
  "stream_flush W now s = (if \<not> isWritable s then s else flush_loop W now s)"

fun resume_flushes :: "(nat \<Rightarrow> write_result) \<Rightarrow> int \<Rightarrow> nat \<Rightarrow> sse_stream \<Rightarrow> sse_stream" where
  "resume_flushes W now 0 s = s"
| "resume_flushes W now (Suc n) s = resume_flushes W now n (flush_loop W now s)"

definition on_drain :: "(nat \<Rightarrow> write_result) \<Rightarrow> int \<Rightarrow> sse_stream \<Rightarrow> sse_stream" where
  \<comment> \<open>the \<open>drain\<close> event resolves every \<open>_waitForDrain\<close>; the suspended loops go on in turn\<close>
  "on_drain W now s = resume_flushes W now (ss_waiting s) (s\<lparr>ss_waiting := 0\<rparr>)"

definition heartbeat_tick :: "(nat \<Rightarrow> write_result) \<Rightarrow> int \<Rightarrow> string \<Rightarrow> sse_stream \<Rightarrow> sse_stream" where
  \<comment> \<open>\<open>stamp\<close> is the ISO time; the idle test \<open>idle > interval * 0.9\<close> in integers\<close>
  "heartbeat_tick W now stamp s =
     (if ss_heartbeat s \<and> isWritable s \<and>
         10 * (now - lastEventTime (ss_metrics s)) > 9 * heartbeatInterval (ss_options s)
      then stream_ping W (Some (''heartbeat '' @ stamp)) s else s)"

definition handleDisconnect :: "(nat \<Rightarrow> write_result) \<Rightarrow> sse_stream \<Rightarrow> sse_stream" where
  "handleDisconnect W s =
     (if autoClose (ss_options s) \<and> ss_state s \<noteq> Closed \<and> \<not> ss_cleanupExecuted s then stream_close W s else s)"

fun skip_spaces :: "string \<Rightarrow> string" where
  "skip_spaces [] = []"
| "skip_spaces (c # s) =
     (if of_char c \<in> {9, 10, 11, 12, 13, 32, 160 :: nat} then skip_spaces s else c # s)"

definition hex_digit :: "char \<Rightarrow> nat option" where
  "hex_digit c = (let n = (of_char c :: nat)
     in if 48 \<le> n \<and> n \<le> 57 then Some (n - 48)
        else if 65 \<le> n \<and> n \<le> 70 then Some (n - 55)
        else if 97 \<le> n \<and> n \<le> 102 then Some (n - 87) else None)"

fun read_hex :: "nat \<Rightarrow> string \<Rightarrow> nat" where
  "read_hex acc [] = acc"
| "read_hex acc (c # s) = (case hex_digit c of None \<Rightarrow> acc | Some d \<Rightarrow> read_hex (16 * acc + d) s)"

fun parse_magnitude :: "string \<Rightarrow> nat" where
  "parse_magnitude (c # d # s) =
     (if c = CHR ''0'' \<and> (d = CHR ''x'' \<or> d = CHR ''X'') then read_hex 0 s else read_digits 0 (c # d # s))"
| "parse_magnitude s = read_digits 0 s"

definition parseInt_or_0 :: "string \<Rightarrow> int" where
  \<comment> \<open>\<open>parseInt(s) || 0\<close>: white space, a sign, then decimal digits or \<open>0x\<close> and hexadecimal ones\<close>
  "parseInt_or_0 s =
     (case skip_spaces s of
        [] \<Rightarrow> 0
      | c # r \<Rightarrow> if c = CHR ''-'' then - int (parse_magnitude r)
                 else if c = CHR ''+'' then int (parse_magnitude r)
                 else int (parse_magnitude (c # r)))"

definition new_stream ::
  "(nat \<Rightarrow> write_result) \<Rightarrow> string \<Rightarrow> sse_options \<Rightarrow> backpressure option \<Rightarrow> string option \<Rightarrow> int \<Rightarrow> sse_stream" where
  "new_stream W i options bp lastId now =
     (let bp = (case bp of Some b \<Rightarrow> if isValidConfig b then Some b else None | None \<Rightarrow> None);
          options = (case bp of Some b \<Rightarrow> options\<lparr>maxBufferSize := bp_maxMessages b, bufferStrategy := bp_strategy b\<rparr>
                     | None \<Rightarrow> options);
          lastId = (case lastId of Some (c # cs) \<Rightarrow> Some (c # cs) | _ \<Rightarrow> None)
      in snd (writeRaw W ('': SSE connection established'' @ [newline, newline])
           \<lparr>ss_id = i, ss_state = Connected, ss_buffer = [],
            ss_metrics = \<lparr>eventsSent = 0, eventsDropped = 0, bytesWritten = 0, bufferHighWatermark = 0, lastEventTime = now\<rparr>,
            ss_options = options, ss_backpressure = bp, ss_writable = True, ss_cleanupExecuted = False,
            ss_eventCounter = (case lastId of None \<Rightarrow> 0 | Some l \<Rightarrow> parseInt_or_0 l),
            ss_lastEventId = lastId, ss_heartbeat = heartbeatInterval options > 0,
            ss_closeCallbacks = [], ss_invoked = [], ss_waiting = 0, ss_wire = [], ss_writes = 0, ss_ended = False\<rparr>))"

section \<open>What a flush leaves alone\<close>

lemma max_buffer_cong:
  "ss_backpressure t = ss_backpressure s \<Longrightarrow> ss_options t = ss_options s \<Longrightarrow> max_buffer t = max_buffer s"
  by (simp add: max_buffer_def split: option.split)

lemma max_buffer_updates [simp]:
  "max_buffer (s\<lparr>ss_eventCounter := c\<rparr>) = max_buffer s" "max_buffer (s\<lparr>ss_lastEventId := l\<rparr>) = max_buffer s"
  "max_buffer (s\<lparr>ss_buffer := b\<rparr>) = max_buffer s" "max_buffer (s\<lparr>ss_metrics := m\<rparr>) = max_buffer s"
  "max_buffer (s\<lparr>ss_eventCounter := c, ss_lastEventId := l\<rparr>) = max_buffer s"
  "max_buffer (s\<lparr>ss_buffer := b, ss_metrics := m\<rparr>) = max_buffer s"
  by (simp_all add: max_buffer_def split: option.split)

definition static :: "sse_stream \<Rightarrow> _" where
  "static s = (ss_id s, ss_state s, ss_options s, ss_backpressure s, ss_cleanupExecuted s, ss_eventCounter s,
     ss_lastEventId s, ss_heartbeat s, ss_closeCallbacks s, ss_invoked s, ss_ended s,
     bufferHighWatermark (ss_metrics s), eventsDropped (ss_metrics s))"

definition frame :: "sse_stream \<Rightarrow> sse_stream \<Rightarrow> bool" where
  "frame s t \<longleftrightarrow> static t = static s \<and> (ss_writable t \<longrightarrow> ss_writable s) \<and>
     (\<exists>n. ss_buffer t = drop n (ss_buffer s))"

lemma frame_refl [simp]: "frame s s"
  unfolding frame_def by (metis drop0)

lemma frame_trans: "frame s t \<Longrightarrow> frame t u \<Longrightarrow> frame s u"
  unfolding frame_def by (metis drop_drop)

lemma writeRaw_static: "static (snd (writeRaw W d s)) = static s"
  by (simp add: static_def writeRaw_def Let_def split: write_result.splits)

lemma writeRaw_frame: "frame s (snd (writeRaw W d s))"
proof -
  have "ss_writable (snd (writeRaw W d s)) \<longrightarrow> ss_writable s"
    by (simp add: writeRaw_def Let_def split: write_result.splits)
  then show ?thesis unfolding frame_def writeRaw_buffer by (metis drop0 writeRaw_static)
qed

lemma writeRaw_fields [simp]: "ss_waiting (snd (writeRaw W d s)) = ss_waiting s"
  by (simp add: writeRaw_def Let_def split: write_result.splits)

lemma flush_loop_done: "\<not> ss_writable s \<or> ss_buffer s = [] \<Longrightarrow> flush_loop W now s = s"
  by (subst flush_loop.simps) (auto split: list.splits)

definition event_text :: "buffered_event \<Rightarrow> string" where
  "event_text ev = formatSSEEvent (be_event ev) (be_data ev) (Some (show_int (be_id ev))) None"

definition count_sent :: "int \<Rightarrow> sse_stream \<Rightarrow> sse_stream" where
  "count_sent now s = s\<lparr>ss_metrics := (ss_metrics s)\<lparr>eventsSent := eventsSent (ss_metrics s) + 1,
     lastEventTime := now\<rparr>\<rparr>"

definition put_back :: "buffered_event \<Rightarrow> sse_stream \<Rightarrow> sse_stream" where
  "put_back ev s = s\<lparr>ss_buffer := ev # ss_buffer s, ss_waiting := Suc (ss_waiting s)\<rparr>"

lemma flush_loop_step:
  assumes "ss_writable s" "ss_buffer s = ev # rest"
  shows "flush_loop W now s =
    (let w = writeRaw W (event_text ev) (s\<lparr>ss_buffer := rest\<rparr>)
     in if fst w then flush_loop W now (count_sent now (snd w)) else put_back ev (snd w))"
  using assms
  by (subst flush_loop.simps)
     (simp add: split_beta Let_def event_text_def count_sent_def put_back_def)

lemma flush_loop_frame: "frame s (flush_loop W now s)"
proof (induction "length (ss_buffer s)" arbitrary: s rule: less_induct)
  case less
  show ?case
  proof (cases "ss_writable s \<and> ss_buffer s \<noteq> []")
    case False
    then show ?thesis by (simp add: flush_loop_done)
  next
    case True
    then obtain ev rest where ev: "ss_buffer s = ev # rest" by (cases "ss_buffer s") auto
    define w where "w = writeRaw W (event_text ev) (s\<lparr>ss_buffer := rest\<rparr>)"
    have f: "frame (s\<lparr>ss_buffer := rest\<rparr>) (snd w)" unfolding w_def by (rule writeRaw_frame)
    have rest: "ss_buffer (snd w) = rest" by (simp add: w_def)
    have "frame s (put_back ev (snd w))"
      using f ev rest by (auto simp: frame_def put_back_def static_def intro: exI [of _ 0])
    moreover have "frame s (count_sent now (snd w))"
      using f ev rest by (auto simp: frame_def count_sent_def static_def intro: exI [of _ 1])
    moreover have "frame (count_sent now (snd w)) (flush_loop W now (count_sent now (snd w)))"
      by (rule less) (simp add: count_sent_def rest ev)
    ultimately show ?thesis
      using True ev by (simp add: flush_loop_step Let_def w_def [symmetric] frame_trans)
  qed
qed

lemma resume_flushes_frame: "frame s (resume_flushes W now n s)"
  by (induction W now n s rule: resume_flushes.induct) (auto intro: frame_trans flush_loop_frame)

section \<open>The invariant\<close>

definition buffer_ok :: "int \<Rightarrow> int \<Rightarrow> buffered_event list \<Rightarrow> bool" where
  "buffer_ok m c buf \<longleftrightarrow> int (length buf) \<le> max 1 m \<and> sorted_wrt (<) (map be_id buf) \<and>
     (\<forall>ev\<in>set buf. be_id ev \<le> c)"

definition stream_ok :: "sse_stream \<Rightarrow> bool" where
  "stream_ok s \<longleftrightarrow>
     (ss_state s = Closed \<longrightarrow> ss_buffer s = [] \<and> \<not> ss_writable s \<and> ss_ended s \<and> \<not> ss_heartbeat s) \<and>
     (ss_state s = Closed \<longleftrightarrow> ss_cleanupExecuted s) \<and>
     bufferHighWatermark (ss_metrics s) \<le> max 1 (max_buffer s) \<and>
     buffer_ok (max_buffer s) (ss_eventCounter s) (ss_buffer s)"

lemma buffer_ok_drop:
  assumes "buffer_ok m c buf" shows "buffer_ok m c (drop n buf)"
proof -
  have "set (drop n buf) \<subseteq> set buf" by (rule set_drop_subset)
  then show ?thesis using assms by (auto simp: buffer_ok_def sorted_wrt_drop simp flip: drop_map)
qed

lemma frameD:
  assumes "frame s t"
  shows "ss_state t = ss_state s" "ss_cleanupExecuted t = ss_cleanupExecuted s" "ss_ended t = ss_ended s"
    "ss_heartbeat t = ss_heartbeat s" "ss_eventCounter t = ss_eventCounter s" "ss_options t = ss_options s"
    "bufferHighWatermark (ss_metrics t) = bufferHighWatermark (ss_metrics s)"
    "max_buffer t = max_buffer s" "ss_writable t \<Longrightarrow> ss_writable s" "\<exists>n. ss_buffer t = drop n (ss_buffer s)"
  using assms by (simp_all add: frame_def static_def max_buffer_cong [of t s])

lemma stream_ok_frame:
  assumes "stream_ok s" "frame s t" shows "stream_ok t"
proof -
  obtain n where n: "ss_buffer t = drop n (ss_buffer s)" using frameD(10) [OF assms(2)] by blast
  then have "buffer_ok (max_buffer t) (ss_eventCounter t) (ss_buffer t)"
    using assms buffer_ok_drop by (simp add: stream_ok_def frameD [OF assms(2)])
  then show ?thesis
    using assms(1) frameD(9) [OF assms(2)] n by (auto simp: stream_ok_def frameD(1-8) [OF assms(2)])
qed

lemma drop_oldest_spec:
  "drop_oldest m xs = (drop (nat (int (length xs) - m + 1)) xs,
     min (int (length xs)) (max 0 (int (length xs) - m + 1)))"
proof (induction m xs rule: drop_oldest.induct)
  case (2 m x xs)
  show ?case
  proof (cases "int (length (x # xs)) \<ge> m")
    case True
    then have "nat (int (length (x # xs)) - m + 1) = Suc (nat (int (length xs) - m + 1))" by simp
    then show ?thesis using True 2 by (auto simp: min_def max_def)
  qed auto
qed simp

lemma buffer_ok_snoc:
  "buffer_ok m c buf \<Longrightarrow> c < be_id ev \<Longrightarrow> int (length buf) < max 1 m \<Longrightarrow> buffer_ok m (be_id ev) (buf @ [ev])"
  by (fastforce simp: buffer_ok_def sorted_wrt_append)

lemma strategy_ok:
  assumes "buffer_ok m c buf" "c < be_id ev" "st \<noteq> CloseStream" "m \<le> int (length buf)"
  shows "buffer_ok m (be_id ev) (fst (applyBufferStrategy buf st ev m))"
proof (cases st)
  case DropOldest
  let ?n = "nat (int (length buf) - m + 1)"
  have "buffer_ok m (be_id ev) (drop ?n buf @ [ev])"
    by (rule buffer_ok_snoc [OF buffer_ok_drop [OF assms(1)] assms(2)]) (use assms(4) in auto)
  then show ?thesis using DropOldest by (simp add: applyBufferStrategy_def drop_oldest_spec)
next
  case DropNewest
  then show ?thesis using assms by (auto simp: applyBufferStrategy_def buffer_ok_def)
qed (use assms in simp)

lemma buffer_event_ok:
  assumes "stream_ok s" "isWritable s" "ss_eventCounter s < be_id ev"
    "int (length (ss_buffer s)) < max_buffer s \<or> bufferStrategy (ss_options s) \<noteq> CloseStream"
  shows "stream_ok (buffer_event ev (s\<lparr>ss_eventCounter := be_id ev, ss_lastEventId := l\<rparr>))"
proof -
  let ?s = "s\<lparr>ss_eventCounter := be_id ev, ss_lastEventId := l\<rparr>"
  let ?b = "if int (length (ss_buffer s)) \<ge> max_buffer s
      then fst (applyBufferStrategy (ss_buffer s) (bufferStrategy (ss_options s)) ev (max_buffer s))
      else ss_buffer s @ [ev]"
  have mb: "max_buffer ?s = max_buffer s" by simp
  have b: "buffer_ok (max_buffer s) (be_id ev) ?b"
    using assms strategy_ok [of "max_buffer s" "ss_eventCounter s" "ss_buffer s" ev]
      buffer_ok_snoc [of "max_buffer s" "ss_eventCounter s" "ss_buffer s" ev]
    by (auto simp: stream_ok_def)
  have "ss_buffer (buffer_event ev ?s) = ?b"
    "bufferHighWatermark (ss_metrics (buffer_event ev ?s)) = max (bufferHighWatermark (ss_metrics s)) (int (length ?b))"
    "max_buffer (buffer_event ev ?s) = max_buffer s" "ss_eventCounter (buffer_event ev ?s) = be_id ev"
    "ss_state (buffer_event ev ?s) = ss_state s" "ss_cleanupExecuted (buffer_event ev ?s) = ss_cleanupExecuted s"
    by (simp_all add: buffer_event_def Let_def split_beta mb)
  then show ?thesis
    using assms(1,2) b by (simp add: stream_ok_def isWritable_def buffer_ok_def)
qed

lemma stream_close_ok: "stream_ok s \<Longrightarrow> stream_ok (stream_close W s)"
proof -
  assume ok: "stream_ok s"
  have "max_buffer (stream_close W s) = max_buffer s"
    by (rule max_buffer_cong) (simp_all add: stream_close_def executeCleanup_def Let_def)
  moreover have "bufferHighWatermark (ss_metrics (stream_close W s)) = bufferHighWatermark (ss_metrics s)"
    by (simp add: stream_close_def executeCleanup_def Let_def)
  moreover have "ss_state s \<noteq> Closed \<Longrightarrow> ss_state (stream_close W s) = Closed \<and> ss_buffer (stream_close W s) = [] \<and>
      \<not> ss_writable (stream_close W s) \<and> ss_ended (stream_close W s) \<and> \<not> ss_heartbeat (stream_close W s) \<and>
      ss_cleanupExecuted (stream_close W s)"
    using ok by (simp add: stream_ok_def stream_close_def executeCleanup_def Let_def)
  moreover have "ss_state s = Closed \<Longrightarrow> stream_close W s = s" by (simp add: stream_close_def)
  ultimately show ?thesis using ok by (cases "ss_state s = Closed") (simp_all add: stream_ok_def buffer_ok_def)
qed

lemma stream_send_ok:
  assumes "stream_ok s" shows "stream_ok (snd (stream_send W now event data s))"
proof -
  let ?c = "ss_eventCounter s + 1"
  let ?s = "s\<lparr>ss_eventCounter := ?c, ss_lastEventId := Some (show_int ?c)\<rparr>"
  let ?ev = "\<lparr>be_id = ?c, be_event = event, be_data = data, be_size = estimateEventSize event data,
      be_timestamp = now\<rparr>"
  have mb: "max_buffer ?s = max_buffer s" by simp
  have ok: "stream_ok ?s"
    using assms mb by (fastforce simp: stream_ok_def buffer_ok_def)
  have "stream_ok (flush_loop W now (buffer_event ?ev ?s))"
    if "isWritable s" "int (length (ss_buffer s)) < max_buffer s \<or> bufferStrategy (ss_options s) \<noteq> CloseStream"
    using buffer_event_ok [OF assms that(1), of ?ev "Some (show_int ?c)"] that(2)
      stream_ok_frame [OF _ flush_loop_frame] by simp
  then show ?thesis
    using assms ok stream_close_ok by (auto simp: stream_send_def Let_def mb not_le)
qed

section \<open>Every operation keeps the invariant\<close>

datatype sse_op =
    OpSend int string sse_data
  | OpSendError int string
  | OpClose
  | OpOnClose nat
  | OpPing "string option"
  | OpSetRetry int
  | OpFlush int
  | OpDrain int
  | OpHeartbeat int string
  | OpDisconnect

fun run_op :: "(nat \<Rightarrow> write_result) \<Rightarrow> sse_op \<Rightarrow> sse_stream \<Rightarrow> sse_stream" where
  "run_op W (OpSend now event data) s = snd (stream_send W now event data s)"
| "run_op W (OpSendError now json) s = stream_sendError W now json s"
| "run_op W OpClose s = stream_close W s"
| "run_op W (OpOnClose cb) s = stream_onClose cb s"
| "run_op W (OpPing c) s = stream_ping W c s"
| "run_op W (OpSetRetry ms) s = snd (stream_setRetry W ms s)"
| "run_op W (OpFlush now) s = stream_flush W now s"
| "run_op W (OpDrain now) s = on_drain W now s"
| "run_op W (OpHeartbeat now stamp) s = heartbeat_tick W now stamp s"
| "run_op W OpDisconnect s = handleDisconnect W s"

inductive stream_step :: "(nat \<Rightarrow> write_result) \<Rightarrow> sse_stream \<Rightarrow> sse_stream \<Rightarrow> bool" for W where
  stream_op: "stream_step W s (run_op W a s)"

inductive_cases stream_stepE: "stream_step W s t"

definition stream_init :: "(nat \<Rightarrow> write_result) \<Rightarrow> sse_stream \<Rightarrow> bool" where
  "stream_init W s \<longleftrightarrow> (\<exists>i options bp lastId now. s = new_stream W i options bp lastId now)"

lemma stream_ping_frame: "frame s (stream_ping W c s)"
  by (simp add: stream_ping_def writeRaw_frame)

lemma stream_setRetry_frame: "frame s (snd (stream_setRetry W ms s))"
  by (simp add: stream_setRetry_def writeRaw_frame)

lemma stream_flush_frame: "frame s (stream_flush W now s)"
  by (simp add: stream_flush_def flush_loop_frame)

lemma on_drain_frame: "frame s (on_drain W now s)"
proof -
  have "frame s (s\<lparr>ss_waiting := 0\<rparr>)" by (auto simp: frame_def static_def intro: exI [of _ 0])
  then show ?thesis unfolding on_drain_def using resume_flushes_frame frame_trans by blast
qed

lemma heartbeat_frame: "frame s (heartbeat_tick W now stamp s)"
  by (simp add: heartbeat_tick_def stream_ping_frame)

lemmas stream_frames = stream_ping_frame stream_setRetry_frame stream_flush_frame on_drain_frame heartbeat_frame

lemma stream_onClose_ok: "stream_ok s \<Longrightarrow> stream_ok (stream_onClose cb s)"
proof -
  assume ok: "stream_ok s"
  have "max_buffer (stream_onClose cb s) = max_buffer s"
    by (rule max_buffer_cong) (simp_all add: stream_onClose_def)
  then show ?thesis using ok by (auto simp: stream_ok_def stream_onClose_def split: if_splits)
qed

lemma run_op_ok: "stream_ok s \<Longrightarrow> stream_ok (run_op W a s)"
  by (cases a)
     (auto simp: stream_sendError_def handleDisconnect_def
       intro: stream_send_ok stream_close_ok stream_onClose_ok stream_ok_frame [OF _ stream_frames(1)]
         stream_ok_frame [OF _ stream_frames(2)] stream_ok_frame [OF _ stream_frames(3)]
         stream_ok_frame [OF _ stream_frames(4)] stream_ok_frame [OF _ stream_frames(5)])

lemma new_stream_ok: "stream_ok (new_stream W i options bp lastId now)"
  unfolding new_stream_def Let_def
  by (rule stream_ok_frame [OF _ writeRaw_frame]) (simp add: stream_ok_def buffer_ok_def)

interpretation sse: inductive_invariant "stream_init W" "stream_step W" stream_ok for W
  by unfold_locales (auto simp: stream_init_def new_stream_ok elim!: stream_stepE intro: run_op_ok)

text \<open>In every reachable state of a stream, whatever the operations, the outcomes of the
  writes and the drain events: the buffer never exceeds its limit (an empty limit still lets
  one event in), the recorded high watermark neither, buffered event ids increase strictly and
  were all assigned by the counter, and a closed stream has an empty buffer, no heartbeat and
  an ended response.\<close>

theorem sse_stream_invariant:
  assumes "reachable (stream_init W) (stream_step W) s"
  shows "int (length (ss_buffer s)) \<le> max 1 (max_buffer s) \<and>
    bufferHighWatermark (ss_metrics s) \<le> max 1 (max_buffer s) \<and>
    sorted_wrt (<) (map be_id (ss_buffer s)) \<and>
    (\<forall>ev\<in>set (ss_buffer s). be_id ev \<le> ss_eventCounter s) \<and>
    (ss_state s = Closed \<longrightarrow>
      ss_buffer s = [] \<and> \<not> ss_writable s \<and> ss_ended s \<and> \<not> ss_heartbeat s \<and> ss_cleanupExecuted s)"
  using sse.reachable_inv [OF assms] by (simp add: stream_ok_def buffer_ok_def)

theorem sse_stream_invariant_witness:
  "int (length (ss_buffer (run_op (\<lambda>n. if n = 1 then WFalse else WTrue) (OpSend 5 ''tick'' DNull)
      (new_stream (\<lambda>n. if n = 1 then WFalse else WTrue) ''a'' sse_DEFAULT_OPTIONS None None 0)))) \<le>
   max 1 (max_buffer (run_op (\<lambda>n. if n = 1 then WFalse else WTrue) (OpSend 5 ''tick'' DNull)
      (new_stream (\<lambda>n. if n = 1 then WFalse else WTrue) ''a'' sse_DEFAULT_OPTIONS None None 0)))"
  by (rule conjunct1 [OF sse_stream_invariant [where W = "\<lambda>n. if n = 1 then WFalse else WTrue"]],
      rule reach_step, rule reach_init, unfold stream_init_def, blast, rule stream_op)

section \<open>The client's side: event stream parsing\<close>

text \<open>
  The event-stream interpretation that browsers implement, as the specification of the wire
  format: lines end at LF, CR or CRLF; an empty line dispatches the pending event if it has
  data; a line that starts with a colon is a comment; text after the last line end is dropped.
\<close>

abbreviation cr :: char where "cr \<equiv> CHR 0x0D"

fun norm_eol :: "string \<Rightarrow> string" where
  "norm_eol [] = []"
| "norm_eol [c] = [if c = cr then newline else c]"
| "norm_eol (c # d # s) =
     (if c = cr \<and> d = newline then newline # norm_eol s
      else (if c = cr then newline else c) # norm_eol (d # s))"

definition text_lines :: "string \<Rightarrow> string list" where
  "text_lines t = butlast (str_split newline (norm_eol t))"

definition split_field :: "string \<Rightarrow> string \<times> string" where
  "split_field l =
     (takeWhile (\<lambda>c. c \<noteq> CHR '':'') l,
      (case drop 1 (dropWhile (\<lambda>c. c \<noteq> CHR '':'') l) of
         [] \<Rightarrow> [] | c # v \<Rightarrow> if c = CHR '' '' then v else c # v))"

fun dispatch_lines :: "string \<Rightarrow> string list \<Rightarrow> string \<Rightarrow> string list \<Rightarrow> (string \<times> string \<times> string) list" where
  \<comment> \<open>event type buffer, data lines, last event id, remaining lines\<close>
  "dispatch_lines ty d i [] = []"
| "dispatch_lines ty d i (l # ls) =
     (if l = [] then
        (if d = [] then dispatch_lines [] [] i ls
         else (if ty = [] then ''message'' else ty, str_join [newline] d, i) # dispatch_lines [] [] i ls)
      else if hd l = CHR '':'' then dispatch_lines ty d i ls
      else if fst (split_field l) = ''event'' then dispatch_lines (snd (split_field l)) d i ls
      else if fst (split_field l) = ''data'' then dispatch_lines ty (d @ [snd (split_field l)]) i ls
      else if fst (split_field l) = ''id'' then dispatch_lines ty d (snd (split_field l)) ls
      else dispatch_lines ty d i ls)"

definition eventsource_parse :: "string \<Rightarrow> (string \<times> string \<times> string) list" where
  "eventsource_parse t = dispatch_lines [] [] [] (text_lines t)"

lemma norm_eol_plain [simp]: "cr \<notin> set t \<Longrightarrow> norm_eol t = t"
  by (induction t rule: norm_eol.induct) auto

lemma split_append: "str_split c (a @ c # b) = str_split c a @ str_split c b"
  by (induction a) (auto split: list.splits)

lemma text_lines_append:
  "cr \<notin> set u \<Longrightarrow> cr \<notin> set t \<Longrightarrow> text_lines (u @ newline # t) = str_split newline u @ text_lines t"
  by (simp add: text_lines_def split_append butlast_append)

lemma split_field_prefix [simp]:
  "CHR '':'' \<notin> set f \<Longrightarrow> split_field (f @ CHR '':'' # CHR '' '' # v) = (f, v)"
proof -
  assume f: "CHR '':'' \<notin> set f"
  then have "takeWhile (\<lambda>c. c \<noteq> CHR '':'') (f @ CHR '':'' # CHR '' '' # v) = f"
    by (subst takeWhile_append2) auto
  moreover have "dropWhile (\<lambda>c. c \<noteq> CHR '':'') (f @ CHR '':'' # CHR '' '' # v) = CHR '':'' # CHR '' '' # v"
    using f by (subst dropWhile_append2) auto
  ultimately show ?thesis by (simp add: split_field_def)
qed

lemma split_fields:
  "split_field (''id: '' @ v) = (''id'', v)" "split_field (''event: '' @ v) = (''event'', v)"
  "split_field (''data: '' @ v) = (''data'', v)"
  using split_field_prefix [of "''id''" v] split_field_prefix [of "''event''" v]
    split_field_prefix [of "''data''" v] by simp_all

lemmas split_fields_simps [simp] = split_fields [simplified]

lemma dispatch_data:
  "dispatch_lines ty d i (map (\<lambda>l. ''data: '' @ l) ds @ ls) = dispatch_lines ty (d @ ds) i ls"
proof (induction ds arbitrary: d)
  case (Cons l ds)
  have "dispatch_lines ty d i ((''data: '' @ l) # ls') = dispatch_lines ty (d @ [l]) i ls'" for ls'
    by simp
  then show ?case using Cons [of "d @ [l]"] by simp
qed simp

lemma dispatch_event:
  assumes "event \<noteq> []" "i \<noteq> []"
  shows "dispatch_lines [] [] j (event_lines event data (Some i) None @ ls) =
     (event, data_text data, i) # dispatch_lines [] [] i ls"
proof -
  obtain c cs where i: "i = c # cs" using assms by (cases i) auto
  have "dispatch_lines [] [] j (event_lines event data (Some i) None @ ls) =
      dispatch_lines event [] i (map (\<lambda>l. ''data: '' @ l) (str_split newline (data_text data)) @ [] # ls)"
    by (simp add: event_lines_def i)
  then show ?thesis using assms(1) by (simp only: dispatch_data) simp
qed

lemma show_nat_plain [simp]: "newline \<notin> set (show_nat n)" "cr \<notin> set (show_nat n)"
  using show_nat_digits [of newline n] show_nat_digits [of cr n] by (auto simp: char_digit_def Let_def)

lemma show_int_plain [simp]: "newline \<notin> set (show_int n)" "cr \<notin> set (show_int n)" "show_int n \<noteq> []"
  by (simp_all add: show_int_def)

definition plain_event :: "string \<Rightarrow> sse_data \<Rightarrow> bool" where
  "plain_event event data \<longleftrightarrow> event \<noteq> [] \<and> newline \<notin> set event \<and> cr \<notin> set event \<and> cr \<notin> set (data_text data)"

lemma split_set: "w \<in> set (str_split c s) \<Longrightarrow> set w \<subseteq> set s"
  by (induction s arbitrary: w) (fastforce split: if_splits list.splits)+

lemma set_str_join: "set (str_join sep ws) \<subseteq> \<Union> (set ` set ws) \<union> set sep"
  by (induction sep ws rule: str_join.induct) auto

lemma event_lines_plain:
  assumes "plain_event event data" "w \<in> set (event_lines event data (Some (show_int n)) None)"
  shows "newline \<notin> set w" "cr \<notin> set w"
  using assms str_split_no_sep [of _ newline "data_text data"] split_set [of _ newline "data_text data"]
  by (auto simp: plain_event_def event_lines_def split: list.splits)
     (use show_int_plain [of n] in force)+

lemma event_text_plain:
  assumes "plain_event event data"
  shows "cr \<notin> set (formatSSEEvent event data (Some (show_int n)) None)"
proof -
  let ?L = "event_lines event data (Some (show_int n)) None"
  have "cr \<notin> set (str_join [newline] ?L)"
    using set_str_join [of "[newline]" ?L] event_lines_plain(2) [OF assms] by fastforce
  then show ?thesis by (simp add: formatSSEEvent_def pad_event_def Let_def)
qed

lemma text_lines_event:
  assumes "plain_event event data" "cr \<notin> set t"
  shows "\<exists>c. (c = [] \<or> (\<exists>p. c = ['': '' @ p])) \<and>
    text_lines (formatSSEEvent event data (Some (show_int n)) None @ t) =
      event_lines event data (Some (show_int n)) None @ c @ text_lines t"
proof -
  let ?L = "event_lines event data (Some (show_int n)) None"
  let ?f = "str_join [newline] ?L @ [newline]"
  have cr: "cr \<notin> set (str_join [newline] ?L)"
    using set_str_join [of "[newline]" ?L] event_lines_plain(2) [OF assms(1)] by fastforce
  have split: "str_split newline (str_join [newline] ?L) = ?L"
    by (rule split_join) (simp add: event_lines_def, erule event_lines_plain(1) [OF assms(1)])
  have plain: "text_lines (str_join [newline] ?L @ newline # u) = ?L @ text_lines u" if "cr \<notin> set u" for u
    using text_lines_append [OF cr that] by (simp add: split)
  show ?thesis
  proof (cases "byteLength ?f < 4096")
    case True
    define p where "p = replicate (4096 - byteLength ?f) (CHR 0xB7)"
    have p: "cr \<notin> set ('': '' @ p)" "newline \<notin> set ('': '' @ p)" by (auto simp: p_def)
    have "formatSSEEvent event data (Some (show_int n)) None @ t =
        str_join [newline] ?L @ newline # (('': '' @ p) @ newline # t)"
      using True by (simp add: formatSSEEvent_def pad_event_def Let_def p_def)
    moreover have "text_lines (('': '' @ p) @ newline # t) = ('': '' @ p) # text_lines t"
      unfolding text_lines_append [OF p(1) assms(2)] split_plain [OF p(2)] by simp
    moreover have "cr \<notin> set (('': '' @ p) @ newline # t)" using p assms(2) by simp
    ultimately have "text_lines (formatSSEEvent event data (Some (show_int n)) None @ t) =
        ?L @ ['': '' @ p] @ text_lines t"
      using plain by (metis append_Cons append_Nil)
    then show ?thesis by blast
  next
    case False
    then have "formatSSEEvent event data (Some (show_int n)) None @ t = str_join [newline] ?L @ newline # t"
      by (simp add: formatSSEEvent_def pad_event_def Let_def)
    then show ?thesis using plain [OF assms(2)] by auto
  qed
qed

lemma dispatch_text_event:
  assumes "plain_event event data" "cr \<notin> set t"
  shows "dispatch_lines [] [] j (text_lines (formatSSEEvent event data (Some (show_int n)) None @ t)) =
    (event, data_text data, show_int n) # dispatch_lines [] [] (show_int n) (text_lines t)"
proof -
  obtain c where c: "c = [] \<or> (\<exists>p. c = ['': '' @ p])"
    and t: "text_lines (formatSSEEvent event data (Some (show_int n)) None @ t) =
      event_lines event data (Some (show_int n)) None @ c @ text_lines t"
    using text_lines_event [OF assms] by blast
  have "dispatch_lines [] [] i (c @ ls) = dispatch_lines [] [] i ls" for i ls using c by auto
  then show ?thesis
    using dispatch_event [of event "show_int n" j data] assms(1) by (simp add: t plain_event_def)
qed

section \<open>Delivery\<close>

fun send_all :: "(nat \<Rightarrow> write_result) \<Rightarrow> int \<Rightarrow> (string \<times> sse_data) list \<Rightarrow> sse_stream \<Rightarrow> sse_stream" where
  "send_all W now [] s = s"
| "send_all W now ((event, data) # es) s = send_all W now es (snd (stream_send W now event data s))"

fun numbered :: "int \<Rightarrow> (string \<times> sse_data) list \<Rightarrow> (string \<times> string \<times> string) list" where
  "numbered n [] = []"
| "numbered n ((event, data) # es) = (event, data_text data, show_int n) # numbered (n + 1) es"

definition sendable :: "sse_options \<Rightarrow> string \<times> sse_data \<Rightarrow> bool" where
  "sendable opts = (\<lambda>(event, data). plain_event event data \<and> estimateEventSize event data \<le> maxEventSize opts)"

definition idle :: "sse_stream \<Rightarrow> bool" where
  "idle s \<longleftrightarrow> isWritable s \<and> ss_buffer s = [] \<and> 0 < max_buffer s"

lemma flush_single:
  assumes "ss_writable s" "ss_state s = Connected" "ss_buffer s = [ev]" "W (ss_writes s) = WTrue"
  shows "flush_loop W now s = count_sent now (s\<lparr>ss_buffer := [], ss_writes := Suc (ss_writes s),
     ss_wire := ss_wire s @ [event_text ev],
     ss_metrics := (ss_metrics s)\<lparr>bytesWritten := bytesWritten (ss_metrics s) + int (byteLength (event_text ev))\<rparr>\<rparr>)"
  using assms by (simp add: flush_loop_step [OF assms(1,3)] writeRaw_def Let_def flush_loop_done count_sent_def)

lemma buffer_event_idle:
  "ss_buffer s = [] \<Longrightarrow> 0 < max_buffer s \<Longrightarrow>
   buffer_event ev s = s\<lparr>ss_buffer := [ev], ss_metrics := (ss_metrics s)\<lparr>bufferHighWatermark :=
     max (bufferHighWatermark (ss_metrics s)) 1\<rparr>\<rparr>"
  by (simp add: buffer_event_def)

definition new_event :: "int \<Rightarrow> string \<Rightarrow> sse_data \<Rightarrow> sse_stream \<Rightarrow> buffered_event" where
  "new_event now event data s = \<lparr>be_id = ss_eventCounter s + 1, be_event = event, be_data = data,
     be_size = estimateEventSize event data, be_timestamp = now\<rparr>"

definition enqueued :: "buffered_event \<Rightarrow> sse_stream \<Rightarrow> sse_stream" where
  "enqueued ev s = s\<lparr>ss_eventCounter := be_id ev, ss_lastEventId := Some (show_int (be_id ev)), ss_buffer := [ev],
     ss_metrics := (ss_metrics s)\<lparr>bufferHighWatermark := max (bufferHighWatermark (ss_metrics s)) 1\<rparr>\<rparr>"

lemma event_text_new [simp]:
  "event_text (new_event now event data s) =
     formatSSEEvent event data (Some (show_int (ss_eventCounter s + 1))) None"
  by (simp add: event_text_def new_event_def)

lemma send_to_idle:
  assumes "idle s" "estimateEventSize event data \<le> maxEventSize (ss_options s)"
  shows "snd (stream_send W now event data s) = flush_loop W now (enqueued (new_event now event data s) s)"
proof -
  let ?n = "ss_eventCounter s + 1"
  define s1 where "s1 = s\<lparr>ss_eventCounter := ?n, ss_lastEventId := Some (show_int ?n)\<rparr>"
  have w: "isWritable s" and b: "ss_buffer s = []" and m: "0 < max_buffer s" using assms(1) by (simp_all add: idle_def)
  have "\<not> max_buffer s1 \<le> int (length (ss_buffer s1))" using b m by (simp add: s1_def)
  then have "snd (stream_send W now event data s) = flush_loop W now (buffer_event (new_event now event data s) s1)"
    using w assms(2) unfolding stream_send_def Let_def new_event_def
    by (simp add: s1_def [symmetric]) (simp add: s1_def)
  also have "buffer_event (new_event now event data s) s1 = enqueued (new_event now event data s) s"
    by (subst buffer_event_idle) (simp_all add: s1_def b m enqueued_def new_event_def)
  finally show ?thesis .
qed

lemma send_idle:
  assumes "idle s" "W (ss_writes s) = WTrue" "estimateEventSize event data \<le> maxEventSize (ss_options s)"
  shows "idle (snd (stream_send W now event data s))"
    "ss_wire (snd (stream_send W now event data s)) = ss_wire s @
      [formatSSEEvent event data (Some (show_int (ss_eventCounter s + 1))) None]"
    "ss_eventCounter (snd (stream_send W now event data s)) = ss_eventCounter s + 1"
    "ss_options (snd (stream_send W now event data s)) = ss_options s"
    "eventsSent (ss_metrics (snd (stream_send W now event data s))) = eventsSent (ss_metrics s) + 1"
proof -
  let ?ev = "new_event now event data s"
  let ?s = "enqueued ?ev s"
  have w: "isWritable s" and m: "0 < max_buffer s" using assms(1) by (simp_all add: idle_def)
  have t: "snd (stream_send W now event data s) = count_sent now (?s\<lparr>ss_buffer := [], ss_writes := Suc (ss_writes ?s),
      ss_wire := ss_wire ?s @ [event_text ?ev],
      ss_metrics := (ss_metrics ?s)\<lparr>bytesWritten := bytesWritten (ss_metrics ?s) + int (byteLength (event_text ?ev))\<rparr>\<rparr>)"
    unfolding send_to_idle [OF assms(1,3)]
    by (rule flush_single) (use w assms(2) in \<open>simp_all add: enqueued_def isWritable_def\<close>)
  show "ss_wire (snd (stream_send W now event data s)) = ss_wire s @
      [formatSSEEvent event data (Some (show_int (ss_eventCounter s + 1))) None]"
    "ss_eventCounter (snd (stream_send W now event data s)) = ss_eventCounter s + 1"
    "ss_options (snd (stream_send W now event data s)) = ss_options s"
    "eventsSent (ss_metrics (snd (stream_send W now event data s))) = eventsSent (ss_metrics s) + 1"
    by (simp_all add: t count_sent_def enqueued_def) (simp add: new_event_def)
  have "max_buffer (snd (stream_send W now event data s)) = max_buffer s"
    by (rule max_buffer_cong) (simp_all add: t count_sent_def enqueued_def)
  then show "idle (snd (stream_send W now event data s))"
    using w m by (simp add: idle_def) (simp add: t count_sent_def enqueued_def isWritable_def)
qed

lemma send_all_wire:
  assumes "idle s" "\<And>n. W n = WTrue" "\<And>e. e \<in> set es \<Longrightarrow> sendable (ss_options s) e"
  shows "\<exists>chunks. ss_wire (send_all W now es s) = ss_wire s @ chunks \<and>
      cr \<notin> set (concat chunks) \<and>
      (\<forall>j t. cr \<notin> set t \<longrightarrow> dispatch_lines [] [] j (text_lines (concat chunks @ t)) =
         numbered (ss_eventCounter s + 1) es @
           dispatch_lines [] [] (if es = [] then j else show_int (ss_eventCounter s + int (length es))) (text_lines t)) \<and>
      idle (send_all W now es s) \<and>
      eventsSent (ss_metrics (send_all W now es s)) = eventsSent (ss_metrics s) + int (length es)"
  using assms
proof (induction es arbitrary: s)
  case Nil
  then show ?case by auto
next
  case (Cons e es)
  obtain event data where e: "e = (event, data)" by (cases e)
  have ev: "plain_event event data" "estimateEventSize event data \<le> maxEventSize (ss_options s)"
    using Cons.prems(3) [of e] by (simp_all add: e sendable_def)
  let ?s = "snd (stream_send W now event data s)"
  let ?c = "formatSSEEvent event data (Some (show_int (ss_eventCounter s + 1))) None"
  note send = send_idle [of s W event data now, OF Cons.prems(1) Cons.prems(2) ev(2)]
  obtain chunks where ch: "ss_wire (send_all W now es ?s) = ss_wire ?s @ chunks"
    "cr \<notin> set (concat chunks)" "idle (send_all W now es ?s)"
    "eventsSent (ss_metrics (send_all W now es ?s)) = eventsSent (ss_metrics ?s) + int (length es)"
    "\<And>j t. cr \<notin> set t \<Longrightarrow> dispatch_lines [] [] j (text_lines (concat chunks @ t)) =
         numbered (ss_eventCounter ?s + 1) es @
           dispatch_lines [] [] (if es = [] then j else show_int (ss_eventCounter ?s + int (length es))) (text_lines t)"
    using Cons.IH [OF send(1) Cons.prems(2)] Cons.prems(3) send(4) by auto
  have "dispatch_lines [] [] j (text_lines (concat (?c # chunks) @ t)) =
      numbered (ss_eventCounter s + 1) (e # es) @
        dispatch_lines [] [] (show_int (ss_eventCounter s + int (length (e # es)))) (text_lines t)"
    if "cr \<notin> set t" for j t
    using dispatch_text_event [OF ev(1), of "concat chunks @ t" j "ss_eventCounter s + 1"] that ch(2,5)
    by (auto simp: e send(3) add.assoc)
  then show ?case
    using ch(1-4) event_text_plain [OF ev(1)] by (intro exI [of _ "?c # chunks"]) (simp add: e send)
qed

lemma new_stream_fields:
  assumes "W 0 = WTrue"
  shows "ss_wire (new_stream W i opts bp lastId now) = ['': SSE connection established'' @ [newline, newline]]"
    "ss_buffer (new_stream W i opts bp lastId now) = []" "isWritable (new_stream W i opts bp lastId now)"
    "ss_eventCounter (new_stream W i opts bp lastId now) =
       (case lastId of None \<Rightarrow> 0 | Some l \<Rightarrow> parseInt_or_0 l)"
    "eventsSent (ss_metrics (new_stream W i opts bp lastId now)) = 0"
  using assms by (auto simp: new_stream_def writeRaw_def Let_def isWritable_def parseInt_or_0_def split: option.split list.split)

lemma greeting_lines:
  assumes "cr \<notin> set t"
  shows "dispatch_lines [] [] j (text_lines (('': SSE connection established'' @ [newline, newline]) @ t)) =
    dispatch_lines [] [] j (text_lines t)"
proof -
  have "text_lines ('': SSE connection established'' @ newline # (newline # t)) =
      ['': SSE connection established''] @ text_lines (newline # t)"
    by (subst text_lines_append) (use assms in \<open>simp_all add: split_plain\<close>)
  moreover have "text_lines ([] @ newline # t) = [] # text_lines t"
    by (subst text_lines_append) (use assms in simp_all)
  ultimately show ?thesis by simp
qed

lemma stream_delivers:
  assumes "\<And>n. W n = WTrue" "0 < max_buffer (new_stream W i opts bp lastId now0)"
    and "\<And>e. e \<in> set es \<Longrightarrow> sendable (ss_options (new_stream W i opts bp lastId now0)) e"
  shows "eventsource_parse (concat (ss_wire (send_all W now es (new_stream W i opts bp lastId now0)))) =
      numbered ((case lastId of None \<Rightarrow> 0 | Some l \<Rightarrow> parseInt_or_0 l) + 1) es \<and>
    ss_buffer (send_all W now es (new_stream W i opts bp lastId now0)) = [] \<and>
    eventsSent (ss_metrics (send_all W now es (new_stream W i opts bp lastId now0))) = int (length es)"
proof -
  let ?s = "new_stream W i opts bp lastId now0"
  let ?g = "'': SSE connection established'' @ [newline, newline]"
  note new = new_stream_fields [of W i opts bp lastId now0, OF assms(1)]
  have "idle ?s" using assms(2) new by (simp add: idle_def)
  from send_all_wire [of ?s W es now, OF this assms(1,3)]
  obtain chunks where c: "ss_wire (send_all W now es ?s) = ss_wire ?s @ chunks" "cr \<notin> set (concat chunks)"
    and d: "\<And>j t. cr \<notin> set t \<Longrightarrow> dispatch_lines [] [] j (text_lines (concat chunks @ t)) =
      numbered (ss_eventCounter ?s + 1) es @
        dispatch_lines [] [] (if es = [] then j else show_int (ss_eventCounter ?s + int (length es))) (text_lines t)"
    and r: "idle (send_all W now es ?s)"
      "eventsSent (ss_metrics (send_all W now es ?s)) = eventsSent (ss_metrics ?s) + int (length es)" by blast
  have "concat (ss_wire (send_all W now es ?s)) = ?g @ concat chunks" unfolding c(1) new(1) by simp
  then have "eventsource_parse (concat (ss_wire (send_all W now es ?s))) = numbered (ss_eventCounter ?s + 1) es"
    using greeting_lines [OF c(2), of "[]"] d [of "[]" "[]"]
    by (simp add: eventsource_parse_def) (simp add: text_lines_def)
  then show ?thesis using r new(4,5) by (simp add: idle_def)
qed

text \<open>C32: while the connection accepts every write, a standard event-source client that reads the
  bytes of a stream gets exactly the events that were sent, once and in order, with their names
  and their data (line breaks included), numbered from 1, or from the id after the one the
  client sent as \<open>Last-Event-ID\<close>: the framing, the multi-line data and the padding comments of
  \<open>formatSSEEvent\<close> are undone by the parser, and nothing stays in the buffer. Event names must be
  non-empty and free of line breaks, and data free of carriage returns.\<close>

theorem client_receives_sent_events:
  assumes "\<And>n. W n = WTrue" "0 < max_buffer (new_stream W i opts bp lastId now0)"
    and "\<And>e. e \<in> set es \<Longrightarrow> sendable (ss_options (new_stream W i opts bp lastId now0)) e"
  shows "eventsource_parse (concat (ss_wire (send_all W now es (new_stream W i opts bp lastId now0)))) =
      numbered ((case lastId of None \<Rightarrow> 0 | Some l \<Rightarrow> parseInt_or_0 l) + 1) es \<and>
    ss_buffer (send_all W now es (new_stream W i opts bp lastId now0)) = [] \<and>
    eventsSent (ss_metrics (send_all W now es (new_stream W i opts bp lastId now0))) = int (length es)"
  using stream_delivers [of W i opts bp lastId now0 es now] assms by blast

theorem client_receives_sent_events_witness:
  "eventsource_parse (concat (ss_wire (send_all (\<lambda>_. WTrue) 7
      [(''tick'', DString [CHR ''a'', newline, CHR ''b'']), (''done'', DNull)]
      (new_stream (\<lambda>_. WTrue) ''s'' sse_DEFAULT_OPTIONS None (Some ''41'') 0)))) =
   [(''tick'', [CHR ''a'', newline, CHR ''b''], ''42''), (''done'', ''null'', ''43'')]"
proof -
  let ?s = "new_stream (\<lambda>_. WTrue) ''s'' sse_DEFAULT_OPTIONS None (Some ''41'') 0"
  let ?es = "[(''tick'', DString [CHR ''a'', newline, CHR ''b'']), (''done'', DNull)]"
  have opt: "ss_options ?s = sse_DEFAULT_OPTIONS" "max_buffer ?s = 1000"
    by (simp_all add: new_stream_def writeRaw_def max_buffer_def sse_DEFAULT_OPTIONS_def Let_def)
  have "numbered (parseInt_or_0 ''41'' + 1) ?es =
      [(''tick'', [CHR ''a'', newline, CHR ''b''], ''42''), (''done'', ''null'', ''43'')]"
    by code_simp
  moreover have ok: "sendable (ss_options ?s) e" if "e \<in> set ?es" for e
    using that unfolding opt
    by (auto simp: sendable_def plain_event_def estimateEventSize_def sse_DEFAULT_OPTIONS_def)
  moreover have "eventsource_parse (concat (ss_wire (send_all (\<lambda>_. WTrue) 7 ?es ?s))) =
      numbered (parseInt_or_0 ''41'' + 1) ?es"
    using client_receives_sent_events [of "\<lambda>_. WTrue" "''s''" sse_DEFAULT_OPTIONS None "Some ''41''" 0 ?es 7,
      OF refl _ ok] opt(2) by (simp del: send_all.simps numbered.simps)
  ultimately show ?thesis by (simp only:)
qed

lemma skip_spaces_digits: "char_digit c \<noteq> None \<Longrightarrow> skip_spaces (c # s) = c # s"
  by (auto simp: char_digit_def Let_def)

lemma parse_magnitude_show [simp]: "parse_magnitude (show_nat n) = n"
proof -
  have "parse_magnitude s = read_digits 0 s" if "\<And>c. c \<in> set s \<Longrightarrow> char_digit c \<noteq> None" for s
  proof (cases s rule: parse_magnitude.cases)
    case (1 c d t)
    have "char_digit d \<noteq> None" using that 1 by simp
    then have "d \<noteq> CHR ''x'' \<and> d \<noteq> CHR ''X''" by (auto simp: char_digit_def Let_def)
    then show ?thesis using 1 by simp
  qed simp_all
  then show ?thesis using show_nat_digits by simp
qed

lemma parseInt_show [simp]: "parseInt_or_0 (show_int n) = n"
proof -
  have pos: "parseInt_or_0 (show_nat k) = int k" for k
  proof -
    obtain c s where c: "show_nat k = c # s" by (cases "show_nat k") simp_all
    have d: "char_digit c \<noteq> None" using show_nat_digits [of c k] by (simp add: c)
    then have "c \<noteq> CHR ''-''" "c \<noteq> CHR ''+''" by (auto simp: char_digit_def Let_def)
    then show ?thesis
      using parse_magnitude_show [of k] skip_spaces_digits [OF d] by (simp add: parseInt_or_0_def c)
  qed
  show ?thesis by (cases "n < 0") (simp_all add: show_int_def pos, simp add: parseInt_or_0_def)
qed

section \<open>Backpressure\<close>

lemma send_blocked:
  assumes "idle s" "W (ss_writes s) = WFalse" "estimateEventSize event data \<le> maxEventSize (ss_options s)"
  shows "snd (stream_send W now event data s) =
    (let ev = new_event now event data s
     in put_back ev ((enqueued ev s)\<lparr>ss_buffer := [], ss_writes := Suc (ss_writes s), ss_wire := ss_wire s @ [event_text ev]\<rparr>))"
proof -
  let ?ev = "new_event now event data s"
  have "isWritable s" using assms(1) by (simp add: idle_def)
  then show ?thesis
    unfolding send_to_idle [OF assms(1,3)] Let_def
    by (subst flush_loop_step [of _ ?ev "[]"])
       (use assms(2) in \<open>simp_all add: enqueued_def isWritable_def writeRaw_def Let_def\<close>)
qed

text \<open>Under backpressure an event reaches the client twice. When \<open>res.write\<close> returns false the
  runtime has accepted the chunk and only asks the caller to pause; \<open>_flushBuffer\<close> takes false
  for a failed write, puts the event back and writes it again after \<open>drain\<close>. One event sent on
  an idle stream is on the wire twice, with the same id, although it is counted once.\<close>

theorem backpressure_duplicates_event:
  assumes "idle s" "ss_waiting s = 0" "estimateEventSize event data \<le> maxEventSize (ss_options s)"
    and "W (ss_writes s) = WFalse" "W (Suc (ss_writes s)) = WTrue"
  shows "ss_wire (on_drain W later (snd (stream_send W now event data s))) = ss_wire s @
      [formatSSEEvent event data (Some (show_int (ss_eventCounter s + 1))) None,
       formatSSEEvent event data (Some (show_int (ss_eventCounter s + 1))) None] \<and>
    eventsSent (ss_metrics (on_drain W later (snd (stream_send W now event data s)))) = eventsSent (ss_metrics s) + 1"
proof -
  let ?t = "snd (stream_send W now event data s)"
  let ?ev = "new_event now event data s"
  have t: "ss_buffer ?t = [?ev]" "ss_wire ?t = ss_wire s @ [event_text ?ev]" "ss_writes ?t = Suc (ss_writes s)"
    "ss_waiting ?t = 1" "eventsSent (ss_metrics ?t) = eventsSent (ss_metrics s)"
    "ss_writable ?t" "ss_state ?t = Connected"
    using assms(1,2) unfolding send_blocked [of s W, OF assms(1,4,3)] Let_def
    by (simp_all add: put_back_def enqueued_def idle_def isWritable_def)
  let ?u = "?t\<lparr>ss_waiting := 0\<rparr>"
  have "on_drain W later ?t = flush_loop W later ?u" using t(4) by (simp add: on_drain_def)
  also have "\<dots> = count_sent later (?u\<lparr>ss_buffer := [], ss_writes := Suc (ss_writes ?u),
      ss_wire := ss_wire ?u @ [event_text ?ev],
      ss_metrics := (ss_metrics ?u)\<lparr>bytesWritten := bytesWritten (ss_metrics ?u) + int (byteLength (event_text ?ev))\<rparr>\<rparr>)"
    by (rule flush_single) (use t assms(5) in simp_all)
  finally show ?thesis using t(2,5) by (simp add: count_sent_def)
qed

theorem backpressure_duplicates_event_witness:
  "eventsSent (ss_metrics (on_drain (\<lambda>n. if n = 1 then WFalse else WTrue) 9
      (snd (stream_send (\<lambda>n. if n = 1 then WFalse else WTrue) 5 ''tick'' DNull
        (new_stream (\<lambda>n. if n = 1 then WFalse else WTrue) ''s'' sse_DEFAULT_OPTIONS None None 0))))) = 1"
proof -
  let ?W = "\<lambda>n. if n = 1 then WFalse else WTrue"
  let ?s = "new_stream ?W ''s'' sse_DEFAULT_OPTIONS None None 0"
  have "idle ?s" "ss_waiting ?s = 0" "ss_writes ?s = 1" "ss_options ?s = sse_DEFAULT_OPTIONS"
    "eventsSent (ss_metrics ?s) = 0"
    by (simp_all add: idle_def isWritable_def new_stream_def writeRaw_def max_buffer_def sse_DEFAULT_OPTIONS_def Let_def)
  then show ?thesis
    using backpressure_duplicates_event [of ?s "''tick''" DNull ?W 9 5]
    by (simp add: estimateEventSize_def) (simp add: sse_DEFAULT_OPTIONS_def)
qed

section \<open>Closing\<close>

abbreviation run_ops :: "(nat \<Rightarrow> write_result) \<Rightarrow> sse_op list \<Rightarrow> sse_stream \<Rightarrow> sse_stream" where
  "run_ops W as s \<equiv> foldl (\<lambda>s a. run_op W a s) s as"

fun registered :: "sse_op list \<Rightarrow> nat list" where
  "registered [] = []"
| "registered (OpOnClose cb # as) = cb # registered as"
| "registered (_ # as) = registered as"

definition callbacks_ok :: "sse_stream \<Rightarrow> bool" where
  "callbacks_ok s \<longleftrightarrow> 
     (ss_state s = Closed \<longrightarrow> ss_closeCallbacks s = []) \<and> (ss_state s \<noteq> Closed \<longrightarrow> ss_invoked s = [])"

lemma frame_callbacks:
  assumes "frame s t"
  shows "ss_invoked t @ ss_closeCallbacks t = ss_invoked s @ ss_closeCallbacks s" "callbacks_ok t = callbacks_ok s"
  using assms by (simp_all add: frame_def static_def callbacks_ok_def)

lemma close_callbacks:
  assumes "stream_ok s" "callbacks_ok s"
  shows "callbacks_ok (stream_close W s)"
    "ss_invoked (stream_close W s) @ ss_closeCallbacks (stream_close W s) = ss_invoked s @ ss_closeCallbacks s"
  using assms by (auto simp: stream_ok_def callbacks_ok_def stream_close_def executeCleanup_def Let_def)

lemma send_callbacks:
  assumes "stream_ok s" "callbacks_ok s"
  shows "callbacks_ok (snd (stream_send W now event data s)) \<and>
    ss_invoked (snd (stream_send W now event data s)) @ ss_closeCallbacks (snd (stream_send W now event data s)) =
      ss_invoked s @ ss_closeCallbacks s"
proof -
  let ?c = "ss_eventCounter s + 1"
  let ?s = "s\<lparr>ss_eventCounter := ?c, ss_lastEventId := Some (show_int ?c)\<rparr>"
  have mb: "max_buffer ?s = max_buffer s" by simp
  have ok: "stream_ok ?s" using assms(1) mb by (fastforce simp: stream_ok_def buffer_ok_def)
  have cb: "callbacks_ok ?s" using assms(2) by (simp add: callbacks_ok_def)
  have "callbacks_ok (flush_loop W now (buffer_event ev ?s)) \<and>
      ss_invoked (flush_loop W now (buffer_event ev ?s)) @ ss_closeCallbacks (flush_loop W now (buffer_event ev ?s)) =
        ss_invoked s @ ss_closeCallbacks s" for ev
    using cb unfolding frame_callbacks [OF flush_loop_frame]
    by (simp add: buffer_event_def callbacks_ok_def Let_def split_beta)
  then show ?thesis
    using assms cb close_callbacks [OF ok cb, of W] unfolding stream_send_def Let_def by (simp split: if_split)
qed

lemma run_op_callbacks:
  assumes "stream_ok s" "callbacks_ok s"
  shows "callbacks_ok (run_op W a s)"
    "ss_invoked (run_op W a s) @ ss_closeCallbacks (run_op W a s) = (ss_invoked s @ ss_closeCallbacks s) @ registered [a]"
proof -
  have "callbacks_ok (run_op W a s) \<and>
    ss_invoked (run_op W a s) @ ss_closeCallbacks (run_op W a s) = (ss_invoked s @ ss_closeCallbacks s) @ registered [a]"
    using assms
  proof (cases a)
    case (OpOnClose cb)
    then show ?thesis using assms by (auto simp: stream_onClose_def callbacks_ok_def split: if_splits)
  qed (auto simp: stream_sendError_def handleDisconnect_def frame_callbacks [OF stream_frames(1)]
      frame_callbacks [OF stream_frames(2)] frame_callbacks [OF stream_frames(3)]
      frame_callbacks [OF stream_frames(4)] frame_callbacks [OF stream_frames(5)]
      close_callbacks send_callbacks)
  then show "callbacks_ok (run_op W a s)"
    "ss_invoked (run_op W a s) @ ss_closeCallbacks (run_op W a s) = (ss_invoked s @ ss_closeCallbacks s) @ registered [a]"
    by simp_all
qed

lemma registered_Cons: "registered (a # as) = registered [a] @ registered as"
  by (cases a) simp_all

lemma run_ops_callbacks:
  assumes "stream_ok s" "callbacks_ok s"
  shows "callbacks_ok (run_ops W as s) \<and>
    ss_invoked (run_ops W as s) @ ss_closeCallbacks (run_ops W as s) = (ss_invoked s @ ss_closeCallbacks s) @ registered as"
  using assms
proof (induction as arbitrary: s)
  case (Cons a as)
  then show ?case
    using Cons.IH [OF run_op_ok [OF Cons.prems(1)] run_op_callbacks(1) [OF Cons.prems], of W a]
      run_op_callbacks(2) [OF Cons.prems, of W a] registered_Cons [of a as] by simp
qed simp

lemma new_stream_callbacks:
  "callbacks_ok (new_stream W i opts bp lastId now)"
  "ss_invoked (new_stream W i opts bp lastId now) @ ss_closeCallbacks (new_stream W i opts bp lastId now) = []"
proof -
  show "callbacks_ok (new_stream W i opts bp lastId now)"
    unfolding new_stream_def Let_def frame_callbacks [OF writeRaw_frame] by (simp add: callbacks_ok_def)
  show "ss_invoked (new_stream W i opts bp lastId now) @ ss_closeCallbacks (new_stream W i opts bp lastId now) = []"
    unfolding new_stream_def Let_def frame_callbacks [OF writeRaw_frame] by simp
qed

text \<open>Whatever is done with a stream, and however often or in how many ways it is closed, each
  callback given to \<open>onClose\<close> runs exactly once, in registration order, and only once the stream
  is closed; callbacks registered on a closed stream run at once.\<close>

theorem close_callbacks_run_exactly_once:
  "let s = run_ops W as (new_stream W i opts bp lastId now)
   in ss_invoked s = (if ss_state s = Closed then registered as else []) \<and>
      ss_closeCallbacks s = (if ss_state s = Closed then [] else registered as)"
  using run_ops_callbacks [of "new_stream W i opts bp lastId now" W as, OF new_stream_ok new_stream_callbacks(1)]
    new_stream_callbacks(2) [of W i opts bp lastId now]
  by (auto simp: Let_def callbacks_ok_def split: if_splits)

lemma flush_loop_closed [simp]: "\<not> ss_writable s \<Longrightarrow> flush_loop W now s = s"
  by (simp add: flush_loop_done)

lemma resume_flushes_closed: "\<not> ss_writable s \<Longrightarrow> resume_flushes W now n s = s"
  by (induction n) simp_all

lemma run_op_closed:
  assumes "ss_state s = Closed" "\<not> ss_writable s"
  shows "ss_state (run_op W a s) = Closed \<and> \<not> ss_writable (run_op W a s) \<and>
    ss_wire (run_op W a s) = ss_wire s \<and> ss_eventCounter (run_op W a s) = ss_eventCounter s"
  using assms
  by (cases a) (simp_all add: stream_send_def stream_sendError_def stream_close_def stream_onClose_def
      stream_ping_def stream_setRetry_def stream_flush_def on_drain_def heartbeat_tick_def handleDisconnect_def
      isWritable_def resume_flushes_closed)

text \<open>A closed stream is closed for good: no later operation, drain event, heartbeat or
  disconnect writes anything to the response or reopens it, and \<open>send\<close> is refused with the
  closed-stream error without using up an event id.\<close>

theorem closed_stream_is_final:
  assumes "reachable (stream_init W) (stream_step W) s" "ss_state s = Closed"
  shows "ss_state (run_ops W as s) = Closed \<and> ss_wire (run_ops W as s) = ss_wire s \<and>
    fst (stream_send W now event data (run_ops W as s)) = Some StreamClosedError \<and>
    ss_eventCounter (run_ops W as s) = ss_eventCounter s"
proof -
  have "\<not> ss_writable s" using sse.reachable_inv [OF assms(1)] assms(2) by (simp add: stream_ok_def)
  then have "ss_state (run_ops W as s) = Closed \<and> \<not> ss_writable (run_ops W as s) \<and>
      ss_wire (run_ops W as s) = ss_wire s \<and> ss_eventCounter (run_ops W as s) = ss_eventCounter s"
    using assms(2)
  proof (induction as arbitrary: s)
    case (Cons a as)
    then show ?case using run_op_closed [of s W a] Cons.IH [of "run_op W a s"] by simp
  qed simp
  then show ?thesis by (simp add: stream_send_def isWritable_def)
qed

theorem closed_stream_is_final_witness:
  "ss_wire (run_ops (\<lambda>_. WTrue) [OpSend 3 ''late'' DNull, OpDrain 4]
      (run_op (\<lambda>_. WTrue) OpClose (new_stream (\<lambda>_. WTrue) ''s'' sse_DEFAULT_OPTIONS None None 0))) =
   ss_wire (run_op (\<lambda>_. WTrue) OpClose (new_stream (\<lambda>_. WTrue) ''s'' sse_DEFAULT_OPTIONS None None 0))"
proof (rule closed_stream_is_final [THEN conjunct2, THEN conjunct1])
  show "reachable (stream_init (\<lambda>_. WTrue)) (stream_step (\<lambda>_. WTrue))
      (run_op (\<lambda>_. WTrue) OpClose (new_stream (\<lambda>_. WTrue) ''s'' sse_DEFAULT_OPTIONS None None 0))"
    by (rule reach_step, rule reach_init, unfold stream_init_def, blast, rule stream_op)
  show "ss_state (run_op (\<lambda>_. WTrue) OpClose (new_stream (\<lambda>_. WTrue) ''s'' sse_DEFAULT_OPTIONS None None 0)) = Closed"
    by (simp add: stream_close_def executeCleanup_def Let_def)
qed

end
