(* ===== verification/Sse_System.thy ===== *)
theory Sse_System
  imports Sse_Stream
begin

text \<open>
  Streams and the connection registry together. A stream registers in its constructor, before
  anything is written (\<open>SSEStreamImpl\<close> calls \<open>registry.add\<close>), and \<open>_executeCleanup\<close> deregisters
  it; \<open>cleanup\<close> and \<open>shutdown\<close> of the registry close streams, which call back into the
  registry. \<open>sse_system\<close> is the registry and all stream objects by id; \<open>W i\<close> are the outcomes of
  the writes to the response of stream \<open>i\<close>.
\<close>

record sse_system =
  sy_registry :: conn_registry
  sy_streams :: "string \<Rightarrow> sse_stream option"

definition sys_new :: sse_system where
  "sys_new = \<lparr>sy_registry = createConnectionRegistry, sy_streams = (\<lambda>_. None)\<rparr>"

definition js_or :: "string option \<Rightarrow> string option \<Rightarrow> string option" where
  "js_or a b = (case ip_key a of Some k \<Rightarrow> Some k | None \<Rightarrow> b)"

definition client_address :: "string option \<Rightarrow> string option \<Rightarrow> string option \<Rightarrow> string option" where
  \<comment> \<open>\<open>x-forwarded-for\<close>, else \<open>x-real-ip\<close>, else the socket's address\<close>
  "client_address forwarded realIp remote = js_or forwarded (js_or realIp remote)"

record open_request =
  rq_forwarded :: "string option"
  rq_real :: "string option"
  rq_remote :: "string option"
  rq_agent :: "string option"
  rq_lastEventId :: "string option"

definition createSSEStream ::
  "registry_config \<Rightarrow> (string \<Rightarrow> nat \<Rightarrow> write_result) \<Rightarrow> string \<Rightarrow> open_request \<Rightarrow> sse_options
     \<Rightarrow> backpressure option \<Rightarrow> int \<Rightarrow> sse_system \<Rightarrow> registry_error + sse_system" where
  "createSSEStream cfg W i rq opts bp now y =
     (case registry_add cfg now i (client_address (rq_forwarded rq) (rq_real rq) (rq_remote rq)) (rq_agent rq)
             (sy_registry y) of
        Inl e \<Rightarrow> Inl e
      | Inr R \<Rightarrow> Inr \<lparr>sy_registry = R,
          sy_streams = (sy_streams y)(i \<mapsto> new_stream (W i) i opts bp (rq_lastEventId rq) now)\<rparr>)"

definition sys_op :: "(string \<Rightarrow> nat \<Rightarrow> write_result) \<Rightarrow> string \<Rightarrow> sse_op \<Rightarrow> sse_system \<Rightarrow> sse_system" where
  \<comment> \<open>an operation on stream \<open>i\<close>; when it runs \<open>_executeCleanup\<close>, the stream deregisters\<close>
  "sys_op W i a y =
     (case sy_streams y i of
        None \<Rightarrow> y
      | Some s \<Rightarrow>
          (let t = run_op (W i) a s
           in \<lparr>sy_registry = (if \<not> ss_cleanupExecuted s \<and> ss_cleanupExecuted t
                              then registry_remove i (sy_registry y) else sy_registry y),
               sy_streams = (sy_streams y)(i \<mapsto> t)\<rparr>))"

definition close_all :: "(string \<Rightarrow> nat \<Rightarrow> write_result) \<Rightarrow> string list \<Rightarrow> sse_system \<Rightarrow> sse_system" where
  "close_all W is y = foldl (\<lambda>y i. sys_op W i OpClose y) y is"

definition seems_closed :: "sse_system \<Rightarrow> string \<Rightarrow> bool" where
  "seems_closed y i = (case sy_streams y i of None \<Rightarrow> True | Some s \<Rightarrow> ss_state s = Closed \<or> \<not> isWritable s)"

definition sys_cleanup :: "registry_config \<Rightarrow> (string \<Rightarrow> nat \<Rightarrow> write_result) \<Rightarrow> int \<Rightarrow> sse_system \<Rightarrow> sse_system" where
  "sys_cleanup cfg W now y =
     (let is = stale_ids cfg now (seems_closed y) (sy_registry y); y = close_all W is y
      in y\<lparr>sy_registry := remove_all is (sy_registry y)\<rparr>)"

definition sys_shutdown :: "(string \<Rightarrow> nat \<Rightarrow> write_result) \<Rightarrow> sse_system \<Rightarrow> sse_system" where
  "sys_shutdown W y =
     (let is = registry_getIds (sy_registry y); y = close_all W is (y\<lparr>sy_registry := stopCleanupTimer (sy_registry y)\<rparr>)
      in y\<lparr>sy_registry := (sy_registry y)\<lparr>connections := [], clientConnectionCounts := []\<rparr>\<rparr>)"

inductive sys_step :: "registry_config \<Rightarrow> (string \<Rightarrow> nat \<Rightarrow> write_result) \<Rightarrow> sse_system \<Rightarrow> sse_system \<Rightarrow> bool"
  for cfg W where
  sys_open: "createSSEStream cfg W i rq opts bp now y = Inr z \<Longrightarrow> sys_step cfg W y z"
| sys_oper: "sys_step cfg W y (sys_op W i a y)"
| sys_clean: "sys_step cfg W y (sys_cleanup cfg W now y)"
| sys_shut: "sys_step cfg W y (sys_shutdown W y)"

inductive_cases sys_stepE: "sys_step cfg W y z"

section \<open>The invariant\<close>

definition open_streams :: "sse_system \<Rightarrow> string set" where
  "open_streams y = {i. \<exists>s. sy_streams y i = Some s \<and> ss_state s \<noteq> Closed}"

definition sys_ok :: "registry_config \<Rightarrow> sse_system \<Rightarrow> bool" where
  "sys_ok cfg y \<longleftrightarrow> registry_ok cfg (sy_registry y) \<and>
     set (map_keys (connections (sy_registry y))) = open_streams y \<and>
     (\<forall>i s. sy_streams y i = Some s \<longrightarrow> stream_ok s)"

lemma sys_okD:
  assumes "sys_ok cfg y"
  shows "registry_ok cfg (sy_registry y)" "fst ` set (connections (sy_registry y)) = open_streams y"
    "sy_streams y i = Some s \<Longrightarrow> stream_ok s"
  using assms unfolding sys_ok_def by auto

lemma open_streams_upd:
  "open_streams \<lparr>sy_registry = R, sy_streams = f(i \<mapsto> t)\<rparr> =
    (if ss_state t = Closed then {j. \<exists>s. f j = Some s \<and> ss_state s \<noteq> Closed} - {i}
     else insert i {j. \<exists>s. f j = Some s \<and> ss_state s \<noteq> Closed})"
  by (auto simp: open_streams_def)

lemma stream_okD: "stream_ok s \<Longrightarrow> ss_cleanupExecuted s \<longleftrightarrow> ss_state s = Closed"
  by (auto simp: stream_ok_def)

lemma run_op_stays_closed:
  "stream_ok s \<Longrightarrow> ss_state s = Closed \<Longrightarrow> ss_state (run_op W a s) = Closed"
  using run_op_closed [of s W a] by (auto simp: stream_ok_def)

lemma sys_op_ok:
  assumes "sys_ok cfg y" shows "sys_ok cfg (sys_op W i a y)"
proof (cases "sy_streams y i")
  case None
  then show ?thesis using assms by (simp add: sys_op_def)
next
  case (Some s)
  let ?t = "run_op (W i) a s"
  note ok = sys_okD [OF assms]
  have s: "stream_ok s" and t: "stream_ok ?t" using ok(3) [OF Some] run_op_ok by blast+
  have keys: "fst ` set (connections (registry_remove i (sy_registry y))) = open_streams y - {i}"
    unfolding registry_remove_fields ok(2) [symmetric] by (metis delete_keys list.set_map set_removeAll)
  have "fst ` set (connections (sy_registry (sys_op W i a y))) = open_streams (sys_op W i a y)"
    using run_op_stays_closed [OF s, of "W i" a] keys ok(2) Some
    by (auto simp: sys_op_def Let_def stream_okD [OF s] stream_okD [OF t] open_streams_upd open_streams_def)
  moreover have "registry_ok cfg (sy_registry (sys_op W i a y))"
    using ok(1) Some by (simp add: sys_op_def Let_def registry_remove_ok)
  moreover have "sy_streams (sys_op W i a y) j = Some u \<Longrightarrow> stream_ok u" for j u
    using t ok(3) Some by (auto simp: sys_op_def Let_def split: if_splits)
  ultimately show ?thesis by (simp add: sys_ok_def)
qed

lemma close_all_ok: "sys_ok cfg y \<Longrightarrow> sys_ok cfg (close_all W is y)"
  unfolding close_all_def by (induction "is" arbitrary: y) (simp_all add: sys_op_ok)

lemma stream_close_state [simp]: "ss_state (stream_close W s) = Closed"
  by (simp add: stream_close_def executeCleanup_def Let_def)

lemma stream_close_idem [simp]: "stream_close W (stream_close W s) = stream_close W s"
  by (simp add: stream_close_def [of _ "stream_close W s"])

lemma sys_op_streams: "sy_streams (sys_op W i a y) = (sy_streams y)(i := map_option (run_op (W i) a) (sy_streams y i))"
  by (auto simp: sys_op_def Let_def split: option.splits)

lemma close_all_streams:
  "sy_streams (close_all W is y) i =
     (if i \<in> set is then map_option (stream_close (W i)) (sy_streams y i) else sy_streams y i)"
  unfolding close_all_def
  by (induction "is" arbitrary: y) (auto simp: sys_op_streams option.map_comp comp_def intro: option.map_cong)

lemma close_all_open: "open_streams (close_all W is y) = open_streams y - set is"
  by (auto simp: open_streams_def close_all_streams split: if_splits)

lemma registry_remove_timer: "\<not> cleanupTimer R \<Longrightarrow> \<not> cleanupTimer (registry_remove i R)"
  by (simp add: registry_remove_def Let_def split: option.split)

lemma close_all_timer: "\<not> cleanupTimer (sy_registry y) \<Longrightarrow> \<not> cleanupTimer (sy_registry (close_all W is y))"
  unfolding close_all_def
proof (induction "is" arbitrary: y)
  case (Cons i "is")
  have "\<not> cleanupTimer (sy_registry (sys_op W i OpClose y))"
    using Cons.prems registry_remove_timer by (simp add: sys_op_def Let_def split: option.split)
  then show ?case using Cons.IH by simp
qed simp

lemma remove_all_absent: "(\<And>i. i \<in> set is \<Longrightarrow> map_get (connections R) i = None) \<Longrightarrow> remove_all is R = R"
  unfolding remove_all_def by (induction "is") (simp_all add: registry_remove_def)

lemma sys_cleanup_closes:
  assumes "sys_ok cfg y"
  shows "sys_cleanup cfg W now y = close_all W (stale_ids cfg now (seems_closed y) (sy_registry y)) y"
proof -
  let ?is = "stale_ids cfg now (seems_closed y) (sy_registry y)"
  have "map_get (connections (sy_registry (close_all W ?is y))) i = None" if "i \<in> set ?is" for i
    using sys_okD(2) [OF close_all_ok [OF assms], of W ?is] that by (auto simp: close_all_open map_of_eq_None_iff)
  then show ?thesis by (simp add: sys_cleanup_def Let_def remove_all_absent)
qed

lemma sys_shutdown_ok:
  assumes "sys_ok cfg y" shows "sys_ok cfg (sys_shutdown W y)"
proof -
  let ?y = "y\<lparr>sy_registry := stopCleanupTimer (sy_registry y)\<rparr>"
  let ?is = "registry_getIds (sy_registry y)"
  let ?z = "close_all W ?is ?y"
  have "open_streams ?y = set ?is" using sys_okD(2) [OF assms] by (simp add: open_streams_def registry_getIds_def)
  then have "open_streams ?z = {}" by (simp add: close_all_open)
  moreover have "\<not> cleanupTimer (sy_registry ?z)" by (rule close_all_timer) simp
  moreover have "stream_ok s" if "sy_streams ?z i = Some s" for i s
    using that sys_okD(3) [OF assms] stream_close_ok by (auto simp: close_all_streams split: if_splits)
  ultimately show ?thesis
    by (simp add: sys_shutdown_def Let_def sys_ok_def registry_ok_def counts_positive_def client_count_def
        client_connections_def open_streams_def)
qed

lemma createSSEStream_ok:
  assumes "sys_ok cfg y" "createSSEStream cfg W i rq opts bp now y = Inr z"
  shows "sys_ok cfg z"
proof -
  note ok = sys_okD [OF assms(1)]
  let ?ip = "client_address (rq_forwarded rq) (rq_real rq) (rq_remote rq)"
  let ?s = "new_stream (W i) i opts bp (rq_lastEventId rq) now"
  obtain R where R: "registry_add cfg now i ?ip (rq_agent rq) (sy_registry y) = Inr R"
    and z: "z = \<lparr>sy_registry = R, sy_streams = (sy_streams y)(i \<mapsto> ?s)\<rparr>"
    using assms(2) by (auto simp: createSSEStream_def split: sum.splits)
  have "ss_state ?s \<noteq> Closed"
    unfolding new_stream_def Let_def frameD(1) [OF writeRaw_frame] by simp
  then have "open_streams z = insert i (open_streams y)" unfolding z open_streams_upd by (simp add: open_streams_def)
  moreover have "fst ` set (connections R) = insert i (fst ` set (connections (sy_registry y)))"
    unfolding registry_add_cases(4) [OF R] using dom_update [of i _ "connections (sy_registry y)"]
    by (simp flip: dom_map_of_conv_image_fst)
  ultimately show ?thesis
    using registry_add_ok [OF ok(1) R] ok(2,3) new_stream_ok by (auto simp: sys_ok_def z split: if_splits)
qed

interpretation sse_sys: inductive_invariant "\<lambda>y. y = sys_new" "sys_step cfg W" "sys_ok cfg" for cfg W
proof unfold_locales
  show "y = sys_new \<Longrightarrow> sys_ok cfg y" for y
    using registry_ok_init by (simp add: sys_ok_def sys_new_def open_streams_def createConnectionRegistry_def)
  show "sys_step cfg W y z \<Longrightarrow> sys_ok cfg y \<Longrightarrow> sys_ok cfg z" for y z
    by (erule sys_stepE) (auto simp: sys_cleanup_closes intro: createSSEStream_ok sys_op_ok close_all_ok sys_shutdown_ok)
qed

text \<open>C33: in every reachable state of streams and registry together, the registered ids are
  exactly the streams that are not closed; their number is the registry's count and stays
  within \<open>maxConnections\<close>, the count kept for each client address is exact and stays within
  \<open>maxConnectionsPerClient\<close>, and the cleanup timer runs exactly while there are connections.\<close>

theorem registry_tracks_open_streams:
  assumes "reachable (\<lambda>y. y = sys_new) (sys_step cfg W) y"
  shows "set (registry_getIds (sy_registry y)) = open_streams y \<and>
    registry_count (sy_registry y) = int (card (open_streams y)) \<and>
    (open_streams y = {} \<or> int (card (open_streams y)) \<le> maxConnections cfg) \<and>
    client_count (sy_registry y) k = client_connections k (connections (sy_registry y)) \<and>
    (client_count (sy_registry y) k = 0 \<or> client_count (sy_registry y) k \<le> maxConnectionsPerClient cfg) \<and>
    (cleanupTimer (sy_registry y) \<longleftrightarrow> open_streams y \<noteq> {} \<and> cleanupInterval cfg > 0)"
proof -
  have ok: "sys_ok cfg y" by (rule sse_sys.reachable_inv [OF assms])
  note reg = registry_okD [OF sys_okD(1) [OF ok]]
  have keys: "set (map_keys (connections (sy_registry y))) = open_streams y" using ok by (simp add: sys_ok_def)
  have len: "length (connections (sy_registry y)) = card (open_streams y)"
    using reg(1) keys distinct_card [of "map fst (connections (sy_registry y))"] by simp
  have "connections (sy_registry y) = [] \<longleftrightarrow> open_streams y = {}" using keys by auto
  then show ?thesis
    using reg(2,6) reg(3,4) [of k] keys len by (simp add: registry_getIds_def registry_count_def)
qed

definition sample_request :: open_request where
  "sample_request = \<lparr>rq_forwarded = None, rq_real = None, rq_remote = Some ''10.0.0.1'', rq_agent = None,
     rq_lastEventId = None\<rparr>"

definition sample_system :: sse_system where
  \<comment> \<open>one open connection from one address\<close>
  "sample_system = (case createSSEStream registry_DEFAULT_CONFIG (\<lambda>_ _. WTrue) ''a'' sample_request
     sse_DEFAULT_OPTIONS None 0 sys_new of Inr y \<Rightarrow> y | Inl _ \<Rightarrow> sys_new)"

lemma sample_system_open:
  "createSSEStream registry_DEFAULT_CONFIG (\<lambda>_ _. WTrue) ''a'' sample_request sse_DEFAULT_OPTIONS None 0 sys_new =
     Inr sample_system"
  "registry_count (sy_registry sample_system) = 1"
  by (simp_all add: sample_system_def createSSEStream_def sample_request_def client_address_def js_or_def
      sys_new_def createConnectionRegistry_def registry_add_def map_has_def registry_DEFAULT_CONFIG_def
      client_count_def registry_count_def updateClientCount_def startCleanupTimer_def Let_def)

theorem registry_tracks_open_streams_witness:
  "int (card (open_streams sample_system)) = 1"
proof -
  have "reachable (\<lambda>y. y = sys_new) (sys_step registry_DEFAULT_CONFIG (\<lambda>_ _. WTrue)) sample_system"
    by (rule reach_step, rule reach_init, rule refl, rule sys_open, rule sample_system_open(1))
  then show ?thesis using registry_tracks_open_streams [of registry_DEFAULT_CONFIG] sample_system_open(2) by metis
qed

section \<open>Idle timeout\<close>

abbreviation sys_ops :: "(string \<Rightarrow> nat \<Rightarrow> write_result) \<Rightarrow> (string \<times> sse_op) list \<Rightarrow> sse_system \<Rightarrow> sse_system" where
  "sys_ops W as y \<equiv> foldl (\<lambda>y (i, a). sys_op W i a y) y as"

lemma sys_op_entry:
  "map_get (connections (sy_registry (sys_op W j a y))) i \<in> {None, map_get (connections (sy_registry y)) i}"
  by (auto simp: sys_op_def Let_def registry_remove_fields split: option.splits)

lemma sys_ops_entry:
  "map_get (connections (sy_registry (sys_ops W as y))) i \<in> {None, map_get (connections (sy_registry y)) i}"
proof (induction as arbitrary: y)
  case (Cons x as)
  obtain j a where x: "x = (j, a)" by (cases x)
  show ?case using Cons [of "sys_op W j a y"] sys_op_entry [of W j a y i] by (auto simp: x)
qed simp

lemma sys_ops_ok: "sys_ok cfg y \<Longrightarrow> sys_ok cfg (sys_ops W as y)"
  by (induction as arbitrary: y) (auto simp: sys_op_ok)

text \<open>The inactivity timeout of the registry is a maximum connection age. \<open>lastActivity\<close> is
  set when the connection is added and never again, so a connection opened at time \<open>t\<close> is
  closed by the first cleanup after \<open>t + inactiveTimeout\<close>, however much was sent on it in
  between.\<close>

theorem cleanup_closes_active_connection:
  assumes "reachable (\<lambda>y. y = sys_new) (sys_step cfg W) y"
    and "createSSEStream cfg W i rq opts bp t y = Inr z"
    and "now > t + inactiveTimeout cfg"
  shows "i \<in> open_streams z \<and> i \<notin> open_streams (sys_cleanup cfg W now (sys_ops W as z))"
proof -
  let ?e = "\<lparr>connectedAt = t, lastActivity = t,
    clientIp = client_address (rq_forwarded rq) (rq_real rq) (rq_remote rq), userAgent = rq_agent rq\<rparr>"
  have z: "sys_ok cfg z" by (rule createSSEStream_ok [OF sse_sys.reachable_inv [OF assms(1)] assms(2)])
  note y = sys_ops_ok [OF z, of W as]
  have e: "map_get (connections (sy_registry z)) i = Some ?e"
    using assms(2) registry_add_cases(4) by (fastforce simp: createSSEStream_def split: sum.splits)
  then have "i \<in> open_streams z"
    using sys_okD(2) [OF z] by (metis domI dom_map_of_conv_image_fst)
  moreover have "i \<in> set (stale_ids cfg now c (sy_registry (sys_ops W as z)))"
    if "i \<in> open_streams (sys_ops W as z)" for c
  proof -
    have "map_get (connections (sy_registry (sys_ops W as z))) i \<noteq> None"
      using that sys_okD(2) [OF y] by (simp add: map_of_eq_None_iff)
    then have "map_get (connections (sy_registry (sys_ops W as z))) i = Some ?e"
      using sys_ops_entry [where y = z] e by (metis insertE singletonD)
    then have "(i, ?e) \<in> set (connections (sy_registry (sys_ops W as z)))" by (rule map_of_SomeD)
    then show ?thesis using assms(3) by (force simp: stale_ids_def image_iff)
  qed
  ultimately show ?thesis
    unfolding sys_cleanup_closes [OF y] close_all_open by blast
qed

theorem cleanup_closes_active_connection_witness:
  "''a'' \<notin> open_streams (sys_cleanup registry_DEFAULT_CONFIG (\<lambda>_ _. WTrue) 1800001
     (sys_ops (\<lambda>_ _. WTrue) [(''a'', OpSend 1800000 ''tick'' DNull)] sample_system))"
  by (rule cleanup_closes_active_connection [OF reach_init sample_system_open(1), THEN conjunct2])
     (simp_all add: registry_DEFAULT_CONFIG_def)

section \<open>Reconnection\<close>

lemma numbered_empty [simp]: "numbered n es = [] \<longleftrightarrow> es = []"
  by (induction n es rule: numbered.induct) simp_all

lemma last_numbered: "es \<noteq> [] \<Longrightarrow> snd (snd (last (numbered n es))) = show_int (n + int (length es) - 1)"
  by (induction n es rule: numbered.induct) (auto simp: algebra_simps)

text \<open>A client that reconnects continues the numbering. Whatever was sent on a first
  connection, when the client opens a second one with the id of the last event it received as
  \<open>Last-Event-ID\<close>, the events sent there carry the ids that follow, also when the first
  connection was itself a continuation.\<close>

theorem reconnect_continues_numbering:
  assumes "\<And>n. W n = WTrue" "\<And>n. V n = WTrue" "es \<noteq> []"
    and "0 < max_buffer (new_stream W i opts bp (Some (show_int n)) t)"
    and "\<And>e. e \<in> set es \<Longrightarrow> sendable (ss_options (new_stream W i opts bp (Some (show_int n)) t)) e"
    and "received = eventsource_parse (concat (ss_wire (send_all W t1 es (new_stream W i opts bp (Some (show_int n)) t))))"
    and "0 < max_buffer (new_stream V j opts' bp' (Some (snd (snd (last received)))) t')"
    and "\<And>e. e \<in> set fs \<Longrightarrow> sendable (ss_options (new_stream V j opts' bp' (Some (snd (snd (last received)))) t')) e"
  shows "received @ eventsource_parse (concat (ss_wire (send_all V t2 fs
      (new_stream V j opts' bp' (Some (snd (snd (last received)))) t')))) = numbered (n + 1) (es @ fs)"
proof -
  have r: "received = numbered (n + 1) es"
    using stream_delivers [of W i opts bp "Some (show_int n)" t es t1, OF assms(1,4,5)] assms(6) by simp
  then have l: "snd (snd (last received)) = show_int (n + int (length es))"
    using last_numbered [OF assms(3), of "n + 1"] by simp
  have app: "numbered m (es @ fs) = numbered m es @ numbered (m + int (length es)) fs" for m
    by (induction m es rule: numbered.induct) (auto simp: algebra_simps)
  have "eventsource_parse (concat (ss_wire (send_all V t2 fs
      (new_stream V j opts' bp' (Some (snd (snd (last received)))) t')))) = numbered (n + int (length es) + 1) fs"
    using stream_delivers [of V j opts' bp' "Some (snd (snd (last received)))" t' fs t2, OF assms(2,7,8)]
    by (simp add: l)
  then show ?thesis unfolding app using r by (simp add: algebra_simps)
qed

theorem reconnect_continues_numbering_witness:
  "\<exists>received. received @ eventsource_parse (concat (ss_wire (send_all (\<lambda>_. WTrue) 9 [(''tock'', DNull)]
      (new_stream (\<lambda>_. WTrue) ''b'' sse_DEFAULT_OPTIONS None (Some (snd (snd (last received)))) 8)))) =
    [(''tick'', ''null'', ''8''), (''tock'', ''null'', ''9'')]"
proof -
  have opt: "ss_options (new_stream (\<lambda>_. WTrue) i sse_DEFAULT_OPTIONS None l t) = sse_DEFAULT_OPTIONS"
    "max_buffer (new_stream (\<lambda>_. WTrue) i sse_DEFAULT_OPTIONS None l t) = 1000" for i l t
    by (simp_all add: new_stream_def writeRaw_def max_buffer_def sse_DEFAULT_OPTIONS_def Let_def)
  have ok: "sendable sse_DEFAULT_OPTIONS (''tick'', DNull)" "sendable sse_DEFAULT_OPTIONS (''tock'', DNull)"
    by (simp_all add: sendable_def plain_event_def estimateEventSize_def sse_DEFAULT_OPTIONS_def)
  have "numbered (7 + 1) ([(''tick'', DNull)] @ [(''tock'', DNull)]) =
      [(''tick'', ''null'', ''8''), (''tock'', ''null'', ''9'')]" by code_simp
  then show ?thesis
    using reconnect_continues_numbering [where W = "\<lambda>_. WTrue" and V = "\<lambda>_. WTrue" and n = 7
        and es = "[(''tick'', DNull)]" and fs = "[(''tock'', DNull)]" and i = "''a''" and j = "''b''"
        and opts = sse_DEFAULT_OPTIONS and opts' = sse_DEFAULT_OPTIONS and bp = None and bp' = None
        and t = 0 and t' = 8 and ?t1.0 = 1 and ?t2.0 = 9, OF refl refl _ _ _ refl] ok
    by (simp add: opt del: send_all.simps numbered.simps) blast
qed

end
