(* ===== verification/Event_Bus.thy ===== *)
theory Event_Bus
  imports Blaize_Errors
begin

text \<open>
  The event bus (\<open>events/memory-event-bus.ts\<close>) with its pattern matching and adapter, and the
  validating wrapper (\<open>events/typed-event-bus.ts\<close>).

  A handler is known by the id of its subscription; \<open>eb_calls\<close> records the handlers that were
  called and with which event. What a handler does, and whether it throws, does not matter to the
  bus. Subscription ids are arguments (the code draws random UUIDs). An adapter is code outside
  this theory: \<open>eb_outbox\<close> collects the events handed to it, and \<open>adapter_receive\<close> is the callback
  it was given. A user's \<open>RegExp\<close> is a predicate on event types.
\<close>

section \<open>Patterns\<close>

datatype glob = GLit char | GStar

fun rx_glob :: "glob list \<Rightarrow> string \<Rightarrow> bool" where
  \<comment> \<open>the anchored regular expression in which \<open>*\<close> has become \<open>[^:]*\<close>\<close>
  "rx_glob [] s = (s = [])"
| "rx_glob (GLit c # g) [] = False"
| "rx_glob (GLit c # g) (d # s) = (c = d \<and> rx_glob g s)"
| "rx_glob (GStar # g) [] = rx_glob g []"
| "rx_glob (GStar # g) (d # s) = (rx_glob g (d # s) \<or> d \<noteq> CHR '':'' \<and> rx_glob (GStar # g) s)"

definition glob_of :: "string \<Rightarrow> glob list" where
  "glob_of pattern = map (\<lambda>c. if c = CHR ''*'' then GStar else GLit c) pattern"

definition globToRegex :: "string \<Rightarrow> string \<Rightarrow> bool" where
  \<comment> \<open>a single star is \<open>/^.*$/\<close>, whose dot matches no line terminator\<close>
  "globToRegex pattern s =
     (if pattern = ''*'' then CHR 0x0A \<notin> set s \<and> CHR 0x0D \<notin> set s else rx_glob (glob_of pattern) s)"

datatype pattern = PString string | PRegExp "string \<Rightarrow> bool"

fun createMatcher :: "pattern \<Rightarrow> string \<Rightarrow> bool" where
  "createMatcher (PRegExp r) s = r s"
| "createMatcher (PString p) s = (if CHR ''*'' \<in> set p then globToRegex p s else s = p)"

section \<open>The bus\<close>

record 'd event =
  ev_type :: string
  ev_data :: 'd
  ev_timestamp :: int
  ev_serverId :: string
  ev_correlationId :: string

record 'd subscription =
  su_pattern :: pattern
  su_validate :: "(string \<Rightarrow> 'd \<Rightarrow> 'd option) option"   \<comment> \<open>the wrapper of the typed bus\<close>

record 'd bus =
  eb_serverId :: string
  eb_subs :: "(string, 'd subscription) js_map"
  eb_adapter :: bool
  eb_listening :: bool   \<comment> \<open>\<open>adapterUnsubscribe\<close> is set: the callback is registered\<close>
  eb_calls :: "(string \<times> 'd event) list"
  eb_outbox :: "'d event list"

definition new_bus :: "string \<Rightarrow> 'd bus" where
  "new_bus sid = \<lparr>eb_serverId = sid, eb_subs = [], eb_adapter = False, eb_listening = False, eb_calls = [], eb_outbox = []\<rparr>"

datatype bus_error = EmptyType | EmptyPattern | EventInvalid string | UnknownEvent string | AdapterFailed

definition subscribe :: "string \<Rightarrow> pattern \<Rightarrow> (string \<Rightarrow> 'd \<Rightarrow> 'd option) option \<Rightarrow> 'd bus \<Rightarrow> bus_error + 'd bus" where
  "subscribe i p v b =
     (case p of
        PString s \<Rightarrow> if blank s then Inl EmptyPattern
                     else Inr (b\<lparr>eb_subs := map_set i \<lparr>su_pattern = p, su_validate = v\<rparr> (eb_subs b)\<rparr>)
      | PRegExp _ \<Rightarrow> Inr (b\<lparr>eb_subs := map_set i \<lparr>su_pattern = p, su_validate = v\<rparr> (eb_subs b)\<rparr>))"

definition unsubscribe :: "string \<Rightarrow> 'd bus \<Rightarrow> 'd bus" where
  "unsubscribe i b = b\<lparr>eb_subs := map_delete i (eb_subs b)\<rparr>"

definition delivery :: "'d event \<Rightarrow> string \<times> 'd subscription \<Rightarrow> (string \<times> 'd event) option" where
  \<comment> \<open>the call of one subscription's handler, if its pattern matches and validation passes\<close>
  "delivery ev = (\<lambda>(i, su).
     if createMatcher (su_pattern su) (ev_type ev)
     then (case su_validate su of
             None \<Rightarrow> Some (i, ev)
           | Some v \<Rightarrow> (case v (ev_type ev) (ev_data ev) of
                          None \<Rightarrow> None | Some d \<Rightarrow> Some (i, ev\<lparr>ev_data := d\<rparr>)))
     else None)"

definition emitToSubscribers :: "'d event \<Rightarrow> 'd bus \<Rightarrow> 'd bus" where
  "emitToSubscribers ev b = b\<lparr>eb_calls := eb_calls b @ List.map_filter (delivery ev) (eb_subs b)\<rparr>"

definition publish :: "int \<Rightarrow> string \<Rightarrow> string \<Rightarrow> 'd \<Rightarrow> 'd bus \<Rightarrow> bus_error + 'd bus" where
  \<comment> \<open>a failing adapter is logged only\<close>
  "publish now cid type data b =
     (if blank type then Inl EmptyType
      else
        (let ev = \<lparr>ev_type = type, ev_data = data, ev_timestamp = now, ev_serverId = eb_serverId b, ev_correlationId = cid\<rparr>;
             b = emitToSubscribers ev b
         in Inr (if eb_adapter b then b\<lparr>eb_outbox := eb_outbox b @ [ev]\<rparr> else b)))"


definition disconnectAdapter :: "'d bus \<Rightarrow> 'd bus" where
  "disconnectAdapter b = (if eb_adapter b then b\<lparr>eb_adapter := False, eb_listening := False\<rparr> else b)"

definition setAdapter :: "bool \<Rightarrow> 'd bus \<Rightarrow> bus_error option \<times> 'd bus" where
  \<comment> \<open>\<open>connects\<close> tells whether the adapter's \<open>connect\<close> and \<open>subscribe\<close> succeed; it is stored before\<close>
  "setAdapter connects b =
     (let b = (disconnectAdapter b)\<lparr>eb_adapter := True\<rparr>
      in if connects then (None, b\<lparr>eb_listening := True\<rparr>) else (Some AdapterFailed, b))"

definition disconnect :: "'d bus \<Rightarrow> 'd bus" where
  "disconnect b = (disconnectAdapter b)\<lparr>eb_subs := []\<rparr>"

section \<open>The typed bus\<close>

datatype unknown_behavior = UErr | UWarn | UAllow

record 'd typed_options =
  ty_schemas :: "(string, 'd \<Rightarrow> 'd option) js_map"
  ty_unknown :: unknown_behavior

definition validateEvent :: "'d typed_options \<Rightarrow> string \<Rightarrow> 'd \<Rightarrow> bus_error + 'd" where
  "validateEvent opts type data =
     (case map_get (ty_schemas opts) type of
        None \<Rightarrow> (case ty_unknown opts of UErr \<Rightarrow> Inl (UnknownEvent type) | _ \<Rightarrow> Inr data)
      | Some sch \<Rightarrow> (case sch data of None \<Rightarrow> Inl (EventInvalid type) | Some d \<Rightarrow> Inr d))"

definition typed_publish :: "'d typed_options \<Rightarrow> int \<Rightarrow> string \<Rightarrow> string \<Rightarrow> 'd \<Rightarrow> 'd bus \<Rightarrow> bus_error + 'd bus" where
  "typed_publish opts now cid type data b =
     (case validateEvent opts type data of Inl e \<Rightarrow> Inl e | Inr d \<Rightarrow> publish now cid type d b)"

definition receive_validator :: "'d typed_options \<Rightarrow> string \<Rightarrow> 'd \<Rightarrow> 'd option" where
  "receive_validator opts type data = (case validateEvent opts type data of Inl _ \<Rightarrow> None | Inr d \<Rightarrow> Some d)"

definition typed_subscribe :: "'d typed_options \<Rightarrow> string \<Rightarrow> string \<Rightarrow> 'd bus \<Rightarrow> bus_error + 'd bus" where
  "typed_subscribe opts i p b = subscribe i (PString p) (Some (receive_validator opts)) b"

section \<open>Patterns respect namespaces\<close>









section \<open>Delivery across servers\<close>



lemma publish_cases:
  assumes "\<not> blank type" "ev = \<lparr>ev_type = type, ev_data = data, ev_timestamp = now, ev_serverId = eb_serverId b,
      ev_correlationId = cid\<rparr>"
  shows "publish now cid type data b =
    Inr ((emitToSubscribers ev b)\<lparr>eb_outbox := eb_outbox b @ (if eb_adapter b then [ev] else [])\<rparr>)"
  using assms by (simp add: publish_def emitToSubscribers_def Let_def)




section \<open>Typed events\<close>

text \<open>A typed event is parsed twice on its way to a subscriber of the same server, once when it
  is published and once when it is received: the handler gets the parse of the parsed data, and
  when the schema does not accept its own output (a transformation to another type, say) the
  event is dropped although \<open>publish\<close> succeeded.\<close>

theorem typed_event_parsed_twice:
  assumes "map_get (ty_schemas opts) type = Some sch" "sch d = Some d1" "\<not> blank type"
    and "eb_subs b = [(i, \<lparr>su_pattern = p, su_validate = Some (receive_validator opts)\<rparr>)]" "createMatcher p type"
  shows "\<exists>b'. typed_publish opts now cid type d b = Inr b' \<and>
    map (\<lambda>(i, ev). (i, ev_data ev)) (eb_calls b') =
      map (\<lambda>(i, ev). (i, ev_data ev)) (eb_calls b) @ (case sch d1 of None \<Rightarrow> [] | Some d2 \<Rightarrow> [(i, d2)])"
proof -
  let ?ev = "\<lparr>ev_type = type, ev_data = d1, ev_timestamp = now, ev_serverId = eb_serverId b, ev_correlationId = cid\<rparr>"
  have "typed_publish opts now cid type d b =
      Inr ((emitToSubscribers ?ev b)\<lparr>eb_outbox := eb_outbox b @ (if eb_adapter b then [?ev] else [])\<rparr>)"
    using assms(1,2) publish_cases [OF assms(3), of ?ev d1 now b cid] by (simp add: typed_publish_def validateEvent_def)
  moreover have "map (\<lambda>(i, ev). (i, ev_data ev)) (List.map_filter (delivery ?ev) (eb_subs b)) =
      (case sch d1 of None \<Rightarrow> [] | Some d2 \<Rightarrow> [(i, d2)])"
    using assms(1,4,5)
    by (simp add: delivery_def map_filter_simps receive_validator_def validateEvent_def split: option.split)
  ultimately show ?thesis by (simp add: emitToSubscribers_def)
qed

theorem typed_event_parsed_twice_witness:
  "\<exists>b'. typed_publish \<lparr>ty_schemas = [(''n'', \<lambda>x. if x < 10 then Some (x + 10) else None)], ty_unknown = UWarn\<rparr> 0 ''c'' ''n'' (3 :: int)
      ((new_bus ''s'')\<lparr>eb_subs := [(''h'', \<lparr>su_pattern = PString ''n'', su_validate =
        Some (receive_validator \<lparr>ty_schemas = [(''n'', \<lambda>x. if x < 10 then Some (x + 10) else None)], ty_unknown = UWarn\<rparr>)\<rparr>)]\<rparr>)
    = Inr b' \<and> map (\<lambda>(i, ev). (i, ev_data ev)) (eb_calls b') = []"
proof -
  let ?sch = "\<lambda>x. if x < 10 then Some (x + 10) else (None :: int option)"
  let ?o = "\<lparr>ty_schemas = [(''n'', ?sch)], ty_unknown = UWarn\<rparr>"
  let ?b = "(new_bus ''s'')\<lparr>eb_subs := [(''h'', \<lparr>su_pattern = PString ''n'', su_validate = Some (receive_validator ?o)\<rparr>)]\<rparr>"
  have "\<not> blank ''n''" "createMatcher (PString ''n'') ''n''" by code_simp+
  then show ?thesis
    using typed_event_parsed_twice [where opts = ?o and type = "''n''" and sch = ?sch and d = 3 and ?d1.0 = 13 and b = ?b
      and i = "''h''" and p = "PString ''n''" and now = 0 and cid = "''c''"]
    by (simp add: new_bus_def)
qed

end
