(* ===== verification/Cors.thy ===== *)
theory Cors
  imports Request_Pipeline
begin

text \<open>
  Cross-origin requests: the middleware (\<open>middleware/cors/index.ts\<close>), preflight requests
  (\<open>preflight.ts\<close>), option merging and checks (\<open>validation.ts\<close>, \<open>defaults.ts\<close>) and the cached
  validation of origins (\<open>origin-validator.ts\<close>).

  A regular expression is given by source, flags and the predicate it tests; a validation function
  by the answer it gives, where throwing or exceeding the time limit counts as \<open>None\<close>. Options are
  those after \<open>validateCorsOptions\<close>, so lists given as text are lists. The cache is a module variable
  of the code; here it is passed explicitly, and the middleware takes the answer of \<open>validateOrigin\<close>
  as the argument \<open>ok\<close>. Regular expressions are used without the \<open>g\<close> and \<open>y\<close> flags, which would make
  \<open>test\<close> stateful.
\<close>

section \<open>Origins\<close>

datatype single_origin =
    OString string
  | ORegExp string string "string \<Rightarrow> bool"
  | OFunction "string \<Rightarrow> bool option"

datatype cors_origin = OBool bool | OSingle single_origin | OArray "single_origin list"







section \<open>The cache of origin decisions\<close>












section \<open>The cache is transparent\<close>
















section \<open>Options\<close>

record cors_options =
  co_origin :: "cors_origin option"
  co_methods :: "string list option"
  co_allowedHeaders :: "string list option"
  co_exposedHeaders :: "string list option"
  co_credentials :: bool
  co_maxAge :: "int option"
  co_preflightContinue :: bool
  co_optionsSuccessStatus :: "int option"

definition DEVELOPMENT_DEFAULTS :: cors_options where
  "DEVELOPMENT_DEFAULTS = \<lparr>co_origin = Some (OBool True),
     co_methods = Some [''GET'', ''HEAD'', ''PUT'', ''PATCH'', ''POST'', ''DELETE''], co_allowedHeaders = None,
     co_exposedHeaders = None, co_credentials = False, co_maxAge = None, co_preflightContinue = False,
     co_optionsSuccessStatus = Some 204\<rparr>"










section \<open>Preflight requests\<close>

definition normalizeMethod :: "string \<Rightarrow> string" where
  "normalizeMethod = map upper_char"

definition default_methods :: "string list" where
  "default_methods = [''GET'', ''HEAD'', ''PUT'', ''PATCH'', ''POST'', ''DELETE'']"

definition isMethodAllowed :: "string \<Rightarrow> string list option \<Rightarrow> bool" where
  "isMethodAllowed m allowed = (case allowed of
     None \<Rightarrow> normalizeMethod m \<in> set default_methods
   | Some ms \<Rightarrow> normalizeMethod m \<in> set (map normalizeMethod ms))"

definition header_set :: "string option \<Rightarrow> string list option" where
  \<comment> \<open>\<open>raw.split(',').map(h => h.trim().toLowerCase())\<close> when present\<close>
  "header_set raw = map_option (\<lambda>r. map (\<lambda>h. toLowerCase (js_trim h)) (str_split (CHR '','') r)) raw"

definition areHeadersAllowed :: "string list option \<Rightarrow> string list option \<Rightarrow> bool" where
  "areHeadersAllowed requested allowed = (case requested of
     None \<Rightarrow> True
   | Some hs \<Rightarrow> (case allowed of
       None \<Rightarrow> True
     | Some as \<Rightarrow> list_all (\<lambda>h. toLowerCase h \<in> set (map toLowerCase as)) hs))"

definition cors_header :: "http_context \<Rightarrow> string \<Rightarrow> string option" where
  \<comment> \<open>a header as the middleware reads it: an empty value counts as absent\<close>
  "cors_header c name = (case request_header c name of Some (x # xs) \<Rightarrow> Some (x # xs) | _ \<Rightarrow> None)"

definition field_details :: "string \<Rightarrow> string \<Rightarrow> (string \<times> json) list \<Rightarrow> json" where
  "field_details fld message extra = JObj
     [(''fields'', JArr [JObj ([(''field'', JStr fld), (''messages'', JArr [JStr message])] @ extra)]),
      (''errorCount'', JNum 1), (''section'', JStr ''body'')]"

definition cors_rejection :: "req_env \<Rightarrow> string \<Rightarrow> json \<Rightarrow> ctx_op" where
  \<comment> \<open>\<open>status(403)\<close>, then a \<open>ValidationError\<close>\<close>
  "cors_rejection env title details = then_do (response_status 403)
     (\<lambda>c. (Some (BlaizeErr (ValidationError (getCorrelationId (Some (en_stored env))) (en_now env) title (Some details))), c))"

definition do_if :: "bool \<Rightarrow> ctx_op \<Rightarrow> ctx_op" where
  "do_if b f = (if b then f else (\<lambda>c. (None, c)))"

definition allow_origin :: "cors_options \<Rightarrow> string \<Rightarrow> ctx_op" where
  "allow_origin opts origin =
     (if co_origin opts = Some (OBool True) \<and> \<not> co_credentials opts
      then response_header ''Access-Control-Allow-Origin'' ''*''
      else then_do (response_header ''Access-Control-Allow-Origin'' origin) (response_header ''Vary'' ''Origin''))"

definition setPreflightHeaders :: "cors_options \<Rightarrow> string \<Rightarrow> string option \<Rightarrow> ctx_op" where
  \<comment> \<open>called with an allowed origin only\<close>
  "setPreflightHeaders opts origin requested =
     then_do (allow_origin opts origin)
    (then_do (do_if (co_credentials opts) (response_header ''Access-Control-Allow-Credentials'' ''true''))
    (then_do (response_header ''Access-Control-Allow-Methods''
                (str_join '', '' (case co_methods opts of Some ms \<Rightarrow> ms | None \<Rightarrow> default_methods)))
    (then_do (case co_allowedHeaders opts of
                Some hs \<Rightarrow> response_header ''Access-Control-Allow-Headers'' (str_join '', '' hs)
              | None \<Rightarrow> (case requested of
                            Some r \<Rightarrow> response_header ''Access-Control-Allow-Headers'' r
                          | None \<Rightarrow> (\<lambda>c. (None, c))))
             (case co_maxAge opts of
                Some n \<Rightarrow> do_if (n \<ge> 0) (response_header ''Access-Control-Max-Age'' (show_nat (nat n)))
              | None \<Rightarrow> (\<lambda>c. (None, c))))))"

definition rejected_headers :: "string list option \<Rightarrow> string list option \<Rightarrow> string list" where
  "rejected_headers requested allowed = (case (requested, allowed) of
     (Some hs, Some as) \<Rightarrow> filter (\<lambda>h. toLowerCase h \<notin> set (map toLowerCase as)) hs
   | _ \<Rightarrow> [])"

definition handlePreflight :: "req_env \<Rightarrow> (string \<Rightarrow> bool) \<Rightarrow> cors_options \<Rightarrow> ctx_op" where
  "handlePreflight env ok opts c =
     (let origin = cors_header c ''origin'';
          requestedMethod = cors_header c ''access-control-request-method'';
          requested = cors_header c ''access-control-request-headers''
      in case (origin, requestedMethod) of
           (Some o1, Some m) \<Rightarrow>
             (if \<not> ok o1
              then cors_rejection env ''CORS origin not allowed''
                     (field_details ''Origin'' (''Origin '' @ CHR 0x27 # o1 @ CHR 0x27 # '' is not allowed'') [(''rejectedValue'', JStr o1)]) c
              else if \<not> isMethodAllowed m (co_methods opts)
              then cors_rejection env ''CORS method not allowed''
                     (field_details ''Access-Control-Request-Method'' (''Method '' @ CHR 0x27 # m @ CHR 0x27 # '' is not allowed'')
                        ((''rejectedValue'', JStr m) #
                         (case co_methods opts of Some ms \<Rightarrow> [(''expectedType'', JStr (str_join '', '' ms))] | None \<Rightarrow> []))) c
              else if \<not> areHeadersAllowed (header_set requested) (co_allowedHeaders opts)
              then (let bad = rejected_headers (header_set requested) (co_allowedHeaders opts)
                    in cors_rejection env ''CORS headers not allowed''
                         (field_details ''Access-Control-Request-Headers'' (''Headers not allowed: '' @ str_join '', '' bad)
                            [(''rejectedValue'', JArr (map JStr bad))]) c)
              else then_do (setPreflightHeaders opts o1 requested)
                  (then_do (response_status (case co_optionsSuccessStatus opts of Some n \<Rightarrow> if n = 0 then 204 else n | None \<Rightarrow> 204))
                           (do_if (\<not> co_preflightContinue opts) (text_responder (en_headerName env) [] None))) c)
         | _ \<Rightarrow> cors_rejection env ''Invalid preflight request: missing required headers''
                 (field_details (if origin = None then ''Origin'' else ''Access-Control-Request-Method'')
                    ''Required header is missing'' []) c)"

definition isPreflightRequest :: "http_context \<Rightarrow> bool" where
  "isPreflightRequest c \<longleftrightarrow> cx_method c = ''OPTIONS'' \<and> cors_header c ''access-control-request-method'' \<noteq> None"

section \<open>The middleware\<close>

definition setCorsHeaders :: "cors_options \<Rightarrow> string \<Rightarrow> ctx_op" where
  "setCorsHeaders opts origin =
     then_do (allow_origin opts origin)
    (then_do (do_if (co_credentials opts) (response_header ''Access-Control-Allow-Credentials'' ''true''))
             (case co_exposedHeaders opts of
                Some hs \<Rightarrow> response_header ''Access-Control-Expose-Headers'' (str_join '', '' hs)
              | None \<Rightarrow> (\<lambda>c. (None, c))))"

definition simple_request :: "req_env \<Rightarrow> (string \<Rightarrow> bool) \<Rightarrow> cors_options \<Rightarrow> ctx_op" where
  \<comment> \<open>the branch for requests that are no preflight, up to \<open>next()\<close>; of the details of the error,
     \<open>allowedOrigins\<close>, which echoes the configuration, is left out\<close>
  "simple_request env ok opts c =
     (case cors_header c ''origin'' of
        None \<Rightarrow> (None, c)
      | Some o1 \<Rightarrow>
          if ok o1 then setCorsHeaders opts o1 c
          else then_do (response_status 403)
                 (\<lambda>c. (Some (BlaizeErr (ForbiddenError (getCorrelationId (Some (en_stored env))) (en_now env)
                         ''CORS validation failed''
                         (Some (JObj [(''reason'', JStr ''origin_not_allowed''), (''origin'', JStr o1)])))), c)) c)"

definition cors_middleware :: "req_env \<Rightarrow> (string \<Rightarrow> bool) \<Rightarrow> cors_options \<Rightarrow> http_context middleware" where
  "cors_middleware env ok opts =
     Middleware.create (MiddlewareOptions (Some ''cors'')
       (Branch isPreflightRequest
          (Act (handlePreflight env ok opts)
             (rethrow (if co_preflightContinue opts then AwaitNext (rethrow Done) else Done)))
          (Act (simple_request env ok opts) (rethrow (AwaitNext (rethrow Done))))) None None)"


section \<open>What the middleware lets through\<close>


lemma cors_execute:
  "run_layer (mw_execute (cors_middleware env ok opts)) rest False c =
     (if isPreflightRequest c
      then (case fst (handlePreflight env ok opts c) of
              Some e \<Rightarrow> handlePreflight env ok opts c
            | None \<Rightarrow> if co_preflightContinue opts then rest (snd (handlePreflight env ok opts c)) else handlePreflight env ok opts c)
      else (case fst (simple_request env ok opts c) of
              Some e \<Rightarrow> simple_request env ok opts c
            | None \<Rightarrow> rest (snd (simple_request env ok opts c))))"
  by (auto simp: cors_middleware_def rethrow_def prod_eq_iff split: option.split)

lemma toLower_cors [simp]:
  "toLowerCase ''Access-Control-Allow-Origin'' = ''access-control-allow-origin''"
  "toLowerCase ''Vary'' = ''vary''"
  "toLowerCase ''Access-Control-Allow-Credentials'' = ''access-control-allow-credentials''"
  "toLowerCase ''Access-Control-Expose-Headers'' = ''access-control-expose-headers''"
  "toLowerCase ''Access-Control-Allow-Methods'' = ''access-control-allow-methods''"
  "toLowerCase ''Access-Control-Allow-Headers'' = ''access-control-allow-headers''"
  "toLowerCase ''Access-Control-Max-Age'' = ''access-control-max-age''"
  by code_simp+

lemma response_header_open:
  "\<not> rs_sent c \<Longrightarrow> \<not> rs_headersSent c \<Longrightarrow>
     response_header name v c = (None, c\<lparr>rs_headers := map_set (toLowerCase name) v (rs_headers c)\<rparr>)"
  by (simp add: response_header_def guard_sent_def res_setHeader_def)

lemma response_status_open: "\<not> rs_sent c \<Longrightarrow> response_status n c = (None, c\<lparr>rs_statusCode := n\<rparr>)"
  by (simp add: response_status_def guard_sent_def set_status_def)

definition allowed_origin_value :: "cors_options \<Rightarrow> string \<Rightarrow> string" where
  "allowed_origin_value opts o1 = (if co_origin opts = Some (OBool True) \<and> \<not> co_credentials opts then ''*'' else o1)"

definition only_headers :: "http_context \<Rightarrow> http_context \<Rightarrow> bool" where
  \<comment> \<open>nothing but response headers differ\<close>
  "only_headers c d \<longleftrightarrow> d = c\<lparr>rs_headers := rs_headers d\<rparr>"

lemma only_headers_iff:
  assumes "only_headers c d"
  shows "rs_sent d = rs_sent c" "rs_headersSent d = rs_headersSent c"
  using arg_cong [OF assms [unfolded only_headers_def], of rs_sent]
    arg_cong [OF assms [unfolded only_headers_def], of rs_headersSent] by simp_all

lemma only_headers_trans: "only_headers c d \<Longrightarrow> only_headers d e \<Longrightarrow> only_headers c e"
  by (cases c; cases d; cases e) (simp add: only_headers_def)

text \<open>
  Operations that, on an unsent response, do not throw and write the headers named in a set only.
\<close>

definition header_writer :: "string set \<Rightarrow> ctx_op \<Rightarrow> bool" where
  "header_writer N f \<longleftrightarrow> (\<forall>c. \<not> rs_sent c \<longrightarrow> \<not> rs_headersSent c \<longrightarrow>
     fst (f c) = None \<and> only_headers c (snd (f c)) \<and>
     (\<forall>n. n \<notin> N \<longrightarrow> map_get (rs_headers (snd (f c))) n = map_get (rs_headers c) n))"

named_theorems writers

lemma writer_header [writers]: "toLowerCase name \<in> N \<Longrightarrow> header_writer N (response_header name v)"
  by (auto simp: header_writer_def response_header_open only_headers_def)

lemma writer_skip [writers]: "header_writer N (\<lambda>c. (None, c))"
  by (simp add: header_writer_def only_headers_def)

lemma writer_if [writers]: "header_writer N f \<Longrightarrow> header_writer N (do_if b f)"
  using writer_skip by (simp add: do_if_def)

lemma writer_case [writers]:
  "(\<And>x. header_writer N (f x)) \<Longrightarrow> header_writer N g \<Longrightarrow> header_writer N (case r of Some x \<Rightarrow> f x | None \<Rightarrow> g)"
  by (cases r) simp_all

lemma writer_then [writers]:
  assumes "header_writer N f" "header_writer N g"
  shows "header_writer N (then_do f g)"
  unfolding header_writer_def
proof (intro allI impI)
  fix c :: http_context assume c: "\<not> rs_sent c" "\<not> rs_headersSent c"
  let ?d = "snd (f c)"
  have f: "fst (f c) = None" "only_headers c ?d" "\<forall>n. n \<notin> N \<longrightarrow> map_get (rs_headers ?d) n = map_get (rs_headers c) n"
    using assms(1) c by (simp_all add: header_writer_def)
  have d: "\<not> rs_sent ?d" "\<not> rs_headersSent ?d" using only_headers_iff [OF f(2)] c by simp_all
  have g: "fst (g ?d) = None" "only_headers ?d (snd (g ?d))"
    "\<forall>n. n \<notin> N \<longrightarrow> map_get (rs_headers (snd (g ?d))) n = map_get (rs_headers ?d) n"
    using assms(2) d by (simp_all add: header_writer_def)
  have t: "then_do f g c = g ?d" using f(1) by (simp add: then_do_def split_beta)
  have "only_headers c (snd (g ?d))"
    by (rule only_headers_trans [OF f(2) g(2)])
  then show "fst (then_do f g c) = None \<and> only_headers c (snd (then_do f g c)) \<and>
      (\<forall>n. n \<notin> N \<longrightarrow> map_get (rs_headers (snd (then_do f g c))) n = map_get (rs_headers c) n)"
    using f(3) g by (simp add: t)
qed

lemma allow_origin_open:
  assumes "\<not> rs_sent c" "\<not> rs_headersSent c" "header_writer N g" "''access-control-allow-origin'' \<notin> N"
  shows "fst (then_do (allow_origin opts o1) g c) = None" "only_headers c (snd (then_do (allow_origin opts o1) g c))"
    "map_get (rs_headers (snd (then_do (allow_origin opts o1) g c))) ''access-control-allow-origin'' = Some (allowed_origin_value opts o1)"
proof -
  have w: "header_writer UNIV (allow_origin opts o1)" unfolding allow_origin_def by (auto intro: writers)
  have "header_writer UNIV (then_do (allow_origin opts o1) g)"
    by (rule writer_then [OF w]) (use assms(3) in \<open>simp add: header_writer_def\<close>)
  then show "fst (then_do (allow_origin opts o1) g c) = None" "only_headers c (snd (then_do (allow_origin opts o1) g c))"
    using assms(1,2) by (simp_all add: header_writer_def)
  let ?d = "snd (allow_origin opts o1 c)"
  have f: "fst (allow_origin opts o1 c) = None" "only_headers c ?d" using w assms(1,2) by (simp_all add: header_writer_def)
  have d: "\<not> rs_sent ?d" "\<not> rs_headersSent ?d" using only_headers_iff [OF f(2)] assms(1,2) by simp_all
  have "map_get (rs_headers ?d) ''access-control-allow-origin'' = Some (allowed_origin_value opts o1)"
    using assms(1,2) by (simp add: allow_origin_def allowed_origin_value_def then_do_def response_header_open)
  then show "map_get (rs_headers (snd (then_do (allow_origin opts o1) g c))) ''access-control-allow-origin'' = Some (allowed_origin_value opts o1)"
    using assms(3,4) d f(1) by (simp add: then_do_def split_beta header_writer_def)
qed


lemma setPreflightHeaders_open:
  assumes "\<not> rs_sent c" "\<not> rs_headersSent c"
  shows "fst (setPreflightHeaders opts o1 req c) = None" "only_headers c (snd (setPreflightHeaders opts o1 req c))"
    "map_get (rs_headers (snd (setPreflightHeaders opts o1 req c))) ''access-control-allow-origin'' = Some (allowed_origin_value opts o1)"
  unfolding setPreflightHeaders_def
  by (rule allow_origin_open [OF assms, of "- {''access-control-allow-origin''}"]; (intro writers)?; simp)+


definition cors_demo_context :: "string \<Rightarrow> string \<Rightarrow> http_context" where
  "cors_demo_context mth origin = new_context \<lparr>rr_method = mth, rr_url = Some (''/x'', []),
     rr_headers = [(''origin'', HOne origin), (''access-control-request-method'', HOne ''PUT'')]\<rparr> ''req_1'' (''/x'', [])"


lemma cors_demo:
  "cors_header (cors_demo_context mth [x]) ''origin'' = Some [x]"
  "cors_header (cors_demo_context mth o1) ''access-control-request-method'' = Some ''PUT''"
  "isPreflightRequest (cors_demo_context mth o1) \<longleftrightarrow> mth = ''OPTIONS''"
  "\<not> rs_sent (cors_demo_context mth o1)" "\<not> rs_headersSent (cors_demo_context mth o1)"
proof -
  have l: "toLowerCase ''origin'' = ''origin''"
    "toLowerCase ''access-control-request-method'' = ''access-control-request-method''" by code_simp+
  show "cors_header (cors_demo_context mth [x]) ''origin'' = Some [x]"
    "cors_header (cors_demo_context mth o1) ''access-control-request-method'' = Some ''PUT''"
    "isPreflightRequest (cors_demo_context mth o1) \<longleftrightarrow> mth = ''OPTIONS''"
    "\<not> rs_sent (cors_demo_context mth o1)" "\<not> rs_headersSent (cors_demo_context mth o1)"
    by (simp_all add: cors_header_def request_header_def cors_demo_context_def new_context_def isPreflightRequest_def l)
qed


section \<open>What a preflight request is answered\<close>

definition preflight_ok :: "(string \<Rightarrow> bool) \<Rightarrow> cors_options \<Rightarrow> http_context \<Rightarrow> bool" where
  \<comment> \<open>both headers are there and the origin, the method and the headers are allowed\<close>
  "preflight_ok ok opts c \<longleftrightarrow>
     (case (cors_header c ''origin'', cors_header c ''access-control-request-method'') of
        (Some o1, Some m) \<Rightarrow> ok o1 \<and> isMethodAllowed m (co_methods opts) \<and>
          areHeadersAllowed (header_set (cors_header c ''access-control-request-headers'')) (co_allowedHeaders opts)
      | _ \<Rightarrow> False)"

lemma preflight_rejected:
  assumes "\<not> preflight_ok ok opts c" "\<not> rs_sent c"
  shows "\<exists>e. handlePreflight env ok opts c = (Some (BlaizeErr e), c\<lparr>rs_statusCode := 403\<rparr>) \<and>
    er_type e = VALIDATION_ERROR \<and> er_status e = 400"
  using assms
  by (auto simp: handlePreflight_def preflight_ok_def cors_rejection_def then_do_def response_status_open Let_def
      ValidationError_def BlaizeError_def split: option.split)

definition success_status :: "cors_options \<Rightarrow> int" where
  "success_status opts = (case co_optionsSuccessStatus opts of Some n \<Rightarrow> if n = 0 then 204 else n | None \<Rightarrow> 204)"

lemma preflight_accepted:
  assumes "preflight_ok ok opts c" "\<not> rs_sent c" "\<not> rs_headersSent c" "\<not> co_preflightContinue opts"
  shows "fst (handlePreflight env ok opts c) = None" "rs_sent (snd (handlePreflight env ok opts c))"
    "rs_statusCode (snd (handlePreflight env ok opts c)) = success_status opts"
    "rs_body (snd (handlePreflight env ok opts c)) = Some (TextBody [])"
proof -
  obtain o1 m where h: "cors_header c ''origin'' = Some o1" "cors_header c ''access-control-request-method'' = Some m"
    and ok: "ok o1" "isMethodAllowed m (co_methods opts)"
      "areHeadersAllowed (header_set (cors_header c ''access-control-request-headers'')) (co_allowedHeaders opts)"
    using assms(1) by (auto simp: preflight_ok_def split: option.splits)
  define d where "d = snd (setPreflightHeaders opts o1 (cors_header c ''access-control-request-headers'') c)"
  note s = setPreflightHeaders_open [OF assms(2,3), of opts o1 "cors_header c ''access-control-request-headers''", folded d_def]
  have d: "\<not> rs_sent d" "\<not> rs_headersSent d" using only_headers_iff [OF s(2)] assms(2,3) by simp_all
  let ?d = "d\<lparr>rs_statusCode := success_status opts\<rparr>"
  have "handlePreflight env ok opts c = text_responder (en_headerName env) [] None ?d"
    using h ok s(1) assms(4) d
    by (simp add: handlePreflight_def then_do_def split_beta response_status_open do_if_def d_def success_status_def)
  moreover have "\<not> rs_sent ?d" "\<not> rs_headersSent ?d" using d by simp_all
  ultimately show "fst (handlePreflight env ok opts c) = None" "rs_sent (snd (handlePreflight env ok opts c))"
    "rs_statusCode (snd (handlePreflight env ok opts c)) = success_status opts"
    "rs_body (snd (handlePreflight env ok opts c)) = Some (TextBody [])"
    by (simp_all add: text_responder_def send_body_ok)
qed

text \<open>Preflight requests are answered by the middleware alone. With \<open>preflightContinue\<close> off,
  whatever stands behind the middleware: a preflight whose origin, method and headers are all allowed
  is sent with an empty body and the configured success status; every other one ends in a
  \<open>ValidationError\<close>. The code sets status 403 first, as its documentation promises, but the error
  boundary answers with the status of the error, so the client sees 400.\<close>

theorem preflight_answered_by_the_middleware:
  assumes "isPreflightRequest c" "\<not> rs_sent c" "\<not> rs_headersSent c" "\<not> co_preflightContinue opts"
  shows "if preflight_ok ok opts c
    then (\<exists>d. run_layer (mw_execute (cors_middleware env ok opts)) rest False c = (None, d) \<and> rs_sent d \<and>
            rs_statusCode d = success_status opts \<and> rs_body d = Some (TextBody []))
    else (\<exists>e. run_layer (mw_execute (cors_middleware env ok opts)) rest False c = (Some (BlaizeErr e), c\<lparr>rs_statusCode := 403\<rparr>) \<and>
            er_type e = VALIDATION_ERROR \<and>
            rs_statusCode (snd (run_layer (mw_execute (createErrorBoundary env))
              (run_layer (mw_execute (cors_middleware env ok opts)) rest False) False c)) = 400)"
proof (cases "preflight_ok ok opts c")
  case True
  then show ?thesis
    using assms preflight_accepted [OF True assms(2-4), of env]
    by (auto simp: cors_execute prod_eq_iff intro!: exI [of _ "snd (handlePreflight env ok opts c)"])
next
  case False
  then obtain e where e: "handlePreflight env ok opts c = (Some (BlaizeErr e), c\<lparr>rs_statusCode := 403\<rparr>)"
    "er_type e = VALIDATION_ERROR" "er_status e = 400"
    using preflight_rejected assms(2) by metis
  then have r: "run_layer (mw_execute (cors_middleware env ok opts)) rest False c = (Some (BlaizeErr e), c\<lparr>rs_statusCode := 403\<rparr>)"
    using assms(1) by (simp add: cors_execute)
  have "rs_statusCode (snd (boundary_respond env (BlaizeErr e) (c\<lparr>rs_statusCode := 403\<rparr>))) = 400"
    using assms(2,3) e(3) by (simp add: boundary_respond_ok error_status_def)
  then show ?thesis using False r e(2) assms(2) by (simp add: boundary_layer)
qed

theorem preflight_answered_by_the_middleware_witness:
  "rs_statusCode (snd (run_layer (mw_execute (createErrorBoundary (env_of demo_env demo_request)))
     (run_layer (mw_execute (cors_middleware (env_of demo_env demo_request) (\<lambda>w. w = ''a'') DEVELOPMENT_DEFAULTS)) (\<lambda>c. (None, c)) False)
     False (cors_demo_context ''OPTIONS'' ''b''))) = 400 \<and>
   (\<exists>d. run_layer (mw_execute (cors_middleware (env_of demo_env demo_request) (\<lambda>w. w = ''a'') DEVELOPMENT_DEFAULTS)) (\<lambda>c. (None, c)) False
      (cors_demo_context ''OPTIONS'' ''a'') = (None, d) \<and> rs_statusCode d = 204)"
proof
  let ?opts = "DEVELOPMENT_DEFAULTS" and ?ok = "\<lambda>w. w = ''a''" and ?env = "env_of demo_env demo_request"
  have p: "isPreflightRequest (cors_demo_context ''OPTIONS'' w)" for w by (simp add: cors_demo)
  have c: "\<not> co_preflightContinue ?opts" "success_status ?opts = 204"
    by (simp_all add: DEVELOPMENT_DEFAULTS_def success_status_def)
  have "cors_header (cors_demo_context ''OPTIONS'' ''a'') ''access-control-request-headers'' = None" by code_simp
  moreover have "isMethodAllowed ''PUT'' (co_methods ?opts)" by code_simp
  ultimately have a: "preflight_ok ?ok ?opts (cors_demo_context ''OPTIONS'' ''a'')"
    by (simp add: preflight_ok_def cors_demo header_set_def areHeadersAllowed_def)
  have b: "\<not> preflight_ok ?ok ?opts (cors_demo_context ''OPTIONS'' ''b'')"
    by (simp add: preflight_ok_def cors_demo)
  note th = preflight_answered_by_the_middleware [OF p cors_demo(4,5) c(1), of ?ok]
  show "rs_statusCode (snd (run_layer (mw_execute (createErrorBoundary ?env))
     (run_layer (mw_execute (cors_middleware ?env ?ok ?opts)) (\<lambda>c. (None, c)) False) False (cors_demo_context ''OPTIONS'' ''b''))) = 400"
    using th [of "''b''" ?env "\<lambda>c. (None, c)"] b by auto
  show "\<exists>d. run_layer (mw_execute (cors_middleware ?env ?ok ?opts)) (\<lambda>c. (None, c)) False
      (cors_demo_context ''OPTIONS'' ''a'') = (None, d) \<and> rs_statusCode d = 204"
    using th [of "''a''" ?env "\<lambda>c. (None, c)"] a c(2) by auto
qed

end
