(* ===== verification/Multipart.thy ===== *)
theory Multipart
  imports Http_Context
begin

text \<open>
  File uploads: the streaming parser for \<open>multipart/form-data\<close> bodies (\<open>upload/multipart-parser.ts\<close>,
  \<open>upload/utils.ts\<close>) with the types of \<open>blaize-types/src/upload.ts\<close>.

  A buffer is a list of bytes (\<open>char\<close>). Headers and field values are kept as their UTF-8 bytes, so
  \<open>toString('utf8')\<close>, the identity on ASCII, is left out. The body arrives as a list of chunks. A
  stage function returns \<open>Inr None\<close> where the code returns the same state object, which ends the
  loop. A stream and a temporary file are given by the bytes written to them so far. \<open>w\<close> is the
  pair of correlation id and time that errors carry.
\<close>

section \<open>Searching\<close>

fun indexOf :: "string \<Rightarrow> string \<Rightarrow> nat option" where
  \<comment> \<open>\<open>Buffer.indexOf\<close>; \<open>None\<close> is \<open>-1\<close>\<close>
  "indexOf p [] = (if p = [] then Some 0 else None)"
| "indexOf p (c # s) = (if take (length p) (c # s) = p then Some 0 else map_option Suc (indexOf p s))"

fun first_match :: "(string \<Rightarrow> 'a option) \<Rightarrow> string \<Rightarrow> 'a option" where
  \<comment> \<open>the leftmost match of an unanchored regular expression, whose match at a position is \<open>f\<close>\<close>
  "first_match f [] = f []"
| "first_match f (c # s) = (case f (c # s) of Some x \<Rightarrow> Some x | None \<Rightarrow> first_match f s)"

definition strip_ci :: "string \<Rightarrow> string \<Rightarrow> string option" where
  \<comment> \<open>a literal under the \<open>i\<close> flag\<close>
  "strip_ci lit s = (if toLowerCase (take (length lit) s) = toLowerCase lit then Some (drop (length lit) s) else None)"

abbreviation quote :: char where "quote \<equiv> CHR 0x22"
abbreviation CR :: char where "CR \<equiv> CHR 0x0D"
abbreviation LF :: char where "LF \<equiv> CHR 0x0A"
abbreviation CRLF :: string where "CRLF \<equiv> [CR, LF]"

section \<open>Headers (utils.ts)\<close>

definition boundary_at :: "string \<Rightarrow> string option" where
  "boundary_at s = (case strip_ci ''boundary='' s of
     None \<Rightarrow> None
   | Some s \<Rightarrow> (let t = takeWhile (\<lambda>c. c \<noteq> CHR '';'') s in if t = [] then None else Some t))"

definition extractBoundary :: "string \<Rightarrow> string option" where
  "extractBoundary contentType = (case first_match boundary_at contentType of
     None \<Rightarrow> None
   | Some t \<Rightarrow>
       (let t = js_trim t;
            t = (if t \<noteq> [] \<and> hd t = quote \<and> last t = quote then butlast (tl t) else t)
        in if t = [] then None else Some t))"

definition filename_at :: "string \<Rightarrow> string option" where
  \<comment> \<open>the optional group for the file name\<close>
  "filename_at s = (case strip_ci '';'' s of
     None \<Rightarrow> None
   | Some s \<Rightarrow> (case strip_ci (''filename='' @ [quote]) (dropWhile is_space s) of
       None \<Rightarrow> None
     | Some s \<Rightarrow> if quote \<in> set s then Some (takeWhile (\<lambda>c. c \<noteq> quote) s) else None))"

definition disposition_at :: "string \<Rightarrow> (string \<times> string option) option" where
  "disposition_at s = (case strip_ci ''Content-Disposition:'' s of
     None \<Rightarrow> None
   | Some s \<Rightarrow> (case strip_ci ''form-data;'' (dropWhile is_space s) of
       None \<Rightarrow> None
     | Some s \<Rightarrow> (case strip_ci (''name='' @ [quote]) (dropWhile is_space s) of
         None \<Rightarrow> None
       | Some s \<Rightarrow>
           (let name = takeWhile (\<lambda>c. c \<noteq> quote) s
            in if name = [] \<or> quote \<notin> set s then None
               else Some (name, filename_at (drop (Suc (length name)) s))))))"

definition parseContentDisposition :: "string \<Rightarrow> (string \<times> string option) option" where
  "parseContentDisposition headers = first_match disposition_at headers"

definition type_at :: "string \<Rightarrow> string option" where
  \<comment> \<open>when only white space follows, the code's match is white space too, which it trims to nothing\<close>
  "type_at s = (case strip_ci ''Content-Type:'' s of
     None \<Rightarrow> None
   | Some s \<Rightarrow> (let s = dropWhile is_space s
                in if s = [] then None else Some (takeWhile (\<lambda>c. c \<noteq> CR \<and> c \<noteq> LF) s)))"

definition parseContentType :: "string \<Rightarrow> string" where
  "parseContentType headers = (case first_match type_at headers of
     Some t \<Rightarrow> if js_trim t \<noteq> [] then js_trim t else ''application/octet-stream''
   | None \<Rightarrow> ''application/octet-stream'')"

section \<open>State of the parser\<close>

datatype strategy = SMemory | SStream | STemp

record parse_options =
  po_maxFileSize :: int
  po_maxFiles :: int
  po_maxFieldSize :: int
  po_allowedMimeTypes :: "string list"
  po_strategy :: strategy

definition multipart_DEFAULT_OPTIONS :: parse_options where
  "multipart_DEFAULT_OPTIONS = \<lparr>po_maxFileSize = 10 * 1024 * 1024, po_maxFiles = 10, po_maxFieldSize = 1024 * 1024,
     po_allowedMimeTypes = [], po_strategy = SStream\<rparr>"

record uploaded_file =
  uf_fieldname :: string
  uf_originalname :: string
  uf_encoding :: string
  uf_mimetype :: string
  uf_size :: int
  uf_stream :: "string option"     \<comment> \<open>the bytes the stream yields; \<open>None\<close> is \<open>null\<close>\<close>
  uf_buffer :: "string option"
  uf_tempPath :: "string option"

datatype parser_stage = BoundaryStage | HeadersStage | ContentStage

record parser_state =
  ps_boundary :: string
  ps_options :: parse_options
  ps_fields :: "(string, string list) js_map"
  ps_files :: "(string, uploaded_file list) js_map"
  ps_buffer :: string
  ps_stage :: parser_stage
  ps_headers :: string
  ps_field :: "string option"
  ps_filename :: "string option"
  ps_mimetype :: string
  ps_contentLength :: int
  ps_fileCount :: int
  ps_fieldCount :: int
  ps_chunks :: "string list"
  ps_stream :: "string option"
  ps_tempPath :: "string option"
  ps_writeStream :: "string option"
  ps_cleanupTasks :: "string list"
  ps_foundBoundary :: bool
  ps_processedPart :: bool
  ps_finished :: bool

definition createParserState :: "string \<Rightarrow> parse_options \<Rightarrow> parser_state" where
  "createParserState boundary options =
     \<lparr>ps_boundary = ''--'' @ boundary, ps_options = options, ps_fields = [], ps_files = [], ps_buffer = [],
      ps_stage = BoundaryStage, ps_headers = [], ps_field = None, ps_filename = None,
      ps_mimetype = ''application/octet-stream'', ps_contentLength = 0, ps_fileCount = 0, ps_fieldCount = 0,
      ps_chunks = [], ps_stream = None, ps_tempPath = None, ps_writeStream = None, ps_cleanupTasks = [],
      ps_foundBoundary = False, ps_processedPart = False, ps_finished = False\<rparr>"

section \<open>The stages\<close>

type_synonym who = "string \<times> string"

definition mp_validation :: "who \<Rightarrow> string \<Rightarrow> thrown" where
  "mp_validation w title = BlaizeErr (ValidationError (fst w) (snd w) title None)"

definition processBoundary :: "parser_state \<Rightarrow> parser_state option" where
  "processBoundary st =
     (case indexOf (ps_boundary st) (ps_buffer st) of
        None \<Rightarrow> None
      | Some i \<Rightarrow>
          (let buffer = drop (i + length (ps_boundary st)) (ps_buffer st)
           in if take 2 buffer = ''--''
              then Some (st\<lparr>ps_buffer := buffer, ps_foundBoundary := True, ps_finished := True, ps_stage := BoundaryStage\<rparr>)
              else Some (st\<lparr>ps_buffer := (if take 2 buffer = CRLF then drop 2 buffer else buffer),
                           ps_foundBoundary := True, ps_stage := HeadersStage, ps_headers := []\<rparr>)))"

definition opt_json :: "string option \<Rightarrow> string \<Rightarrow> (string \<times> json) list" where
  "opt_json v k = (case v of Some s \<Rightarrow> [(k, JStr s)] | None \<Rightarrow> [])"

definition processHeaders :: "who \<Rightarrow> parser_state \<Rightarrow> thrown + parser_state option" where
  "processHeaders w st =
     (case indexOf (CRLF @ CRLF) (ps_buffer st) of
        None \<Rightarrow> Inr None
      | Some headerEnd \<Rightarrow>
          (let headers = take headerEnd (ps_buffer st)
           in case parseContentDisposition headers of
                None \<Rightarrow> Inl (mp_validation w ''Missing or invalid Content-Disposition header'')
              | Some (name, filename) \<Rightarrow>
                  (let mimetype = parseContentType headers;
                       isFile = (filename \<noteq> None);
                       opts = ps_options st
                   in if isFile \<and> ps_fileCount st \<ge> po_maxFiles opts
                      then Inl (BlaizeErr (PayloadTooLargeError (fst w) (snd w) ''Too many files in upload''
                             (Some (JObj ([(''fileCount'', JNum (ps_fileCount st + 1)), (''maxFiles'', JNum (po_maxFiles opts))] @
                                opt_json filename ''filename'')))))
                      else if isFile \<and> po_allowedMimeTypes opts \<noteq> [] \<and> mimetype \<notin> set (po_allowedMimeTypes opts)
                      then Inl (BlaizeErr (UnsupportedMediaTypeError (fst w) (snd w) ''File type not allowed''
                             (Some (JObj ([(''receivedMimeType'', JStr mimetype),
                                (''allowedMimeTypes'', JArr (map JStr (po_allowedMimeTypes opts)))] @ opt_json filename ''filename'')))))
                      else Inr (Some (st\<lparr>ps_buffer := drop (headerEnd + 4) (ps_buffer st), ps_stage := ContentStage,
                             ps_headers := headers, ps_field := Some name, ps_filename := filename,
                             ps_mimetype := mimetype, ps_contentLength := 0,
                             ps_fileCount := (if isFile then ps_fileCount st + 1 else ps_fileCount st),
                             ps_fieldCount := (if isFile then ps_fieldCount st else ps_fieldCount st + 1),
                             ps_chunks := []\<rparr>)))))"

definition processFileChunk :: "parser_state \<Rightarrow> string \<Rightarrow> int \<Rightarrow> parser_state" where
  "processFileChunk st chunk newContentLength =
     (case po_strategy (ps_options st) of
        SMemory \<Rightarrow> st\<lparr>ps_contentLength := newContentLength, ps_chunks := ps_chunks st @ [chunk]\<rparr>
      | SStream \<Rightarrow> st\<lparr>ps_stream := map_option (\<lambda>s. s @ chunk) (ps_stream st), ps_contentLength := newContentLength\<rparr>
      | STemp \<Rightarrow> st\<lparr>ps_writeStream := map_option (\<lambda>s. s @ chunk) (ps_writeStream st), ps_contentLength := newContentLength\<rparr>)"

definition processContentChunk :: "who \<Rightarrow> parser_state \<Rightarrow> string \<Rightarrow> thrown + parser_state" where
  "processContentChunk w st chunk =
     (let newContentLength = ps_contentLength st + int (length chunk);
          isFile = (ps_filename st \<noteq> None);
          maxSize = (if isFile then po_maxFileSize (ps_options st) else po_maxFieldSize (ps_options st))
      in if newContentLength > maxSize
         then Inl (BlaizeErr (PayloadTooLargeError (fst w) (snd w)
                ((if isFile then ''File'' else ''Field'') @ '' size exceeds limit'')
                (Some (JObj ([(''contentType'', JStr (if isFile then ''file'' else ''field'')),
                   (''currentSize'', JNum newContentLength), (''maxSize'', JNum maxSize)] @
                   opt_json (ps_field st) ''field'' @ opt_json (ps_filename st) ''filename'')))))
         else Inr (if isFile then processFileChunk st chunk newContentLength
                   else st\<lparr>ps_contentLength := newContentLength, ps_chunks := ps_chunks st @ [chunk]\<rparr>))"

definition initializeFileProcessing :: "string \<Rightarrow> parser_state \<Rightarrow> parser_state" where
  \<comment> \<open>\<open>tempPath\<close>: the path drawn for the temporary file\<close>
  "initializeFileProcessing tempPath st =
     (case ps_filename st of
        None \<Rightarrow> st
      | Some _ \<Rightarrow>
          (case po_strategy (ps_options st) of
             SMemory \<Rightarrow> st\<lparr>ps_chunks := []\<rparr>
           | SStream \<Rightarrow> st\<lparr>ps_stream := Some []\<rparr>
           | STemp \<Rightarrow> st\<lparr>ps_tempPath := Some tempPath, ps_writeStream := Some [],
                         ps_cleanupTasks := ps_cleanupTasks st @ [tempPath]\<rparr>))"

definition resetCurrentPart :: "parser_state \<Rightarrow> parser_state" where
  "resetCurrentPart st = st\<lparr>ps_field := None, ps_filename := None, ps_contentLength := 0, ps_chunks := [],
     ps_stream := None, ps_tempPath := None, ps_writeStream := None\<rparr>"

definition addToCollection :: "(string, 'a list) js_map \<Rightarrow> string \<Rightarrow> 'a \<Rightarrow> (string, 'a list) js_map" where
  "addToCollection collection key v =
     map_set key ((case map_get collection key of Some vs \<Rightarrow> vs | None \<Rightarrow> []) @ [v]) collection"

definition finalizeFile :: "string \<Rightarrow> string \<Rightarrow> parser_state \<Rightarrow> parser_state" where
  "finalizeFile fieldname filename st =
     (let file = \<lparr>uf_fieldname = fieldname, uf_originalname = filename, uf_encoding = ''7bit'',
            uf_mimetype = ps_mimetype st, uf_size = ps_contentLength st,
            uf_stream = (case po_strategy (ps_options st) of
              SMemory \<Rightarrow> Some (concat (ps_chunks st)) | SStream \<Rightarrow> ps_stream st | STemp \<Rightarrow> Some []),
            uf_buffer = (if po_strategy (ps_options st) = SMemory then Some (concat (ps_chunks st)) else None),
            uf_tempPath = (if po_strategy (ps_options st) = STemp then ps_tempPath st else None)\<rparr>
      in (resetCurrentPart st)\<lparr>ps_files := addToCollection (ps_files st) fieldname file\<rparr>)"

definition finalizeField :: "string \<Rightarrow> parser_state \<Rightarrow> parser_state" where
  "finalizeField fieldname st =
     (resetCurrentPart st)\<lparr>ps_fields := addToCollection (ps_fields st) fieldname (concat (ps_chunks st))\<rparr>"

definition finalizeCurrentPart :: "parser_state \<Rightarrow> parser_state" where
  "finalizeCurrentPart st =
     (case ps_field st of
        Some (c # cs) \<Rightarrow> (case ps_filename st of
            Some filename \<Rightarrow> finalizeFile (c # cs) filename st
          | None \<Rightarrow> finalizeField (c # cs) st)
      | _ \<Rightarrow> resetCurrentPart st)"

definition processContent :: "who \<Rightarrow> parser_state \<Rightarrow> thrown + parser_state option" where
  "processContent w st =
     (let buffer = ps_buffer st; n = length (ps_boundary st)
      in case indexOf (ps_boundary st) buffer of
           None \<Rightarrow>
             (let safeLength = length buffer - n
              in if safeLength = 0 then Inr None
                 else map_sum id Some (processContentChunk w (st\<lparr>ps_buffer := drop safeLength buffer\<rparr>) (take safeLength buffer)))
         | Some i \<Rightarrow>
             (let contentChunk = take (i - 2) buffer;
                  st = st\<lparr>ps_buffer := drop i buffer\<rparr>
              in map_sum id (\<lambda>st. Some ((finalizeCurrentPart st)\<lparr>ps_stage := BoundaryStage, ps_processedPart := True\<rparr>))
                   (if contentChunk \<noteq> [] then processContentChunk w st contentChunk else Inr st)))"

definition processCurrentStage :: "who \<Rightarrow> parser_state \<Rightarrow> thrown + parser_state option" where
  "processCurrentStage w st =
     (case ps_stage st of
        BoundaryStage \<Rightarrow> Inr (processBoundary st)
      | HeadersStage \<Rightarrow> processHeaders w st
      | ContentStage \<Rightarrow> processContent w st)"

section \<open>The loop over the buffer\<close>

fun stage_rank :: "parser_stage \<Rightarrow> nat" where
  "stage_rank ContentStage = 2" | "stage_rank BoundaryStage = 1" | "stage_rank HeadersStage = 0"

definition parse_measure :: "parser_state \<Rightarrow> nat" where
  "parse_measure st = (if ps_finished st then 0 else 1 + 3 * length (ps_buffer st) + stage_rank (ps_stage st))"

lemma map_sum_Inr [simp]: "map_sum id f r = Inr y \<longleftrightarrow> (\<exists>z. r = Inr z \<and> y = f z)"
  by (cases r) auto

lemma indexOf_bound: "indexOf p s = Some i \<Longrightarrow> i + length p \<le> length s"
proof (induction p s arbitrary: i rule: indexOf.induct)
  case (2 p c s)
  show ?case
  proof (cases "take (length p) (c # s) = p")
    case True
    then have "length p \<le> length (c # s)" by (metis length_take min.cobounded1)
    then show ?thesis using 2 True by simp
  qed (use 2 in auto)
qed (simp split: if_splits)

lemma contentChunk_fields:
  assumes "processContentChunk w st chunk = Inr st'"
  shows "ps_buffer st' = ps_buffer st" "ps_stage st' = ps_stage st" "ps_finished st' = ps_finished st"
    "ps_boundary st' = ps_boundary st" "ps_options st' = ps_options st" "ps_field st' = ps_field st"
    "ps_filename st' = ps_filename st" "ps_mimetype st' = ps_mimetype st" "ps_files st' = ps_files st"
    "ps_fields st' = ps_fields st" "ps_fileCount st' = ps_fileCount st" "ps_fieldCount st' = ps_fieldCount st"
    "ps_foundBoundary st' = ps_foundBoundary st" "ps_processedPart st' = ps_processedPart st"
    "ps_contentLength st' = ps_contentLength st + int (length chunk)"
    "ps_tempPath st' = ps_tempPath st" "ps_cleanupTasks st' = ps_cleanupTasks st"
    "ps_stream st = None \<Longrightarrow> ps_stream st' = None" "ps_writeStream st = None \<Longrightarrow> ps_writeStream st' = None"
  using assms
  by (auto simp: processContentChunk_def processFileChunk_def Let_def split: if_splits strategy.splits)

lemma finalize_fields:
  "ps_buffer (finalizeCurrentPart st) = ps_buffer st" "ps_stage (finalizeCurrentPart st) = ps_stage st"
  "ps_finished (finalizeCurrentPart st) = ps_finished st" "ps_boundary (finalizeCurrentPart st) = ps_boundary st"
  "ps_options (finalizeCurrentPart st) = ps_options st" "ps_fileCount (finalizeCurrentPart st) = ps_fileCount st"
  "ps_foundBoundary (finalizeCurrentPart st) = ps_foundBoundary st"
  "ps_processedPart (finalizeCurrentPart st) = ps_processedPart st"
  "ps_cleanupTasks (finalizeCurrentPart st) = ps_cleanupTasks st"
  "ps_stream (finalizeCurrentPart st) = None" "ps_tempPath (finalizeCurrentPart st) = None"
  "ps_writeStream (finalizeCurrentPart st) = None" "ps_filename (finalizeCurrentPart st) = None"
  by (simp_all add: finalizeCurrentPart_def finalizeFile_def finalizeField_def resetCurrentPart_def Let_def
      split: option.split list.split)

lemma stage_decreases:
  assumes "processCurrentStage w st = Inr (Some st')" "\<not> ps_finished st"
  shows "parse_measure st' < parse_measure st"
proof (cases "ps_stage st")
  case BoundaryStage
  then show ?thesis
    using assms by (auto simp: processCurrentStage_def processBoundary_def parse_measure_def Let_def split: option.splits if_splits)
next
  case HeadersStage
  obtain i where i: "indexOf (CRLF @ CRLF) (ps_buffer st) = Some i"
    using assms(1) HeadersStage by (simp add: processCurrentStage_def processHeaders_def split: option.splits)
  have "ps_buffer st' = drop (i + 4) (ps_buffer st)" "ps_stage st' = ContentStage" "ps_finished st' = ps_finished st"
    using assms(1) HeadersStage i
    by (auto simp: processCurrentStage_def processHeaders_def Let_def split: option.splits if_splits)
  then show ?thesis using assms(2) HeadersStage indexOf_bound [OF i] by (simp add: parse_measure_def)
next
  case ContentStage
  show ?thesis
  proof (cases "indexOf (ps_boundary st) (ps_buffer st)")
    case None
    then show ?thesis
      using assms ContentStage
      by (auto simp: processCurrentStage_def processContent_def Let_def parse_measure_def contentChunk_fields
          split: if_splits)
  next
    case (Some i)
    then show ?thesis
      using assms ContentStage
      by (auto simp: processCurrentStage_def processContent_def Let_def parse_measure_def contentChunk_fields
          finalize_fields split: if_splits)
  qed
qed

function process_loop :: "who \<Rightarrow> parser_state \<Rightarrow> thrown + parser_state" where
  \<comment> \<open>the \<open>while\<close> loop of \<open>processChunk\<close>\<close>
  "process_loop w st =
     (if ps_buffer st = [] \<or> ps_finished st then Inr st
      else case processCurrentStage w st of
             Inl e \<Rightarrow> Inl e
           | Inr None \<Rightarrow> Inr st
           | Inr (Some st') \<Rightarrow> process_loop w st')"
  by pat_completeness auto
termination
  by (relation "measure (parse_measure \<circ> snd)") (auto intro: stage_decreases)

declare process_loop.simps [simp del]

definition processChunk :: "who \<Rightarrow> parser_state \<Rightarrow> string \<Rightarrow> thrown + parser_state" where
  "processChunk w st chunk = process_loop w (st\<lparr>ps_buffer := ps_buffer st @ chunk\<rparr>)"

fun processChunks :: "who \<Rightarrow> parser_state \<Rightarrow> string list \<Rightarrow> thrown option \<times> parser_state" where
  \<comment> \<open>the loop over the request: the error it ends with, if any, and the state it leaves\<close>
  "processChunks w st [] = (None, st)"
| "processChunks w st (c # cs) =
     (case processChunk w st c of Inl e \<Rightarrow> (Some e, st) | Inr st' \<Rightarrow> processChunks w st' cs)"

section \<open>Results\<close>

datatype 'a one_or_many = One 'a | Many "'a list"

definition single_or_list :: "'a list \<Rightarrow> 'a one_or_many" where
  "single_or_list vs = (case vs of [v] \<Rightarrow> One v | _ \<Rightarrow> Many vs)"

record multipart_data =
  md_fields :: "(string, string one_or_many) js_map"
  md_files :: "(string, uploaded_file one_or_many) js_map"

definition finalize :: "who \<Rightarrow> parser_state \<Rightarrow> thrown + multipart_data" where
  "finalize w st =
     (if \<not> ps_foundBoundary st then Inl (mp_validation w ''No valid multipart boundary found'')
      else if \<not> ps_processedPart st then Inl (mp_validation w ''Empty multipart request'')
      else Inr \<lparr>md_fields = map (\<lambda>(k, vs). (k, single_or_list vs)) (ps_fields st),
                md_files = map (\<lambda>(k, vs). (k, single_or_list vs)) (ps_files st)\<rparr>)"

definition cleanup :: "parser_state \<Rightarrow> string list" where
  \<comment> \<open>the temporary files removed; closing open streams is not observable here\<close>
  "cleanup st = ps_cleanupTasks st"

definition parseMultipartRequest ::
  "who \<Rightarrow> string \<Rightarrow> string \<Rightarrow> string list \<Rightarrow> parse_options \<Rightarrow> (thrown + multipart_data) \<times> string list" where
  "parseMultipartRequest w tempPath contentType chunks options =
     (case extractBoundary contentType of
        None \<Rightarrow> (Inl (BlaizeErr (UnsupportedMediaTypeError (fst w) (snd w) ''Missing boundary in multipart content-type''
                   (Some (JObj [(''receivedContentType'', JStr contentType),
                                (''expectedFormat'', JStr ''multipart/form-data; boundary=...'')])))), [])
      | Some boundary \<Rightarrow>
          (let st = createParserState boundary options;
               st = (if ps_filename st \<noteq> None then initializeFileProcessing tempPath st else st);
               (r, st) = processChunks w st chunks
           in (case r of Some e \<Rightarrow> Inl e | None \<Rightarrow> finalize w st, cleanup st)))"

definition context_options :: "int \<Rightarrow> int \<Rightarrow> int \<Rightarrow> parse_options" where
  \<comment> \<open>the options the request context passes, over the defaults\<close>
  "context_options maxFileSize maxFiles maxFieldSize = multipart_DEFAULT_OPTIONS
     \<lparr>po_strategy := SStream, po_maxFileSize := maxFileSize, po_maxFiles := maxFiles, po_maxFieldSize := maxFieldSize\<rparr>"

section \<open>Runs of the parser\<close>

inductive mp_step :: "who \<Rightarrow> parser_state \<times> string list \<Rightarrow> parser_state \<times> string list \<Rightarrow> bool" for w where
  mp_read: "mp_step w (st, c # cs) (st\<lparr>ps_buffer := ps_buffer st @ c\<rparr>, cs)"
| mp_stage: "\<not> ps_finished st \<Longrightarrow> processCurrentStage w st = Inr (Some st') \<Longrightarrow> mp_step w (st, cs) (st', cs)"

inductive_cases mp_stepE: "mp_step w s t"

definition mp_stuck :: "who \<Rightarrow> parser_state \<Rightarrow> bool" where
  "mp_stuck w st \<longleftrightarrow> ps_buffer st = [] \<or> ps_finished st \<or> processCurrentStage w st = Inr None"

definition mp_fails :: "who \<Rightarrow> parser_state \<Rightarrow> thrown \<Rightarrow> bool" where
  "mp_fails w st e \<longleftrightarrow> \<not> ps_finished st \<and> processCurrentStage w st = Inl e"

lemma process_loop_steps:
  "case process_loop w st of
     Inr st' \<Rightarrow> (mp_step w)\<^sup>*\<^sup>* (st, cs) (st', cs) \<and> mp_stuck w st'
   | Inl e \<Rightarrow> (\<exists>st'. (mp_step w)\<^sup>*\<^sup>* (st, cs) (st', cs) \<and> mp_fails w st' e)"
proof (induction w st rule: process_loop.induct)
  case (1 w st)
  show ?case
  proof (cases "ps_buffer st = [] \<or> ps_finished st")
    case True
    then show ?thesis by (subst process_loop.simps) (auto simp: mp_stuck_def)
  next
    case False
    show ?thesis
    proof (cases "processCurrentStage w st")
      case (Inl e)
      then show ?thesis using False by (subst process_loop.simps) (auto simp: mp_fails_def)
    next
      case (Inr r)
      show ?thesis
      proof (cases r)
        case None
        then show ?thesis using False Inr by (subst process_loop.simps) (auto simp: mp_stuck_def)
      next
        case (Some st')
        have step: "mp_step w (st, cs) (st', cs)" using False Inr Some by (auto intro: mp_stage)
        have eq: "process_loop w st = process_loop w st'" using False Inr Some by (subst process_loop.simps) simp
        show ?thesis
          using 1 [OF False Inr Some] unfolding eq
          by (auto split: sum.splits intro: converse_rtranclp_into_rtranclp [where r = "mp_step w", OF step])
      qed
    qed
  qed
qed

lemma processChunks_steps:
  "case processChunks w st cs of
     (None, st') \<Rightarrow> (mp_step w)\<^sup>*\<^sup>* (st, cs) (st', []) \<and> (cs \<noteq> [] \<or> mp_stuck w st \<longrightarrow> mp_stuck w st')
   | (Some e, st') \<Rightarrow> (\<exists>st'' cs''. (mp_step w)\<^sup>*\<^sup>* (st, cs) (st'', cs'') \<and> mp_fails w st'' e) \<and> (\<exists>cs'. (mp_step w)\<^sup>*\<^sup>* (st, cs) (st', cs'))"
proof (induction w st cs rule: processChunks.induct)
  case (2 w st c cs)
  let ?st = "st\<lparr>ps_buffer := ps_buffer st @ c\<rparr>"
  have read: "mp_step w (st, c # cs) (?st, cs)" by (rule mp_read)
  note loop = process_loop_steps [of w ?st cs]
  show ?case
  proof (cases "process_loop w ?st")
    case (Inl e)
    then show ?thesis
      using loop converse_rtranclp_into_rtranclp [where r = "mp_step w", OF read] by (auto simp: processChunk_def)
  next
    case (Inr st')
    then have st': "(mp_step w)\<^sup>*\<^sup>* (st, c # cs) (st', cs)" "mp_stuck w st'"
      using loop converse_rtranclp_into_rtranclp [where r = "mp_step w", OF read] by auto
    have IH: "case processChunks w st' cs of
        (None, st'') \<Rightarrow> (mp_step w)\<^sup>*\<^sup>* (st', cs) (st'', []) \<and> (cs \<noteq> [] \<or> mp_stuck w st' \<longrightarrow> mp_stuck w st'')
      | (Some e, st'') \<Rightarrow> (\<exists>st3 cs3. (mp_step w)\<^sup>*\<^sup>* (st', cs) (st3, cs3) \<and> mp_fails w st3 e) \<and>
          (\<exists>cs'. (mp_step w)\<^sup>*\<^sup>* (st', cs) (st'', cs'))"
      by (rule 2) (simp add: processChunk_def Inr)
    have "processChunks w st (c # cs) = processChunks w st' cs" by (simp add: processChunk_def Inr)
    then show ?thesis
      using IH st' rtranclp_trans [OF st'(1)]
      by (auto split: prod.splits option.splits)
  qed
qed simp

section \<open>Limits\<close>

definition file_ok :: "parse_options \<Rightarrow> uploaded_file \<Rightarrow> bool" where
  "file_ok opts f \<longleftrightarrow> uf_size f \<le> max 0 (po_maxFileSize opts) \<and>
     (po_allowedMimeTypes opts = [] \<or> uf_mimetype f \<in> set (po_allowedMimeTypes opts)) \<and>
     (case po_strategy opts of
        SMemory \<Rightarrow> (\<exists>bs. uf_buffer f = Some bs \<and> int (length bs) = uf_size f)
      | SStream \<Rightarrow> uf_stream f = None \<and> uf_buffer f = None \<and> uf_tempPath f = None
      | STemp \<Rightarrow> uf_stream f = Some [] \<and> uf_buffer f = None \<and> uf_tempPath f = None)"

definition all_files :: "(string, 'a list) js_map \<Rightarrow> 'a list" where
  "all_files m = concat (map snd m)"

definition upload_inv :: "parse_options \<Rightarrow> parser_state \<times> string list \<Rightarrow> bool" where
  "upload_inv opts = (\<lambda>(st, cs). ps_options st = opts \<and> ps_stream st = None \<and> ps_tempPath st = None \<and>
     ps_writeStream st = None \<and> ps_cleanupTasks st = [] \<and>
     (\<forall>f \<in> set (all_files (ps_files st)). file_ok opts f) \<and>
     (\<forall>v \<in> set (all_files (ps_fields st)). int (length v) \<le> max 0 (po_maxFieldSize opts)) \<and>
     ps_fileCount st \<le> max 0 (po_maxFiles opts) \<and>
     int (length (all_files (ps_files st))) + (if ps_filename st \<noteq> None then 1 else 0) \<le> ps_fileCount st \<and>
     (ps_filename st = None \<or> po_strategy opts = SMemory \<longrightarrow> ps_contentLength st = int (length (concat (ps_chunks st)))) \<and>
     ps_contentLength st \<le> max 0 (if ps_filename st \<noteq> None then po_maxFileSize opts else po_maxFieldSize opts) \<and>
     (ps_filename st \<noteq> None \<longrightarrow> po_allowedMimeTypes opts = [] \<or> ps_mimetype st \<in> set (po_allowedMimeTypes opts)) \<and>
     (ps_stage st \<noteq> ContentStage \<longrightarrow> ps_filename st = None))"

lemma all_files_add:
  "mset (all_files (addToCollection m k v)) = add_mset v (mset (all_files m))"
  unfolding addToCollection_def all_files_def
  by (induction m) (auto split: option.splits)

lemma set_all_files_add [simp]: "set (all_files (addToCollection m k v)) = insert v (set (all_files m))"
  using arg_cong [OF all_files_add [of m k v], of set_mset] by simp

lemma length_all_files_add [simp]: "length (all_files (addToCollection m k v)) = Suc (length (all_files m))"
  using arg_cong [OF all_files_add [of m k v], of size] by simp

lemma inv_boundary:
  assumes "upload_inv opts (st, cs)" "processBoundary st = Some st'" "ps_stage st = BoundaryStage"
  shows "upload_inv opts (st', cs)"
  using assms by (auto simp: upload_inv_def processBoundary_def Let_def split: option.splits if_splits)

lemma inv_headers:
  assumes "upload_inv opts (st, cs)" "processHeaders w st = Inr (Some st')" "ps_stage st = HeadersStage"
  shows "upload_inv opts (st', cs)"
  using assms by (auto simp: upload_inv_def processHeaders_def Let_def split: option.splits if_splits)

lemma inv_contentChunk:
  assumes "upload_inv opts (st, cs)" "processContentChunk w st chunk = Inr st'" "ps_stage st = ContentStage"
  shows "upload_inv opts (st', cs)"
  using assms
  by (auto simp: upload_inv_def processContentChunk_def processFileChunk_def Let_def split: if_splits strategy.splits)

lemma inv_reset:
  assumes "upload_inv opts (st, cs)"
  shows "upload_inv opts ((resetCurrentPart st)\<lparr>ps_stage := BoundaryStage, ps_processedPart := True\<rparr>, cs)"
  using assms unfolding upload_inv_def resetCurrentPart_def by (simp split: if_splits)

lemma inv_field:
  assumes "upload_inv opts (st, cs)" "ps_filename st = None"
  shows "upload_inv opts ((finalizeField k st)\<lparr>ps_stage := BoundaryStage, ps_processedPart := True\<rparr>, cs)"
  using assms unfolding upload_inv_def finalizeField_def resetCurrentPart_def by simp

lemma inv_file:
  assumes "upload_inv opts (st, cs)" "ps_filename st = Some f"
  shows "upload_inv opts ((finalizeFile k f st)\<lparr>ps_stage := BoundaryStage, ps_processedPart := True\<rparr>, cs)"
proof -
  let ?file = "\<lparr>uf_fieldname = k, uf_originalname = f, uf_encoding = ''7bit'', uf_mimetype = ps_mimetype st, uf_size = ps_contentLength st,
      uf_stream = (case po_strategy (ps_options st) of
        SMemory \<Rightarrow> Some (concat (ps_chunks st)) | SStream \<Rightarrow> ps_stream st | STemp \<Rightarrow> Some []),
      uf_buffer = (if po_strategy (ps_options st) = SMemory then Some (concat (ps_chunks st)) else None),
      uf_tempPath = (if po_strategy (ps_options st) = STemp then ps_tempPath st else None)\<rparr>"
  have ok: "file_ok opts ?file"
    using assms by (cases "po_strategy opts") (simp_all add: upload_inv_def file_ok_def)
  have "finalizeFile k f st = (resetCurrentPart st)\<lparr>ps_files := addToCollection (ps_files st) k ?file\<rparr>"
    by (simp add: finalizeFile_def Let_def)
  then show ?thesis using assms ok unfolding upload_inv_def resetCurrentPart_def by simp
qed

lemma inv_finalize:
  assumes "upload_inv opts (st, cs)"
  shows "upload_inv opts ((finalizeCurrentPart st)\<lparr>ps_stage := BoundaryStage, ps_processedPart := True\<rparr>, cs)"
  using inv_reset [OF assms] inv_field [OF assms] inv_file [OF assms]
  by (simp add: finalizeCurrentPart_def split: option.split list.split)

lemma upload_inv_buffer [simp]: "upload_inv opts (st\<lparr>ps_buffer := x\<rparr>, cs) = upload_inv opts (st, cs)"
  by (simp add: upload_inv_def)

lemma upload_inv_rest: "upload_inv opts (st, cs) \<Longrightarrow> upload_inv opts (st, cs')"
  by (simp add: upload_inv_def)

lemma inv_content:
  assumes "upload_inv opts (st, cs)" "processContent w st = Inr (Some st')" "ps_stage st = ContentStage"
  shows "upload_inv opts (st', cs)"
  using assms
  by (auto simp: processContent_def Let_def split: option.splits if_splits intro!: inv_finalize
      intro: inv_contentChunk [where st = "st\<lparr>ps_buffer := x\<rparr>" for x])

interpretation upload: inductive_invariant
  "\<lambda>s. \<exists>b. fst s = createParserState b opts" "mp_step w" "upload_inv opts" for opts w
proof unfold_locales
  show "\<exists>b. fst s = createParserState b opts \<Longrightarrow> upload_inv opts s" for s
    by (cases s) (auto simp: upload_inv_def createParserState_def all_files_def)
  show "mp_step w s t \<Longrightarrow> upload_inv opts s \<Longrightarrow> upload_inv opts t" for s t
    by (erule mp_stepE) (auto simp: processCurrentStage_def split: parser_stage.splits
        intro: upload_inv_rest inv_boundary inv_headers inv_content)
qed

lemma create_filename [simp]: "ps_filename (createParserState b opts) = None"
  by (simp add: createParserState_def)

lemma parse_upload_inv:
  assumes "parseMultipartRequest w tp ct chunks opts = (Inr d, gone)"
  obtains st where "upload_inv opts (st, [])" "finalize w st = Inr d" "gone = []"
proof -
  obtain b where b: "extractBoundary ct = Some b"
    using assms by (auto simp: parseMultipartRequest_def split: option.splits)
  obtain r st where r: "processChunks w (createParserState b opts) chunks = (r, st)" by fastforce
  have p: "parseMultipartRequest w tp ct chunks opts = (case r of Some e \<Rightarrow> Inl e | None \<Rightarrow> finalize w st, cleanup st)"
    by (simp add: parseMultipartRequest_def b r)
  then have "r = None" "finalize w st = Inr d" using assms by (auto split: option.splits)
  moreover from this have steps: "(mp_step w)\<^sup>*\<^sup>* (createParserState b opts, chunks) (st, [])"
    using processChunks_steps [of w "createParserState b opts" chunks] by (simp add: r)
  have "upload_inv opts (st, [])"
    by (rule upload.steps_inv [OF steps]) (rule upload.inv_init, simp, blast)
  moreover from this have "gone = []" using p assms by (simp add: cleanup_def upload_inv_def)
  ultimately show ?thesis using that by blast
qed

fun listed :: "'a one_or_many \<Rightarrow> 'a list" where
  "listed (One v) = [v]" | "listed (Many vs) = vs"

lemma listed_single_or_list [simp]: "listed (single_or_list vs) = vs"
  by (auto simp: single_or_list_def split: list.split)

definition data_files :: "multipart_data \<Rightarrow> uploaded_file list" where
  "data_files d = concat (map (listed \<circ> snd) (md_files d))"

definition data_values :: "multipart_data \<Rightarrow> string list" where
  "data_values d = concat (map (listed \<circ> snd) (md_fields d))"

lemma finalize_data:
  assumes "finalize w st = Inr d"
  shows "data_files d = all_files (ps_files st)" "data_values d = all_files (ps_fields st)"
  using assms by (auto simp: finalize_def data_files_def data_values_def all_files_def comp_def split_beta split: if_splits)

text \<open>C12: upload limits are enforced. Whatever bytes a client sends, in whatever chunks: when parsing
  succeeds, there are at most \<open>maxFiles\<close> files, no file is larger than \<open>maxFileSize\<close>, every file has
  an allowed type, and no field value is longer than \<open>maxFieldSize\<close>. Under the memory strategy the
  stated size of a file is the length of its buffer.\<close>

theorem upload_limits_enforced:
  assumes "parseMultipartRequest w tp ct chunks opts = (Inr d, gone)"
  shows "int (length (data_files d)) \<le> max 0 (po_maxFiles opts) \<and>
    (\<forall>v \<in> set (data_values d). int (length v) \<le> max 0 (po_maxFieldSize opts)) \<and>
    (\<forall>f \<in> set (data_files d). uf_size f \<le> max 0 (po_maxFileSize opts) \<and>
       (po_allowedMimeTypes opts = [] \<or> uf_mimetype f \<in> set (po_allowedMimeTypes opts)) \<and>
       (po_strategy opts = SMemory \<longrightarrow> (\<exists>bs. uf_buffer f = Some bs \<and> int (length bs) = uf_size f)))"
proof -
  obtain st where st: "upload_inv opts (st, [])" "finalize w st = Inr d" using parse_upload_inv [OF assms] .
  have n: "int (length (data_files d)) \<le> max 0 (po_maxFiles opts)"
    using st(1) by (simp add: finalize_data [OF st(2)] upload_inv_def split: if_splits)
  have v: "\<forall>v \<in> set (data_values d). int (length v) \<le> max 0 (po_maxFieldSize opts)"
    and f: "\<forall>f \<in> set (data_files d). file_ok opts f"
    using st(1) by (simp_all add: finalize_data [OF st(2)] upload_inv_def)
  show ?thesis using n v f by (auto simp: file_ok_def)
qed

text \<open>Streamed uploads lose their files. The request context parses with the stream strategy,
  for which the parser never opens a stream (\<open>initializeFileProcessing\<close> runs before any part is
  known): whatever is uploaded, every file of the result has no stream, no buffer and no temporary
  path, only its size.\<close>

theorem streamed_files_have_no_content:
  assumes "parseMultipartRequest w tp ct chunks (context_options a b c) = (Inr d, gone)" "f \<in> set (data_files d)"
  shows "uf_stream f = None \<and> uf_buffer f = None \<and> uf_tempPath f = None"
proof -
  obtain st where st: "upload_inv (context_options a b c) (st, [])" "finalize w st = Inr d"
    using parse_upload_inv [OF assms(1)] .
  then have "file_ok (context_options a b c) f"
    using assms(2) by (simp add: finalize_data [OF st(2)] upload_inv_def)
  then show ?thesis by (simp add: file_ok_def context_options_def)
qed

section \<open>Searching: lemmas\<close>

lemma indexOf_append:
  "p \<noteq> [] \<Longrightarrow> indexOf p x = Some i \<Longrightarrow> indexOf p (x @ y) = Some i"
proof (induction p x arbitrary: i rule: indexOf.induct)
  case (2 p c s)
  show ?case
  proof (cases "take (length p) (c # s) = p")
    case True
    then have "length p \<le> length (c # s)" by (metis length_take min.cobounded1)
    then have "take (length p) ((c # s) @ y) = p" using True by (metis append_Nil2 diff_is_0_eq take_0 take_append)
    then show ?thesis using 2 True by simp
  next
    case False
    then obtain j where j: "indexOf p s = Some j" "i = Suc j" using 2 by auto
    have "length p \<le> length (c # s)" using indexOf_bound [OF j(1)] by simp
    then have "take (length p) ((c # s) @ y) = take (length p) (c # s)" by (metis append_Nil2 diff_is_0_eq take_0 take_append)
    then show ?thesis using 2 False j by simp
  qed
qed simp

lemma indexOf_skip:
  "c \<notin> set x \<Longrightarrow> indexOf (c # q) (x @ s) = map_option (\<lambda>i. length x + i) (indexOf (c # q) s)"
proof (induction x)
  case Nil
  show ?case by (cases "indexOf (c # q) s") simp_all
next
  case (Cons a x)
  then show ?case by (cases "indexOf (c # q) s") auto
qed

lemma indexOf_self [simp]: "indexOf p (p @ s) = Some 0"
proof (cases "p @ s")
  case (Cons a t)
  then have "take (length p) (a # t) = p" by (metis append_eq_conv_conj)
  then show ?thesis by (simp add: Cons)
qed simp

lemma indexOf_tl: "indexOf p (c # s) = None \<Longrightarrow> indexOf p s = None"
  by (auto split: if_splits)

lemma indexOf_drop: "indexOf p s = None \<Longrightarrow> indexOf p (drop k s) = None"
proof (induction k arbitrary: s)
  case (Suc k)
  then show ?case by (cases s) (auto dest: indexOf_tl split: if_splits)
qed simp

lemma indexOf_before_sep:
  assumes "indexOf p x = None" "c \<notin> set p" "d \<notin> set p" "p \<noteq> []"
  shows "indexOf p (x @ c # d # p @ s) = Some (length x + 2)"
  using assms(1)
proof (induction x)
  case Nil
  have no: "take (length p) (e # t) \<noteq> p" if "e \<notin> set p" for e t
    using that assms(4) by (cases p) auto
  show ?case using no [OF assms(2)] no [OF assms(3)] by simp
next
  case (Cons e x)
  have "take (length p) ((e # x) @ c # d # p @ s) \<noteq> p"
  proof (cases "length p \<le> length (e # x)")
    case True
    then have "take (length p) ((e # x) @ c # d # p @ s) = take (length p) (e # x)"
      by (metis append_Nil2 diff_is_0_eq take_0 take_append)
    then show ?thesis using Cons.prems by (auto split: if_splits)
  next
    case False
    then have "c \<in> set (take (length p) ((e # x) @ c # d # p @ s))" by (auto simp: take_Cons' split: if_splits)
    then show ?thesis using assms(2) by metis
  qed
  then show ?case using Cons indexOf_tl by (simp split: if_splits)
qed

lemma strip_ci_simps [simp]:
  "strip_ci [] s = Some s" "strip_ci (l # lit) [] = None"
  "strip_ci (l # lit) (c # s) = (if lower_char c = lower_char l then strip_ci lit s else None)"
  by (simp_all add: strip_ci_def toLowerCase_def)

lemma strip_ci_append: "strip_ci lit (lit @ s) = Some s"
  by (simp add: strip_ci_def)

lemma strip_ci_Some: "strip_ci lit s \<noteq> None \<Longrightarrow> toLowerCase (take (length lit) s) = toLowerCase lit"
  by (simp add: strip_ci_def split: if_splits)

lemma lower_char_colon: "lower_char c = CHR '':'' \<longleftrightarrow> c = CHR '':''"
proof
  assume l: "lower_char c = CHR '':''"
  have "of_char (lower_char c) = (if 65 \<le> (of_char c :: nat) \<and> of_char c \<le> (90 :: nat) then of_char c + 32 else of_char c :: nat)"
    by (simp add: lower_char_def Let_def)
  then have "of_char c = (58 :: nat)" using l by (auto split: if_splits)
  moreover have "of_char (CHR '':'') = (58 :: nat)" by simp
  ultimately show "c = CHR '':''" by (metis of_char_eq_iff)
qed (simp add: lower_char_def)

section \<open>Encoding, for reference\<close>

text \<open>
  How a client writes a form (RFC 7578): each part has a \<open>Content-Disposition\<close> line, a file part a
  \<open>Content-Type\<close> line too. Names are such that they need no escaping.
\<close>

datatype part = FieldPart string string | FilePart string string string string

fun part_headers :: "part \<Rightarrow> string" where
  "part_headers (FieldPart n v) = ''Content-Disposition: form-data; name='' @ quote # n @ [quote]"
| "part_headers (FilePart n f t bs) = ''Content-Disposition: form-data; name='' @ quote # n @ quote # ''; filename='' @
     quote # f @ quote # CR # LF # ''Content-Type: '' @ t"

fun part_content :: "part \<Rightarrow> string" where
  "part_content (FieldPart n v) = v" | "part_content (FilePart n f t bs) = bs"

fun part_name :: "part \<Rightarrow> string" where
  "part_name (FieldPart n v) = n" | "part_name (FilePart n f t bs) = n"

fun part_filename :: "part \<Rightarrow> string option" where
  "part_filename (FieldPart n v) = None" | "part_filename (FilePart n f t bs) = Some f"

fun is_file :: "part \<Rightarrow> bool" where
  "is_file (FieldPart n v) = False" | "is_file (FilePart n f t bs) = True"

definition encode_part :: "string \<Rightarrow> part \<Rightarrow> string" where
  "encode_part B p = B @ CRLF @ part_headers p @ CRLF @ CRLF @ part_content p @ CRLF"

definition encode_parts :: "string \<Rightarrow> part list \<Rightarrow> string" where
  "encode_parts B ps = concat (map (encode_part B) ps) @ B @ ''--'' @ CRLF"

definition encode :: "string \<Rightarrow> part list \<Rightarrow> string" where
  "encode b ps = encode_parts (''--'' @ b) ps"

definition name_ok :: "string \<Rightarrow> bool" where
  "name_ok n \<longleftrightarrow> quote \<notin> set n \<and> CR \<notin> set n \<and> LF \<notin> set n \<and> CHR '':'' \<notin> set n"

definition type_ok :: "string \<Rightarrow> bool" where
  "type_ok t \<longleftrightarrow> t \<noteq> [] \<and> \<not> is_space (hd t) \<and> \<not> is_space (last t) \<and> CR \<notin> set t \<and> LF \<notin> set t"

fun part_ok :: "string \<Rightarrow> part \<Rightarrow> bool" where
  \<comment> \<open>the boundary does not occur in the content\<close>
  "part_ok b (FieldPart n v) \<longleftrightarrow> n \<noteq> [] \<and> name_ok n \<and> indexOf (''--'' @ b) v = None"
| "part_ok b (FilePart n f t bs) \<longleftrightarrow> n \<noteq> [] \<and> name_ok n \<and> name_ok f \<and> type_ok t \<and> indexOf (''--'' @ b) bs = None"

lemma lower_eval [simp]:
  "lower_char (CHR ''C'') = CHR ''c''" "lower_char CR = CR" "lower_char LF = LF" "lower_char quote = quote"
  "toLowerCase ''Content-Type:'' = ''content-type:''"
  by code_simp+

lemma takeWhile_until: "c \<notin> set x \<Longrightarrow> takeWhile (\<lambda>d. d \<noteq> c) (x @ c # s) = x"
  by (subst takeWhile_append2) auto

lemma disposition_field:
  assumes "n \<noteq> []" "quote \<notin> set n"
  shows "disposition_at (''Content-Disposition: form-data; name='' @ quote # n @ quote # s) = Some (n, filename_at s)"
proof -
  have sp: "is_space (CHR '' '')" "\<not> is_space (CHR ''f'')" "\<not> is_space (CHR ''n'')" by (simp_all add: is_space_def)
  show ?thesis using assms by (simp add: disposition_at_def sp takeWhile_until Let_def)
qed

lemma filename_file:
  "quote \<notin> set f \<Longrightarrow> filename_at (''; filename='' @ quote # f @ quote # s) = Some f"
  by (simp add: filename_at_def is_space_def takeWhile_until)

lemma disposition_skip:
  "disposition_at (CR # s) = None" "disposition_at (LF # s) = None"
  by (simp_all add: disposition_at_def)

lemma parse_disposition:
  assumes "part_ok b p" "pre = [] \<or> pre = CRLF"
  shows "parseContentDisposition (pre @ part_headers p) = Some (part_name p, part_filename p)"
proof -
  have "disposition_at (part_headers p) = Some (part_name p, part_filename p)"
  proof (cases p)
    case (FieldPart n v)
    then show ?thesis using assms disposition_field [of n "[]"] by (auto simp: name_ok_def filename_at_def)
  next
    case (FilePart n f t bs)
    then show ?thesis
      using assms disposition_field [of n "''; filename='' @ quote # f @ quote # CR # LF # ''Content-Type: '' @ t"]
        filename_file [of f "CR # LF # ''Content-Type: '' @ t"] by (auto simp: name_ok_def)
  qed
  moreover obtain c s where "part_headers p = c # s" by (cases p) simp_all
  ultimately show ?thesis using assms(2) by (auto simp: parseContentDisposition_def disposition_skip)
qed

lemma type_skip:
  assumes "CHR '':'' \<notin> set x" "lower_char d \<notin> set ''content-type:''"
  shows "first_match type_at (x @ d # s) = first_match type_at s"
  using assms(1)
proof (induction x)
  case Nil
  have "lower_char d \<noteq> CHR ''c''" using assms(2) by auto
  then have "type_at (d # s) = None" by (simp add: type_at_def)
  then show ?case by simp
next
  case (Cons c x)
  let ?s = "c # x @ d # s"
  have "strip_ci ''Content-Type:'' ?s = None"
  proof (rule ccontr)
    assume a: "strip_ci ''Content-Type:'' ?s \<noteq> None"
    have len: "length ''Content-Type:'' = 13" by simp
    have m: "toLowerCase (take 13 ?s) = ''content-type:''"
      using strip_ci_Some [OF a] by (simp only: len lower_eval(5))
    show False
    proof (cases "13 \<le> length (c # x)")
      case True
      then have "take 13 ?s = take 13 (c # x)" by (metis append_Cons append_Nil2 diff_is_0_eq take_0 take_append)
      then have "set (toLowerCase (take 13 (c # x))) = set ''content-type:''" using m by (simp only:)
      then have "CHR '':'' \<in> lower_char ` set (take 13 (c # x))" by (auto simp add: toLowerCase_def)
      then obtain e where e: "e \<in> set (take 13 (c # x))" "lower_char e = CHR '':''" by (elim imageE) simp
      have "e \<in> set (c # x)" by (rule in_set_takeD [OF e(1)])
      then show False using Cons.prems e(2) lower_char_colon [of e] by simp
    next
      case False
      then have "d \<in> set (take 13 ?s)" by (auto simp: take_Cons' split: if_splits)
      then have "lower_char d \<in> set (toLowerCase (take 13 ?s))" unfolding toLowerCase_def set_map by (rule imageI)
      then show False using m assms(2) by simp
    qed
  qed
  then show ?case using Cons by (simp add: type_at_def)
qed

lemma type_literal:
  "first_match type_at (''Content-Disposition: form-data; name='' @ quote # s) = first_match type_at s"
proof -
  have l: "lower_char (CHR '' '') = CHR '' ''" by code_simp
  have "lower_char quote \<notin> set ''content-type:''" "lower_char (CHR '' '') \<notin> set ''content-type:''" by (simp_all add: l)
  then have "first_match type_at (''form-data; name='' @ quote # s) = first_match type_at s"
    by (intro type_skip) simp_all
  moreover have "type_at (''Content-Disposition: form-data; name='' @ quote # s) = None"
  proof -
    have "lower_char (CHR ''T'') = CHR ''t''" "lower_char (CHR ''D'') = CHR ''d''" by code_simp+
    then show ?thesis by (simp add: type_at_def)
  qed
  moreover have "first_match type_at (''ontent-Disposition: '' @ t) = first_match type_at t" for t
  proof -
    have "lower_char (CHR ''o'') = CHR ''o''" "lower_char (CHR ''n'') = CHR ''n''" "lower_char (CHR ''t'') = CHR ''t''"
      "lower_char (CHR ''e'') = CHR ''e''" "lower_char (CHR ''-'') = CHR ''-''" "lower_char (CHR ''D'') = CHR ''d''"
      "lower_char (CHR ''i'') = CHR ''i''" "lower_char (CHR ''s'') = CHR ''s''" "lower_char (CHR ''p'') = CHR ''p''"
      "lower_char (CHR '':'') = CHR '':''" by code_simp+
    then show ?thesis by (simp add: type_at_def l)
  qed
  ultimately show ?thesis by simp
qed

lemma type_trim: "type_ok t \<Longrightarrow> js_trim t = t"
proof -
  assume t: "type_ok t"
  have "dropWhile is_space t = t" using t by (cases t) (auto simp: type_ok_def)
  moreover have "rev t = last t # rev (butlast t)"
    using t by (metis append_butlast_last_id rev_eq_Cons_iff rev_rev_ident type_ok_def)
  then have "dropWhile is_space (rev t) = rev t" using t by (simp only: type_ok_def dropWhile.simps if_False simp_thms)
  ultimately show ?thesis by (simp add: js_trim_def)
qed

lemma parse_type:
  assumes "part_ok b (FilePart n f t bs)" "pre = [] \<or> pre = CRLF"
  shows "parseContentType (pre @ part_headers (FilePart n f t bs)) = t"
proof -
  have ok: "name_ok n" "name_ok f" "type_ok t" using assms(1) by simp_all
  have q: "lower_char quote \<notin> set ''content-type:''" "lower_char CR \<notin> set ''content-type:''" "lower_char LF \<notin> set ''content-type:''"
    by simp_all
  have skip: "CHR '':'' \<notin> set x \<Longrightarrow> first_match type_at (x @ quote # s) = first_match type_at s"
    "first_match type_at (CR # s) = first_match type_at s" "first_match type_at (LF # s) = first_match type_at s" for x s
    using type_skip [OF _ q(1), of x s] type_skip [OF _ q(2), of "[]" s] type_skip [OF _ q(3), of "[]" s] by auto
  have last: "first_match type_at (''Content-Type: '' @ t) = Some t"
  proof -
    have "dropWhile is_space (CHR '' '' # t) = t" using ok(3) by (cases t) (auto simp: type_ok_def is_space_def)
    moreover have "takeWhile (\<lambda>c. c \<noteq> CR \<and> c \<noteq> LF) t = t" using ok(3) by (auto simp: type_ok_def takeWhile_eq_all_conv)
    moreover have "strip_ci ''Content-Type:'' (''Content-Type:'' @ CHR '' '' # t) = Some (CHR '' '' # t)" by (rule strip_ci_append)
    ultimately have "type_at (''Content-Type:'' @ CHR '' '' # t) = Some t"
      using ok(3) by (simp only: type_at_def) (simp add: type_ok_def)
    then show ?thesis by simp
  qed
  have colon: "CHR '':'' \<notin> set n" "CHR '':'' \<notin> set f" using ok by (simp_all add: name_ok_def)
  have "first_match type_at (part_headers (FilePart n f t bs)) =
      first_match type_at (n @ quote # ''; filename='' @ quote # f @ quote # CR # LF # ''Content-Type: '' @ t)"
    by (simp only: part_headers.simps type_literal)
  also have "\<dots> = first_match type_at (''; filename='' @ quote # f @ quote # CR # LF # ''Content-Type: '' @ t)"
    by (rule skip(1) [OF colon(1)])
  also have "\<dots> = first_match type_at (f @ quote # CR # LF # ''Content-Type: '' @ t)" by (rule skip(1)) simp
  also have "\<dots> = first_match type_at (CR # LF # ''Content-Type: '' @ t)" by (rule skip(1) [OF colon(2)])
  also have "\<dots> = first_match type_at (''Content-Type: '' @ t)" by (simp only: skip)
  finally have "first_match type_at (part_headers (FilePart n f t bs)) = Some t" by (simp only: last)
  then have "first_match type_at (pre @ part_headers (FilePart n f t bs)) = Some t"
    using assms(2) by (auto simp only: append_Cons append_Nil skip)
  then show ?thesis using type_trim [OF ok(3)] ok(3) by (simp add: parseContentType_def type_ok_def)
qed

lemma crlf_line:
  "y \<noteq> [] \<Longrightarrow> hd y \<noteq> CR \<Longrightarrow>
     indexOf (CRLF @ CRLF) (CR # LF # y) = map_option (\<lambda>i. Suc (Suc i)) (indexOf (CRLF @ CRLF) y)"
  by (cases y) (auto simp: option.map_comp comp_def)

lemma crlf_end: "CR \<notin> set x \<Longrightarrow> indexOf (CRLF @ CRLF) (x @ CR # LF # CR # LF # s) = Some (length x)"
  using indexOf_skip [of CR x "[LF, CR, LF]" "CR # LF # CR # LF # s"] indexOf_self [of "CRLF @ CRLF" s] by simp

lemma headers_end:
  assumes "part_ok b p" "pre = [] \<or> pre = CRLF"
  shows "indexOf (CRLF @ CRLF) (pre @ part_headers p @ CR # LF # CR # LF # s) = Some (length pre + length (part_headers p))"
proof -
  let ?r = "CR # LF # CR # LF # s"
  have h: "indexOf (CRLF @ CRLF) (part_headers p @ ?r) = Some (length (part_headers p))"
  proof (cases p)
    case (FieldPart n v)
    then have "CR \<notin> set (part_headers p)" using assms(1) by (auto simp: name_ok_def)
    then show ?thesis by (rule crlf_end)
  next
    case (FilePart n f t bs)
    define x where "x = ''Content-Disposition: form-data; name='' @ quote # n @ quote # ''; filename='' @ quote # f @ [quote]"
    define y where "y = ''Content-Type: '' @ t"
    have y: "CR \<notin> set y" "y \<noteq> []" "hd y \<noteq> CR" using assms(1) FilePart by (auto simp: y_def type_ok_def)
    have x: "CR \<notin> set x" using assms(1) FilePart by (auto simp: x_def name_ok_def)
    have eq: "part_headers p = x @ CR # LF # y" by (simp add: FilePart x_def y_def)
    have "indexOf (CRLF @ CRLF) (CR # LF # y @ ?r) = Some (length y + 2)"
      using crlf_line [of "y @ ?r"] y crlf_end [of y s] by simp
    then have "indexOf (CRLF @ CRLF) (x @ CR # LF # y @ ?r) = Some (length x + (length y + 2))"
      using indexOf_skip [OF x, of "[LF, CR, LF]" "CR # LF # y @ ?r"] by (simp del: indexOf.simps)
    then show ?thesis by (simp add: eq)
  qed
  have "part_headers p \<noteq> []" "hd (part_headers p) \<noteq> CR" by (cases p; simp)+
  then have "indexOf (CRLF @ CRLF) (CR # LF # part_headers p @ ?r) = Some (length (part_headers p) + 2)"
    using crlf_line [of "part_headers p @ ?r"] h by simp
  then show ?thesis using assms(2) h by auto
qed

section \<open>Positions in an encoded body\<close>

definition memory_file :: "string \<Rightarrow> string \<Rightarrow> string \<Rightarrow> string \<Rightarrow> uploaded_file" where
  "memory_file n f t bs = \<lparr>uf_fieldname = n, uf_originalname = f, uf_encoding = ''7bit'', uf_mimetype = t,
     uf_size = int (length bs), uf_stream = Some bs, uf_buffer = Some bs, uf_tempPath = None\<rparr>"

fun add_field :: "(string, string list) js_map \<Rightarrow> part \<Rightarrow> (string, string list) js_map" where
  "add_field m (FieldPart n v) = addToCollection m n v"
| "add_field m (FilePart n f t bs) = m"

fun add_file :: "(string, uploaded_file list) js_map \<Rightarrow> part \<Rightarrow> (string, uploaded_file list) js_map" where
  "add_file m (FieldPart n v) = m"
| "add_file m (FilePart n f t bs) = addToCollection m n (memory_file n f t bs)"

fun part_within :: "parse_options \<Rightarrow> part \<Rightarrow> bool" where
  "part_within opts (FieldPart n v) \<longleftrightarrow> int (length v) \<le> po_maxFieldSize opts"
| "part_within opts (FilePart n f t bs) \<longleftrightarrow> int (length bs) \<le> po_maxFileSize opts \<and>
     (po_allowedMimeTypes opts = [] \<or> t \<in> set (po_allowedMimeTypes opts))"

definition within_limits :: "parse_options \<Rightarrow> part list \<Rightarrow> bool" where
  "within_limits opts ps \<longleftrightarrow> po_strategy opts = SMemory \<and> int (length (filter is_file ps)) \<le> po_maxFiles opts \<and>
     (\<forall>p \<in> set ps. part_within opts p)"

definition mp_common :: "string \<Rightarrow> parse_options \<Rightarrow> part list \<Rightarrow> parser_state \<Rightarrow> bool" where
  \<comment> \<open>the parts \<open>ds\<close> are complete\<close>
  "mp_common b opts ds st \<longleftrightarrow> ps_boundary st = ''--'' @ b \<and> ps_options st = opts \<and>
     ps_fields st = foldl add_field [] ds \<and> ps_files st = foldl add_file [] ds \<and> ps_processedPart st = (ds \<noteq> [])"

inductive mp_at :: "string \<Rightarrow> part list \<Rightarrow> part list \<Rightarrow> parser_state \<Rightarrow> string \<Rightarrow> bool" for b ds where
  at_boundary:
    "\<not> ps_finished st \<Longrightarrow> ps_stage st = BoundaryStage \<Longrightarrow> ps_fileCount st = int (length (filter is_file ds)) \<Longrightarrow>
     ps_buffer st @ u = encode b ps \<Longrightarrow> mp_at b ds ps st u"
| at_headers:
    "\<not> ps_finished st \<Longrightarrow> ps_stage st = HeadersStage \<Longrightarrow> ps_foundBoundary st \<Longrightarrow>
     ps_fileCount st = int (length (filter is_file ds)) \<Longrightarrow> pre = [] \<or> pre = CRLF \<Longrightarrow>
     ps_buffer st @ u = pre @ part_headers p @ CRLF @ CRLF @ part_content p @ CRLF @ encode b ps \<Longrightarrow>
     mp_at b ds (p # ps) st u"
| at_epilogue:
    "\<not> ps_finished st \<Longrightarrow> ps_stage st = HeadersStage \<Longrightarrow> ps_foundBoundary st \<Longrightarrow>
     ps_buffer st @ u = ''--'' @ CRLF \<Longrightarrow> mp_at b ds [] st u"
| at_content:
    "\<not> ps_finished st \<Longrightarrow> ps_stage st = ContentStage \<Longrightarrow> ps_foundBoundary st \<Longrightarrow>
     ps_fileCount st = int (length (filter is_file (ds @ [p]))) \<Longrightarrow>
     ps_field st = Some (part_name p) \<Longrightarrow> ps_filename st = part_filename p \<Longrightarrow>
     (\<forall>n f t bs. p = FilePart n f t bs \<longrightarrow> ps_mimetype st = t) \<Longrightarrow>
     part_content p = concat (ps_chunks st) @ c2 \<Longrightarrow> ps_contentLength st = int (length (concat (ps_chunks st))) \<Longrightarrow>
     ps_buffer st @ u = c2 @ CRLF @ encode b ps \<Longrightarrow> mp_at b ds (p # ps) st u"
| at_end: "ps_finished st \<Longrightarrow> ps_foundBoundary st \<Longrightarrow> mp_at b ds [] st u"


definition after_boundary :: "string \<Rightarrow> part list \<Rightarrow> string" where
  "after_boundary b ps = (case ps of [] \<Rightarrow> ''--'' @ CRLF
     | p # qs \<Rightarrow> CRLF @ part_headers p @ CRLF @ CRLF @ part_content p @ CRLF @ encode b qs)"

lemma encode_after: "encode b ps = (''--'' @ b) @ after_boundary b ps"
  by (cases ps) (simp_all add: encode_def encode_parts_def encode_part_def after_boundary_def)

lemma found_prefix:
  assumes "indexOf p buf = Some i" "p \<noteq> []" "buf @ u = p @ s"
  shows "i = 0 \<and> drop (length p) buf @ u = s"
proof -
  have "indexOf p (p @ s) = Some i" using indexOf_append [OF assms(2,1), of u] assms(3) by simp
  then have "i = 0" by simp
  moreover have "length p \<le> length buf" using indexOf_bound [OF assms(1)] by simp
  then have "drop (length p) (buf @ u) = drop (length p) buf @ u" by simp
  then have "drop (length p) buf @ u = s" using assms(3) by simp
  ultimately show ?thesis by simp
qed

lemma take2_prefix: "take 2 buf = [c, d] \<Longrightarrow> buf @ u = s \<Longrightarrow> take 2 s = [c, d]"
  by (cases buf rule: list.exhaust; cases "tl buf" rule: list.exhaust) auto

lemma boundary_step:
  assumes "mp_common b opts ds st" "\<not> ps_finished st" "ps_stage st = BoundaryStage"
    "ps_fileCount st = int (length (filter is_file ds))" "ps_buffer st @ u = encode b ps" "processBoundary st = Some st'"
  shows "mp_common b opts ds st' \<and> mp_at b ds ps st' u"
proof -
  let ?B = "''--'' @ b"
  have B: "ps_boundary st = ?B" using assms(1) by (simp add: mp_common_def)
  obtain i where i: "indexOf ?B (ps_buffer st) = Some i"
    using assms(6) by (auto simp: processBoundary_def B split: option.splits)
  define buf where "buf = drop (length ?B) (ps_buffer st)"
  have 0: "i = 0" and buf: "buf @ u = after_boundary b ps"
    using found_prefix [OF i, of u "after_boundary b ps"] assms(5) by (simp_all add: buf_def encode_after)
  note st' = assms(6) [unfolded processBoundary_def B i option.case 0 add_0 Let_def, folded buf_def]
  have dashes: "take 2 (after_boundary b ps) = ''--'' \<longleftrightarrow> ps = []" "take 2 (after_boundary b ps) = CRLF \<longleftrightarrow> ps \<noteq> []"
    by (auto simp: after_boundary_def split: list.split)
  show ?thesis
  proof (cases "take 2 buf = ''--''")
    case True
    then have "ps = []" using take2_prefix [OF True buf] dashes by simp
    then show ?thesis using st' True assms(1) by (auto simp: mp_common_def intro: at_end)
  next
    case no_end: False
    let ?buf = "if take 2 buf = CRLF then drop 2 buf else buf"
    have eq: "st' = st\<lparr>ps_buffer := ?buf, ps_foundBoundary := True, ps_stage := HeadersStage, ps_headers := []\<rparr>"
      using st' no_end by simp
    have common: "mp_common b opts ds st'" using assms(1) by (simp add: eq mp_common_def)
    have "mp_at b ds ps st' u"
    proof (cases ps)
      case Nil
      then have "take 2 buf \<noteq> CRLF" using take2_prefix [OF _ buf] dashes by blast
      then show ?thesis using buf Nil assms(2) by (auto simp: eq after_boundary_def intro!: at_epilogue)
    next
      case (Cons p qs)
      let ?pre = "if take 2 buf = CRLF then [] else CRLF"
      have "?buf @ u = ?pre @ part_headers p @ CRLF @ CRLF @ part_content p @ CRLF @ encode b qs"
      proof (cases "take 2 buf = CRLF")
        case True
        then obtain rest where "buf = CRLF @ rest" by (metis append_take_drop_id)
        then show ?thesis using buf Cons by (simp add: after_boundary_def)
      qed (use buf Cons in \<open>simp add: after_boundary_def\<close>)
      then show ?thesis
        unfolding Cons using assms(2,4) by (intro at_headers [where pre = ?pre]) (simp_all add: eq)
    qed
    then show ?thesis using common by blast
  qed
qed

lemma headers_step:
  assumes "mp_common b opts ds st" "\<not> ps_finished st" "ps_foundBoundary st"
    "ps_fileCount st = int (length (filter is_file ds))" "pre = [] \<or> pre = CRLF"
    "ps_buffer st @ u = pre @ part_headers p @ CRLF @ CRLF @ part_content p @ CRLF @ encode b ps"
    "part_ok b p" "part_within opts p" "int (length (filter is_file (ds @ [p]))) \<le> po_maxFiles opts"
  shows "processHeaders w st = Inr None \<and> indexOf (CRLF @ CRLF) (ps_buffer st) = None \<or>
    (\<exists>st'. processHeaders w st = Inr (Some st') \<and> mp_common b opts ds st' \<and> mp_at b ds (p # ps) st' u)"
proof (cases "indexOf (CRLF @ CRLF) (ps_buffer st)")
  case None
  then show ?thesis by (simp add: processHeaders_def)
next
  case (Some i)
  let ?h = "pre @ part_headers p" and ?rest = "part_content p @ CRLF @ encode b ps"
  have full: "ps_buffer st @ u = ?h @ CR # LF # CR # LF # ?rest" using assms(6) by simp
  have "i = length ?h"
    using indexOf_append [OF _ Some, of u] headers_end [OF assms(7,5), of ?rest] full by simp
  have bound: "length ?h + 4 \<le> length (ps_buffer st)" using indexOf_bound [OF Some] \<open>i = length ?h\<close> by simp
  have h: "take i (ps_buffer st) = ?h"
    using arg_cong [OF full, of "take (length ?h)"] bound \<open>i = length ?h\<close> by simp
  have rest: "drop (i + 4) (ps_buffer st) @ u = ?rest"
    using arg_cong [OF full, of "drop (length ?h + 4)"] bound \<open>i = length ?h\<close> by simp
  have opts: "ps_options st = opts" using assms(1) by (simp add: mp_common_def)
  define t where "t = parseContentType ?h"
  have t: "\<forall>n f ty bs. p = FilePart n f ty bs \<longrightarrow> t = ty"
    using assms(7) unfolding t_def by (intro allI impI) (simp only: parse_type [OF _ assms(5)])
  have isf: "part_filename p \<noteq> None \<longleftrightarrow> is_file p" by (cases p) simp_all
  have okm: "is_file p \<longrightarrow> po_allowedMimeTypes opts = [] \<or> t \<in> set (po_allowedMimeTypes opts)"
    using assms(8) t by (cases p) auto
  define st' where "st' = st\<lparr>ps_buffer := drop (i + 4) (ps_buffer st), ps_stage := ContentStage,
    ps_headers := ?h, ps_field := Some (part_name p), ps_filename := part_filename p, ps_mimetype := t, ps_contentLength := 0,
    ps_fileCount := (if is_file p then ps_fileCount st + 1 else ps_fileCount st),
    ps_fieldCount := (if is_file p then ps_fieldCount st else ps_fieldCount st + 1), ps_chunks := []\<rparr>"
  have "processHeaders w st = Inr (Some st')"
    using Some assms(4,9) okm parse_disposition [OF assms(7,5)] isf
    by (auto simp: processHeaders_def h opts Let_def st'_def t_def)
  moreover have "mp_common b opts ds st'" using assms(1) by (simp add: mp_common_def st'_def)
  moreover have "mp_at b ds (p # ps) st' u"
    by (rule at_content [where ?c2.0 = "part_content p"]) (use assms(2-4) rest t in \<open>simp_all add: st'_def\<close>)
  ultimately show ?thesis by blast
qed

lemma contentChunk_memory:
  assumes "po_strategy (ps_options st) = SMemory"
    "ps_contentLength st + int (length chunk) \<le>
      (if ps_filename st \<noteq> None then po_maxFileSize (ps_options st) else po_maxFieldSize (ps_options st))"
  shows "processContentChunk w st chunk =
    Inr (st\<lparr>ps_contentLength := ps_contentLength st + int (length chunk), ps_chunks := ps_chunks st @ [chunk]\<rparr>)"
  using assms by (auto simp: processContentChunk_def processFileChunk_def Let_def)

lemma finalize_memory:
  assumes "po_strategy (ps_options st) = SMemory" "ps_field st = Some (part_name p)" "ps_filename st = part_filename p"
    "\<forall>n f t bs. p = FilePart n f t bs \<longrightarrow> ps_mimetype st = t" "part_content p = concat (ps_chunks st)"
    "ps_contentLength st = int (length (concat (ps_chunks st)))" "part_name p \<noteq> []"
  shows "finalizeCurrentPart st = (resetCurrentPart st)\<lparr>ps_fields := add_field (ps_fields st) p, ps_files := add_file (ps_files st) p\<rparr>"
proof -
  obtain c cs where "part_name p = c # cs" using assms(7) by (cases "part_name p") auto
  then show ?thesis
    using assms by (cases p) (simp_all add: finalizeCurrentPart_def finalizeFile_def finalizeField_def memory_file_def
        resetCurrentPart_def)
qed

definition bad_cuts :: "string \<Rightarrow> part list \<Rightarrow> nat list" where
  \<comment> \<open>how much is still to come when a cut falls one byte before the end of a boundary that follows content\<close>
  "bad_cuts b ps = map (\<lambda>i. Suc (length (after_boundary b (drop i ps)))) [1..<Suc (length ps)]"

lemma bad_cutsI: "ps = ds @ p # qs \<Longrightarrow> Suc (length (after_boundary b qs)) \<in> set (bad_cuts b ps)"
  unfolding bad_cuts_def set_map by (rule image_eqI [of _ _ "Suc (length ds)"]) (simp_all del: upt_Suc)

lemma part_boundary_free: "part_ok b p \<Longrightarrow> indexOf (''--'' @ b) (part_content p) = None \<and> part_name p \<noteq> []"
  by (cases p) simp_all

lemma append_prefix:
  assumes "x @ u = y @ z" "length y \<le> length x"
  shows "\<exists>r. x = y @ r"
proof -
  have "take (length y) x = y" using arg_cong [OF assms(1), of "take (length y)"] assms(2) by simp
  then show ?thesis by (metis append_take_drop_id)
qed

lemma content_step:
  assumes "mp_common b opts ds st" "\<not> ps_finished st" "ps_stage st = ContentStage" "ps_foundBoundary st"
    "ps_fileCount st = int (length (filter is_file (ds @ [p])))" "ps_field st = Some (part_name p)"
    "ps_filename st = part_filename p" "\<forall>n f t bs. p = FilePart n f t bs \<longrightarrow> ps_mimetype st = t"
    "part_content p = concat (ps_chunks st) @ c2" "ps_contentLength st = int (length (concat (ps_chunks st)))"
    "ps_buffer st @ u = c2 @ CRLF @ encode b ps"
    "part_ok b p" "part_within opts p" "po_strategy opts = SMemory" "CR \<notin> set b" "LF \<notin> set b"
    "length u \<noteq> Suc (length (after_boundary b ps))"
  shows "processContent w st = Inr None \<and> indexOf (''--'' @ b) (ps_buffer st) = None \<or>
    (\<exists>st' es. processContent w st = Inr (Some st') \<and> mp_common b opts es st' \<and>
       (es = ds \<and> mp_at b ds (p # ps) st' u \<or> es = ds @ [p] \<and> mp_at b es ps st' u))"
proof -
  let ?B = "''--'' @ b" and ?buf = "ps_buffer st"
  have B: "ps_boundary st = ?B" and opts: "ps_options st = opts" using assms(1) by (simp_all add: mp_common_def)
  have mem: "po_strategy (ps_options st) = SMemory" using assms(14) opts by simp
  have lim: "int (length (part_content p)) \<le> (if ps_filename st \<noteq> None then po_maxFileSize (ps_options st) else po_maxFieldSize (ps_options st))"
    using assms(7,13) opts by (cases p) auto
  have free: "indexOf ?B c2 = None"
    using part_boundary_free [OF assms(12)] indexOf_drop [of ?B "part_content p" "length (concat (ps_chunks st))"] assms(9) by simp
  have first: "indexOf ?B (?buf @ u) = Some (length c2 + 2)"
    using indexOf_before_sep [OF free, of CR LF "after_boundary b ps"] assms(11,15,16) by (simp add: encode_after)
  show ?thesis
  proof (cases "indexOf ?B ?buf")
    case None
    define safe where "safe = length ?buf - length ?B"
    show ?thesis
    proof (cases "safe = 0")
      case True
      then show ?thesis using None by (simp add: processContent_def B Let_def safe_def)
    next
      case False
      have len: "length ?buf + length u = length c2 + 2 + length ?B + length (after_boundary b ps)"
        using arg_cong [OF assms(11), of length] by (simp add: encode_after)
      have "length u > length (after_boundary b ps)"
      proof (rule ccontr)
        assume "\<not> ?thesis"
        then have *: "length c2 + 2 + length ?B \<le> length ?buf" using len by simp
        have "?buf @ u = (c2 @ CRLF @ ?B) @ after_boundary b ps" using assms(11) by (simp add: encode_after)
        moreover have "length (c2 @ CRLF @ ?B) \<le> length ?buf" using * by simp
        ultimately obtain r where "?buf = (c2 @ CRLF @ ?B) @ r" by (meson append_prefix)
        then have "indexOf ?B ?buf = Some (length c2 + 2)"
          using indexOf_before_sep [OF free, of CR LF r] assms(15,16) by simp
        then show False using None by simp
      qed
      then have safe: "safe \<le> length c2" using len assms(17) by (simp add: safe_def)
      have sl: "safe - length ?buf = 0" by (simp add: safe_def)
      define st' where "st' = st\<lparr>ps_buffer := drop safe ?buf, ps_contentLength := ps_contentLength st + int (length (take safe ?buf)),
        ps_chunks := ps_chunks st @ [take safe ?buf]\<rparr>"
      have tk: "take safe ?buf = take safe c2" "drop safe ?buf @ u = drop safe c2 @ CRLF @ encode b ps"
        using arg_cong [OF assms(11), of "take safe"] arg_cong [OF assms(11), of "drop safe"] safe sl by simp_all
      have c2: "concat (ps_chunks st) @ take safe ?buf @ drop safe c2 = part_content p" using tk(1) assms(9) by simp
      have "int (length (part_content p)) =
          int (length (concat (ps_chunks st))) + int (length (take safe ?buf)) + int (length (drop safe c2))"
        unfolding c2 [symmetric] by simp
      then have "ps_contentLength st + int (length (take safe ?buf)) \<le> int (length (part_content p))"
        using assms(10) by linarith
      from order_trans [OF this lim]
      have "processContentChunk w (st\<lparr>ps_buffer := drop safe ?buf\<rparr>) (take safe ?buf) = Inr st'"
        using mem by (subst contentChunk_memory) (auto simp: st'_def split: if_splits)
      then have "processContent w st = Inr (Some st')"
        using None False by (simp add: processContent_def B Let_def safe_def)
      moreover have "mp_common b opts ds st'" using assms(1) by (simp add: mp_common_def st'_def)
      moreover have "mp_at b ds (p # ps) st' u"
        by (rule at_content [where ?c2.0 = "drop safe c2"])
          (use assms(2-8,10) tk(2) c2 in \<open>simp_all add: st'_def\<close>)
      ultimately show ?thesis by blast
    qed
  next
    case (Some i)
    have i: "i = length c2 + 2" using indexOf_append [OF _ Some, of u] first by simp
    have "length c2 + 2 \<le> length ?buf" using indexOf_bound [OF Some] i by simp
    then have tk: "take (i - 2) ?buf = c2" "drop i ?buf @ u = encode b ps"
      using arg_cong [OF assms(11), of "take (length c2)"] arg_cong [OF assms(11), of "drop (length c2 + 2)"] i by simp_all
    define st1 where "st1 = st\<lparr>ps_buffer := drop i ?buf, ps_contentLength := int (length (part_content p)),
      ps_chunks := (if c2 = [] then ps_chunks st else ps_chunks st @ [c2])\<rparr>"
    have cl: "ps_contentLength st + int (length c2) = int (length (part_content p))" using assms(9,10) by simp
    have "(if c2 \<noteq> [] then processContentChunk w (st\<lparr>ps_buffer := drop i ?buf\<rparr>) c2 else Inr (st\<lparr>ps_buffer := drop i ?buf\<rparr>)) = Inr st1"
    proof (cases "c2 = []")
      case False
      have "processContentChunk w (st\<lparr>ps_buffer := drop i ?buf\<rparr>) c2 = Inr st1"
        using mem lim cl False by (subst contentChunk_memory) (auto simp: st1_def split: if_splits)
      then show ?thesis using False by simp
    qed (use cl in \<open>simp add: st1_def\<close>)
    moreover define st' where "st' = (finalizeCurrentPart st1)\<lparr>ps_stage := BoundaryStage, ps_processedPart := True\<rparr>"
    ultimately have pc: "processContent w st = Inr (Some st')"
      using Some tk(1) by (simp add: processContent_def B Let_def)
    have fin: "finalizeCurrentPart st1 =
        (resetCurrentPart st1)\<lparr>ps_fields := add_field (ps_fields st1) p, ps_files := add_file (ps_files st1) p\<rparr>"
      by (rule finalize_memory)
        (use mem assms(6-9) part_boundary_free [OF assms(12)] in \<open>simp_all add: st1_def\<close>)
    have "mp_common b opts (ds @ [p]) st'"
      using assms(1) unfolding mp_common_def st'_def fin resetCurrentPart_def by (simp add: st1_def)
    moreover have "mp_at b (ds @ [p]) ps st' u"
      unfolding st'_def fin resetCurrentPart_def
      by (rule at_boundary) (use assms(2,5) tk(2) in \<open>simp_all add: st1_def\<close>)
    ultimately show ?thesis using pc by blast
  qed
qed

section \<open>Parsing an encoded form\<close>

definition clean_cuts :: "string \<Rightarrow> part list \<Rightarrow> string list \<Rightarrow> bool" where
  "clean_cuts b ps cs \<longleftrightarrow> (\<forall>k \<in> {..length cs}. length (concat (drop k cs)) \<notin> set (bad_cuts b ps))"

definition form_ok :: "string \<Rightarrow> parse_options \<Rightarrow> part list \<Rightarrow> bool" where
  "form_ok b opts ps \<longleftrightarrow> ps \<noteq> [] \<and> CR \<notin> set b \<and> LF \<notin> set b \<and> list_all (part_ok b) ps \<and> within_limits opts ps"

definition form_inv :: "string \<Rightarrow> parse_options \<Rightarrow> part list \<Rightarrow> parser_state \<times> string list \<Rightarrow> bool" where
  "form_inv b opts ps = (\<lambda>(st, cs). form_ok b opts ps \<and> clean_cuts b ps cs \<and>
     (\<exists>ds qs. ps = ds @ qs \<and> mp_common b opts ds st \<and> mp_at b ds qs st (concat cs)))"

lemma form_stage:
  assumes "form_ok b opts ps" "clean_cuts b ps cs" "ps = ds @ qs" "mp_common b opts ds st" "mp_at b ds qs st (concat cs)"
    "\<not> ps_finished st"
  shows "processCurrentStage w st = Inr None \<and> (concat cs = [] \<longrightarrow> qs = [] \<and> ps_foundBoundary st) \<or>
    (\<exists>st'. processCurrentStage w st = Inr (Some st') \<and> form_inv b opts ps (st', cs))"
  using assms(5)
proof (cases rule: mp_at.cases)
  case at_boundary
  have "processBoundary st \<noteq> None" if u: "concat cs = []"
  proof -
    have "indexOf (ps_boundary st) (ps_buffer st) = Some 0"
      using at_boundary(4) [unfolded u append_Nil2 encode_after] assms(4) by (simp only: mp_common_def indexOf_self)
    then show ?thesis by (simp add: processBoundary_def Let_def)
  qed
  then show ?thesis
    using boundary_step [OF assms(4,6) at_boundary(2-4)] assms(1-3) at_boundary(2)
    by (cases "processBoundary st") (auto simp: processCurrentStage_def form_inv_def)
next
  case (at_headers pre p rs)
  have p: "part_ok b p" "part_within opts p" "int (length (filter is_file (ds @ [p]))) \<le> po_maxFiles opts"
    using assms(1,3) at_headers(1) by (auto simp: form_ok_def within_limits_def)
  have "indexOf (CRLF @ CRLF) (ps_buffer st) \<noteq> None" if u: "concat cs = []"
    using at_headers(7) [unfolded u append_Nil2] headers_end [OF p(1) at_headers(6), of "part_content p @ CRLF @ encode b rs"]
    by simp
  then show ?thesis
    using headers_step [OF assms(4,6) at_headers(4-7) p, of w] assms(1-3) at_headers(1,3)
    by (auto simp: processCurrentStage_def form_inv_def)
next
  case at_epilogue
  have "indexOf (CRLF @ CRLF) (ps_buffer st) = None"
  proof (rule ccontr)
    assume "indexOf (CRLF @ CRLF) (ps_buffer st) \<noteq> None"
    then obtain i where i: "indexOf (CRLF @ CRLF) (ps_buffer st) = Some i" by blast
    have "indexOf (CRLF @ CRLF) (''--'' @ CRLF) = Some i"
      unfolding at_epilogue(5) [symmetric] by (rule indexOf_append [OF _ i]) simp
    then show False by simp
  qed
  then show ?thesis using at_epilogue by (simp add: processCurrentStage_def processHeaders_def)
next
  case (at_content p c2 rs)
  have p: "part_ok b p" "part_within opts p" "po_strategy opts = SMemory" "CR \<notin> set b" "LF \<notin> set b"
    using assms(1,3) at_content(1) by (auto simp: form_ok_def within_limits_def)
  have "length (concat (drop 0 cs)) \<notin> set (bad_cuts b ps)" using assms(2) unfolding clean_cuts_def by blast
  then have cut: "length (concat cs) \<noteq> Suc (length (after_boundary b rs))"
    using bad_cutsI [of ps ds p rs b] assms(3) at_content(1) by auto
  have "indexOf (''--'' @ b) (ps_buffer st) \<noteq> None" if u: "concat cs = []"
  proof -
    have "indexOf (''--'' @ b) c2 = None"
      using part_boundary_free [OF p(1)] indexOf_drop [of "''--'' @ b" "part_content p" "length (concat (ps_chunks st))"]
        at_content(9) by simp
    then show ?thesis
      using at_content(11) [unfolded u append_Nil2] indexOf_before_sep [of "''--'' @ b" c2 CR LF "after_boundary b rs"] p(4,5)
      by (simp add: encode_after)
  qed
  then show ?thesis
    using content_step [OF assms(4,6) at_content(3-11) p cut, of w] assms(1-3) at_content(1,3)
    by (auto simp: processCurrentStage_def form_inv_def)
qed (use assms(6) in simp)

interpretation form: inductive_invariant
  "\<lambda>(st, cs). st = createParserState b opts \<and> concat cs = encode b ps \<and> clean_cuts b ps cs \<and> form_ok b opts ps"
  "mp_step w" "form_inv b opts ps" for b opts ps w
proof unfold_locales
  fix s assume "case s of (st, cs) \<Rightarrow> st = createParserState b opts \<and> concat cs = encode b ps \<and> clean_cuts b ps cs \<and> form_ok b opts ps"
  then obtain cs where s: "s = (createParserState b opts, cs)" "concat cs = encode b ps" "clean_cuts b ps cs" "form_ok b opts ps"
    by (cases s) simp
  have "mp_common b opts [] (createParserState b opts)" by (simp add: mp_common_def createParserState_def)
  moreover have "mp_at b [] ps (createParserState b opts) (concat cs)"
    by (rule at_boundary) (simp_all add: createParserState_def s(2))
  ultimately show "form_inv b opts ps s" using s unfolding form_inv_def by auto
next
  fix s t assume "mp_step w s t" and inv: "form_inv b opts ps s"
  then show "form_inv b opts ps t"
  proof (cases rule: mp_step.cases)
    case (mp_read st c cs)
    obtain ds qs where i: "form_ok b opts ps" "clean_cuts b ps (c # cs)" "ps = ds @ qs" "mp_common b opts ds st" "mp_at b ds qs st (c @ concat cs)"
      using inv by (auto simp: form_inv_def mp_read)
    have "clean_cuts b ps cs" unfolding clean_cuts_def
    proof
      fix k assume "k \<in> {..length cs}"
      then have "Suc k \<in> {..length (c # cs)}" by simp
      then have "length (concat (drop (Suc k) (c # cs))) \<notin> set (bad_cuts b ps)" using i(2) unfolding clean_cuts_def by blast
      then show "length (concat (drop k cs)) \<notin> set (bad_cuts b ps)" by simp
    qed
    moreover have "mp_common b opts ds (st\<lparr>ps_buffer := ps_buffer st @ c\<rparr>)" using i(4) by (simp add: mp_common_def)
    moreover have "mp_at b ds qs (st\<lparr>ps_buffer := ps_buffer st @ c\<rparr>) (concat cs)"
      using i(5) by (cases rule: mp_at.cases) (auto intro: mp_at.intros)
    ultimately show ?thesis using i(1,3) by (auto simp: form_inv_def mp_read)
  next
    case (mp_stage st st' cs)
    obtain ds qs where i: "form_ok b opts ps" "clean_cuts b ps cs" "ps = ds @ qs" "mp_common b opts ds st" "mp_at b ds qs st (concat cs)"
      using inv by (auto simp: form_inv_def mp_stage)
    show ?thesis using form_stage [OF i mp_stage(3), of w] mp_stage(4) by (simp add: mp_stage(2))
  qed
qed












definition upload_demo_options :: "strategy \<Rightarrow> parse_options" where
  "upload_demo_options s = \<lparr>po_maxFileSize = 5, po_maxFiles = 1, po_maxFieldSize = 3, po_allowedMimeTypes = [''t''], po_strategy = s\<rparr>"

definition demo_type :: string where
  "demo_type = ''multipart/form-data; boundary=x''"





definition small_upload :: string where
  "small_upload = ''--x'' @ CRLF @ ''Content-Disposition:form-data;name='' @ quote # ''f'' @ quote # '';filename='' @ quote # ''n'' @
     quote # CRLF @ CRLF @ ''zz'' @ CRLF @ ''--x--''"

theorem streamed_files_have_no_content_witness:
  "\<exists>d f. parseMultipartRequest (''c'', ''t'') [] ''boundary=x'' [small_upload] (context_options 5 1 3) = (Inr d, []) \<and>
     data_files d = [f] \<and> uf_size f = 2 \<and> uf_stream f = None \<and> uf_buffer f = None"
proof -
  have "(case parseMultipartRequest (''c'', ''t'') [] ''boundary=x'' [small_upload] (context_options 5 1 3) of
      (Inr d, []) \<Rightarrow> (case data_files d of [f] \<Rightarrow> uf_size f = 2 | _ \<Rightarrow> False) | _ \<Rightarrow> False)" by code_simp
  then obtain d f where d: "parseMultipartRequest (''c'', ''t'') [] ''boundary=x'' [small_upload] (context_options 5 1 3) = (Inr d, [])"
    "data_files d = [f]" "uf_size f = 2"
    by (auto split: prod.splits sum.splits list.splits)
  then show ?thesis using streamed_files_have_no_content [OF d(1), of f] by auto
qed

text \<open>One bad cut corrupts a field. The body of a form with the single field \<open>a\<close> of value \<open>1\<close>, sent
  in two chunks of which the first ends one byte before the end of the closing boundary, is parsed
  into the value \<open>1\<close> followed by a carriage return: the parser keeps back as many bytes as the
  boundary has, but not the line break before it.\<close>

theorem cut_inside_boundary_corrupts_field:
  "(let body = encode ''x'' [FieldPart ''a'' ''1''];
        n = length body - Suc (length (after_boundary ''x'' []))
    in case parseMultipartRequest (''c'', ''t'') [] demo_type [take n body, drop n body] (upload_demo_options SMemory) of
         (Inr d, _) \<Rightarrow> map_get (md_fields d) ''a'' = Some (One [CHR ''1'', CR])
       | _ \<Rightarrow> False) \<and>
   (case parseMultipartRequest (''c'', ''t'') [] demo_type [encode ''x'' [FieldPart ''a'' ''1'']] (upload_demo_options SMemory) of
      (Inr d, _) \<Rightarrow> map_get (md_fields d) ''a'' = Some (One ''1'')
    | _ \<Rightarrow> False)"
  by code_simp

end
