(* ===== verification/Metrics.thy ===== *)
theory Metrics
  imports Blaize_Errors
begin

text \<open>
  The metrics plugin: the collector (\<open>plugins/metrics/src/collector.ts\<close>) with its HTTP request tracker
  (\<open>http-tracker.ts\<close>), the statistics both compute, and the names and labels of the Prometheus export
  (\<open>prometheus-formatter.ts\<close>).

  Measured values are real numbers: rounding, infinities and \<open>NaN\<close> are left out. Times are arguments.
  The function that stops a timer is represented by the pair of name and start time it closes over.
  Log messages are left out, but the set of warnings already given is kept.
\<close>

section \<open>Statistics of samples\<close>

definition calculatePercentile :: "real list \<Rightarrow> real \<Rightarrow> real" where
  "calculatePercentile xs percentile =
     (if length xs = 0 then 0
      else if length xs = 1 then xs ! 0
      else
        (let index = (real (length xs) - 1) * percentile;
             lower = nat \<lfloor>index\<rfloor>;
             upper = nat \<lceil>index\<rceil>;
             weight = index - real lower
         in if lower = upper then xs ! lower
            else xs ! lower * (1 - weight) + xs ! upper * weight))"

record histogram_stats =
  hs_count :: nat
  hs_sum :: real
  hs_min :: real
  hs_max :: real
  hs_mean :: real
  hs_p50 :: real
  hs_p95 :: real
  hs_p99 :: real

definition calculateHistogramStats :: "real list \<Rightarrow> histogram_stats" where
  "calculateHistogramStats samples =
     (if samples = []
      then \<lparr>hs_count = 0, hs_sum = 0, hs_min = 0, hs_max = 0, hs_mean = 0, hs_p50 = 0, hs_p95 = 0, hs_p99 = 0\<rparr>
      else
        (let xs = sort samples; count = length xs; total = foldl (+) 0 xs
         in \<lparr>hs_count = count, hs_sum = total, hs_min = xs ! 0, hs_max = xs ! (count - 1),
             hs_mean = total / real count, hs_p50 = calculatePercentile xs (1 / 2),
             hs_p95 = calculatePercentile xs (95 / 100), hs_p99 = calculatePercentile xs (99 / 100)\<rparr>))"

record histogram_data =
  hd_samples :: "real list"
  hd_limit :: int

definition push_limited :: "int \<Rightarrow> real \<Rightarrow> real list \<Rightarrow> real list" where
  \<comment> \<open>push, then drop the oldest when there are too many\<close>
  "push_limited limit v samples = (let s = samples @ [v] in if int (length s) > limit then tl s else s)"

section \<open>The HTTP tracker\<close>

record route_count =
  rc_count :: nat
  rc_totalDuration :: real

record http_tracker =
  ht_totalRequests :: nat
  ht_activeRequests :: nat
  ht_statusCodes :: "(string, nat) js_map"
  ht_durations :: "real list"
  ht_histogramLimit :: int
  ht_methodStats :: "(string, route_count) js_map"
  ht_routeStats :: "(string, route_count) js_map"
  ht_startTime :: real

definition new_http_tracker :: "real \<Rightarrow> int \<Rightarrow> string + http_tracker" where
  "new_http_tracker now limit =
     (if limit \<le> 0 then Inl ''histogramLimit must be greater than 0''
      else Inr \<lparr>ht_totalRequests = 0, ht_activeRequests = 0, ht_statusCodes = [], ht_durations = [],
             ht_histogramLimit = limit, ht_methodStats = [], ht_routeStats = [], ht_startTime = now\<rparr>)"

definition startRequest :: "http_tracker \<Rightarrow> http_tracker" where
  "startRequest t = t\<lparr>ht_activeRequests := ht_activeRequests t + 1\<rparr>"

definition updateMethodRouteStats :: "(string, route_count) js_map \<Rightarrow> string \<Rightarrow> real \<Rightarrow> (string, route_count) js_map" where
  "updateMethodRouteStats statsMap key duration =
     (case map_get statsMap key of
        Some s \<Rightarrow> map_set key (s\<lparr>rc_count := rc_count s + 1, rc_totalDuration := rc_totalDuration s + duration\<rparr>) statsMap
      | None \<Rightarrow> map_set key \<lparr>rc_count = 1, rc_totalDuration = duration\<rparr> statsMap)"

definition recordRequest :: "string \<Rightarrow> string \<Rightarrow> nat \<Rightarrow> real \<Rightarrow> http_tracker \<Rightarrow> http_tracker" where
  "recordRequest mth path statusCode duration t =
     (let statusKey = show_nat statusCode
      in t\<lparr>ht_activeRequests := (if ht_activeRequests t > 0 then ht_activeRequests t - 1 else ht_activeRequests t),
           ht_totalRequests := ht_totalRequests t + 1,
           ht_statusCodes := map_set statusKey
             ((case map_get (ht_statusCodes t) statusKey of Some n \<Rightarrow> n | None \<Rightarrow> 0) + 1) (ht_statusCodes t),
           ht_durations := push_limited (ht_histogramLimit t) duration (ht_durations t),
           ht_methodStats := updateMethodRouteStats (ht_methodStats t) mth duration,
           ht_routeStats := updateMethodRouteStats (ht_routeStats t) path duration\<rparr>)"

record route_metrics =
  rm_count :: nat
  rm_avgLatency :: real

definition getMethodRouteMetrics :: "(string, route_count) js_map \<Rightarrow> (string, route_metrics) js_map" where
  "getMethodRouteMetrics statsMap =
     map (\<lambda>(key, s). (key, \<lparr>rm_count = rc_count s, rm_avgLatency = rc_totalDuration s / real (rc_count s)\<rparr>)) statsMap"

record http_metrics =
  hm_totalRequests :: nat
  hm_activeRequests :: nat
  hm_requestsPerSecond :: real
  hm_statusCodes :: "(string, nat) js_map"
  hm_latency :: histogram_stats
  hm_byMethod :: "(string, route_metrics) js_map"
  hm_byRoute :: "(string, route_metrics) js_map"

definition getMetrics :: "real \<Rightarrow> http_tracker \<Rightarrow> http_metrics" where
  "getMetrics now t =
     (let elapsedSeconds = (now - ht_startTime t) / 1000
      in \<lparr>hm_totalRequests = ht_totalRequests t, hm_activeRequests = ht_activeRequests t,
          hm_requestsPerSecond = (if elapsedSeconds > 0 then real (ht_totalRequests t) / elapsedSeconds else 0),
          hm_statusCodes = ht_statusCodes t, hm_latency = calculateHistogramStats (ht_durations t),
          hm_byMethod = getMethodRouteMetrics (ht_methodStats t), hm_byRoute = getMethodRouteMetrics (ht_routeStats t)\<rparr>)"

definition reset_tracker :: "real \<Rightarrow> http_tracker \<Rightarrow> http_tracker" where
  "reset_tracker now t = t\<lparr>ht_totalRequests := 0, ht_activeRequests := 0, ht_statusCodes := [], ht_durations := [],
     ht_methodStats := [], ht_routeStats := [], ht_startTime := now\<rparr>"

section \<open>The collector\<close>

datatype cardinality_action = LDrop | LWarn | LError

record collector =
  mc_http :: http_tracker
  mc_histogramLimit :: int
  mc_maxCardinality :: int
  mc_warnings :: "nat list"
  mc_onLimit :: cardinality_action
  mc_counters :: "(string, real) js_map"
  mc_gauges :: "(string, real) js_map"
  mc_histograms :: "(string, histogram_data) js_map"
  mc_timers :: "(string, histogram_data) js_map"
  mc_collecting :: bool
  mc_lastEventLoopLag :: real

definition new_collector :: "real \<Rightarrow> int \<Rightarrow> int \<Rightarrow> cardinality_action \<Rightarrow> string + collector" where
  "new_collector now histogramLimit maxCardinality onLimit =
     (case new_http_tracker now histogramLimit of
        Inl e \<Rightarrow> Inl e
      | Inr t \<Rightarrow> Inr \<lparr>mc_http = t, mc_histogramLimit = histogramLimit, mc_maxCardinality = maxCardinality, mc_warnings = [],
             mc_onLimit = onLimit, mc_counters = [], mc_gauges = [], mc_histograms = [], mc_timers = [],
             mc_collecting = False, mc_lastEventLoopLag = 0\<rparr>)"

definition getCardinality :: "collector \<Rightarrow> nat" where
  "getCardinality c = length (mc_counters c) + length (mc_gauges c) + length (mc_histograms c) + length (mc_timers c)"

definition warned :: "nat \<Rightarrow> collector \<Rightarrow> collector" where
  "warned n c = c\<lparr>mc_warnings := List.insert n (mc_warnings c)\<rparr>"

definition canAddMetric :: "string \<Rightarrow> string \<Rightarrow> collector \<Rightarrow> string + (bool \<times> collector)" where
  "canAddMetric metricName metricType c =
     (let n = int (getCardinality c)
      in if map_has (mc_counters c) metricName \<or> map_has (mc_gauges c) metricName \<or>
            map_has (mc_histograms c) metricName \<or> map_has (mc_timers c) metricName
         then Inr (True, c)
         else if n \<ge> mc_maxCardinality c
         then (case mc_onLimit c of
                 LError \<Rightarrow> Inl (''Metric cardinality limit reached. Dropping new '' @ metricType @ '': '' @ metricName)
               | LWarn \<Rightarrow> Inr (False, c)
               | LDrop \<Rightarrow> Inr (False, if 100 \<in> set (mc_warnings c) then c else warned 100 c))
         else
           (let percentUsed = \<lfloor>real_of_int (n + 1) / real_of_int (mc_maxCardinality c) * 100\<rfloor>
            in Inr (True, if percentUsed \<ge> 90 \<and> 90 \<notin> set (mc_warnings c) then warned 90 c
                          else if percentUsed \<ge> 80 \<and> 80 \<notin> set (mc_warnings c) then warned 80 c else c)))"

definition when_added :: "string \<Rightarrow> string \<Rightarrow> (collector \<Rightarrow> collector) \<Rightarrow> collector \<Rightarrow> string + collector" where
  \<comment> \<open>the common start of the recording methods\<close>
  "when_added name type f c = (case canAddMetric name type c of
     Inl e \<Rightarrow> Inl e | Inr (ok, c') \<Rightarrow> Inr (if ok then f c' else c'))"

definition increment :: "string \<Rightarrow> real \<Rightarrow> collector \<Rightarrow> string + collector" where
  "increment name v = when_added name ''counter''
     (\<lambda>c. c\<lparr>mc_counters := map_set name ((case map_get (mc_counters c) name of Some n \<Rightarrow> n | None \<Rightarrow> 0) + v) (mc_counters c)\<rparr>)"

definition gauge :: "string \<Rightarrow> real \<Rightarrow> collector \<Rightarrow> string + collector" where
  "gauge name v = when_added name ''gauge'' (\<lambda>c. c\<lparr>mc_gauges := map_set name v (mc_gauges c)\<rparr>)"

definition add_sample :: "int \<Rightarrow> string \<Rightarrow> real \<Rightarrow> (string, histogram_data) js_map \<Rightarrow> (string, histogram_data) js_map" where
  "add_sample limit name v m =
     (let h = (case map_get m name of Some h \<Rightarrow> h | None \<Rightarrow> \<lparr>hd_samples = [], hd_limit = limit\<rparr>)
      in map_set name (h\<lparr>hd_samples := push_limited (hd_limit h) v (hd_samples h)\<rparr>) m)"

definition histogram :: "string \<Rightarrow> real \<Rightarrow> collector \<Rightarrow> string + collector" where
  "histogram name v = when_added name ''histogram''
     (\<lambda>c. c\<lparr>mc_histograms := add_sample (mc_histogramLimit c) name v (mc_histograms c)\<rparr>)"

definition startTimer :: "real \<Rightarrow> string \<Rightarrow> collector \<Rightarrow> string + ((string \<times> real) option \<times> collector)" where
  \<comment> \<open>\<open>None\<close> is the function that does nothing\<close>
  "startTimer now name c = (case canAddMetric name ''timer'' c of
     Inl e \<Rightarrow> Inl e | Inr (ok, c') \<Rightarrow> Inr (if ok then Some (name, now) else None, c'))"

definition stopTimer :: "real \<Rightarrow> string \<times> real \<Rightarrow> collector \<Rightarrow> collector" where
  "stopTimer now t c = c\<lparr>mc_timers := add_sample (mc_histogramLimit c) (fst t) (now - snd t) (mc_timers c)\<rparr>"

definition reset_collector :: "real \<Rightarrow> collector \<Rightarrow> collector" where
  "reset_collector now c = c\<lparr>mc_http := reset_tracker now (mc_http c), mc_counters := [], mc_gauges := [],
     mc_histograms := [], mc_timers := [], mc_warnings := [], mc_lastEventLoopLag := 0\<rparr>"

definition startCollection :: "collector \<Rightarrow> collector" where
  "startCollection c = c\<lparr>mc_collecting := True\<rparr>"

definition stopCollection :: "collector \<Rightarrow> collector" where
  "stopCollection c = c\<lparr>mc_collecting := False\<rparr>"

definition collectPeriodic :: "real option \<Rightarrow> collector \<Rightarrow> collector" where
  \<comment> \<open>the measured lag, \<open>None\<close> when measuring failed\<close>
  "collectPeriodic lag c = c\<lparr>mc_lastEventLoopLag := (case lag of Some l \<Rightarrow> l | None \<Rightarrow> 0)\<rparr>"

record custom_metrics =
  cm_counters :: "(string, real) js_map"
  cm_gauges :: "(string, real) js_map"
  cm_histograms :: "(string, histogram_stats) js_map"
  cm_timers :: "(string, histogram_stats) js_map"

definition getHistogramMetrics :: "(string, histogram_data) js_map \<Rightarrow> (string, histogram_stats) js_map" where
  "getHistogramMetrics m = map (\<lambda>(name, h). (name, calculateHistogramStats (hd_samples h))) m"

definition getCustomMetrics :: "collector \<Rightarrow> custom_metrics" where
  "getCustomMetrics c = \<lparr>cm_counters = mc_counters c, cm_gauges = mc_gauges c,
     cm_histograms = getHistogramMetrics (mc_histograms c), cm_timers = getHistogramMetrics (mc_timers c)\<rparr>"

section \<open>Percentiles\<close>

definition interpolate :: "real list \<Rightarrow> real \<Rightarrow> real" where
  \<comment> \<open>the value at a fractional position\<close>
  "interpolate xs i =
     (if nat \<lfloor>i\<rfloor> = nat \<lceil>i\<rceil> then xs ! nat \<lfloor>i\<rfloor>
      else xs ! nat \<lfloor>i\<rfloor> * (1 - (i - real (nat \<lfloor>i\<rfloor>))) + xs ! nat \<lceil>i\<rceil> * (i - real (nat \<lfloor>i\<rfloor>)))"

lemma interpolate_alt:
  assumes "0 \<le> i"
  shows "interpolate xs i = xs ! nat \<lfloor>i\<rfloor> + (xs ! nat \<lceil>i\<rceil> - xs ! nat \<lfloor>i\<rfloor>) * (i - of_int \<lfloor>i\<rfloor>)"
proof -
  have "real (nat \<lfloor>i\<rfloor>) = of_int \<lfloor>i\<rfloor>" using assms by simp
  then show ?thesis by (simp add: interpolate_def algebra_simps)
qed

lemma interpolate_bounds:
  assumes "sorted xs" "0 \<le> i" "i \<le> real (length xs) - 1"
  shows "xs ! nat \<lfloor>i\<rfloor> \<le> interpolate xs i" "interpolate xs i \<le> xs ! nat \<lceil>i\<rceil>"
proof -
  have "nat \<lceil>i\<rceil> < length xs" using assms(2,3) by linarith
  then have le: "xs ! nat \<lfloor>i\<rfloor> \<le> xs ! nat \<lceil>i\<rceil>" using assms(1) by (intro sorted_nth_mono) linarith+
  have w: "0 \<le> i - of_int \<lfloor>i\<rfloor>" "i - of_int \<lfloor>i\<rfloor> \<le> 1" by linarith+
  show "xs ! nat \<lfloor>i\<rfloor> \<le> interpolate xs i" using le w(1) by (simp add: interpolate_alt [OF assms(2)])
  have "(xs ! nat \<lceil>i\<rceil> - xs ! nat \<lfloor>i\<rfloor>) * (i - of_int \<lfloor>i\<rfloor>) \<le> (xs ! nat \<lceil>i\<rceil> - xs ! nat \<lfloor>i\<rfloor>) * 1"
    using le w(2) by (intro mult_left_mono) simp_all
  then show "interpolate xs i \<le> xs ! nat \<lceil>i\<rceil>" by (simp add: interpolate_alt [OF assms(2)])
qed

lemma interpolate_mono:
  assumes "sorted xs" "0 \<le> i" "i \<le> j" "j \<le> real (length xs) - 1"
  shows "interpolate xs i \<le> interpolate xs j"
proof (cases "\<lfloor>i\<rfloor> = \<lfloor>j\<rfloor>")
  case True
  have len: "nat \<lceil>j\<rceil> < length xs" using assms(2-4) by linarith
  then have le: "xs ! nat \<lfloor>j\<rfloor> \<le> xs ! nat \<lceil>j\<rceil>" using assms(1) by (intro sorted_nth_mono) linarith+
  show ?thesis
  proof (cases "\<lceil>i\<rceil> = \<lceil>j\<rceil>")
    case same: True
    then show ?thesis
      using True le assms(2,3) by (simp add: interpolate_alt mult_left_mono)
  next
    case False
    have "i = of_int \<lfloor>i\<rfloor>"
    proof (rule ccontr)
      assume "i \<noteq> of_int \<lfloor>i\<rfloor>"
      then have "\<lceil>i\<rceil> = \<lfloor>j\<rfloor> + 1" using True by (simp add: ceiling_altdef)
      moreover have "\<lceil>j\<rceil> \<le> \<lfloor>j\<rfloor> + 1" by linarith
      moreover have "\<lceil>i\<rceil> \<le> \<lceil>j\<rceil>" using assms(3) by (rule ceiling_mono)
      ultimately show False using False by simp
    qed
    then have "interpolate xs i = xs ! nat \<lfloor>i\<rfloor>" unfolding interpolate_alt [OF assms(2)] by simp
    then have "interpolate xs i = xs ! nat \<lfloor>j\<rfloor>" using True by simp
    then show ?thesis using interpolate_bounds(1) [OF assms(1) _ assms(4)] assms(2,3) by simp
  qed
next
  case False
  then have "\<lceil>i\<rceil> \<le> \<lfloor>j\<rfloor>" using assms(3) by linarith
  then have "nat \<lceil>i\<rceil> \<le> nat \<lfloor>j\<rfloor>" by (rule nat_mono)
  moreover have "nat \<lfloor>j\<rfloor> < length xs" using assms(2-4) by linarith
  ultimately have "xs ! nat \<lceil>i\<rceil> \<le> xs ! nat \<lfloor>j\<rfloor>" by (rule sorted_nth_mono [OF assms(1)])
  moreover have "interpolate xs i \<le> xs ! nat \<lceil>i\<rceil>" "xs ! nat \<lfloor>j\<rfloor> \<le> interpolate xs j"
    using interpolate_bounds [OF assms(1)] assms(2-4) by auto
  ultimately show ?thesis by linarith
qed

lemma percentile_interpolate:
  assumes "xs \<noteq> []" "0 \<le> p" "p \<le> 1"
  shows "calculatePercentile xs p = interpolate xs ((real (length xs) - 1) * p)"
proof (cases "length xs = 1")
  case True
  then show ?thesis by (simp add: calculatePercentile_def interpolate_def)
next
  case False
  then show ?thesis using assms(1) by (simp add: calculatePercentile_def interpolate_def Let_def)
qed

lemma percentile_mono:
  assumes "sorted xs" "xs \<noteq> []" "0 \<le> p" "p \<le> q" "q \<le> 1"
  shows "calculatePercentile xs p \<le> calculatePercentile xs q"
proof -
  have n: "0 \<le> real (length xs) - 1" using assms(2) by (cases xs) auto
  have "(real (length xs) - 1) * q \<le> (real (length xs) - 1) * 1" using n assms(5) by (intro mult_left_mono) auto
  then show ?thesis
    using assms n by (simp add: percentile_interpolate interpolate_mono mult_left_mono)
qed

lemma percentile_ends:
  assumes "xs \<noteq> []"
  shows "calculatePercentile xs 0 = xs ! 0" "calculatePercentile xs 1 = xs ! (length xs - 1)"
proof -
  have "nat (int (length xs) - 1) = length xs - 1" by simp
  then show "calculatePercentile xs 0 = xs ! 0" "calculatePercentile xs 1 = xs ! (length xs - 1)"
    using assms by (simp_all add: calculatePercentile_def Let_def)
qed

lemma foldl_sum: "foldl (+) a xs = a + sum_list (xs :: real list)"
  by (induction xs arbitrary: a) simp_all

text \<open>The statistics of a histogram are in order. For every non-empty list of samples, the count,
  sum and mean are those of the samples, minimum and maximum are attained, and
  min \<open>\<le>\<close> p50 \<open>\<le>\<close> p95 \<open>\<le>\<close> p99 \<open>\<le>\<close> max.\<close>

theorem histogram_statistics_ordered:
  assumes "samples \<noteq> []"
  shows "let s = calculateHistogramStats samples
    in hs_count s = length samples \<and> hs_sum s = sum_list samples \<and> hs_mean s * real (hs_count s) = hs_sum s \<and>
       hs_min s = Min (set samples) \<and> hs_max s = Max (set samples) \<and>
       hs_min s \<le> hs_p50 s \<and> hs_p50 s \<le> hs_p95 s \<and> hs_p95 s \<le> hs_p99 s \<and> hs_p99 s \<le> hs_max s"
proof -
  let ?xs = "sort samples"
  have len: "length ?xs = length samples" by simp
  then have ne: "?xs \<noteq> []" using assms by (metis length_0_conv)
  have xs: "sorted ?xs" "?xs \<noteq> []" "length ?xs = length samples" "set ?xs = set samples" using ne by simp_all
  have total: "foldl (+) 0 ?xs = sum_list samples"
    using foldl_sum [of 0 ?xs] sum_mset_sum_list [of ?xs] sum_mset_sum_list [of samples] by simp
  have ends: "?xs ! 0 \<le> y \<and> y \<le> ?xs ! (length samples - 1)" if y: "y \<in> set samples" for y
  proof -
    obtain i where "i < length ?xs" "y = ?xs ! i" using y xs(4) by (metis in_set_conv_nth)
    then show ?thesis using sorted_nth_mono [OF xs(1), of 0 i] sorted_nth_mono [OF xs(1), of i "length samples - 1"] by auto
  qed
  have mem: "?xs ! 0 \<in> set samples" "?xs ! (length samples - 1) \<in> set samples"
    using nth_mem [of 0 ?xs] nth_mem [of "length samples - 1" ?xs] assms by simp_all
  have mn: "?xs ! 0 = Min (set samples)" "?xs ! (length samples - 1) = Max (set samples)"
    using Min_eqI [OF _ _ mem(1)] Max_eqI [OF _ _ mem(2)] ends by auto
  note p = percentile_mono [OF xs(1,2)] percentile_ends [OF xs(2)]
  have "calculatePercentile ?xs 0 \<le> calculatePercentile ?xs (1 / 2)"
    "calculatePercentile ?xs (1 / 2) \<le> calculatePercentile ?xs (95 / 100)"
    "calculatePercentile ?xs (95 / 100) \<le> calculatePercentile ?xs (99 / 100)"
    "calculatePercentile ?xs (99 / 100) \<le> calculatePercentile ?xs 1"
    by (rule p(1); simp)+
  then show ?thesis
    using assms xs(3) total mn p(2,3) by (simp add: calculateHistogramStats_def Let_def)
qed

theorem histogram_statistics_ordered_witness:
  "hs_min (calculateHistogramStats [3, 1, 2]) \<le> hs_p50 (calculateHistogramStats [3, 1, 2]) \<and>
   hs_count (calculateHistogramStats [3, 1, 2]) = 3"
  using histogram_statistics_ordered [of "[3, 1, 2]"] by (simp add: Let_def)

section \<open>Runs of the collector\<close>

text \<open>
  A state is the collector, the timers that are running and the number of timers stopped so far. A
  method that throws changes nothing.
\<close>

type_synonym mc_state = "collector \<times> (string \<times> real) list \<times> nat"

definition kept :: "string + collector \<Rightarrow> collector \<Rightarrow> collector" where
  "kept r c = (case r of Inr c' \<Rightarrow> c' | Inl e \<Rightarrow> c)"

inductive mc_step :: "mc_state \<Rightarrow> mc_state \<Rightarrow> bool" where
  mc_increment: "mc_step (c, ts, n) (kept (increment name v c) c, ts, n)"
| mc_gauge: "mc_step (c, ts, n) (kept (gauge name v c) c, ts, n)"
| mc_histogram: "mc_step (c, ts, n) (kept (histogram name v c) c, ts, n)"
| mc_startTimer: "startTimer now name c = Inr (Some t, c') \<Longrightarrow> mc_step (c, ts, n) (c', ts @ [t], n)"
| mc_noTimer: "startTimer now name c = Inr (None, c') \<Longrightarrow> mc_step (c, ts, n) (c', ts, n)"
| mc_stopTimer: "t \<in> set ts \<Longrightarrow> mc_step (c, ts, n) (stopTimer now t c, ts, Suc n)"
| mc_startRequest: "mc_step (c, ts, n) (c\<lparr>mc_http := startRequest (mc_http c)\<rparr>, ts, n)"
| mc_recordRequest: "mc_step (c, ts, n) (c\<lparr>mc_http := recordRequest mth path code d (mc_http c)\<rparr>, ts, n)"
| mc_reset: "mc_step (c, ts, n) (reset_collector now c, ts, n)"
| mc_start: "mc_step (c, ts, n) (startCollection c, ts, n)"
| mc_stop: "mc_step (c, ts, n) (stopCollection c, ts, n)"
| mc_periodic: "mc_step (c, ts, n) (collectPeriodic lag c, ts, n)"

inductive_cases mc_stepE: "mc_step s t"

definition total :: "('v \<Rightarrow> nat) \<Rightarrow> (string, 'v) js_map \<Rightarrow> nat" where
  "total f m = sum_list (map (f \<circ> snd) m)"

lemma total_set: "total f (map_set k v m) + (case map_get m k of Some x \<Rightarrow> f x | None \<Rightarrow> 0) = total f m + f v"
  by (induction m) (auto simp: total_def)

definition http_inv :: "http_tracker \<Rightarrow> bool" where
  "http_inv t \<longleftrightarrow> ht_histogramLimit t > 0 \<and> int (length (ht_durations t)) \<le> ht_histogramLimit t \<and>
     total id (ht_statusCodes t) = ht_totalRequests t \<and> total rc_count (ht_methodStats t) = ht_totalRequests t \<and>
     total rc_count (ht_routeStats t) = ht_totalRequests t"

definition samples_inv :: "int \<Rightarrow> (string, histogram_data) js_map \<Rightarrow> bool" where
  "samples_inv limit m \<longleftrightarrow> (\<forall>h \<in> snd ` set m. hd_limit h = limit \<and> hd_samples h \<noteq> [] \<and> int (length (hd_samples h)) \<le> limit)"

definition metric_names :: "collector \<Rightarrow> string set" where
  "metric_names c = set (map_keys (mc_counters c)) \<union> set (map_keys (mc_gauges c)) \<union>
     set (map_keys (mc_histograms c)) \<union> set (map_keys (mc_timers c))"

definition mc_inv :: "mc_state \<Rightarrow> bool" where
  "mc_inv = (\<lambda>(c, ts, n). http_inv (mc_http c) \<and> mc_histogramLimit c > 0 \<and>
     samples_inv (mc_histogramLimit c) (mc_histograms c) \<and> samples_inv (mc_histogramLimit c) (mc_timers c) \<and>
     int (card (metric_names c)) \<le> max 0 (mc_maxCardinality c) + int n)"

lemma total_update: "total rc_count (updateMethodRouteStats m k d) = Suc (total rc_count m)"
proof (cases "map_get m k")
  case None
  then show ?thesis
    using total_set [of rc_count k "\<lparr>rc_count = 1, rc_totalDuration = d\<rparr>" m] by (simp add: updateMethodRouteStats_def)
next
  case (Some s)
  then show ?thesis
    using total_set [of rc_count k "s\<lparr>rc_count := rc_count s + 1, rc_totalDuration := rc_totalDuration s + d\<rparr>" m]
    by (simp add: updateMethodRouteStats_def)
qed

lemma push_length: "0 < limit \<Longrightarrow> int (length s) \<le> limit \<Longrightarrow> int (length (push_limited limit v s)) \<le> limit"
  by (auto simp: push_limited_def Let_def)

lemma push_nonempty: "0 < limit \<Longrightarrow> push_limited limit v s \<noteq> []"
  by (cases s) (auto simp: push_limited_def Let_def)

lemma http_record: "http_inv t \<Longrightarrow> http_inv (recordRequest mth path code d t)"
  using total_set [of id "show_nat code" "(case map_get (ht_statusCodes t) (show_nat code) of Some n \<Rightarrow> n | None \<Rightarrow> 0) + 1" "ht_statusCodes t"]
  by (auto simp: http_inv_def recordRequest_def Let_def total_update push_length split: option.splits)

lemma set_update_values: "snd ` set (map_set k v m) \<subseteq> insert v (snd ` set m)"
  by (induction m) auto

lemma samples_add:
  assumes "0 < limit" "samples_inv limit m"
  shows "samples_inv limit (add_sample limit name v m)"
proof -
  define h where "h = (case map_get m name of Some h \<Rightarrow> h | None \<Rightarrow> \<lparr>hd_samples = [], hd_limit = limit\<rparr>)"
  have h: "hd_limit h = limit" "int (length (hd_samples h)) \<le> limit"
    using assms map_of_SomeD [of m name] by (auto simp: h_def samples_inv_def split: option.split) force+
  let ?h = "h\<lparr>hd_samples := push_limited (hd_limit h) v (hd_samples h)\<rparr>"
  have new: "hd_limit ?h = limit \<and> hd_samples ?h \<noteq> [] \<and> int (length (hd_samples ?h)) \<le> limit"
    using h assms(1) by (simp add: push_nonempty push_length)
  have eq: "add_sample limit name v m = map_set name ?h m" by (simp add: add_sample_def h_def Let_def)
  show ?thesis unfolding samples_inv_def eq
  proof
    fix k assume "k \<in> snd ` set (map_set name ?h m)"
    then consider "k = ?h" | "k \<in> snd ` set m" using set_update_values [of name ?h m] by blast
    then show "hd_limit k = limit \<and> hd_samples k \<noteq> [] \<and> int (length (hd_samples k)) \<le> limit"
      by cases (use new assms(2) samples_inv_def in blast)+
  qed
qed

lemma http_start: "http_inv t \<Longrightarrow> http_inv (startRequest t)"
  by (simp add: http_inv_def startRequest_def)

lemma http_reset: "http_inv t \<Longrightarrow> http_inv (reset_tracker now t)"
  by (simp add: http_inv_def reset_tracker_def total_def)

lemma mc_inv_http: "mc_inv (c, ts, n) \<Longrightarrow> http_inv t \<Longrightarrow> mc_inv (c\<lparr>mc_http := t\<rparr>, ts, n)"
  by (simp add: mc_inv_def metric_names_def)

lemma mc_inv_reset: "mc_inv (c, ts, n) \<Longrightarrow> mc_inv (reset_collector now c, ts, n)"
  by (simp add: mc_inv_def reset_collector_def http_reset samples_inv_def metric_names_def)

lemma mc_inv_flags:
  "mc_inv (c, ts, n) \<Longrightarrow> mc_inv (startCollection c, ts, n)" "mc_inv (c, ts, n) \<Longrightarrow> mc_inv (stopCollection c, ts, n)"
  "mc_inv (c, ts, n) \<Longrightarrow> mc_inv (collectPeriodic lag c, ts, n)"
  by (simp_all add: mc_inv_def startCollection_def stopCollection_def collectPeriodic_def metric_names_def)

lemma names_bound: "card (metric_names c) \<le> getCardinality c"
proof -
  have "card (metric_names c) \<le> card (set (map_keys (mc_counters c))) + card (set (map_keys (mc_gauges c))) +
      card (set (map_keys (mc_histograms c))) + card (set (map_keys (mc_timers c)))"
    unfolding metric_names_def by (meson add_le_mono card_Un_le le_trans order_refl)
  also have "\<dots> \<le> getCardinality c"
    unfolding getCardinality_def by (intro add_mono) (metis card_length length_map)+
  finally show ?thesis .
qed

lemma finite_names [simp]: "finite (metric_names c)"
  by (simp add: metric_names_def)

definition names_only :: "collector \<Rightarrow> collector \<Rightarrow> bool" where
  \<comment> \<open>nothing but the warnings differ\<close>
  "names_only c c' \<longleftrightarrow> (\<exists>ws. c' = c\<lparr>mc_warnings := ws\<rparr>)"

lemma canAdd_state: "canAddMetric name type c = Inr (ok, c') \<Longrightarrow> names_only c c'"
proof -
  have self: "names_only c c" "names_only c (warned n c)" for n
    unfolding names_only_def warned_def by (metis collector.surjective collector.update_convs(4)) blast
  show "canAddMetric name type c = Inr (ok, c') \<Longrightarrow> names_only c c'"
    using self by (auto simp: canAddMetric_def Let_def split: if_splits cardinality_action.splits)
qed

lemma startTimer_state: "startTimer now name c = Inr (t, c') \<Longrightarrow> names_only c c'"
  by (auto simp: startTimer_def dest: canAdd_state split: sum.splits)

lemma canAdd_room:
  assumes "canAddMetric name type c = Inr (True, c')" "name \<notin> metric_names c"
  shows "int (getCardinality c) < mc_maxCardinality c"
proof -
  have "\<not> (map_has (mc_counters c) name \<or> map_has (mc_gauges c) name \<or> map_has (mc_histograms c) name \<or> map_has (mc_timers c) name)"
    using assms(2) by (simp add: metric_names_def map_has_def)
  then show ?thesis using assms(1) by (auto simp: canAddMetric_def Let_def split: if_splits cardinality_action.splits)
qed

lemma mc_inv_warnings: "names_only c c' \<Longrightarrow> mc_inv (c, ts, n) \<Longrightarrow> mc_inv (c', ts, n)"
  by (auto simp: names_only_def mc_inv_def metric_names_def)

lemma mc_inv_timers: "mc_inv (c, ts, n) \<Longrightarrow> mc_inv (c, ts', n)"
  by (simp add: mc_inv_def)

lemma when_added_inv:
  assumes "mc_inv (c, ts, n)"
    and "\<And>c'. names_only c c' \<Longrightarrow> metric_names (f c') = insert name (metric_names c) \<and> mc_http (f c') = mc_http c \<and>
      mc_histogramLimit (f c') = mc_histogramLimit c \<and> mc_maxCardinality (f c') = mc_maxCardinality c \<and>
      samples_inv (mc_histogramLimit c) (mc_histograms (f c')) \<and> samples_inv (mc_histogramLimit c) (mc_timers (f c'))"
  shows "mc_inv (kept (when_added name type f c) c, ts, n)"
proof (cases "canAddMetric name type c")
  case (Inl e)
  then show ?thesis using assms(1) by (simp add: when_added_def kept_def)
next
  case (Inr r)
  obtain ok c' where r: "r = (ok, c')" by (cases r)
  have c': "names_only c c'" using Inr r canAdd_state by simp
  show ?thesis
  proof (cases ok)
    case False
    then show ?thesis using Inr r mc_inv_warnings [OF c' assms(1)] by (simp add: when_added_def kept_def)
  next
    case True
    have "int (card (insert name (metric_names c))) \<le> max 0 (mc_maxCardinality c) + int n"
    proof (cases "name \<in> metric_names c")
      case False
      then have "int (getCardinality c) < mc_maxCardinality c" using canAdd_room [of name type c c'] Inr r True by simp
      then show ?thesis using names_bound [of c] False by simp
    qed (use assms(1) in \<open>simp add: mc_inv_def insert_absorb\<close>)
    then show ?thesis using Inr r True assms(1) assms(2) [OF c'] by (simp add: when_added_def kept_def mc_inv_def)
  qed
qed

lemma keys_update: "set (map_keys (map_set k v m)) = insert k (set (map_keys m))"
  by (induction m) auto

lemma add_sample_keys: "set (map_keys (add_sample l k v m)) = insert k (set (map_keys m))"
  unfolding add_sample_def Let_def by (rule keys_update)

interpretation metrics: inductive_invariant
  "\<lambda>s. snd s = ([], 0) \<and> (\<exists>now hl mx a. new_collector now hl mx a = Inr (fst s))" mc_step mc_inv
proof unfold_locales
  fix s :: mc_state assume "snd s = ([], 0) \<and> (\<exists>now hl mx a. new_collector now hl mx a = Inr (fst s))"
  then show "mc_inv s"
    by (cases s) (auto simp: new_collector_def new_http_tracker_def mc_inv_def http_inv_def total_def samples_inv_def
        metric_names_def split: if_splits)
next
  fix s t assume "mc_step s t" "mc_inv s"
  then show "mc_inv t"
  proof (cases rule: mc_step.cases)
    case (mc_increment c ts n name v)
    then show ?thesis using \<open>mc_inv s\<close> unfolding increment_def mc_increment
      by (intro when_added_inv) (auto simp: names_only_def metric_names_def keys_update [simplified] mc_inv_def)
  next
    case (mc_gauge c ts n name v)
    then show ?thesis using \<open>mc_inv s\<close> unfolding gauge_def mc_gauge
      by (intro when_added_inv) (auto simp: names_only_def metric_names_def keys_update [simplified] mc_inv_def)
  next
    case (mc_histogram c ts n name v)
    then show ?thesis using \<open>mc_inv s\<close> unfolding histogram_def mc_histogram
      by (intro when_added_inv) (auto simp: names_only_def metric_names_def add_sample_keys [simplified] mc_inv_def samples_add)
  next
    case (mc_stopTimer tm ts c n now)
    have "metric_names (stopTimer now tm c) = insert (fst tm) (metric_names c)"
      by (auto simp: metric_names_def stopTimer_def add_sample_keys [simplified])
    moreover have "card (insert (fst tm) (metric_names c)) \<le> Suc (card (metric_names c))" by (simp add: card_insert_if)
    ultimately show ?thesis using \<open>mc_inv s\<close> unfolding mc_stopTimer by (auto simp: mc_inv_def stopTimer_def samples_add)
  next
    case (mc_startTimer now name c tm c' ts n)
    then show ?thesis using \<open>mc_inv s\<close> mc_inv_warnings [OF startTimer_state] mc_inv_timers by metis
  next
    case (mc_noTimer now name c c' ts n)
    then show ?thesis using \<open>mc_inv s\<close> mc_inv_warnings [OF startTimer_state] by metis
  next
    case (mc_startRequest c ts n)
    then show ?thesis using \<open>mc_inv s\<close> by (simp add: mc_inv_http http_start mc_inv_def metric_names_def)
  next
    case (mc_recordRequest c ts n mth path code d)
    then show ?thesis using \<open>mc_inv s\<close> by (simp add: http_record mc_inv_def metric_names_def)
  qed (use \<open>mc_inv s\<close> in \<open>simp_all add: mc_inv_reset mc_inv_flags\<close>)
qed

text \<open>C36: the collector keeps consistent books within its limits. In every reachable state the request
  total is the sum of the counts per status code, per method and per route; no list of samples
  exceeds \<open>histogramLimit\<close>, and recorded histograms and timers are not empty; and the number of
  distinct metric names is at most \<open>maxCardinality\<close> plus the number of timers stopped so far.\<close>

theorem metrics_books_consistent:
  assumes "reachable (\<lambda>s. snd s = ([], 0) \<and> (\<exists>now hl mx a. new_collector now hl mx a = Inr (fst s))) mc_step (c, ts, n)"
  shows "total id (ht_statusCodes (mc_http c)) = ht_totalRequests (mc_http c) \<and>
    total rc_count (ht_methodStats (mc_http c)) = ht_totalRequests (mc_http c) \<and>
    total rc_count (ht_routeStats (mc_http c)) = ht_totalRequests (mc_http c) \<and>
    int (length (ht_durations (mc_http c))) \<le> ht_histogramLimit (mc_http c) \<and>
    samples_inv (mc_histogramLimit c) (mc_histograms c) \<and> samples_inv (mc_histogramLimit c) (mc_timers c) \<and>
    int (card (metric_names c)) \<le> max 0 (mc_maxCardinality c) + int n"
  using metrics.reachable_inv [OF assms] by (simp add: mc_inv_def http_inv_def)

definition demo_collector :: collector where
  "demo_collector = \<lparr>mc_http = \<lparr>ht_totalRequests = 0, ht_activeRequests = 0, ht_statusCodes = [], ht_durations = [],
       ht_histogramLimit = 2, ht_methodStats = [], ht_routeStats = [], ht_startTime = 0\<rparr>,
     mc_histogramLimit = 2, mc_maxCardinality = 1, mc_warnings = [], mc_onLimit = LDrop, mc_counters = [], mc_gauges = [],
     mc_histograms = [], mc_timers = [], mc_collecting = False, mc_lastEventLoopLag = 0\<rparr>"

lemma demo_collector: "new_collector 0 2 1 LDrop = Inr demo_collector"
  by (simp add: demo_collector_def new_collector_def new_http_tracker_def)

theorem metrics_books_consistent_witness:
  "ht_totalRequests (recordRequest ''GET'' ''/x'' 200 5 (mc_http demo_collector)) = 1 \<and>
   total id (ht_statusCodes (recordRequest ''GET'' ''/x'' 200 5 (mc_http demo_collector))) = 1"
proof -
  let ?init = "\<lambda>s :: mc_state. snd s = ([], 0) \<and> (\<exists>now hl mx a. new_collector now hl mx a = Inr (fst s))"
  have "reachable ?init mc_step (demo_collector, [], 0)" using demo_collector by (intro reach_init) auto
  then have r: "reachable ?init mc_step
      (demo_collector\<lparr>mc_http := recordRequest ''GET'' ''/x'' 200 5 (mc_http demo_collector)\<rparr>, [], 0)"
    by (rule reach_step) (rule mc_recordRequest)
  have "ht_totalRequests (recordRequest ''GET'' ''/x'' 200 5 (mc_http demo_collector)) = 1"
    by (simp add: recordRequest_def demo_collector_def new_collector_def new_http_tracker_def)
  then show ?thesis using metrics_books_consistent [OF r] by simp
qed

text \<open>The limit on metrics can be passed: with \<open>maxCardinality\<close> 1, two timers started before either
  is stopped both enter the books, and one name used for a counter, a gauge and a histogram counts
  three times.\<close>

lemma cardinality_limit_passed:
  "(case startTimer 0 ''a'' demo_collector of
      Inr (Some s, c) \<Rightarrow> (case startTimer 0 ''b'' c of
        Inr (Some t, c) \<Rightarrow> getCardinality (stopTimer 1 t (stopTimer 1 s c)) = 2 | _ \<Rightarrow> False)
    | _ \<Rightarrow> False) \<and>
   (case increment ''a'' 1 demo_collector of
      Inr c \<Rightarrow> (case gauge ''a'' 1 c of Inr c \<Rightarrow> (case histogram ''a'' 1 c of Inr c \<Rightarrow> getCardinality c = 3 | _ \<Rightarrow> False) | _ \<Rightarrow> False)
    | _ \<Rightarrow> False)"
  by (simp add: demo_collector_def new_collector_def new_http_tracker_def startTimer_def canAddMetric_def getCardinality_def
      map_has_def warned_def stopTimer_def add_sample_def increment_def gauge_def histogram_def when_added_def)

section \<open>Names and labels of the export\<close>

definition name_char :: "char \<Rightarrow> bool" where
  "name_char c \<longleftrightarrow> (let n = (of_char c :: nat) in 97 \<le> n \<and> n \<le> 122 \<or> 65 \<le> n \<and> n \<le> 90 \<or> 48 \<le> n \<and> n \<le> 57 \<or>
     c = CHR ''_'' \<or> c = CHR '':'')"

definition digit_or :: "char \<Rightarrow> bool" where
  "digit_or c \<longleftrightarrow> (let n = (of_char c :: nat) in 48 \<le> n \<and> n \<le> 57)"

definition sanitizeMetricName :: "string \<Rightarrow> string" where
  "sanitizeMetricName name =
     (let sanitized = map (\<lambda>c. if name_char c then c else CHR ''_'') name
      in case sanitized of
           c # _ \<Rightarrow> if name_char c \<and> \<not> digit_or c then sanitized else CHR ''_'' # sanitized
         | [] \<Rightarrow> ''_'')"

fun escapeLabel :: "string \<Rightarrow> string" where
  \<comment> \<open>the three replacements, one after the other in the code, touch different characters: the
     backslash first\<close>
  "escapeLabel [] = []"
| "escapeLabel (c # s) =
     (if c = CHR 0x5C then [CHR 0x5C, CHR 0x5C] else if c = CHR 0x22 then [CHR 0x5C, CHR 0x22]
      else if c = CHR 0x0A then [CHR 0x5C, CHR ''n''] else [c]) @ escapeLabel s"

definition formatLabels :: "(string \<times> string) list \<Rightarrow> string" where
  "formatLabels labels =
     (if labels = [] then []
      else CHR ''{'' # str_join '','' (map (\<lambda>(k, v). sanitizeMetricName k @ ''='' @ CHR 0x22 # escapeLabel v @ [CHR 0x22]) labels) @ ''}'')"

fun unescape :: "string \<Rightarrow> string" where
  \<comment> \<open>how the receiver of the text format reads a label value\<close>
  "unescape [] = []"
| "unescape [c] = [c]"
| "unescape (c # d # s) =
     (if c = CHR 0x5C then (if d = CHR ''n'' then CHR 0x0A else d) # unescape s else c # unescape (d # s))"

fun valid_metric_name :: "string \<Rightarrow> bool" where
  "valid_metric_name [] = False"
| "valid_metric_name (c # s) = (name_char c \<and> \<not> digit_or c \<and> list_all name_char s)"

lemma unescape_plain: "c \<noteq> CHR 0x5C \<Longrightarrow> unescape (c # s) = c # unescape s"
  by (cases s) simp_all

text \<open>Exported names and labels are well-formed. Every sanitized metric name or label name is legal
  in the Prometheus text format and legal names stay as they are, and a reader of an escaped label
  value gets the original value back.\<close>

theorem exported_names_and_labels_wellformed:
  "valid_metric_name (sanitizeMetricName name) \<and>
   (valid_metric_name name \<longrightarrow> sanitizeMetricName name = name) \<and>
   unescape (escapeLabel v) = v \<and> CHR 0x0A \<notin> set (escapeLabel v)"
proof -
  have us: "name_char (CHR ''_'')" "\<not> digit_or (CHR ''_'')" by (simp_all add: name_char_def digit_or_def)
  have all: "list_all name_char (map (\<lambda>c. if name_char c then c else CHR ''_'') s)" for s
    using us by (induction s) auto
  have 1: "valid_metric_name (sanitizeMetricName name)"
    using us all by (cases name) (auto simp: sanitizeMetricName_def Let_def)
  have id: "map (\<lambda>c. if name_char c then c else CHR ''_'') s = s" if "list_all name_char s" for s
    using that by (induction s) auto
  have 2: "valid_metric_name name \<longrightarrow> sanitizeMetricName name = name"
    using id by (cases name) (auto simp: sanitizeMetricName_def Let_def)
  have 3: "unescape (escapeLabel v) = v" by (induction v) (simp_all add: unescape_plain)
  have 4: "CHR 0x0A \<notin> set (escapeLabel v)" by (induction v) auto
  show ?thesis using 1 2 3 4 by blast
qed

theorem exported_names_and_labels_wellformed_witness:
  "sanitizeMetricName ''cache_hits'' = ''cache_hits'' \<and> sanitizeMetricName ''9 lives'' = ''_9_lives''"
proof
  have "valid_metric_name ''cache_hits''" by code_simp
  then show "sanitizeMetricName ''cache_hits'' = ''cache_hits''"
    using exported_names_and_labels_wellformed by blast
  show "sanitizeMetricName ''9 lives'' = ''_9_lives''" by code_simp
qed

end
