(* ===== verification/Sse_Client.thy ===== *)
theory Sse_Client
  imports Blaize_Errors
begin

text \<open>
  The client for server-sent events (\<open>blaize-client/src/sse-client.ts\<close>).

  The browser's \<open>EventSource\<close> objects are numbered in the order of their creation; of each the model
  keeps whether it was closed and which listeners are attached: those of \<open>connect\<close>, those of
  \<open>setupPermanentEventHandlers\<close>, and the custom events. A closed source delivers no more events, as
  its specification says. Handlers are known by ids, and \<open>sc_calls\<close> records the calls of handlers with
  the event name. Data is a string: \<open>JSON.parse\<close> and the contents of error objects do not matter here.
  \<open>sc_heartbeat\<close> tells whether the heartbeat timer is pending, \<open>sc_reconnects\<close> counts pending
  reconnect timers. Times, the random part of delays and the byte counter are left out or arguments, and
  handlers do not call the client.
\<close>

section \<open>State\<close>

datatype connection_state = Connecting | Connected | Disconnected | Closed

record event_source =
  es_closed :: bool
  es_initial :: bool        \<comment> \<open>the \<open>open\<close> and \<open>error\<close> listeners of \<open>connect\<close>\<close>
  es_permanent :: bool      \<comment> \<open>\<open>onerror\<close>, \<open>onmessage\<close> and the named listeners\<close>
  es_custom :: "string list"

record client_options =
  cl_heartbeatTimeout :: nat          \<comment> \<open>0 when not set\<close>
  cl_reconnectEnabled :: bool
  cl_maxAttempts :: nat
  cl_initialDelay :: nat              \<comment> \<open>0 when not set\<close>

record sse_client =
  sc_state :: connection_state
  sc_sources :: "event_source list"
  sc_source :: "nat option"
  sc_handlers :: "(string, nat list) js_map"
  sc_custom :: "string list"
  sc_lastEventId :: "string option"
  sc_heartbeat :: bool
  sc_attempts :: nat
  sc_handled :: bool
  sc_reconnects :: nat
  sc_eventsReceived :: nat
  sc_calls :: "(string \<times> nat) list"

definition new_client :: sse_client where
  "new_client = \<lparr>sc_state = Connecting, sc_sources = [], sc_source = None, sc_handlers = [], sc_custom = [],
     sc_lastEventId = None, sc_heartbeat = False, sc_attempts = 0, sc_handled = False, sc_reconnects = 0,
     sc_eventsReceived = 0, sc_calls = []\<rparr>"

section \<open>Helpers\<close>

definition client_emit :: "string \<Rightarrow> sse_client \<Rightarrow> sse_client" where
  "client_emit event c = c\<lparr>sc_calls := sc_calls c @
     map (Pair event) (case map_get (sc_handlers c) event of Some hs \<Rightarrow> hs | None \<Rightarrow> [])\<rparr>"

definition emitError :: "sse_client \<Rightarrow> sse_client" where
  "emitError = client_emit ''error''"

definition on_source :: "nat option \<Rightarrow> (event_source \<Rightarrow> event_source) \<Rightarrow> sse_client \<Rightarrow> sse_client" where
  "on_source i f c = (case i of
     Some k \<Rightarrow> if k < length (sc_sources c) then c\<lparr>sc_sources := (sc_sources c)[k := f (sc_sources c ! k)]\<rparr> else c
   | None \<Rightarrow> c)"

definition clearHeartbeatTimer :: "sse_client \<Rightarrow> sse_client" where
  "clearHeartbeatTimer c = c\<lparr>sc_heartbeat := False\<rparr>"

definition resetHeartbeatTimer :: "client_options \<Rightarrow> sse_client \<Rightarrow> sse_client" where
  "resetHeartbeatTimer o' c = c\<lparr>sc_heartbeat := (cl_heartbeatTimeout o' > 0 \<and> sc_state c = Connected)\<rparr>"

definition startHeartbeatTimer :: "client_options \<Rightarrow> sse_client \<Rightarrow> sse_client" where
  "startHeartbeatTimer o' c = (if cl_heartbeatTimeout o' > 0 then resetHeartbeatTimer o' c else c)"

definition close_client :: "sse_client \<Rightarrow> sse_client" where
  "close_client c =
     (let c = clearHeartbeatTimer (c\<lparr>sc_state := Closed\<rparr>);
          c = (if sc_source c \<noteq> None
               then (on_source (sc_source c)
                       (\<lambda>s. s\<lparr>es_closed := True, es_custom := filter (\<lambda>e. e \<notin> set (sc_custom c)) (es_custom s)\<rparr>) c)
                    \<lparr>sc_custom := [], sc_source := None\<rparr>
               else c)
      in c\<lparr>sc_handlers := []\<rparr>)"

section \<open>Connecting\<close>

definition connect :: "client_options \<Rightarrow> bool \<Rightarrow> sse_client \<Rightarrow> sse_client" where
  \<comment> \<open>\<open>ok\<close>: the URL is valid and the factory does not throw\<close>
  "connect o' ok c =
     (if ok
      then (let c = c\<lparr>sc_source := Some (length (sc_sources c)),
                      sc_sources := sc_sources c @ [\<lparr>es_closed = False, es_initial = True, es_permanent = False, es_custom = []\<rparr>],
                      sc_handled := False\<rparr>
            in startHeartbeatTimer o' c)
      else emitError (c\<lparr>sc_state := Disconnected\<rparr>))"

definition setupPermanentEventHandlers :: "sse_client \<Rightarrow> sse_client" where
  "setupPermanentEventHandlers c = on_source (sc_source c) (\<lambda>s. s\<lparr>es_permanent := True\<rparr>) c"

definition remove_initial :: "nat \<Rightarrow> sse_client \<Rightarrow> sse_client" where
  \<comment> \<open>the listeners of the \<open>connect\<close> call that made source \<open>k\<close> are removed from the client's current source\<close>
  "remove_initial k c = (if sc_source c = Some k then on_source (Some k) (\<lambda>s. s\<lparr>es_initial := False\<rparr>) c else c)"

definition handleOpen :: "client_options \<Rightarrow> nat \<Rightarrow> sse_client \<Rightarrow> sse_client" where
  \<comment> \<open>the \<open>open\<close> listener of source \<open>k\<close>; it throws when the client has no source\<close>
  "handleOpen o' k c =
     (if sc_handled c then c
      else (let c = c\<lparr>sc_handled := True, sc_state := Connected, sc_attempts := 0\<rparr>
            in if sc_source c = None then c
               else client_emit ''open'' (resetHeartbeatTimer o' (setupPermanentEventHandlers (remove_initial k c)))))"

definition defaultReconnectStrategy :: "client_options \<Rightarrow> nat \<Rightarrow> nat \<Rightarrow> nat" where
  \<comment> \<open>\<open>jitter\<close> is the random part, below 1000\<close>
  "defaultReconnectStrategy o' jitter attempt =
     min ((if cl_initialDelay o' = 0 then 1000 else cl_initialDelay o') * 2 ^ attempt) 30000 + jitter"

definition attemptReconnect :: "client_options \<Rightarrow> sse_client \<Rightarrow> sse_client" where
  "attemptReconnect o' c =
     (if \<not> cl_reconnectEnabled o' then c
      else if sc_attempts c \<ge> cl_maxAttempts o' then emitError (close_client c)
      else c\<lparr>sc_reconnects := sc_reconnects c + 1\<rparr>)"

definition handleInitialError :: "client_options \<Rightarrow> nat \<Rightarrow> sse_client \<Rightarrow> sse_client" where
  \<comment> \<open>the first source is made by \<open>createSSEClient\<close>, the others by reconnect timers, whose handler
     tries again\<close>
  "handleInitialError o' k c =
     (if sc_handled c then c
      else (let c = c\<lparr>sc_handled := True\<rparr>
            in if sc_source c = None then c
               else (let c = emitError ((remove_initial k c)\<lparr>sc_state := Disconnected\<rparr>)
                     in if k > 0 then attemptReconnect o' c else c)))"

definition reconnect_fires :: "client_options \<Rightarrow> bool \<Rightarrow> sse_client \<Rightarrow> sse_client" where
  \<comment> \<open>the reconnect timer, up to the \<open>await\<close> of \<open>connect\<close>, whose outcome is \<open>handleOpen\<close> or \<open>handleInitialError\<close>\<close>
  "reconnect_fires o' ok c =
     (let c = c\<lparr>sc_reconnects := sc_reconnects c - 1\<rparr>
      in if sc_state c = Closed then c
         else (let c = connect o' ok (c\<lparr>sc_state := Connecting\<rparr>) in if ok then c else attemptReconnect o' c))"

section \<open>Reconnect strategies (\<open>sse-reconnection-strategies.ts\<close>)\<close>

definition exponentialBackoff :: "nat \<Rightarrow> nat \<Rightarrow> nat \<Rightarrow> nat \<Rightarrow> nat" where
  "exponentialBackoff initialDelay maxDelay jitter attempt = min (initialDelay * 2 ^ attempt) maxDelay + jitter"

definition linearBackoff :: "nat \<Rightarrow> nat \<Rightarrow> nat \<Rightarrow> nat" where
  "linearBackoff delayIncrement maxDelay attempt = min (delayIncrement * (attempt + 1)) maxDelay"

definition fixedDelay :: "nat \<Rightarrow> nat \<Rightarrow> nat" where
  "fixedDelay delay attempt = delay"

definition fibonacciBackoff :: "nat \<Rightarrow> nat \<Rightarrow> nat \<Rightarrow> nat" where
  "fibonacciBackoff baseDelay maxDelay attempt =
     (let fib = [1, 1, 2, 3, 5, 8, 13, 21, 34, 55] in min (baseDelay * fib ! min attempt (length fib - 1)) maxDelay)"

section \<open>Events of an established source\<close>

definition handleConnectionClosed :: "sse_client \<Rightarrow> sse_client" where
  "handleConnectionClosed c = client_emit ''close'' (clearHeartbeatTimer c)"

definition onerror :: "client_options \<Rightarrow> bool \<Rightarrow> sse_client \<Rightarrow> sse_client" where
  \<comment> \<open>\<open>readyClosed\<close>: \<open>readyState\<close> of the client's current source is \<open>CLOSED\<close>\<close>
  "onerror o' readyClosed c =
     (if sc_state c \<noteq> Connected then c
      else if readyClosed then handleConnectionClosed (c\<lparr>sc_state := Closed\<rparr>)
      else attemptReconnect o' (emitError (c\<lparr>sc_state := Disconnected, sc_attempts := sc_attempts c + 1\<rparr>)))"

definition received :: "client_options \<Rightarrow> string \<Rightarrow> sse_client \<Rightarrow> sse_client" where
  "received o' lastEventId c = resetHeartbeatTimer o'
     (c\<lparr>sc_eventsReceived := sc_eventsReceived c + 1,
        sc_lastEventId := (if lastEventId = [] then sc_lastEventId c else Some lastEventId)\<rparr>)"

definition handleMessage :: "client_options \<Rightarrow> string \<Rightarrow> sse_client \<Rightarrow> sse_client" where
  "handleMessage o' lastEventId c = client_emit ''message'' (received o' lastEventId c)"

definition custom_event :: "client_options \<Rightarrow> string \<Rightarrow> string \<Rightarrow> sse_client \<Rightarrow> sse_client" where
  "custom_event o' event lastEventId c = client_emit event (received o' lastEventId c)"

definition handleServerError :: "client_options \<Rightarrow> bool \<Rightarrow> sse_client \<Rightarrow> sse_client" where
  \<comment> \<open>an event named \<open>error\<close> goes to \<open>onerror\<close> too, which was attached first\<close>
  "handleServerError o' readyClosed c = emitError (onerror o' readyClosed c)"

definition handleCloseEvent :: "bool option \<Rightarrow> sse_client \<Rightarrow> sse_client" where
  \<comment> \<open>the \<open>reconnect\<close> field of the event's data, if it is an object that has one\<close>
  "handleCloseEvent reconnect c = (case reconnect of
     None \<Rightarrow> c
   | Some b \<Rightarrow> client_emit ''close'' (if b then c else close_client c))"

definition handleHeartbeatTimeout :: "sse_client \<Rightarrow> sse_client" where
  "handleHeartbeatTimeout c =
     (let c = emitError (c\<lparr>sc_state := Disconnected, sc_heartbeat := False\<rparr>)
      in if sc_source c \<noteq> None then (on_source (sc_source c) (\<lambda>s. s\<lparr>es_closed := True\<rparr>) c)\<lparr>sc_source := None\<rparr> else c)"

section \<open>Subscribing\<close>

definition client_on :: "string \<Rightarrow> nat \<Rightarrow> sse_client \<Rightarrow> sse_client" where
  "client_on event h c =
     (let c = (if map_has (sc_handlers c) event then c
               else (let c = c\<lparr>sc_handlers := map_set event [] (sc_handlers c)\<rparr>
                     in if sc_source c \<noteq> None \<and> event \<notin> {''error'', ''open'', ''close'', ''message''}
                        then on_source (sc_source c) (\<lambda>s. s\<lparr>es_custom := es_custom s @ [event]\<rparr>)
                               (c\<lparr>sc_custom := List.insert event (sc_custom c)\<rparr>)
                        else c))
      in c\<lparr>sc_handlers := map_set event
            (case map_get (sc_handlers c) event of Some hs \<Rightarrow> if h \<in> set hs then hs else hs @ [h] | None \<Rightarrow> [h]) (sc_handlers c)\<rparr>)"

definition client_off :: "string \<Rightarrow> nat option \<Rightarrow> sse_client \<Rightarrow> sse_client" where
  "client_off event h c =
     (case map_get (sc_handlers c) event of
        None \<Rightarrow> c
      | Some hs \<Rightarrow>
          (let hs = (case h of Some x \<Rightarrow> removeAll x hs | None \<Rightarrow> [])
           in if hs \<noteq> [] then c\<lparr>sc_handlers := map_set event hs (sc_handlers c)\<rparr>
              else (let c = c\<lparr>sc_handlers := map_delete event (sc_handlers c)\<rparr>
                    in if sc_source c \<noteq> None \<and> event \<in> set (sc_custom c)
                       then on_source (sc_source c) (\<lambda>s. s\<lparr>es_custom := remove1 event (es_custom s)\<rparr>)
                              (c\<lparr>sc_custom := remove1 event (sc_custom c)\<rparr>)
                       else c)))"

section \<open>Runs of a client\<close>

definition delivers :: "nat \<Rightarrow> sse_client \<Rightarrow> bool" where
  "delivers k c \<longleftrightarrow> k < length (sc_sources c) \<and> \<not> es_closed (sc_sources c ! k)"

inductive client_step :: "client_options \<Rightarrow> sse_client \<Rightarrow> sse_client \<Rightarrow> bool" for o' where
  cl_open: "delivers k c \<Longrightarrow> es_initial (sc_sources c ! k) \<Longrightarrow> client_step o' c (handleOpen o' k c)"
| cl_initial_error: "delivers k c \<Longrightarrow> es_initial (sc_sources c ! k) \<Longrightarrow> client_step o' c (handleInitialError o' k c)"
| cl_error: "delivers k c \<Longrightarrow> es_permanent (sc_sources c ! k) \<Longrightarrow> client_step o' c (onerror o' rc c)"
| cl_message: "delivers k c \<Longrightarrow> es_permanent (sc_sources c ! k) \<Longrightarrow> client_step o' c (handleMessage o' i c)"
| cl_server_error: "delivers k c \<Longrightarrow> es_permanent (sc_sources c ! k) \<Longrightarrow> client_step o' c (handleServerError o' rc c)"
| cl_close_event: "delivers k c \<Longrightarrow> es_permanent (sc_sources c ! k) \<Longrightarrow> client_step o' c (handleCloseEvent r c)"
| cl_custom: "delivers k c \<Longrightarrow> e \<in> set (es_custom (sc_sources c ! k)) \<Longrightarrow> client_step o' c (custom_event o' e i c)"
| cl_heartbeat: "sc_heartbeat c \<Longrightarrow> client_step o' c (handleHeartbeatTimeout c)"
| cl_reconnect: "sc_reconnects c > 0 \<Longrightarrow> client_step o' c (reconnect_fires o' ok c)"
| cl_on: "client_step o' c (client_on e h c)"
| cl_off: "client_step o' c (client_off e x c)"
| cl_close: "client_step o' c (close_client c)"

inductive_cases client_stepE: "client_step o' c c'"

definition client_inv :: "sse_client \<Rightarrow> bool" where
  "client_inv c \<longleftrightarrow>
     (\<forall>k < length (sc_sources c). es_initial (sc_sources c ! k) \<longrightarrow> es_closed (sc_sources c ! k) \<or> sc_source c = Some k \<and> \<not> sc_handled c) \<and>
     (\<forall>k. sc_source c = Some k \<longrightarrow> k < length (sc_sources c)) \<and>
     sc_reconnects c \<le> 1 \<and> sc_attempts c \<le> 1 \<and>
     (sc_state c = Connected \<longrightarrow> sc_reconnects c = 0 \<and> sc_handled c \<and> sc_attempts c = 0) \<and>
     (sc_reconnects c = 1 \<and> sc_state c \<noteq> Closed \<longrightarrow> sc_handled c) \<and>
     (sc_state c = Closed \<longrightarrow> \<not> sc_heartbeat c \<and> (sc_handled c \<or> sc_source c = None))"

lemma emit_fields [simp]:
  "sc_state (client_emit e c) = sc_state c" "sc_sources (client_emit e c) = sc_sources c" "sc_source (client_emit e c) = sc_source c"
  "sc_handled (client_emit e c) = sc_handled c" "sc_reconnects (client_emit e c) = sc_reconnects c" "sc_heartbeat (client_emit e c) = sc_heartbeat c"
  "sc_attempts (client_emit e c) = sc_attempts c" "sc_handlers (client_emit e c) = sc_handlers c" "sc_custom (client_emit e c) = sc_custom c"
  by (simp_all add: client_emit_def)

lemma on_source_fields [simp]:
  "sc_state (on_source i f c) = sc_state c" "sc_source (on_source i f c) = sc_source c"
  "length (sc_sources (on_source i f c)) = length (sc_sources c)"
  "sc_handled (on_source i f c) = sc_handled c" "sc_reconnects (on_source i f c) = sc_reconnects c"
  "sc_heartbeat (on_source i f c) = sc_heartbeat c" "sc_attempts (on_source i f c) = sc_attempts c"
  "sc_handlers (on_source i f c) = sc_handlers c" "sc_custom (on_source i f c) = sc_custom c"
  by (auto simp: on_source_def split: option.split)

lemma on_source_nth:
  "k < length (sc_sources c) \<Longrightarrow> sc_sources (on_source i f c) ! k = (if i = Some k then f (sc_sources c ! k) else sc_sources c ! k)"
  by (auto simp: on_source_def split: option.split)

lemmas client_defs = emitError_def clearHeartbeatTimer_def resetHeartbeatTimer_def startHeartbeatTimer_def
  setupPermanentEventHandlers_def remove_initial_def handleConnectionClosed_def received_def

lemma inv_emit [simp]: "client_inv (client_emit e c) = client_inv c"
  by (simp add: client_inv_def)

lemma inv_close: "client_inv c \<Longrightarrow> client_inv (close_client c)"
  by (auto simp: client_inv_def close_client_def client_defs Let_def on_source_nth)

lemma inv_attempt:
  assumes "client_inv c" "sc_state c \<noteq> Connected" "sc_reconnects c = 0" "sc_handled c"
  shows "client_inv (attemptReconnect o' c)"
  using assms inv_close [OF assms(1)] by (auto simp: attemptReconnect_def emitError_def client_inv_def)

lemma inv_open:
  assumes "client_inv c" "delivers k c" "es_initial (sc_sources c ! k)"
  shows "client_inv (handleOpen o' k c)"
  using assms by (auto simp: client_inv_def handleOpen_def client_defs Let_def on_source_nth delivers_def)

lemma inv_disconnect:
  assumes "client_inv c" "delivers k c" "es_initial (sc_sources c ! k)" "\<not> sc_handled c" "sc_state c \<noteq> Closed"
  shows "client_inv ((remove_initial k (c\<lparr>sc_handled := True\<rparr>))\<lparr>sc_state := Disconnected\<rparr>)"
  using assms by (auto simp: client_inv_def client_defs on_source_nth delivers_def)

lemma inv_initial_error:
  assumes "client_inv c" "delivers k c" "es_initial (sc_sources c ! k)"
  shows "client_inv (handleInitialError o' k c)"
proof (cases "sc_handled c")
  case True
  then show ?thesis using assms(1) by (simp add: handleInitialError_def)
next
  case False
  have src: "sc_source c = Some k" and st: "sc_state c \<noteq> Closed" and r: "sc_reconnects c = 0"
    using assms False by (auto simp: client_inv_def delivers_def)
  let ?d = "(remove_initial k (c\<lparr>sc_handled := True\<rparr>))\<lparr>sc_state := Disconnected\<rparr>"
  have d: "client_inv ?d" by (rule inv_disconnect [OF assms False st])
  have e: "client_inv (attemptReconnect o' (emitError ?d))"
    by (rule inv_attempt) (use d r in \<open>simp_all add: client_defs\<close>)
  show ?thesis using d e src False by (auto simp: handleInitialError_def Let_def emitError_def)
qed

lemma inv_onerror: "client_inv c \<Longrightarrow> client_inv (onerror o' rc c)"
proof -
  assume i: "client_inv c"
  have "client_inv (handleConnectionClosed (c\<lparr>sc_state := Closed\<rparr>))" if "sc_state c = Connected"
    using i that by (auto simp: client_inv_def client_defs)
  moreover have "client_inv (attemptReconnect o' (emitError (c\<lparr>sc_state := Disconnected, sc_attempts := sc_attempts c + 1\<rparr>)))"
    if "sc_state c = Connected"
    by (rule inv_attempt) (use i that in \<open>auto simp: client_inv_def client_defs\<close>)
  ultimately show ?thesis using i by (simp add: onerror_def)
qed

lemma inv_received: "client_inv c \<Longrightarrow> client_inv (received o' i c)"
  by (auto simp: client_inv_def client_defs)

lemma inv_close_event: "client_inv c \<Longrightarrow> client_inv (handleCloseEvent r c)"
  by (auto simp: handleCloseEvent_def inv_close split: option.split)

lemma inv_heartbeat: "client_inv c \<Longrightarrow> sc_heartbeat c \<Longrightarrow> client_inv (handleHeartbeatTimeout c)"
  by (auto simp: client_inv_def handleHeartbeatTimeout_def client_defs Let_def on_source_nth)

lemma inv_reconnect:
  assumes "client_inv c" "sc_reconnects c > 0"
  shows "client_inv (reconnect_fires o' ok c)"
proof (cases "sc_state c = Closed")
  case True
  then show ?thesis using assms by (auto simp: client_inv_def reconnect_fires_def Let_def)
next
  case False
  have r: "sc_reconnects c = 1" "sc_handled c" using assms False by (auto simp: client_inv_def)
  let ?c = "c\<lparr>sc_reconnects := 0, sc_state := Connecting\<rparr>"
  have "client_inv (connect o' True ?c)"
    using assms(1) r by (auto simp: client_inv_def connect_def client_defs Let_def nth_append)
  moreover have "client_inv (attemptReconnect o' (connect o' False ?c))"
    by (rule inv_attempt) (use assms(1) r in \<open>auto simp: client_inv_def connect_def client_defs\<close>)
  ultimately show ?thesis using False r by (cases ok) (simp_all add: reconnect_fires_def Let_def)
qed

lemma inv_on_source:
  assumes "\<And>s. es_closed (f s) = es_closed s" "\<And>s. es_initial (f s) = es_initial s"
  shows "client_inv (on_source i f c) = client_inv c"
proof -
  have "es_closed (sc_sources (on_source i f c) ! k) = es_closed (sc_sources c ! k)"
    "es_initial (sc_sources (on_source i f c) ! k) = es_initial (sc_sources c ! k)" if "k < length (sc_sources c)" for k
    using that assms by (simp_all add: on_source_nth)
  then show ?thesis by (simp add: client_inv_def)
qed

lemma inv_handlers [simp]:
  "client_inv (c\<lparr>sc_handlers := H\<rparr>) = client_inv c" "client_inv (c\<lparr>sc_custom := e\<rparr>) = client_inv c"
  by (simp_all add: client_inv_def)

lemma inv_on: "client_inv c \<Longrightarrow> client_inv (client_on e h c)"
  by (simp add: client_on_def Let_def inv_on_source)

lemma inv_off: "client_inv c \<Longrightarrow> client_inv (client_off e x c)"
  by (simp add: client_off_def Let_def inv_on_source split: option.split)

lemma inv_connect_new: "client_inv (connect o' ok new_client)"
  by (auto simp: client_inv_def connect_def new_client_def client_defs Let_def)

lemmas client_inv_steps = inv_open inv_initial_error inv_onerror inv_received inv_close_event inv_heartbeat
  inv_reconnect inv_on inv_off inv_close

interpretation client: inductive_invariant "\<lambda>c. \<exists>ok. c = connect o' ok new_client" "client_step o'" client_inv for o'
  by unfold_locales
    (auto simp: inv_connect_new handleMessage_def custom_event_def handleServerError_def emitError_def
      elim!: client_stepE intro: client_inv_steps)

section \<open>Closing and reconnecting\<close>

lemma close_client_fields [simp]:
  "sc_state (close_client c) = Closed" "length (sc_sources (close_client c)) = length (sc_sources c)"
  "sc_reconnects (close_client c) = sc_reconnects c" "sc_handlers (close_client c) = []"
  by (simp_all add: close_client_def Let_def clearHeartbeatTimer_def)

definition stays_closed :: "sse_client \<Rightarrow> sse_client \<Rightarrow> bool" where
  "stays_closed c c' \<longleftrightarrow> sc_state c' = Closed \<and> length (sc_sources c') = length (sc_sources c) \<and>
     sc_reconnects c' \<le> sc_reconnects c"

lemma stays_closed_step:
  assumes "client_inv c" "sc_state c = Closed" "client_step o' c c'"
  shows "stays_closed c c'"
  using assms(3)
proof cases
  case (cl_open k)
  then show ?thesis using assms(1,2) by (auto simp: client_inv_def delivers_def)
next
  case (cl_initial_error k)
  then show ?thesis using assms(1,2) by (auto simp: client_inv_def delivers_def)
next
  case (cl_heartbeat)
  then show ?thesis using assms(1,2) by (auto simp: client_inv_def)
qed (use assms(2) in \<open>auto simp: stays_closed_def onerror_def handleMessage_def handleServerError_def handleCloseEvent_def
      custom_event_def reconnect_fires_def client_on_def client_off_def client_defs Let_def split: option.split\<close>)

lemma stays_closed_trans: "stays_closed a b \<Longrightarrow> stays_closed b c \<Longrightarrow> stays_closed a c"
  by (auto simp: stays_closed_def)

lemma stays_closed_run:
  assumes "(client_step o')\<^sup>*\<^sup>* c c'" "client_inv c" "sc_state c = Closed"
  shows "stays_closed c c' \<and> client_inv c'"
  using assms
proof (induction rule: rtranclp_induct)
  case base
  then show ?case by (simp add: stays_closed_def)
next
  case (step y z)
  then have "stays_closed c y" "client_inv y" by auto
  then show ?case
    using step.hyps(2) stays_closed_step [of y o' z] stays_closed_trans client.inv_step [of o' y z]
    by (auto simp: stays_closed_def)
qed

text \<open>C37: A closed client stays closed: whatever its sources, timers and callers do afterwards, its state
  remains \<open>Closed\<close>, no \<open>EventSource\<close> is created and no reconnect is scheduled.\<close>
theorem closed_client_stays_closed:
  assumes "reachable (\<lambda>c. \<exists>ok. c = connect o' ok new_client) (client_step o') c"
    and "sc_state c = Closed" "(client_step o')\<^sup>*\<^sup>* c c'"
  shows "sc_state c' = Closed \<and> length (sc_sources c') = length (sc_sources c) \<and> sc_reconnects c' \<le> sc_reconnects c"
  using stays_closed_run [OF assms(3) client.reachable_inv [OF assms(1)] assms(2)] by (simp add: stays_closed_def)

definition sample_options :: client_options where
  "sample_options = \<lparr>cl_heartbeatTimeout = 30000, cl_reconnectEnabled = True, cl_maxAttempts = 5, cl_initialDelay = 0\<rparr>"

definition sample_lost :: sse_client where
  "sample_lost = onerror sample_options False (handleOpen sample_options 0 (connect sample_options True new_client))"

lemma sample_lost_reachable:
  "reachable (\<lambda>c. \<exists>ok. c = connect sample_options ok new_client) (client_step sample_options) sample_lost"
proof -
  let ?a = "connect sample_options True new_client"
  have "client_step sample_options ?a (handleOpen sample_options 0 ?a)"
    by (rule cl_open) (simp_all add: delivers_def connect_def new_client_def client_defs)
  moreover have "client_step sample_options (handleOpen sample_options 0 ?a) sample_lost"
    unfolding sample_lost_def
    by (rule cl_error [of 0])
      (simp_all add: delivers_def connect_def new_client_def client_defs handleOpen_def on_source_def client_emit_def Let_def)
  moreover have "reachable (\<lambda>c. \<exists>ok. c = connect sample_options ok new_client) (client_step sample_options) ?a"
    by (rule reachable.intros(1)) auto
  ultimately show ?thesis by (blast intro: reachable.intros(2))
qed

theorem closed_client_stays_closed_witness:
  "sc_state (reconnect_fires sample_options True (close_client sample_lost)) = Closed"
proof -
  have r: "reachable (\<lambda>c. \<exists>ok. c = connect sample_options ok new_client) (client_step sample_options) (close_client sample_lost)"
    by (rule reachable.intros(2) [OF sample_lost_reachable cl_close])
  have "sc_reconnects (close_client sample_lost) > 0"
    by (simp add: sample_lost_def onerror_def attemptReconnect_def handleOpen_def connect_def new_client_def sample_options_def
        client_defs Let_def)
  then have "client_step sample_options (close_client sample_lost) (reconnect_fires sample_options True (close_client sample_lost))"
    by (rule cl_reconnect)
  then show ?thesis using closed_client_stays_closed [OF r] by auto
qed

definition fail_round :: "client_options \<Rightarrow> sse_client \<Rightarrow> sse_client" where
  "fail_round o' c = handleInitialError o' (length (sc_sources c)) (reconnect_fires o' True c)"

definition waiting :: "sse_client \<Rightarrow> bool" where
  "waiting c \<longleftrightarrow> sc_state c = Disconnected \<and> sc_reconnects c = 1 \<and> sc_sources c \<noteq> []"

lemma fail_round_steps:
  assumes "waiting c"
  shows "(client_step o')\<^sup>*\<^sup>* c (fail_round o' c)"
proof -
  have "client_step o' c (reconnect_fires o' True c)"
    by (rule cl_reconnect) (use assms in \<open>simp add: waiting_def\<close>)
  moreover have "client_step o' (reconnect_fires o' True c) (fail_round o' c)"
    unfolding fail_round_def
    by (rule cl_initial_error)
      (use assms in \<open>simp_all add: waiting_def delivers_def reconnect_fires_def connect_def client_defs nth_append Let_def\<close>)
  ultimately show ?thesis by (meson r_into_rtranclp rtranclp_trans)
qed

lemma fail_round_waits:
  assumes "waiting c" "cl_reconnectEnabled o'" "sc_attempts c < cl_maxAttempts o'"
  shows "waiting (fail_round o' c) \<and> sc_attempts (fail_round o' c) = sc_attempts c \<and>
    length (sc_sources (fail_round o' c)) = Suc (length (sc_sources c))"
  using assms
  by (auto simp: fail_round_def waiting_def reconnect_fires_def handleInitialError_def attemptReconnect_def connect_def
      client_defs Let_def on_source_def)

lemma fail_rounds:
  assumes "waiting c" "cl_reconnectEnabled o'" "sc_attempts c < cl_maxAttempts o'"
  shows "(client_step o')\<^sup>*\<^sup>* c ((fail_round o' ^^ n) c) \<and> waiting ((fail_round o' ^^ n) c) \<and>
    sc_attempts ((fail_round o' ^^ n) c) = sc_attempts c \<and>
    length (sc_sources ((fail_round o' ^^ n) c)) = length (sc_sources c) + n"
proof (induction n)
  case (Suc n)
  let ?d = "(fail_round o' ^^ n) c"
  have "(client_step o')\<^sup>*\<^sup>* ?d (fail_round o' ?d)" using Suc fail_round_steps by blast
  moreover have "waiting (fail_round o' ?d) \<and> sc_attempts (fail_round o' ?d) = sc_attempts ?d \<and>
    length (sc_sources (fail_round o' ?d)) = Suc (length (sc_sources ?d))"
    by (rule fail_round_waits) (use Suc assms in simp_all)
  ultimately show ?case using Suc by (auto intro: rtranclp_trans)
qed (use assms in simp)

text \<open>C40: The limit on reconnect attempts is never reached: a failed reconnect does not count as an attempt, so
  the counter stays at most 1 in every reachable state, and with \<open>maxAttempts\<close> of 2 or more a client that
  lost its connection goes on for any number \<open>n\<close> of failing rounds, each creating one more source and
  leaving the next reconnect scheduled.\<close>
theorem reconnect_never_gives_up:
  assumes "reachable (\<lambda>c. \<exists>ok. c = connect o' ok new_client) (client_step o') c"
    and "sc_state c = Disconnected" "sc_reconnects c = 1" "sc_sources c \<noteq> []"
    and "cl_reconnectEnabled o'" "2 \<le> cl_maxAttempts o'"
  shows "(client_step o')\<^sup>*\<^sup>* c ((fail_round o' ^^ n) c) \<and> sc_attempts ((fail_round o' ^^ n) c) \<le> 1 \<and>
    sc_state ((fail_round o' ^^ n) c) = Disconnected \<and> sc_reconnects ((fail_round o' ^^ n) c) = 1 \<and>
    length (sc_sources ((fail_round o' ^^ n) c)) = length (sc_sources c) + n"
proof -
  have "sc_attempts c \<le> 1" using client.reachable_inv [OF assms(1)] by (simp add: client_inv_def)
  moreover have "waiting c" using assms(2-4) by (simp add: waiting_def)
  ultimately show ?thesis using fail_rounds [of c o' n] assms(5,6) by (simp add: waiting_def)
qed

theorem reconnect_never_gives_up_witness:
  "length (sc_sources ((fail_round sample_options ^^ 100) sample_lost)) = 101"
proof -
  have "sc_state sample_lost = Disconnected" "sc_reconnects sample_lost = 1" "length (sc_sources sample_lost) = 1"
    by (simp_all add: sample_lost_def onerror_def attemptReconnect_def handleOpen_def connect_def new_client_def
        sample_options_def client_defs Let_def)
  then show ?thesis
    using reconnect_never_gives_up [OF sample_lost_reachable, of 100] by (fastforce simp: sample_options_def)
qed

lemma reconnect_delay_bounds:
  assumes "jitter < 1000"
  shows "defaultReconnectStrategy o' jitter attempt < 31000"
    and "30000 \<le> (if cl_initialDelay o' = 0 then 1000 else cl_initialDelay o') * 2 ^ attempt \<Longrightarrow>
      30000 \<le> defaultReconnectStrategy o' jitter attempt"
  using assms by (auto simp: defaultReconnectStrategy_def)

lemma fibonacci_table_mono:
  assumes "a \<le> b" "b < 10"
  shows "[1, 1, 2, 3, 5, 8, 13, 21, 34, 55 :: nat] ! a \<le> [1, 1, 2, 3, 5, 8, 13, 21, 34, 55] ! b"
proof -
  have "sorted [1, 1, 2, 3, 5, 8, 13, 21, 34, 55 :: nat]" by simp
  from sorted_nth_mono [OF this assms(1)] show ?thesis using assms(2) by simp
qed

text \<open>The strategies, the random part apart, grow with the attempts up to their maximum.\<close>
lemma strategies_monotone:
  assumes "a \<le> b"
  shows "exponentialBackoff i m j a \<le> exponentialBackoff i m j b" "linearBackoff i m a \<le> linearBackoff i m b"
    "fibonacciBackoff i m a \<le> fibonacciBackoff i m b"
proof -
  show "exponentialBackoff i m j a \<le> exponentialBackoff i m j b"
    unfolding exponentialBackoff_def using assms by (intro add_mono min.mono mult_le_mono2 power_increasing) simp_all
  show "linearBackoff i m a \<le> linearBackoff i m b"
    unfolding linearBackoff_def using assms by (intro min.mono mult_le_mono2) (simp_all add: eval_nat_numeral)
  have "[1, 1, 2, 3, 5, 8, 13, 21, 34, 55 :: nat] ! min a 9 \<le> [1, 1, 2, 3, 5, 8, 13, 21, 34, 55] ! min b 9"
    by (rule fibonacci_table_mono) (use assms in auto)
  then show "fibonacciBackoff i m a \<le> fibonacciBackoff i m b"
    unfolding fibonacciBackoff_def Let_def by (intro min.mono mult_le_mono2) (simp_all add: eval_nat_numeral)
qed

lemma strategies_bounded:
  "exponentialBackoff i m j a \<le> m + j" "linearBackoff i m a \<le> m" "fibonacciBackoff i m a \<le> m"
  by (auto simp: exponentialBackoff_def linearBackoff_def fibonacciBackoff_def Let_def)

text \<open>Custom events are not heard after a reconnect: the new source has no listener for them, and
  registering a further handler for a known event does not attach one.\<close>
lemma reconnect_loses_custom_events:
  assumes "sc_state c \<noteq> Closed" "map_has (sc_handlers c) e" "c' = client_on e h (reconnect_fires o' True c)"
  shows "sc_source c' = Some (length (sc_sources c)) \<and> es_custom (sc_sources c' ! length (sc_sources c)) = []"
  using assms by (simp add: client_on_def reconnect_fires_def connect_def client_defs Let_def nth_append)

text \<open>A server's final \<open>close\<close> event does not reach the client's \<open>close\<close> handlers, which are dropped first.\<close>
lemma final_close_event_unheard: "sc_calls (handleCloseEvent (Some False) c) = sc_calls c"
  by (simp add: handleCloseEvent_def client_emit_def close_client_def client_defs on_source_def Let_def split: option.split)

text \<open>A heartbeat timeout schedules no reconnect.\<close>
lemma heartbeat_timeout_no_reconnect:
  "sc_reconnects (handleHeartbeatTimeout c) = sc_reconnects c \<and> sc_state (handleHeartbeatTimeout c) = Disconnected"
  by (simp add: handleHeartbeatTimeout_def client_defs Let_def)

end
