(* ===== verification/Compression.thy ===== *)
theory Compression
  imports Http_Context
begin

text \<open>
  The compression middleware (\<open>middleware/compression/src\<close>): negotiation of the content encoding, the
  filters on content types, the decision whether to compress, and the wrapped responders.

  The compressors of the runtime (\<open>zlib\<close>) are the parameter \<open>zlib_ops\<close>: which of them exist, and what
  they return on a buffer. Texts are their UTF-8 bytes. Quality values are exact decimals; a double
  holds those of at most fifteen digits without changing their order. User functions (\<open>skip\<close>, filters) are
  arguments. Log messages and stream data are left out.
\<close>

section \<open>Constants and options\<close>

datatype algorithm = Zstd | Br | Gzip | Deflate | Identity

fun alg_name :: "algorithm \<Rightarrow> string" where
  "alg_name Zstd = ''zstd''"
| "alg_name Br = ''br''"
| "alg_name Gzip = ''gzip''"
| "alg_name Deflate = ''deflate''"
| "alg_name Identity = ''identity''"

definition DEFAULT_ALGORITHMS :: "algorithm list" where
  "DEFAULT_ALGORITHMS = [Zstd, Br, Gzip, Deflate]"

definition COMPRESSIBLE_TYPES :: "string list" where
  "COMPRESSIBLE_TYPES =
     [''text/html'', ''text/css'', ''text/plain'', ''text/javascript'', ''text/xml'', ''text/csv'', ''text/markdown'',
      ''text/calendar'', ''text/vcard'', ''application/json'', ''application/javascript'', ''application/xml'',
      ''application/xhtml+xml'', ''application/rss+xml'', ''application/atom+xml'', ''application/ld+json'',
      ''application/manifest+json'', ''application/vnd.api+json'', ''application/graphql+json'', ''application/geo+json'',
      ''application/wasm'', ''application/x-javascript'', ''application/x-www-form-urlencoded'', ''image/svg+xml'',
      ''image/x-icon'', ''application/x-font-ttf'', ''font/opentype'', ''font/ttf'', ''font/woff'']"

definition SKIP_TYPES :: "string list" where
  "SKIP_TYPES =
     [''image/png'', ''image/jpeg'', ''image/gif'', ''image/webp'', ''image/avif'', ''image/bmp'', ''image/tiff'',
      ''video/mp4'', ''video/webm'', ''video/ogg'', ''video/mpeg'', ''audio/mpeg'', ''audio/ogg'', ''audio/wav'',
      ''audio/webm'', ''application/zip'', ''application/gzip'', ''application/x-gzip'', ''application/x-bzip2'',
      ''application/x-xz'', ''application/x-7z-compressed'', ''application/x-rar-compressed'', ''application/x-tar'',
      ''application/pdf'', ''application/octet-stream'', ''application/woff2'']"

record level_config =
  lv_default :: int
  lv_max :: int
  lv_min :: int
  lv_fastest :: int

fun ALGORITHM_LEVELS :: "algorithm \<Rightarrow> level_config option" where
  "ALGORITHM_LEVELS Zstd = Some \<lparr>lv_default = 3, lv_max = 22, lv_min = 1, lv_fastest = 1\<rparr>"
| "ALGORITHM_LEVELS Br = Some \<lparr>lv_default = 4, lv_max = 11, lv_min = 0, lv_fastest = 1\<rparr>"
| "ALGORITHM_LEVELS Gzip = Some \<lparr>lv_default = 6, lv_max = 9, lv_min = 1, lv_fastest = 1\<rparr>"
| "ALGORITHM_LEVELS Deflate = Some \<lparr>lv_default = 6, lv_max = 9, lv_min = 1, lv_fastest = 1\<rparr>"
| "ALGORITHM_LEVELS Identity = None"

datatype compression_level = Fastest | DefaultLevel | Best | Level int

datatype content_filter =
    FilterBool bool
  | FilterFun "string \<Rightarrow> bool"
  | FilterConfig "string list option" "string list option"   \<comment> \<open>\<open>include\<close> and \<open>exclude\<close>\<close>

record compression_config =
  co_algorithms :: "algorithm list"
  co_level :: compression_level
  co_threshold :: nat
  co_contentTypeFilter :: "content_filter option"
  co_skip :: "(http_context \<Rightarrow> bool) option"
  co_vary :: bool
  co_flush :: bool
  co_memoryLevel :: int
  co_windowBits :: "int option"

definition default_config :: compression_config where
  "default_config = \<lparr>co_algorithms = DEFAULT_ALGORITHMS, co_level = DefaultLevel, co_threshold = 1024,
     co_contentTypeFilter = None, co_skip = None, co_vary = True, co_flush = False, co_memoryLevel = 8,
     co_windowBits = None\<rparr>"

datatype compression_preset = PDefault | PFast | PBest | PTextOnly | PStreaming

fun compressionPresets :: "compression_preset \<Rightarrow> compression_config" where
  \<comment> \<open>after \<open>parseCompressionOptions\<close> has added the defaults\<close>
  "compressionPresets PDefault = default_config"
| "compressionPresets PFast = default_config\<lparr>co_level := Fastest\<rparr>"
| "compressionPresets PBest = default_config\<lparr>co_threshold := 512, co_level := Best\<rparr>"
| "compressionPresets PTextOnly = default_config\<lparr>co_contentTypeFilter := Some (FilterConfig (Some [''text/*'']) None)\<rparr>"
| "compressionPresets PStreaming = default_config\<lparr>co_threshold := 0, co_flush := True\<rparr>"

datatype skip_reason =
    BelowThreshold | ContentTypeExcluded | AlreadyCompressed | SkipFunction | NoContent | NoAcceptEncoding
  | NoSupportedEncoding | IdentityPreferred | EmptyBodyReason | NoTransform

section \<open>Negotiation\<close>

record encoding_entry =
  en_encoding :: string
  en_quality :: rat

definition is_digit :: "char \<Rightarrow> bool" where
  "is_digit c \<longleftrightarrow> char_digit c \<noteq> None"

definition pow10 :: "string \<Rightarrow> rat" where
  \<comment> \<open>the factor of an exponent part at the start of the text\<close>
  "pow10 s = (case s of
     c # r \<Rightarrow>
       if c = CHR ''e'' \<or> c = CHR ''E'' then
         (case r of
            d # r' \<Rightarrow>
              if is_digit d then 10 ^ read_digits 0 r
              else if r' = [] \<or> \<not> is_digit (hd r') then 1
              else if d = CHR ''+'' then 10 ^ read_digits 0 r'
              else if d = CHR ''-'' then 1 / 10 ^ read_digits 0 r'
              else 1
          | [] \<Rightarrow> 1)
       else 1
   | [] \<Rightarrow> 1)"

definition unsigned_float :: "string \<Rightarrow> rat option" where
  "unsigned_float s =
     (let ds = takeWhile is_digit s; r = dropWhile is_digit s;
          point = (r \<noteq> [] \<and> hd r = CHR ''.'');
          fs = (if point then takeWhile is_digit (tl r) else []);
          e = (if point then dropWhile is_digit (tl r) else r)
      in if ds = [] \<and> fs = [] then None
         else Some (of_nat (read_digits 0 (ds @ fs)) / 10 ^ length fs * pow10 e))"

definition parseFloat :: "string \<Rightarrow> rat option" where
  \<comment> \<open>\<open>None\<close> is \<open>NaN\<close>; so is \<open>Infinity\<close>, which callers reject as out of range\<close>
  "parseFloat s = (case dropWhile is_space s of
     [] \<Rightarrow> None
   | c # r \<Rightarrow> if c = CHR ''-'' then map_option uminus (unsigned_float r)
              else if c = CHR ''+'' then unsigned_float r else unsigned_float (c # r))"

definition quality_param :: "rat \<Rightarrow> string \<Rightarrow> rat" where
  "quality_param quality segment =
     (let param = toLowerCase (js_trim segment)
      in if str_startsWith param ''q=''
         then (case parseFloat (drop 2 param) of
                 Some parsed \<Rightarrow> if 0 \<le> parsed \<and> parsed \<le> 1 then parsed else quality
               | None \<Rightarrow> quality)
         else quality)"

definition encoding_of_part :: "string \<Rightarrow> encoding_entry option" where
  "encoding_of_part part =
     (let trimmed = js_trim part
      in if trimmed = [] then None
         else (let segments = str_split (CHR '';'') trimmed;
                   encoding = toLowerCase (js_trim (hd segments))
               in if encoding = [] then None
                  else Some \<lparr>en_encoding = encoding, en_quality = foldl quality_param 1 (tl segments)\<rparr>))"

definition parseAcceptEncoding :: "string \<Rightarrow> encoding_entry list" where
  "parseAcceptEncoding header = List.map_filter encoding_of_part (str_split (CHR '','') header)"

definition quality_map :: "encoding_entry list \<Rightarrow> (string, rat) js_map" where
  "quality_map entries = foldl (\<lambda>m e. map_set (en_encoding e) (en_quality e) m) [] entries"

definition candidate_quality :: "(string, rat) js_map \<Rightarrow> algorithm \<Rightarrow> rat option" where
  "candidate_quality qualityMap algorithm =
     (case map_get qualityMap (toLowerCase (alg_name algorithm)) of
        Some q \<Rightarrow> Some q | None \<Rightarrow> map_get qualityMap ''*'')"

definition consider_candidate :: "(string, rat) js_map \<Rightarrow> algorithm option \<times> rat \<Rightarrow> algorithm \<Rightarrow> algorithm option \<times> rat" where
  \<comment> \<open>one pass of the loop over the candidates\<close>
  "consider_candidate qualityMap best algorithm =
     (case candidate_quality qualityMap algorithm of
        None \<Rightarrow> best
      | Some quality \<Rightarrow>
          if quality = 0 then best
          else if quality > snd best then (Some algorithm, quality) else best)"

definition negotiateEncoding :: "string option \<Rightarrow> algorithm list \<Rightarrow> algorithm option" where
  "negotiateEncoding acceptEncoding available =
     (case acceptEncoding of
        None \<Rightarrow> (case available of [] \<Rightarrow> None | a # _ \<Rightarrow> if a = Identity then None else Some a)
      | Some header \<Rightarrow>
          if js_trim header = [] then None
          else (let entries = parseAcceptEncoding header
                in if entries = [] then None
                   else (let qualityMap = quality_map entries;
                             candidates = (if Identity \<in> set available then available else available @ [Identity]);
                             best = fst (foldl (consider_candidate qualityMap) (None, -1) candidates)
                         in if best = Some Identity then None else best)))"

datatype accept_state = Absent | EmptyHeader | Present

definition getAcceptEncodingState :: "string option \<Rightarrow> accept_state" where
  "getAcceptEncodingState acceptEncoding = (case acceptEncoding of
     None \<Rightarrow> Absent | Some h \<Rightarrow> if js_trim h = [] then EmptyHeader else Present)"

section \<open>Content types and entity tags\<close>

definition extractMimeType :: "string option \<Rightarrow> string option" where
  "extractMimeType contentType = (case contentType of
     None \<Rightarrow> None
   | Some t \<Rightarrow> if t = [] then None
               else (let mime = toLowerCase (js_trim (hd (str_split (CHR '';'') t))) in if mime = [] then None else Some mime))"

definition matchesMimePattern :: "string \<Rightarrow> string \<Rightarrow> bool" where
  "matchesMimePattern mimeType pattern =
     (let lowerMime = toLowerCase mimeType; lowerPattern = toLowerCase pattern
      in lowerPattern = lowerMime \<or>
         str_endsWith lowerPattern ''/*'' \<and> str_startsWith lowerMime (butlast lowerPattern))"

definition isCompressible :: "string \<Rightarrow> bool" where
  "isCompressible mimeType = (case extractMimeType (Some mimeType) of
     None \<Rightarrow> False
   | Some mime \<Rightarrow>
       \<not> list_ex (matchesMimePattern mime) SKIP_TYPES \<and>
       (list_ex (matchesMimePattern mime) COMPRESSIBLE_TYPES \<or> str_startsWith mime ''text/''))"

definition createContentTypeFilter :: "content_filter option \<Rightarrow> string \<Rightarrow> bool" where
  "createContentTypeFilter config mimeType = (case config of
     None \<Rightarrow> isCompressible mimeType
   | Some (FilterBool b) \<Rightarrow> b
   | Some (FilterFun f) \<Rightarrow> f mimeType
   | Some (FilterConfig incl excl) \<Rightarrow>
       (let mime = (case extractMimeType (Some mimeType) of Some m \<Rightarrow> m | None \<Rightarrow> toLowerCase mimeType)
        in if (case excl of Some ps \<Rightarrow> list_ex (matchesMimePattern mime) ps | None \<Rightarrow> False) then False
           else (case incl of Some ps \<Rightarrow> list_ex (matchesMimePattern mime) ps | None \<Rightarrow> isCompressible mime)))"

definition weakenEtag :: "string option \<Rightarrow> string option" where
  "weakenEtag etag = (case etag of
     None \<Rightarrow> None
   | Some e \<Rightarrow> if e = [] then None else if str_startsWith e ''W/'' then Some e else Some (''W/'' @ e))"

section \<open>Algorithms\<close>

record zlib_ops =
  z_hasZstd :: bool
  z_hasZstdSync :: bool
  z_hasBrotli :: bool
  z_run :: "algorithm \<Rightarrow> int \<Rightarrow> int \<Rightarrow> int option \<Rightarrow> string \<Rightarrow> string + string"
    \<comment> \<open>level, memory level, window bits, buffer; an error message or the compressed buffer\<close>

fun algorithm_available :: "zlib_ops \<Rightarrow> algorithm \<Rightarrow> bool" where
  "algorithm_available Z Zstd = z_hasZstd Z"
| "algorithm_available Z Br = z_hasBrotli Z"
| "algorithm_available Z Gzip = True"
| "algorithm_available Z Deflate = True"
| "algorithm_available Z Identity = True"

definition detectAvailableAlgorithms :: "zlib_ops \<Rightarrow> algorithm list \<Rightarrow> algorithm list" where
  "detectAvailableAlgorithms Z requested = filter (algorithm_available Z) requested"

definition getCompressionLevel :: "algorithm \<Rightarrow> compression_level \<Rightarrow> int" where
  "getCompressionLevel algorithm level =
     (case ALGORITHM_LEVELS algorithm of
        None \<Rightarrow> (case level of Level n \<Rightarrow> n | _ \<Rightarrow> 6)
      | Some config \<Rightarrow>
          (case level of
             Level n \<Rightarrow> max (lv_min config) (min n (lv_max config))
           | Fastest \<Rightarrow> lv_fastest config
           | DefaultLevel \<Rightarrow> lv_default config
           | Best \<Rightarrow> lv_max config))"

definition no_zstd_sync :: string where
  "no_zstd_sync = ''zstd synchronous compression is not available in this Node.js version''"

fun compressBufferSync :: "zlib_ops \<Rightarrow> algorithm \<Rightarrow> int \<Rightarrow> int \<Rightarrow> int option \<Rightarrow> string \<Rightarrow> string + string" where
  "compressBufferSync Z Zstd level mem win body =
     (if z_hasZstdSync Z then z_run Z Zstd level mem win body else Inl no_zstd_sync)"
| "compressBufferSync Z Br level mem win body =
     (if z_hasBrotli Z then z_run Z Br level mem win body
      else Inl ''Brotli compression is not available in this Node.js version'')"
| "compressBufferSync Z Gzip level mem win body = z_run Z Gzip level mem win body"
| "compressBufferSync Z Deflate level mem win body = z_run Z Deflate level mem win body"
| "compressBufferSync Z Identity level mem win body = Inl ''Unsupported compression algorithm: identity''"

fun createCompressorStream :: "zlib_ops \<Rightarrow> algorithm \<Rightarrow> string option" where
  \<comment> \<open>the error it throws, if any\<close>
  "createCompressorStream Z Zstd =
     (if z_hasZstd Z then None else Some ''zstd compression is not available in this Node.js version'')"
| "createCompressorStream Z Br =
     (if z_hasBrotli Z then None else Some ''Brotli compression is not available in this Node.js version'')"
| "createCompressorStream Z Gzip = None"
| "createCompressorStream Z Deflate = None"
| "createCompressorStream Z Identity = Some ''Unsupported compression algorithm: identity''"

definition compressBuffer :: "zlib_ops \<Rightarrow> compression_config \<Rightarrow> algorithm \<Rightarrow> string \<Rightarrow> string + string" where
  "compressBuffer Z config algorithm body =
     (case createCompressorStream Z algorithm of
        Some e \<Rightarrow> Inl e
      | None \<Rightarrow> z_run Z algorithm (getCompressionLevel algorithm (co_level config)) (co_memoryLevel config)
                  (co_windowBits config) body)"

section \<open>The decision per request\<close>

record should_compress =
  sh_compress :: bool
  sh_reason :: "skip_reason option"
  sh_algorithm :: "algorithm option"

definition skip_because :: "skip_reason \<Rightarrow> should_compress" where
  "skip_because r = \<lparr>sh_compress = False, sh_reason = Some r, sh_algorithm = None\<rparr>"

definition shouldCompress :: "compression_config \<Rightarrow> http_context \<Rightarrow> should_compress" where
  "shouldCompress config ctx =
     (if (case co_skip config of Some f \<Rightarrow> f ctx | None \<Rightarrow> False) then skip_because SkipFunction
      else (let acceptEncoding = request_header ctx ''accept-encoding''
            in if getAcceptEncodingState acceptEncoding = EmptyHeader then skip_because NoAcceptEncoding
               else (let available = filter (\<lambda>a. a \<noteq> Identity) (co_algorithms config)
                     in case negotiateEncoding acceptEncoding available of
                          Some a \<Rightarrow> \<lparr>sh_compress = True, sh_reason = None, sh_algorithm = Some a\<rparr>
                        | None \<Rightarrow>
                            (case acceptEncoding of
                               Some h \<Rightarrow> if h \<noteq> [] \<and> (str_includes (toLowerCase h) ''identity'' \<or> str_includes h ''*'')
                                          then skip_because IdentityPreferred else skip_because NoSupportedEncoding
                             | None \<Rightarrow> skip_because NoSupportedEncoding))))"

section \<open>The wrapped responders\<close>

record comp_state =
  cz_ctx :: http_context
  cz_raw :: "string option"          \<comment> \<open>the buffer a wrapped responder ended the response with\<close>
  cz_marked :: bool                  \<comment> \<open>\<open>sent\<close> was overridden by \<open>markResponseSent\<close>\<close>
  cz_pending :: "(response_body \<times> int option) option"   \<comment> \<open>an asynchronous compression under way\<close>

definition response_sent :: "comp_state \<Rightarrow> bool" where
  \<comment> \<open>the overridden getter \<open>sent\<close>\<close>
  "response_sent s \<longleftrightarrow> cz_marked s \<or> rs_sent (cz_ctx s) \<or> rs_headersSent (cz_ctx s)"

definition markResponseSent :: "comp_state \<Rightarrow> comp_state" where
  "markResponseSent s = (if response_sent s then s else s\<lparr>cz_marked := True\<rparr>)"

definition checkBodySkipConditions :: "compression_config \<Rightarrow> string \<Rightarrow> string option \<Rightarrow> http_context \<Rightarrow> skip_reason option" where
  "checkBodySkipConditions config body contentType c =
     (if body = [] then Some EmptyBodyReason
      else if length body < co_threshold config then Some BelowThreshold
      else if (case map_get (rs_headers c) ''cache-control'' of Some v \<Rightarrow> str_includes (toLowerCase v) ''no-transform'' | None \<Rightarrow> False)
        then Some NoTransform
      else if (case map_get (rs_headers c) ''content-encoding'' of Some v \<Rightarrow> v \<noteq> [] \<and> v \<noteq> ''identity'' | None \<Rightarrow> False)
        then Some AlreadyCompressed
      else if (case extractMimeType contentType of
                 Some mime \<Rightarrow> \<not> createContentTypeFilter (co_contentTypeFilter config) mime | None \<Rightarrow> False)
        then Some ContentTypeExcluded
      else if rs_statusCode c = 204 \<or> rs_statusCode c = 304 then Some NoContent
      else None)"

definition res_removeHeader :: "string \<Rightarrow> ctx_op" where
  \<comment> \<open>the runtime's \<open>removeHeader\<close>, which throws once the headers are sent\<close>
  "res_removeHeader name c =
     (if rs_headersSent c then (Some (ErrorObj ''Cannot remove headers after they are sent to the client''), c)
      else (None, c\<lparr>rs_headers := map_delete (toLowerCase name) (rs_headers c)\<rparr>))"

definition setCompressionHeaders :: "algorithm \<Rightarrow> bool \<Rightarrow> ctx_op" where
  "setCompressionHeaders algorithm vary =
     then_do (res_setHeader ''Content-Encoding'' (alg_name algorithm))
    (then_do (res_removeHeader ''Content-Length'')
    (then_do (\<lambda>c. case weakenEtag (map_get (rs_headers c) ''etag'') of
                    Some w \<Rightarrow> res_setHeader ''ETag'' w c | None \<Rightarrow> (None, c))
      (\<lambda>c. if vary
           then (case map_get (rs_headers c) ''vary'' of
                   Some (v # vs) \<Rightarrow>
                     if str_includes (toLowerCase (v # vs)) ''accept-encoding'' then (None, c)
                     else res_setHeader ''Vary'' ((v # vs) @ '', Accept-Encoding'') c
                 | _ \<Rightarrow> res_setHeader ''Vary'' ''Accept-Encoding'' c)
           else (None, c))))"

definition setCorrelationIdHeader :: "string \<Rightarrow> ctx_op" where
  \<comment> \<open>\<open>correlationId\<close> is the result of \<open>getCorrelationId\<close>\<close>
  "setCorrelationIdHeader correlationId c =
     (if correlationId \<noteq> [] \<and> correlationId \<noteq> ''unknown'' then res_setHeader ''x-correlation-id'' correlationId c else (None, c))"

definition res_end_raw :: "string \<Rightarrow> comp_state \<Rightarrow> comp_state" where
  "res_end_raw b s = s\<lparr>cz_raw := Some b, cz_ctx := (cz_ctx s)\<lparr>rs_headersSent := True\<rparr>\<rparr>"

record comp_env =
  ce_zlib :: zlib_ops
  ce_config :: compression_config
  ce_algorithm :: algorithm
  ce_header :: string                       \<comment> \<open>the configured correlation header\<close>
  ce_correlationId :: string                \<comment> \<open>what \<open>getCorrelationId\<close> returns\<close>
  ce_stringify :: "json \<Rightarrow> string"          \<comment> \<open>\<open>JSON.stringify\<close>\<close>

fun serializeBody :: "(json \<Rightarrow> string) \<Rightarrow> response_body \<Rightarrow> string" where
  "serializeBody str (JsonBody j) = str j"
| "serializeBody str (TextBody t) = t"
| "serializeBody str (HtmlBody t) = t"
| "serializeBody str EmptyBody = []"

fun content_type_of :: "response_body \<Rightarrow> string" where
  "content_type_of (JsonBody j) = ''application/json''"
| "content_type_of (TextBody t) = ''text/plain''"
| "content_type_of (HtmlBody t) = ''text/html''"
| "content_type_of EmptyBody = []"

definition original_method :: "comp_env \<Rightarrow> response_body \<Rightarrow> int option \<Rightarrow> comp_state \<Rightarrow> thrown option \<times> comp_state" where
  "original_method E b status s =
     (let (r, c) = send_body (ce_header E) status (content_type_of b) b (cz_ctx s) in (r, s\<lparr>cz_ctx := c\<rparr>))"

definition finishCompressedResponse :: "comp_env \<Rightarrow> string \<Rightarrow> comp_state \<Rightarrow> thrown option \<times> comp_state" where
  "finishCompressedResponse E compressed s =
     (let (r, c) = then_do (setCompressionHeaders (ce_algorithm E) (co_vary (ce_config E)))
                     (setCorrelationIdHeader (ce_correlationId E)) (cz_ctx s)
      in case r of
           Some e \<Rightarrow> (Some e, s\<lparr>cz_ctx := c\<rparr>)
         | None \<Rightarrow> (None, markResponseSent (res_end_raw compressed (s\<lparr>cz_ctx := c\<rparr>))))"

definition wrappedMethod :: "comp_env \<Rightarrow> response_body \<Rightarrow> int option \<Rightarrow> comp_state \<Rightarrow> thrown option \<times> comp_state" where
  \<comment> \<open>an error of \<open>finishCompressedResponse\<close> is caught like one of the compressor\<close>
  "wrappedMethod E b status s =
     (let (r, c) = then_do (set_status status) (res_setHeader ''Content-Type'' (content_type_of b)) (cz_ctx s);
          s = s\<lparr>cz_ctx := c\<rparr>; body = serializeBody (ce_stringify E) b; config = ce_config E
      in case r of
           Some e \<Rightarrow> (Some e, s)
         | None \<Rightarrow>
             if checkBodySkipConditions config body (Some (content_type_of b)) c \<noteq> None then original_method E b status s
             else (case compressBufferSync (ce_zlib E) (ce_algorithm E)
                          (getCompressionLevel (ce_algorithm E) (co_level config)) (co_memoryLevel config)
                          (co_windowBits config) body of
                     Inr compressed \<Rightarrow>
                       (case finishCompressedResponse E compressed s of
                          (None, s') \<Rightarrow> (None, s')
                        | (Some e, s') \<Rightarrow> original_method E b status s')
                   | Inl e \<Rightarrow>
                       if ce_algorithm E = Zstd \<and> str_includes e ''zstd synchronous compression is not available''
                       then (None, (markResponseSent s)\<lparr>cz_pending := Some (b, status)\<rparr>)
                       else original_method E b status s))"

definition async_settles :: "comp_env \<Rightarrow> comp_state \<Rightarrow> thrown option \<times> comp_state" where
  \<comment> \<open>the asynchronous compression started by a wrapped responder settles\<close>
  "async_settles E s = (case cz_pending s of
     None \<Rightarrow> (None, s)
   | Some (b, status) \<Rightarrow>
       (let s = s\<lparr>cz_pending := None\<rparr>
        in case compressBuffer (ce_zlib E) (ce_config E) (ce_algorithm E) (serializeBody (ce_stringify E) b) of
             Inr compressed \<Rightarrow>
               (case finishCompressedResponse E compressed s of
                  (None, s') \<Rightarrow> (None, s') | (Some e, s') \<Rightarrow> original_method E b status s')
           | Inl _ \<Rightarrow> original_method E b status s))"

definition wrappedStream ::
  "comp_env \<Rightarrow> int option \<Rightarrow> string option \<Rightarrow> (string \<times> string) list \<Rightarrow> http_context \<Rightarrow>
     algorithm option \<times> thrown option \<times> http_context" where
  \<comment> \<open>up to the pipe; the first component is the compressor in the pipe, if any. The headers set before an
     error stay set.\<close>
  "wrappedStream E status contentType hs c =
     (let config = ce_config E;
          streamContentType = (case contentType of Some (t # ts) \<Rightarrow> Some (t # ts) | _ \<Rightarrow> map_get (rs_headers c) ''content-type'');
          mime = extractMimeType streamContentType;
          original = (None, stream_responder (ce_header E) status contentType hs c)
      in if mime = Some ''text/event-stream'' then original
         else if (case map_get (rs_headers c) ''cache-control'' of Some v \<Rightarrow> str_includes (toLowerCase v) ''no-transform'' | None \<Rightarrow> False)
           then original
         else if (case map_get (rs_headers c) ''content-encoding'' of Some v \<Rightarrow> v \<noteq> [] \<and> v \<noteq> ''identity'' | None \<Rightarrow> False)
           then original
         else if (case mime of Some m \<Rightarrow> \<not> createContentTypeFilter (co_contentTypeFilter config) m | None \<Rightarrow> False) then original
         else (case createCompressorStream (ce_zlib E) (ce_algorithm E) of
                 Some e \<Rightarrow> original
               | None \<Rightarrow>
                   (case then_do (set_status status)
                          (then_do (case contentType of Some (t # ts) \<Rightarrow> res_setHeader ''Content-Type'' (t # ts) | _ \<Rightarrow> (\<lambda>c. (None, c)))
                          (then_do (foldr (\<lambda>(n, v). then_do (res_setHeader n v)) hs (\<lambda>c. (None, c)))
                          (then_do (setCompressionHeaders (ce_algorithm E) (co_vary config))
                          (then_do (res_removeHeader ''Content-Length'') (setCorrelationIdHeader (ce_correlationId E)))))) c of
                      (None, c') \<Rightarrow> (Some (ce_algorithm E), None, c'\<lparr>rs_streaming := True\<rparr>)
                    | (Some e, c') \<Rightarrow> (None, stream_responder (ce_header E) status contentType hs c'))))"

section \<open>Negotiation picks the best encoding\<close>

text \<open>
  The specification reads the weight of an encoding off the header: the quality of its last mention, or else
  of the last wildcard, or else none.
\<close>

definition last_quality :: "encoding_entry list \<Rightarrow> string \<Rightarrow> rat option" where
  "last_quality entries name =
     (let es = filter (\<lambda>e. en_encoding e = name) entries in if es = [] then None else Some (en_quality (last es)))"

definition weight :: "string \<Rightarrow> algorithm \<Rightarrow> rat" where
  "weight header a =
     (case last_quality (parseAcceptEncoding header) (alg_name a) of
        Some q \<Rightarrow> q
      | None \<Rightarrow> (case last_quality (parseAcceptEncoding header) ''*'' of Some q \<Rightarrow> q | None \<Rightarrow> 0))"

lemma last_quality_snoc:
  "last_quality (es @ [e]) name = (if en_encoding e = name then Some (en_quality e) else last_quality es name)"
  by (simp add: last_quality_def Let_def)

lemma map_get_quality_map: "map_get (quality_map es) name = last_quality es name"
proof (induction es rule: rev_induct)
  case Nil
  then show ?case by (simp add: quality_map_def last_quality_def)
next
  case (snoc e es)
  then show ?case by (simp add: last_quality_snoc quality_map_def)
qed

lemma toLowerCase_alg_name [simp]: "toLowerCase (alg_name a) = alg_name a"
  by (cases a) (simp_all add: toLowerCase_def lower_char_def)

lemma candidate_quality_weight:
  "(case candidate_quality (quality_map (parseAcceptEncoding h)) a of Some q \<Rightarrow> q | None \<Rightarrow> 0) = weight h a"
  by (simp add: candidate_quality_def map_get_quality_map weight_def split: option.split)

lemma quality_param_range: "0 \<le> q \<Longrightarrow> 0 \<le> quality_param q s"
  by (auto simp: quality_param_def Let_def split: option.split)

lemma foldl_quality_range: "0 \<le> q \<Longrightarrow> 0 \<le> foldl quality_param q ss"
  by (induction ss arbitrary: q) (simp_all add: quality_param_range)

lemma entries_quality_nonneg: "e \<in> set (parseAcceptEncoding h) \<Longrightarrow> 0 \<le> en_quality e"
  by (auto simp: parseAcceptEncoding_def List.map_filter_def encoding_of_part_def Let_def foldl_quality_range split: if_splits)

lemma last_quality_nonneg:
  assumes "last_quality (parseAcceptEncoding h) n = Some q"
  shows "0 \<le> q"
proof -
  let ?es = "filter (\<lambda>e. en_encoding e = n) (parseAcceptEncoding h)"
  have "?es \<noteq> []" "q = en_quality (last ?es)" using assms by (auto simp: last_quality_def Let_def split: if_splits)
  moreover from this(1) have "last ?es \<in> set ?es" by (rule last_in_set)
  ultimately show ?thesis using entries_quality_nonneg [of "last ?es" h] by simp
qed

lemma weight_nonneg: "0 \<le> weight h a"
  by (auto simp: weight_def last_quality_nonneg split: option.split)

definition best_of :: "('a \<Rightarrow> rat) \<Rightarrow> 'a list \<Rightarrow> 'a \<Rightarrow> bool" where
  \<comment> \<open>the first element of greatest weight, which is positive\<close>
  "best_of w xs a \<longleftrightarrow> 0 < w a \<and> (\<exists>ys zs. xs = ys @ a # zs \<and> (\<forall>b \<in> set ys. w b < w a) \<and> (\<forall>b \<in> set zs. w b \<le> w a))"

lemma best_ofI:
  "xs = ys @ a # zs \<Longrightarrow> 0 < w a \<Longrightarrow> (\<forall>b \<in> set ys. w b < w a) \<Longrightarrow> (\<forall>b \<in> set zs. w b \<le> w a) \<Longrightarrow> best_of w xs a"
  unfolding best_of_def by blast

lemma best_ofE:
  assumes "best_of w xs a"
  obtains ys zs where "xs = ys @ a # zs" "0 < w a" "\<forall>b \<in> set ys. w b < w a" "\<forall>b \<in> set zs. w b \<le> w a"
  using assms unfolding best_of_def by blast

lemma best_of_snoc_better: "0 < w x \<Longrightarrow> (\<forall>b \<in> set xs. w b < w x) \<Longrightarrow> best_of w (xs @ [x]) x"
  by (rule best_ofI [of _ xs _ "[]"]) simp_all

lemma best_of_snoc_worse: "best_of w xs a \<Longrightarrow> w x \<le> w a \<Longrightarrow> best_of w (xs @ [x]) a"
proof (elim best_ofE)
  fix ys zs
  assume "w x \<le> w a" "xs = ys @ a # zs" "0 < w a" "\<forall>b \<in> set ys. w b < w a" "\<forall>b \<in> set zs. w b \<le> w a"
  then show ?thesis by (intro best_ofI [of _ ys _ "zs @ [x]"]) auto
qed

lemma best_of_upper: "best_of w xs a \<Longrightarrow> b \<in> set xs \<Longrightarrow> w b \<le> w a"
  by (erule best_ofE) fastforce

lemma best_of_unique:
  assumes "best_of w xs a" "best_of w xs b"
  shows "a = b"
proof -
  obtain ys zs where y: "xs = ys @ a # zs" "0 < w a" "\<forall>c \<in> set ys. w c < w a" "\<forall>c \<in> set zs. w c \<le> w a"
    using assms(1) by (rule best_ofE)
  obtain ys' zs' where z: "xs = ys' @ b # zs'" "0 < w b" "\<forall>c \<in> set ys'. w c < w b" "\<forall>c \<in> set zs'. w c \<le> w b"
    using assms(2) by (rule best_ofE)
  have "w a \<le> w b" "w b \<le> w a" using assms best_of_upper y(1) z(1) by (metis in_set_conv_decomp)+
  then have eq: "w a = w b" by simp
  have app: "ys @ a # zs = ys' @ b # zs'" using y(1) z(1) by simp
  have "a \<notin> set ys'" "b \<notin> set ys" using y(3) z(3) eq by auto
  with app show ?thesis by (auto simp: append_eq_append_conv2 Cons_eq_append_conv append_eq_Cons_conv)
qed

lemma candidates_fold:
  fixes qm w xs
  defines "r \<equiv> foldl (consider_candidate qm) (None, -1) xs"
  assumes w: "\<And>a. w a = (case candidate_quality qm a of Some q \<Rightarrow> q | None \<Rightarrow> 0)" "\<And>a. 0 \<le> w a"
  shows "(fst r = None \<and> snd r = -1 \<and> (\<forall>b \<in> set xs. w b = 0)) \<or>
    (\<exists>a. fst r = Some a \<and> snd r = w a \<and> best_of w xs a)"
  unfolding r_def
proof (induction xs rule: rev_induct)
  case Nil
  then show ?case by simp
next
  case (snoc x xs)
  let ?r = "foldl (consider_candidate qm) (None, -1) xs"
  have step: "foldl (consider_candidate qm) (None, -1) (xs @ [x]) = (if w x = 0 \<or> w x \<le> snd ?r then ?r else (Some x, w x))"
    using w [of x] snoc.IH by (auto simp: consider_candidate_def split: option.splits)
  show ?case
  proof (cases "w x = 0")
    case True
    then show ?thesis
      using snoc.IH step w(2) by (auto intro!: best_of_snoc_worse)
  next
    case False
    then have pos: "0 < w x" using w(2) [of x] by linarith
    show ?thesis
      using snoc.IH
    proof (elim disjE exE conjE)
      assume n: "fst ?r = None" "snd ?r = -1" "\<forall>b \<in> set xs. w b = 0"
      then show ?thesis using step pos best_of_snoc_better [of w x xs] by auto
    next
      fix a assume a: "fst ?r = Some a" "snd ?r = w a" "best_of w xs a"
      show ?thesis
      proof (cases "w x \<le> w a")
        case True
        then show ?thesis using a step best_of_snoc_worse [of w xs a x] by auto
      next
        case False
        then have "\<forall>b \<in> set xs. w b < w x" using best_of_upper [OF a(3)] by fastforce
        then show ?thesis using False a step pos best_of_snoc_better [of w x xs] by auto
      qed
    qed
  qed
qed

lemma js_trim_blank: "js_trim h = [] \<longleftrightarrow> list_all is_space h"
proof -
  have "js_trim h = [] \<longleftrightarrow> (\<forall>c \<in> set (dropWhile is_space h). is_space c)"
    by (simp add: js_trim_def)
  also have "\<dots> \<longleftrightarrow> list_all is_space h"
    by (induction h) (auto simp: list.pred_set)
  finally show ?thesis .
qed

lemma parse_blank: "js_trim h = [] \<Longrightarrow> parseAcceptEncoding h = []"
proof -
  assume a: "js_trim h = []"
  then have "CHR '','' \<notin> set h" by (auto simp: js_trim_blank list.pred_set is_space_def)
  then show ?thesis using a by (simp add: parseAcceptEncoding_def split_plain encoding_of_part_def List.map_filter_def)
qed

lemma weight_no_entries: "parseAcceptEncoding h = [] \<Longrightarrow> weight h a = 0"
  by (simp add: weight_def last_quality_def)

lemma negotiate_best:
  assumes "Identity \<notin> set available"
  shows "negotiateEncoding (Some h) available = Some a \<longleftrightarrow> a \<noteq> Identity \<and> best_of (weight h) (available @ [Identity]) a"
proof (cases "parseAcceptEncoding h = []")
  case True
  then show ?thesis by (auto simp: negotiateEncoding_def best_of_def weight_no_entries)
next
  case False
  then have nt: "js_trim h \<noteq> []" using parse_blank by blast
  let ?qm = "quality_map (parseAcceptEncoding h)"
  let ?r = "foldl (consider_candidate ?qm) (None, -1) (available @ [Identity])"
  have r: "(fst ?r = None \<and> snd ?r = -1 \<and> (\<forall>b \<in> set (available @ [Identity]). weight h b = 0)) \<or>
    (\<exists>a. fst ?r = Some a \<and> snd ?r = weight h a \<and> best_of (weight h) (available @ [Identity]) a)"
    by (rule candidates_fold) (simp_all add: candidate_quality_weight weight_nonneg)
  have "negotiateEncoding (Some h) available = (if fst ?r = Some Identity then None else fst ?r)"
    using False nt assms by (simp add: negotiateEncoding_def Let_def)
  moreover have "\<not> best_of (weight h) (available @ [Identity]) a" if "\<forall>b \<in> set (available @ [Identity]). weight h b = 0"
  proof
    assume "best_of (weight h) (available @ [Identity]) a"
    then show False by (rule best_ofE) (use that in \<open>metis in_set_conv_decomp less_irrefl\<close>)
  qed
  ultimately show ?thesis using r best_of_unique [of "weight h" "available @ [Identity]"] by auto
qed

text \<open>C9: encoding negotiation picks the best. Among the available algorithms and \<open>identity\<close>, the chosen one is
  exactly the first of greatest weight in the server's order, where the weight is the quality of its last
  mention in the header, or else of the wildcard, and nothing of weight zero is chosen; \<open>identity\<close>, which
  comes last, wins only when strictly better, and then nothing is compressed.\<close>
theorem negotiation_picks_best:
  assumes "Identity \<notin> set available"
  shows "negotiateEncoding (Some h) available = Some a \<longleftrightarrow>
    0 < weight h a \<and> weight h Identity \<le> weight h a \<and> a \<noteq> Identity \<and>
    (\<exists>ys zs. available = ys @ a # zs \<and> (\<forall>b \<in> set ys. weight h b < weight h a) \<and> (\<forall>b \<in> set zs. weight h b \<le> weight h a))"
proof -
  have "a \<noteq> Identity \<and> best_of (weight h) (available @ [Identity]) a \<longleftrightarrow>
    0 < weight h a \<and> weight h Identity \<le> weight h a \<and> a \<noteq> Identity \<and>
    (\<exists>ys zs. available = ys @ a # zs \<and> (\<forall>b \<in> set ys. weight h b < weight h a) \<and> (\<forall>b \<in> set zs. weight h b \<le> weight h a))"
    (is "_ \<and> ?L \<longleftrightarrow> ?R")
  proof
    assume l: "a \<noteq> Identity \<and> ?L"
    then obtain ys zs where y: "available @ [Identity] = ys @ a # zs" "0 < weight h a" "\<forall>b \<in> set ys. weight h b < weight h a"
      "\<forall>b \<in> set zs. weight h b \<le> weight h a" by (auto elim: best_ofE)
    have zs: "zs \<noteq> []" using y(1) l by auto
    then have "available = ys @ a # butlast zs" "last zs = Identity"
      using y(1) by (metis butlast_append butlast_snoc list.distinct(1) butlast.simps(2), metis last_appendR last_snoc last_ConsR list.distinct(1))
    moreover have "last zs \<in> set zs" using zs by simp
    ultimately show ?R using l y by (metis in_set_butlastD)
  next
    assume ?R
    then obtain ys zs where y: "available = ys @ a # zs" "\<forall>b \<in> set ys. weight h b < weight h a"
      "\<forall>b \<in> set zs. weight h b \<le> weight h a" by blast
    have ?L by (rule best_ofI [where ys = ys and zs = "zs @ [Identity]"]) (use y \<open>?R\<close> in auto)
    with \<open>?R\<close> show "a \<noteq> Identity \<and> ?L" by simp
  qed
  then show ?thesis using negotiate_best [OF assms] by simp
qed

theorem negotiation_picks_best_witness:
  "negotiateEncoding (Some ''gzip;q=0.5, br;q=0.8, *;q=0'') [Zstd, Br, Gzip] = Some Br"
proof -
  have "weight ''gzip;q=0.5, br;q=0.8, *;q=0'' Zstd = 0" "weight ''gzip;q=0.5, br;q=0.8, *;q=0'' Br = 4/5"
    "weight ''gzip;q=0.5, br;q=0.8, *;q=0'' Gzip = 1/2" "weight ''gzip;q=0.5, br;q=0.8, *;q=0'' Identity = 0"
    by code_simp+
  then show ?thesis
    using negotiation_picks_best [of "[Zstd, Br, Gzip]" "''gzip;q=0.5, br;q=0.8, *;q=0''" Br]
    by (simp add: exI [of _ "[Zstd]"])
qed

section \<open>Compression is transparent\<close>

definition decode :: "(string \<Rightarrow> string \<Rightarrow> string) \<Rightarrow> (string, string) js_map \<Rightarrow> string \<Rightarrow> string" where
  \<comment> \<open>what a client makes of a body, with \<open>D e\<close> undoing the encoding named \<open>e\<close>\<close>
  "decode D headers body = (case map_get headers ''content-encoding'' of None \<Rightarrow> body | Some e \<Rightarrow> D e body)"

definition received_body :: "(string \<Rightarrow> string \<Rightarrow> string) \<Rightarrow> (json \<Rightarrow> string) \<Rightarrow> comp_state \<Rightarrow> string option" where
  "received_body D str s = map_option (decode D (rs_headers (cz_ctx s)))
     (case cz_raw s of Some z \<Rightarrow> Some z | None \<Rightarrow> map_option (serializeBody str) (rs_body (cz_ctx s)))"

definition fresh_response :: "http_context \<Rightarrow> comp_state" where
  "fresh_response c = \<lparr>cz_ctx = c, cz_raw = None, cz_marked = False, cz_pending = None\<rparr>"

lemma header_names [simp]:
  "toLowerCase ''Content-Encoding'' = ''content-encoding''" "toLowerCase ''Content-Length'' = ''content-length''"
  "toLowerCase ''Content-Type'' = ''content-type''" "toLowerCase ''ETag'' = ''etag''" "toLowerCase ''Vary'' = ''vary''"
  "toLowerCase ''x-correlation-id'' = ''x-correlation-id''"
  by code_simp+

definition header_update :: "http_context \<Rightarrow> algorithm \<Rightarrow> (string, string) js_map \<Rightarrow> bool" where
  \<comment> \<open>what the compression headers leave\<close>
  "header_update c a H \<longleftrightarrow> map_get H ''content-encoding'' = Some (alg_name a) \<and>
     map_get H ''content-type'' = map_get (rs_headers c) ''content-type'' \<and> map_get H ''content-length'' = None"

lemma compression_headers_set:
  assumes "\<not> rs_headersSent c"
  shows "\<exists>H. then_do (setCompressionHeaders a vary) (setCorrelationIdHeader cid) c = (None, c\<lparr>rs_headers := H\<rparr>) \<and> header_update c a H"
  using assms
  by (auto simp: then_do_def setCompressionHeaders_def setCorrelationIdHeader_def res_setHeader_def res_removeHeader_def
      header_update_def Let_def split: option.split list.split)

lemma finish_compressed:
  assumes "\<not> rs_headersSent (cz_ctx s)"
  obtains s' H where "finishCompressedResponse E z s = (None, s')" "cz_raw s' = Some z" "cz_pending s' = cz_pending s"
    "cz_ctx s' = (cz_ctx s)\<lparr>rs_headers := H, rs_headersSent := True\<rparr>" "header_update (cz_ctx s) (ce_algorithm E) H"
  using compression_headers_set [OF assms, of "ce_algorithm E" "co_vary (ce_config E)" "ce_correlationId E"] that
  by (auto simp: finishCompressedResponse_def Let_def markResponseSent_def res_end_raw_def response_sent_def)

definition prepared :: "response_body \<Rightarrow> int option \<Rightarrow> http_context \<Rightarrow> http_context" where
  \<comment> \<open>the context after a wrapped responder has set status and content type\<close>
  "prepared b status c = c\<lparr>rs_statusCode := (case status of Some n \<Rightarrow> n | None \<Rightarrow> rs_statusCode c),
     rs_headers := map_set ''content-type'' (content_type_of b) (rs_headers c)\<rparr>"

lemma prepared_fields [simp]:
  "rs_sent (prepared b status c) = rs_sent c" "rs_headersSent (prepared b status c) = rs_headersSent c"
  "cx_correlationId (prepared b status c) = cx_correlationId c"
  "rs_statusCode (prepared b status c) = (case status of Some n \<Rightarrow> n | None \<Rightarrow> rs_statusCode c)"
  "rs_headers (prepared b status c) = map_set ''content-type'' (content_type_of b) (rs_headers c)"
  by (simp_all add: prepared_def)

definition same_answer :: "(string \<Rightarrow> string \<Rightarrow> string) \<Rightarrow> comp_env \<Rightarrow> response_body \<Rightarrow> http_context \<Rightarrow> comp_state \<Rightarrow> bool" where
  \<comment> \<open>a client of the response in \<open>s\<close> sees what a client of the uncompressed response \<open>plain\<close> sees\<close>
  "same_answer D E b plain s \<longleftrightarrow>
     received_body D (ce_stringify E) s = Some (decode D (rs_headers plain) (serializeBody (ce_stringify E) b)) \<and>
     rs_statusCode (cz_ctx s) = rs_statusCode plain \<and>
     map_get (rs_headers (cz_ctx s)) ''content-type'' = map_get (rs_headers plain) ''content-type'' \<and>
     rs_headersSent (cz_ctx s) \<and> response_sent s \<and> cz_pending s = None"

lemma original_same_answer:
  assumes "\<not> rs_sent c" "\<not> rs_headersSent c" "cz_ctx s = prepared b status c" "cz_raw s = None" "cz_pending s = None"
  shows "fst (original_method E b status s) = None \<and>
    same_answer D E b (snd (send_body (ce_header E) status (content_type_of b) b c)) (snd (original_method E b status s))"
proof -
  let ?p = "prepared b status c"
  note p = send_body_ok [of ?p "ce_header E" status "content_type_of b" b]
  note c = send_body_ok [of c "ce_header E" status "content_type_of b" b]
  have "map_get (rs_headers (snd (send_body (ce_header E) status (content_type_of b) b ?p))) =
    map_get (rs_headers (snd (send_body (ce_header E) status (content_type_of b) b c)))"
    using p(6) c(6) assms(1,2) by (auto split: option.split list.split)
  then show ?thesis
    using p c assms
    by (auto simp: original_method_def same_answer_def received_body_def decode_def response_sent_def split: prod.split option.split)
qed

definition decodes :: "(string \<Rightarrow> string \<Rightarrow> string) \<Rightarrow> zlib_ops \<Rightarrow> bool" where
  \<comment> \<open>the client's decoders undo the compressors, whatever their settings\<close>
  "decodes D Z \<longleftrightarrow> (\<forall>x. D [] x = x \<and> D ''identity'' x = x) \<and>
     (\<forall>a level mem win x z. a \<noteq> Identity \<longrightarrow> z_run Z a level mem win x = Inr z \<longrightarrow> D (alg_name a) z = x)"

lemma decodes_run: "decodes D Z \<Longrightarrow> a \<noteq> Identity \<Longrightarrow> z_run Z a level mem win x = Inr z \<Longrightarrow> D (alg_name a) z = x"
  unfolding decodes_def by blast

lemma sync_inverse: "decodes D Z \<Longrightarrow> compressBufferSync Z a level mem win x = Inr z \<Longrightarrow> D (alg_name a) z = x"
  by (cases a) (auto simp del: alg_name.simps split: if_splits dest: decodes_run)

lemma async_inverse: "decodes D Z \<Longrightarrow> compressBuffer Z config a x = Inr z \<Longrightarrow> D (alg_name a) z = x"
  by (cases a) (auto simp: compressBuffer_def simp del: alg_name.simps split: if_splits option.splits dest: decodes_run)

lemma compressed_same_answer:
  assumes D: "decodes D Z" and fresh: "\<not> rs_sent c" "\<not> rs_headersSent c" and s: "cz_ctx s = prepared b status c" "cz_pending s = None"
    and chk: "checkBodySkipConditions config x t (prepared b status c) = None"
    and z: "D (alg_name (ce_algorithm E)) z = serializeBody (ce_stringify E) b"
    and hn: "toLowerCase (ce_header E) \<noteq> ''content-encoding''"
  obtains s' where "finishCompressedResponse E z s = (None, s')"
    "same_answer D E b (snd (send_body (ce_header E) status (content_type_of b) b c)) s'"
proof -
  let ?plain = "snd (send_body (ce_header E) status (content_type_of b) b c)"
  have f: "\<not> rs_headersSent (cz_ctx s)" using fresh s by simp
  obtain s' H where s': "finishCompressedResponse E z s = (None, s')" "cz_raw s' = Some z" "cz_pending s' = cz_pending s"
    "cz_ctx s' = (cz_ctx s)\<lparr>rs_headers := H, rs_headersSent := True\<rparr>" "header_update (cz_ctx s) (ce_algorithm E) H"
    by (rule finish_compressed [OF f])
  have ce: "map_get (rs_headers ?plain) ''content-encoding'' = map_get (rs_headers c) ''content-encoding''"
    using send_body_ok(6) [OF fresh] hn by (auto split: option.split list.split)
  have "map_get (rs_headers c) ''content-encoding'' \<in> {None, Some [], Some ''identity''}"
    using chk by (auto simp: checkBodySkipConditions_def split: if_splits option.splits)
  then have d: "decode D (rs_headers ?plain) y = y" for y using ce D by (auto simp: decode_def decodes_def)
  have "same_answer D E b ?plain s'"
    using s' s z d send_body_ok(5,6) [OF fresh, of "ce_header E" status "content_type_of b" b]
    by (simp add: same_answer_def received_body_def header_update_def response_sent_def decode_def)
  with s'(1) show thesis by (rule that)
qed

lemma wrapped_transparent:
  assumes D: "decodes D Z" and fresh: "\<not> rs_sent c" "\<not> rs_headersSent c" and E: "ce_zlib E = Z"
    and hn: "toLowerCase (ce_header E) \<noteq> ''content-encoding''"
  shows "fst (wrappedMethod E b status (fresh_response c)) = None \<and>
    response_sent (snd (wrappedMethod E b status (fresh_response c))) \<and>
    fst (async_settles E (snd (wrappedMethod E b status (fresh_response c)))) = None \<and>
    same_answer D E b (snd (send_body (ce_header E) status (content_type_of b) b c))
      (snd (async_settles E (snd (wrappedMethod E b status (fresh_response c)))))"
proof -
  let ?s = "(fresh_response c)\<lparr>cz_ctx := prepared b status c\<rparr>" and ?x = "serializeBody (ce_stringify E) b"
  let ?plain = "snd (send_body (ce_header E) status (content_type_of b) b c)"
  let ?run = "compressBufferSync Z (ce_algorithm E) (getCompressionLevel (ce_algorithm E) (co_level (ce_config E)))
    (co_memoryLevel (ce_config E)) (co_windowBits (ce_config E)) ?x"
  let ?chk = "checkBodySkipConditions (ce_config E) ?x (Some (content_type_of b)) (prepared b status c)"
  have prep: "then_do (set_status status) (res_setHeader ''Content-Type'' (content_type_of b)) (cz_ctx (fresh_response c)) =
    (None, prepared b status c)"
    using fresh by (auto simp: then_do_def set_status_def res_setHeader_def prepared_def fresh_response_def split: option.split)
  have sf: "cz_ctx ?s = prepared b status c" "cz_raw ?s = None" "cz_pending ?s = None" "\<not> cz_marked ?s"
    by (simp_all add: fresh_response_def)
  define w where "w = wrappedMethod E b status (fresh_response c)"
  have w: "w = (if ?chk \<noteq> None then original_method E b status ?s
    else case ?run of
      Inr z \<Rightarrow> (case finishCompressedResponse E z ?s of (None, s') \<Rightarrow> (None, s') | (Some e, s') \<Rightarrow> original_method E b status s')
    | Inl e \<Rightarrow> if ce_algorithm E = Zstd \<and> str_includes e ''zstd synchronous compression is not available''
               then (None, (markResponseSent ?s)\<lparr>cz_pending := Some (b, status)\<rparr>) else original_method E b status ?s)"
    unfolding w_def wrappedMethod_def prep Let_def by (simp add: E split_beta)
  note orig = original_same_answer [OF fresh sf(1-3), of E D]
  have fin: "?thesis" if "fst w = None" "same_answer D E b ?plain (snd w)"
    using that by (simp add: w_def [symmetric] same_answer_def async_settles_def)
  show ?thesis
  proof (cases "?chk")
    case (Some r)
    then show ?thesis using orig w by (intro fin) simp_all
  next
    case None
    show ?thesis
    proof (cases ?run)
      case (Inr z)
      obtain s' where "finishCompressedResponse E z ?s = (None, s')" "same_answer D E b ?plain s'"
        by (rule compressed_same_answer [OF D fresh sf(1,3) None sync_inverse [OF D Inr] hn])
      then show ?thesis using w None Inr by (intro fin) simp_all
    next
      case (Inl e)
      show ?thesis
      proof (cases "ce_algorithm E = Zstd \<and> str_includes e ''zstd synchronous compression is not available''")
        case False
        then show ?thesis using orig w None Inl by (intro fin) auto
      next
        case True
        let ?m = "(markResponseSent ?s)\<lparr>cz_pending := None\<rparr>"
        have m: "cz_ctx ?m = prepared b status c" "cz_raw ?m = None" "cz_pending ?m = None"
          using sf by (simp_all add: markResponseSent_def)
        have w': "w = (None, (markResponseSent ?s)\<lparr>cz_pending := Some (b, status)\<rparr>)" using w None Inl True by simp
        have "fst (async_settles E (snd w)) = None \<and> same_answer D E b ?plain (snd (async_settles E (snd w)))"
        proof (cases "compressBuffer Z (ce_config E) (ce_algorithm E) ?x")
          case Inl': (Inl e')
          then show ?thesis using original_same_answer [OF fresh m, of E D] by (simp add: w' async_settles_def E Let_def)
        next
          case Inr': (Inr z)
          obtain s' where "finishCompressedResponse E z ?m = (None, s')" "same_answer D E b ?plain s'"
            by (rule compressed_same_answer [OF D fresh m(1,3) None async_inverse [OF D Inr'] hn])
          then show ?thesis using Inr' by (simp add: w' async_settles_def E Let_def)
        qed
        moreover have "response_sent (snd w)" using w' sf by (auto simp: markResponseSent_def response_sent_def)
        ultimately show ?thesis using w' by (simp add: w_def [symmetric])
      qed
    qed
  qed
qed

text \<open>C8: compression is transparent. With decoders that undo the compressors, and a response not yet sent, a
  wrapped JSON, text or HTML responder answers without an error, the response counts as sent at once, and
  when an asynchronous compression has settled the client sees the status, content type and
  decoded body it would have seen without the middleware, whether the body was compressed, skipped or the
  compressor failed.\<close>
theorem compression_is_transparent:
  assumes "decodes D (ce_zlib E)" "\<not> rs_sent c" "\<not> rs_headersSent c"
    and "toLowerCase (ce_header E) \<noteq> ''content-encoding''"
    and "w = wrappedMethod E b status (fresh_response c)" "s = snd (async_settles E (snd w))"
    and "p = snd (send_body (ce_header E) status (content_type_of b) b c)"
  shows "fst w = None \<and> response_sent (snd w) \<and> fst (async_settles E (snd w)) = None \<and>
    received_body D (ce_stringify E) s = Some (decode D (rs_headers p) (serializeBody (ce_stringify E) b)) \<and>
    rs_statusCode (cz_ctx s) = rs_statusCode p \<and>
    map_get (rs_headers (cz_ctx s)) ''content-type'' = map_get (rs_headers p) ''content-type''"
  using wrapped_transparent [OF assms(1-3) refl assms(4), of b status] by (simp add: assms(5-7) same_answer_def)

definition prefix_zlib :: zlib_ops where
  \<comment> \<open>a compressor that marks its output, for evaluation\<close>
  "prefix_zlib = \<lparr>z_hasZstd = True, z_hasZstdSync = False, z_hasBrotli = True, z_run = (\<lambda>a l m w x. Inr (''!'' @ x))\<rparr>"

definition prefix_decoder :: "string \<Rightarrow> string \<Rightarrow> string" where
  "prefix_decoder e x = (if e = [] \<or> e = ''identity'' then x else tl x)"

lemma prefix_decodes: "decodes prefix_decoder prefix_zlib"
proof -
  have "prefix_decoder (alg_name a) (CHR ''!'' # x) = x" if "a \<noteq> Identity" for a x
    using that by (cases a) (simp_all add: prefix_decoder_def)
  then show ?thesis by (auto simp: decodes_def prefix_zlib_def) (simp_all add: prefix_decoder_def)
qed

definition sample_response :: http_context where
  "sample_response = \<lparr>cx_method = ''GET'', cx_path = ''/'', cx_reqHeaders = [], cx_params = None, cx_query = None,
     cx_body = None, cx_files = None, cx_correlationId = None, rs_statusCode = 200, rs_headers = [], rs_headersSent = False,
     rs_body = None, rs_sent = False, rs_streaming = False, rs_json = []\<rparr>"

definition sample_env :: comp_env where
  "sample_env = \<lparr>ce_zlib = prefix_zlib, ce_config = default_config\<lparr>co_threshold := 2\<rparr>, ce_algorithm = Zstd, ce_header = ''x-id'',
     ce_correlationId = ''abc'', ce_stringify = (\<lambda>j. ''{}'')\<rparr>"

theorem compression_is_transparent_witness:
  "received_body prefix_decoder (\<lambda>j. ''{}'')
     (snd (async_settles sample_env (snd (wrappedMethod sample_env (TextBody ''hello'') None (fresh_response sample_response))))) = Some ''hello'' \<and>
   cz_raw (snd (async_settles sample_env (snd (wrappedMethod sample_env (TextBody ''hello'') None (fresh_response sample_response))))) = Some ''!hello''"
proof
  have hn: "toLowerCase (ce_header sample_env) \<noteq> ''content-encoding''" by code_simp
  have d: "decodes prefix_decoder (ce_zlib sample_env)" by (simp add: sample_env_def prefix_decodes)
  have f: "\<not> rs_sent sample_response" "\<not> rs_headersSent sample_response" by (simp_all add: sample_response_def)
  have "map_get (rs_headers (snd (send_body (ce_header sample_env) None (content_type_of (TextBody ''hello'')) (TextBody ''hello'') sample_response)))
    ''content-encoding'' = None"
    using send_body_ok(6) [OF f] by (simp add: sample_response_def)
  then show "received_body prefix_decoder (\<lambda>j. ''{}'')
     (snd (async_settles sample_env (snd (wrappedMethod sample_env (TextBody ''hello'') None (fresh_response sample_response))))) = Some ''hello''"
    using compression_is_transparent [OF d f hn refl refl refl, of "TextBody ''hello''" None]
    by (simp add: decode_def sample_env_def)
  show "cz_raw (snd (async_settles sample_env (snd (wrappedMethod sample_env (TextBody ''hello'') None (fresh_response sample_response))))) = Some ''!hello''"
    by code_simp
qed

section \<open>When nothing is compressed\<close>

text \<open>A body is compressed by a wrapped responder only when it is not empty and reaches the threshold, the handler
  asked for no \<open>no-transform\<close> and set no encoding of its own, its type passes the filter, and the status has
  a body.\<close>
lemma compressed_only_when_allowed:
  assumes "cz_raw (snd (wrappedMethod E b status s)) = Some z" "cz_raw s = None"
    and c: "c = snd (then_do (set_status status) (res_setHeader ''Content-Type'' (content_type_of b)) (cz_ctx s))"
  shows "checkBodySkipConditions (ce_config E) (serializeBody (ce_stringify E) b) (Some (content_type_of b)) c = None"
  using assms
  by (auto simp: wrappedMethod_def original_method_def Let_def split: option.splits prod.splits if_splits sum.splits)

lemma compression_level_in_range:
  assumes "ALGORITHM_LEVELS a = Some config"
  shows "lv_min config \<le> getCompressionLevel a level \<and> getCompressionLevel a level \<le> lv_max config"
  using assms by (cases a; cases level) (auto simp: getCompressionLevel_def)

lemma weakenEtag_idem: "weakenEtag (weakenEtag e) = weakenEtag e"
  by (auto simp: weakenEtag_def str_startsWith_iff split: option.split)

lemma event_streams_not_compressed:
  assumes "extractMimeType (Some (t # ts)) = Some ''text/event-stream''"
  shows "wrappedStream E status (Some (t # ts)) hs c = (None, stream_responder (ce_header E) status (Some (t # ts)) hs c)"
  using assms by (simp add: wrappedStream_def)

lemma then_do_NoneD: "then_do f g c = (None, d) \<Longrightarrow> \<exists>c'. g c' = (None, d)"
  by (auto simp: then_do_def Let_def split: prod.splits option.splits)

lemma compression_headers_last:
  assumes "then_do (setCompressionHeaders a vary) (then_do (res_removeHeader ''Content-Length'') (setCorrelationIdHeader cid)) c = (None, d)"
  shows "map_get (rs_headers d) ''content-encoding'' = Some (alg_name a) \<and> map_get (rs_headers d) ''content-length'' = None"
  using assms
  by (auto simp: then_do_def setCompressionHeaders_def setCorrelationIdHeader_def res_setHeader_def res_removeHeader_def
      Let_def split: option.splits list.splits if_splits)

text \<open>A compressed stream carries the name of its compressor and no length, whatever headers the caller passes with the
  stream: an encoding named there (for data that is already compressed) is overwritten, and the data is
  compressed again.\<close>
lemma compressed_stream_headers:
  assumes "wrappedStream E status t hs c = (Some a, e, d)"
  shows "a = ce_algorithm E \<and> e = None \<and> map_get (rs_headers d) ''content-encoding'' = Some (alg_name a) \<and>
    map_get (rs_headers d) ''content-length'' = None"
proof -
  obtain d' where d: "a = ce_algorithm E" "e = None" "d = d'\<lparr>rs_streaming := True\<rparr>"
    "then_do (set_status status)
        (then_do (case t of Some (t # ts) \<Rightarrow> res_setHeader ''Content-Type'' (t # ts) | _ \<Rightarrow> (\<lambda>c. (None, c)))
        (then_do (foldr (\<lambda>(n, v). then_do (res_setHeader n v)) hs (\<lambda>c. (None, c)))
        (then_do (setCompressionHeaders (ce_algorithm E) (co_vary (ce_config E)))
        (then_do (res_removeHeader ''Content-Length'') (setCorrelationIdHeader (ce_correlationId E)))))) c = (None, d')"
    using assms unfolding wrappedStream_def Let_def by (auto split: if_splits option.splits prod.splits)
  from then_do_NoneD [OF d(4)] obtain c1 where c1: "then_do (case t of Some (t # ts) \<Rightarrow> res_setHeader ''Content-Type'' (t # ts) | _ \<Rightarrow> (\<lambda>c. (None, c)))
        (then_do (foldr (\<lambda>(n, v). then_do (res_setHeader n v)) hs (\<lambda>c. (None, c)))
        (then_do (setCompressionHeaders (ce_algorithm E) (co_vary (ce_config E)))
        (then_do (res_removeHeader ''Content-Length'') (setCorrelationIdHeader (ce_correlationId E))))) c1 = (None, d')" ..
  from then_do_NoneD [OF c1] obtain c2 where c2: "then_do (foldr (\<lambda>(n, v). then_do (res_setHeader n v)) hs (\<lambda>c. (None, c)))
        (then_do (setCompressionHeaders (ce_algorithm E) (co_vary (ce_config E)))
        (then_do (res_removeHeader ''Content-Length'') (setCorrelationIdHeader (ce_correlationId E)))) c2 = (None, d')" ..
  from then_do_NoneD [OF c2] obtain c' where "then_do (setCompressionHeaders (ce_algorithm E) (co_vary (ce_config E)))
      (then_do (res_removeHeader ''Content-Length'') (setCorrelationIdHeader (ce_correlationId E))) c' = (None, d')" ..
  from compression_headers_last [OF this] show ?thesis using d by simp
qed

text \<open>For example, a stream of gzip data sent with its encoding goes out as \<open>br\<close>.\<close>
lemma gzip_stream_recompressed:
  "map_get (rs_headers (snd (snd (wrappedStream (sample_env\<lparr>ce_algorithm := Br\<rparr>) None (Some ''text/plain'')
     [(''Content-Encoding'', ''gzip'')] sample_response)))) ''content-encoding'' = Some ''br''"
  by code_simp

end
