(* ===== verification/Security.thy ===== *)
theory Security
  imports Cors
begin

text \<open>
  The security middleware (\<open>middleware/security/src\<close>): the text of the Content-Security-Policy and
  Strict-Transport-Security headers (\<open>csp.ts\<close>, \<open>hsts.ts\<close>), the headers set on a response
  (\<open>headers.ts\<close>), the defaults of the environment and their merge with the options of the caller
  (\<open>defaults.ts\<close>), the presets (\<open>presets.ts\<close>), the check of the merged options
  (\<open>validation.ts\<close>, \<open>error.ts\<close>) and the middleware (\<open>index.ts\<close>).

  An option that is absent or \<open>undefined\<close> is \<open>None\<close>; an option that may be switched off by \<open>false\<close>
  has type \<open>or_false\<close>. Directives are kept in the order of their keys, which are taken not to be
  integers (JavaScript lists those first). Ages are integers. \<open>NODE_ENV === 'production'\<close> is the
  argument \<open>production\<close>. The answer of the schema library, the list of issues found or \<open>None\<close>, is
  the argument \<open>safeParse\<close>; which options the schema accepts is \<open>SecurityOptionsSchema\<close>.
\<close>

section \<open>Options\<close>

datatype csp_value = CspSources "string list" | CspFlag bool | CspText string

datatype 'a or_false = Off | Use 'a

type_synonym csp_directives = "(string, csp_value option) js_map"

record csp_options =
  csp_directives :: csp_directives
  csp_reportOnly :: "bool option"
  csp_reportUri :: "string option"

record hsts_options =
  hs_maxAge :: int
  hs_includeSubDomains :: "bool option"
  hs_preload :: "bool option"

record security_options =
  so_enabled :: "bool option"
  so_csp :: "csp_options or_false option"
  so_hsts :: "hsts_options or_false option"
  so_frameOptions :: "string or_false option"
  so_xssFilter :: "bool option"
  so_noSniff :: "bool option"
  so_referrerPolicy :: "string or_false option"
  so_audit :: "bool option"

section \<open>Header texts\<close>

definition isUpper :: "char \<Rightarrow> bool" where
  "isUpper c \<longleftrightarrow> 65 \<le> (of_char c :: nat) \<and> (of_char c :: nat) \<le> 90"

definition camelToKebab :: "string \<Rightarrow> string" where
  "camelToKebab str = toLowerCase (concat (map (\<lambda>c. if isUpper c then [CHR ''-'', c] else [c]) str))"

fun formatDirective :: "string \<Rightarrow> csp_value \<Rightarrow> string" where
  "formatDirective name (CspFlag b) = (if b then name else [])"
| "formatDirective name (CspText v) = name @ '' '' @ v"
| "formatDirective name (CspSources vs) = (if vs \<noteq> [] then name @ '' '' @ str_join '' '' vs else [])"

fun push_directive :: "string list \<Rightarrow> string \<times> csp_value option \<Rightarrow> string list" where
  \<comment> \<open>one turn of the loop of \<open>buildCSPHeader\<close>\<close>
  "push_directive directives (key, None) = directives"
| "push_directive directives (key, Some v) =
     (let formatted = formatDirective (camelToKebab key) v
      in if formatted \<noteq> [] then directives @ [formatted] else directives)"

definition buildCSPHeader :: "csp_options \<Rightarrow> string" where
  "buildCSPHeader options = str_join ''; '' (foldl push_directive [] (csp_directives options))"

definition is_on :: "bool option \<Rightarrow> bool" where
  "is_on b \<longleftrightarrow> b = Some True"

definition buildHSTSHeader :: "bool \<Rightarrow> hsts_options \<Rightarrow> string option" where
  "buildHSTSHeader production options =
     (if \<not> production then None
      else Some (str_join ''; ''
        ([''max-age='' @ show_int (hs_maxAge options)] @
         (if is_on (hs_includeSubDomains options) then [''includeSubDomains''] else []) @
         (if is_on (hs_preload options) then [''preload''] else []))))"

section \<open>Setting the headers\<close>

definition csp_headerName :: "csp_options \<Rightarrow> string" where
  "csp_headerName csp = (if is_on (csp_reportOnly csp) then ''Content-Security-Policy-Report-Only''
     else ''Content-Security-Policy'')"

definition set_text :: "string \<Rightarrow> string or_false option \<Rightarrow> ctx_op" where
  \<comment> \<open>\<open>if (v) ctx.response.header(name, v)\<close>\<close>
  "set_text name v = (case v of Some (Use s) \<Rightarrow> do_if (s \<noteq> []) (response_header name s) | _ \<Rightarrow> (\<lambda>c. (None, c)))"

definition applySecurityHeaders :: "bool \<Rightarrow> security_options \<Rightarrow> ctx_op" where
  "applySecurityHeaders production options =
     then_do (case so_csp options of
                Some (Use csp) \<Rightarrow> do_if (buildCSPHeader csp \<noteq> []) (response_header (csp_headerName csp) (buildCSPHeader csp))
              | _ \<Rightarrow> (\<lambda>c. (None, c)))
    (then_do (case so_hsts options of
                Some (Use hsts) \<Rightarrow>
                  (case buildHSTSHeader production hsts of
                     Some h \<Rightarrow> do_if (h \<noteq> []) (response_header ''Strict-Transport-Security'' h)
                   | None \<Rightarrow> (\<lambda>c. (None, c)))
              | _ \<Rightarrow> (\<lambda>c. (None, c)))
    (then_do (set_text ''X-Frame-Options'' (so_frameOptions options))
    (then_do (do_if (is_on (so_noSniff options)) (response_header ''X-Content-Type-Options'' ''nosniff''))
    (then_do (do_if (is_on (so_xssFilter options)) (response_header ''X-XSS-Protection'' ''1; mode=block''))
             (set_text ''Referrer-Policy'' (so_referrerPolicy options))))))"

section \<open>Defaults and presets\<close>

definition quoted :: "string \<Rightarrow> string" where
  \<comment> \<open>a keyword of the policy language, which stands in single quotes\<close>
  "quoted w = CHR 0x27 # w @ [CHR 0x27]"

definition sources :: "(string \<times> string list) list \<Rightarrow> csp_directives" where
  "sources ds = map (\<lambda>(k, vs). (k, Some (CspSources vs))) ds"

definition csp_only :: "csp_directives \<Rightarrow> csp_options or_false option" where
  "csp_only ds = Some (Use \<lparr>csp_directives = ds, csp_reportOnly = None, csp_reportUri = None\<rparr>)"

definition DEVELOPMENT_DIRECTIVES :: csp_directives where
  "DEVELOPMENT_DIRECTIVES = sources
     [(''defaultSrc'', [quoted ''self'']),
      (''scriptSrc'', [quoted ''self'', quoted ''unsafe-inline'', quoted ''unsafe-eval'']),
      (''styleSrc'', [quoted ''self'', quoted ''unsafe-inline'']),
      (''imgSrc'', [quoted ''self'', ''data:'', ''blob:'']),
      (''fontSrc'', [quoted ''self'']),
      (''connectSrc'', [quoted ''self'', ''ws:'', ''wss:'']),
      (''objectSrc'', [quoted ''none'']),
      (''frameSrc'', [quoted ''self''])]"

definition SECURITY_DEVELOPMENT_DEFAULTS :: security_options where
  "SECURITY_DEVELOPMENT_DEFAULTS = \<lparr>
     so_enabled = Some True, so_csp = csp_only DEVELOPMENT_DIRECTIVES, so_hsts = Some Off,
     so_frameOptions = Some (Use ''SAMEORIGIN''), so_xssFilter = Some True, so_noSniff = Some True,
     so_referrerPolicy = Some (Use ''no-referrer-when-downgrade''), so_audit = Some False\<rparr>"

definition PRODUCTION_DIRECTIVES :: csp_directives where
  "PRODUCTION_DIRECTIVES = sources
     [(''defaultSrc'', [quoted ''self'']),
      (''scriptSrc'', [quoted ''self'']),
      (''styleSrc'', [quoted ''self'']),
      (''imgSrc'', [quoted ''self'', ''data:'', ''https:'']),
      (''fontSrc'', [quoted ''self'']),
      (''connectSrc'', [quoted ''self'']),
      (''objectSrc'', [quoted ''none'']),
      (''frameSrc'', [quoted ''none''])]"

definition SECURITY_PRODUCTION_DEFAULTS :: security_options where
  "SECURITY_PRODUCTION_DEFAULTS = \<lparr>
     so_enabled = Some True, so_csp = csp_only PRODUCTION_DIRECTIVES,
     so_hsts = Some (Use \<lparr>hs_maxAge = 31536000, hs_includeSubDomains = Some True, hs_preload = Some False\<rparr>),
     so_frameOptions = Some (Use ''DENY''), so_xssFilter = Some True, so_noSniff = Some True,
     so_referrerPolicy = Some (Use ''strict-origin-when-cross-origin''), so_audit = Some False\<rparr>"

definition getDefaultSecurityOptions :: "bool \<Rightarrow> security_options" where
  "getDefaultSecurityOptions production = (if production then SECURITY_PRODUCTION_DEFAULTS else SECURITY_DEVELOPMENT_DEFAULTS)"

definition spread :: "'a option \<Rightarrow> 'a option \<Rightarrow> 'a option" where
  \<comment> \<open>a field of \<open>{ ...defaults, ...given }\<close>, \<open>given\<close> without \<open>undefined\<close>; also \<open>given ?? default\<close>\<close>
  "spread given fallback = (case given of Some v \<Rightarrow> Some v | None \<Rightarrow> fallback)"

definition merge_directives :: "csp_directives \<Rightarrow> csp_directives \<Rightarrow> csp_directives" where
  \<comment> \<open>\<open>{ ...defaults, ...given }\<close>; a directive given as \<open>undefined\<close> replaces the default\<close>
  "merge_directives defaults given = foldl (\<lambda>m (k, v). map_set k v m) defaults given"

definition empty_options :: security_options where
  "empty_options = \<lparr>so_enabled = None, so_csp = None, so_hsts = None, so_frameOptions = None, so_xssFilter = None,
     so_noSniff = None, so_referrerPolicy = None, so_audit = None\<rparr>"

definition shallow_merge :: "security_options \<Rightarrow> security_options \<Rightarrow> security_options" where
  "shallow_merge defaults user = \<lparr>
     so_enabled = spread (so_enabled user) (so_enabled defaults),
     so_csp = spread (so_csp user) (so_csp defaults),
     so_hsts = spread (so_hsts user) (so_hsts defaults),
     so_frameOptions = spread (so_frameOptions user) (so_frameOptions defaults),
     so_xssFilter = spread (so_xssFilter user) (so_xssFilter defaults),
     so_noSniff = spread (so_noSniff user) (so_noSniff defaults),
     so_referrerPolicy = spread (so_referrerPolicy user) (so_referrerPolicy defaults),
     so_audit = spread (so_audit user) (so_audit defaults)\<rparr>"

definition mergeSecurityOptions :: "bool \<Rightarrow> security_options option \<Rightarrow> security_options" where
  "mergeSecurityOptions production userOptions =
     (let defaults = getDefaultSecurityOptions production
      in case userOptions of
           None \<Rightarrow> defaults
         | Some user \<Rightarrow>
             if user = empty_options then defaults
             else (case (so_csp user, so_csp defaults) of
                     (Some (Use given), Some (Use csp)) \<Rightarrow>
                       (shallow_merge defaults user)\<lparr>so_csp := Some (Use
                          \<lparr>csp_directives = merge_directives (csp_directives csp) (csp_directives given),
                           csp_reportOnly = spread (csp_reportOnly given) (csp_reportOnly csp),
                           csp_reportUri = spread (csp_reportUri given) (csp_reportUri csp)\<rparr>)\<rparr>
                   | _ \<Rightarrow> shallow_merge defaults user))"

datatype security_preset = Development | Production | Api | Spa

fun securityPresets :: "security_preset \<Rightarrow> security_options" where
  "securityPresets Development = SECURITY_DEVELOPMENT_DEFAULTS"
| "securityPresets Production = SECURITY_PRODUCTION_DEFAULTS"
| "securityPresets Api = SECURITY_PRODUCTION_DEFAULTS\<lparr>
     so_csp := csp_only (sources [(''defaultSrc'', [quoted ''none''])]),
     so_frameOptions := Some Off, so_xssFilter := Some False\<rparr>"
| "securityPresets Spa = SECURITY_PRODUCTION_DEFAULTS\<lparr>
     so_csp := csp_only (sources
       [(''defaultSrc'', [quoted ''self'']),
        (''scriptSrc'', [quoted ''self'']),
        (''styleSrc'', [quoted ''self'', quoted ''unsafe-inline'']),
        (''imgSrc'', [quoted ''self'', ''data:'', ''https:'']),
        (''fontSrc'', [quoted ''self'', ''data:'']),
        (''connectSrc'', [quoted ''self'']),
        (''objectSrc'', [quoted ''none'']),
        (''frameSrc'', [quoted ''self''])]),
     so_frameOptions := Some (Use ''SAMEORIGIN''), so_xssFilter := Some True, so_noSniff := Some True,
     so_referrerPolicy := Some (Use ''strict-origin-when-cross-origin''), so_audit := Some False\<rparr>"

definition getSecurityPreset :: "security_preset \<Rightarrow> security_options" where
  "getSecurityPreset preset = securityPresets preset"

section \<open>Checking the options\<close>

definition ReferrerPolicySchema :: "string list" where
  "ReferrerPolicySchema = [''no-referrer'', ''no-referrer-when-downgrade'', ''origin'', ''origin-when-cross-origin'',
     ''same-origin'', ''strict-origin'', ''strict-origin-when-cross-origin'', ''unsafe-url'']"

definition SecurityOptionsSchema :: "security_options \<Rightarrow> bool" where
  \<comment> \<open>what the schema asks beyond the types of the fields\<close>
  "SecurityOptionsSchema options \<longleftrightarrow>
     (case so_hsts options of Some (Use hsts) \<Rightarrow> 0 < hs_maxAge hsts | _ \<Rightarrow> True) \<and>
     (case so_frameOptions options of Some (Use s) \<Rightarrow> s \<in> set [''DENY'', ''SAMEORIGIN''] | _ \<Rightarrow> True) \<and>
     (case so_referrerPolicy options of Some (Use s) \<Rightarrow> s \<in> set ReferrerPolicySchema | _ \<Rightarrow> True)"

definition SecurityConfigurationError :: "string \<Rightarrow> string \<Rightarrow> json option \<Rightarrow> blaize_error" where
  "SecurityConfigurationError now message context = BlaizeError VALIDATION_ERROR message 500 ''security-config'' now context"

type_synonym zod_answer = "(string list \<times> string) list option"

definition validateSecurityOptions :: "(security_options \<Rightarrow> zod_answer) \<Rightarrow> string \<Rightarrow> security_options \<Rightarrow> thrown option" where
  \<comment> \<open>\<open>Some\<close> what it throws\<close>
  "validateSecurityOptions safeParse now options =
     (case safeParse options of
        None \<Rightarrow> None
      | Some [] \<Rightarrow> Some (BlaizeErr (SecurityConfigurationError now ''Invalid security configuration'' (Some (JObj []))))
      | Some ((path, message) # _) \<Rightarrow>
          (let fieldPath = (if path \<noteq> [] then str_join ''.'' path else ''root'');
               fieldName = (if path \<noteq> [] \<and> last path \<noteq> [] then last path else ''field'');
               errorMessage = (if message = ''Invalid input'' \<or> message = ''Required'' then fieldName @ '': '' @ message else message)
           in Some (BlaizeErr (SecurityConfigurationError now (''Invalid security configuration: '' @ errorMessage)
                (Some (JObj [(''field'', JStr fieldPath)]))))))"

section \<open>The middleware\<close>

definition security_handler :: "bool \<Rightarrow> security_options \<Rightarrow> http_context prog" where
  "security_handler production options =
     Branch (\<lambda>c. so_enabled options = Some False) (AwaitNext (rethrow Done))
       (Branch rs_sent (AwaitNext (rethrow Done))
         (Act (applySecurityHeaders production options) (rethrow (AwaitNext (rethrow Done)))))"

definition skip_health :: "http_context \<Rightarrow> bool" where
  "skip_health c \<longleftrightarrow> cx_path c = ''/health'' \<or> cx_path c = ''/healthz''"

definition createSecurityMiddleware ::
  "(security_options \<Rightarrow> zod_answer) \<Rightarrow> string \<Rightarrow> bool \<Rightarrow> security_options option \<Rightarrow> thrown + http_context middleware" where
  "createSecurityMiddleware safeParse now production userOptions =
     (let options = mergeSecurityOptions production userOptions
      in case validateSecurityOptions safeParse now options of
           Some e \<Rightarrow> Inl e
         | None \<Rightarrow> Inr (Middleware.create (MiddlewareOptions (Some ''security'')
             (security_handler production options) (Some skip_health) None)))"

section \<open>Reading a policy\<close>

text \<open>
  What a browser makes of the header: directives are separated by semicolons, a directive is its
  name followed by values, all separated by spaces, and of several directives of one name the first
  counts. Names are given back in the spelling of the options.
\<close>

fun kebabToCamel :: "string \<Rightarrow> string" where
  "kebabToCamel [] = []"
| "kebabToCamel (c # r) =
     (if c = CHR ''-'' then (case r of [] \<Rightarrow> [] | d # r' \<Rightarrow> upper_char d # kebabToCamel r') else c # kebabToCamel r)"

definition read_directive :: "string \<Rightarrow> (string \<times> string list) list" where
  "read_directive d =
     (let t = dropWhile is_space d
      in if t = [] then [] else (case str_split (CHR '' '') t of name # vs \<Rightarrow> [(kebabToCamel name, vs)] | [] \<Rightarrow> []))"

definition read_policy :: "string \<Rightarrow> (string \<times> string list) list" where
  "read_policy header = concat (map read_directive (str_split (CHR '';'') header))"

fun directive_meaning :: "csp_value option \<Rightarrow> string list option" where
  "directive_meaning None = None"
| "directive_meaning (Some (CspFlag b)) = (if b then Some [] else None)"
| "directive_meaning (Some (CspText v)) = Some (str_split (CHR '' '') v)"
| "directive_meaning (Some (CspSources vs)) = (if vs \<noteq> [] then Some vs else None)"

text \<open>Names and values that the header can carry.\<close>

definition plain_name :: "string \<Rightarrow> bool" where
  "plain_name k \<longleftrightarrow> k \<noteq> [] \<and> list_all (\<lambda>c. c \<noteq> CHR ''-'' \<and> c \<noteq> CHR '';'' \<and> \<not> is_space c) k"

fun plain_value :: "csp_value option \<Rightarrow> bool" where
  "plain_value None = True"
| "plain_value (Some (CspFlag b)) = True"
| "plain_value (Some (CspText v)) = (CHR '';'' \<notin> set v)"
| "plain_value (Some (CspSources vs)) = list_all (\<lambda>v. CHR '';'' \<notin> set v \<and> CHR '' '' \<notin> set v) vs"

definition plain_directives :: "csp_directives \<Rightarrow> bool" where
  "plain_directives ds \<longleftrightarrow> list_all (\<lambda>(k, v). plain_name k \<and> plain_value v) ds"

lemma lower_char_other: "\<not> isUpper c \<Longrightarrow> lower_char c = c"
  by (auto simp: isUpper_def lower_char_def Let_def)

lemma isUpper_dash [simp]: "\<not> isUpper (CHR ''-'')" "\<not> isUpper (CHR '';'')" "\<not> isUpper (CHR '' '')"
  by (simp_all add: isUpper_def)

lemma of_char_lower: "isUpper c \<Longrightarrow> (of_char (lower_char c) :: nat) = of_char c + 32"
  by (simp add: isUpper_def lower_char_def Let_def)

lemma upper_lower: assumes "isUpper c" shows "upper_char (lower_char c) = c"
  using assms of_char_lower [OF assms] by (simp add: upper_char_def Let_def isUpper_def)

lemma camelToKebab_simps [simp]:
  "camelToKebab [] = []"
  "camelToKebab (c # s) = (if isUpper c then [CHR ''-'', lower_char c] else [c]) @ camelToKebab s"
  using lower_char_other [of "CHR ''-''"] lower_char_other [of c] by (simp_all add: camelToKebab_def toLowerCase_def)

lemma kebab_inverse: "CHR ''-'' \<notin> set k \<Longrightarrow> kebabToCamel (camelToKebab k) = k"
  by (induction k) (auto simp: upper_lower)

lemma lower_char_avoids:
  assumes "isUpper c" shows "lower_char c \<noteq> CHR '';''" "lower_char c \<noteq> CHR '' ''"
  using assms of_char_lower [OF assms] by (auto simp: isUpper_def)

lemma plain_kebab:
  assumes "list_all (\<lambda>c. c \<noteq> CHR ''-'' \<and> c \<noteq> CHR '';'' \<and> \<not> is_space c) k"
  shows "CHR '';'' \<notin> set (camelToKebab k)" "CHR '' '' \<notin> set (camelToKebab k)"
  using assms by (induction k) (auto simp: is_space_def lower_char_avoids lower_char_avoids [THEN not_sym])

lemma plain_kebab_start: assumes "plain_name k" shows "dropWhile is_space (camelToKebab k @ s) = camelToKebab k @ s" "camelToKebab k \<noteq> []"
  using assms by (cases k; auto simp: plain_name_def is_space_def)+

lemma name_kebab: "plain_name k \<Longrightarrow> kebabToCamel (camelToKebab k) = k"
  by (rule kebab_inverse) (auto simp: plain_name_def list_all_iff)

lemma read_named:
  assumes "plain_name k"
  shows "read_directive (camelToKebab k) = [(k, [])]"
    "read_directive (camelToKebab k @ CHR '' '' # s) = [(k, str_split (CHR '' '') s)]"
proof -
  have p: "list_all (\<lambda>c. c \<noteq> CHR ''-'' \<and> c \<noteq> CHR '';'' \<and> \<not> is_space c) k" using assms by (simp add: plain_name_def)
  note facts = plain_kebab(2) [OF p] name_kebab [OF assms] plain_kebab_start [OF assms]
  have "dropWhile is_space (camelToKebab k) = camelToKebab k" using plain_kebab_start(1) [OF assms, of "[]"] by simp
  then show "read_directive (camelToKebab k) = [(k, [])]"
    using facts(4) by (simp add: read_directive_def Let_def split_plain [OF facts(1)] facts(2))
  show "read_directive (camelToKebab k @ CHR '' '' # s) = [(k, str_split (CHR '' '') s)]"
    by (simp add: read_directive_def Let_def facts(2,3) split_prefix [OF facts(1)])
qed

lemma joined_sources:
  assumes "list_all (\<lambda>v. CHR '';'' \<notin> set v \<and> CHR '' '' \<notin> set v) vs"
  shows "CHR '';'' \<notin> set (str_join '' '' vs)" "vs \<noteq> [] \<Longrightarrow> str_split (CHR '' '') (str_join '' '' vs) = vs"
proof -
  show "CHR '';'' \<notin> set (str_join '' '' vs)"
    using assms by (induction "'' ''" vs rule: str_join.induct) simp_all
  show "str_split (CHR '' '') (str_join '' '' vs) = vs" if "vs \<noteq> []"
    using that assms by (intro split_join) (simp_all add: list_all_iff)
qed

lemma read_formatted:
  assumes k: "plain_name k" and v: "plain_value (Some v)"
  shows "CHR '';'' \<notin> set (formatDirective (camelToKebab k) v)"
    "read_directive (formatDirective (camelToKebab k) v) = (case directive_meaning (Some v) of Some vs \<Rightarrow> [(k, vs)] | None \<Rightarrow> [])"
proof -
  have "list_all (\<lambda>c. c \<noteq> CHR ''-'' \<and> c \<noteq> CHR '';'' \<and> \<not> is_space c) k" using k by (simp add: plain_name_def)
  then show "CHR '';'' \<notin> set (formatDirective (camelToKebab k) v)"
    using v plain_kebab(1) [of k] by (cases v) (simp_all add: joined_sources)
  have "read_directive [] = []" by (simp add: read_directive_def)
  then show "read_directive (formatDirective (camelToKebab k) v) = (case directive_meaning (Some v) of Some vs \<Rightarrow> [(k, vs)] | None \<Rightarrow> [])"
    using v by (cases v) (simp_all add: read_named [OF k] joined_sources)
qed

lemma read_spaced [simp]: "read_directive (CHR '' '' # d) = read_directive d"
  by (simp add: read_directive_def is_space_def)

lemma str_join_head: "str_join sep ((c # w) # ws) = c # str_join sep (w # ws)"
  by (cases ws) simp_all

lemma join_semicolon: "str_join ''; '' (w # ws) = str_join '';'' (w # map ((#) (CHR '' '')) ws)"
  by (induction ws arbitrary: w) (simp_all add: str_join_head)

lemma built_directives:
  "foldl push_directive acc ds =
     acc @ concat (map (\<lambda>(k, v). case v of None \<Rightarrow> [] | Some x \<Rightarrow>
       if formatDirective (camelToKebab k) x \<noteq> [] then [formatDirective (camelToKebab k) x] else []) ds)"
  by (induction ds arbitrary: acc) (auto simp: Let_def split: option.split)

lemma read_joined:
  assumes "\<And>w. w \<in> set ws \<Longrightarrow> CHR '';'' \<notin> set w"
  shows "read_policy (str_join ''; '' ws) = concat (map read_directive ws)"
proof (cases ws)
  case Nil
  then show ?thesis by (simp add: read_policy_def read_directive_def)
next
  case (Cons w vs)
  have "str_split (CHR '';'') (str_join ''; '' ws) = w # map ((#) (CHR '' '')) vs"
    using assms Cons by (auto simp: join_semicolon intro!: split_join)
  then show ?thesis using Cons by (simp add: read_policy_def comp_def)
qed

definition meant :: "csp_directives \<Rightarrow> (string \<times> string list) list" where
  \<comment> \<open>the directives in force\<close>
  "meant ds = concat (map (\<lambda>(k, v). case directive_meaning v of Some vs \<Rightarrow> [(k, vs)] | None \<Rightarrow> []) ds)"

lemma read_pushed:
  assumes "plain_directives ds"
  shows "concat (map read_directive (foldl push_directive [] ds)) = meant ds"
    "w \<in> set (foldl push_directive [] ds) \<Longrightarrow> CHR '';'' \<notin> set w"
proof -
  have r: "read_directive [] = []" by (simp add: read_directive_def)
  show "concat (map read_directive (foldl push_directive [] ds)) = meant ds"
    using assms unfolding built_directives append_Nil meant_def plain_directives_def
  proof (induction ds)
    case (Cons d ds)
    obtain k v where d: "d = (k, v)" by (cases d)
    show ?case
    proof (cases v)
      case (Some x)
      then have "plain_name k" "plain_value (Some x)" using Cons.prems d by simp_all
      note f = read_formatted(2) [OF this]
      show ?thesis using Cons Some d f r by (cases "formatDirective (camelToKebab k) x = []") simp_all
    qed (use Cons d in simp)
  qed simp
  show "CHR '';'' \<notin> set w" if "w \<in> set (foldl push_directive [] ds)"
    using that assms read_formatted(1) unfolding built_directives plain_directives_def list_all_iff
    by (fastforce split: option.splits if_splits)
qed

lemma read_built: "plain_directives (csp_directives csp) \<Longrightarrow> read_policy (buildCSPHeader csp) = meant (csp_directives csp)"
  unfolding buildCSPHeader_def using read_pushed by (simp add: read_joined)

lemma meant_lookup:
  assumes "map_ok ds"
  shows "map_get (meant ds) k = (case map_get ds k of Some v \<Rightarrow> directive_meaning v | None \<Rightarrow> None)"
proof -
  have none: "k \<notin> set (map fst ds) \<Longrightarrow> map_get (meant ds) k = None" for k ds
    by (induction ds) (auto simp: meant_def split: option.split)
  show ?thesis using assms
  proof (induction ds)
    case (Cons d ds)
    then show ?case using none [of k ds] by (cases d) (auto simp: meant_def split: option.split)
  qed (simp add: meant_def)
qed

lemma merge_lookup:
  "map_ok given \<Longrightarrow> map_get (merge_directives defaults given) k =
     (case map_get given k of Some v \<Rightarrow> Some v | None \<Rightarrow> map_get defaults k)"
  unfolding merge_directives_def
proof (induction given arbitrary: defaults)
  case (Cons d ds)
  obtain i v where d: "d = (i, v)" by (cases d)
  have "map_get ds i = None" using Cons.prems d by (simp add: map_of_eq_None_iff)
  then show ?case using Cons d by (auto split: option.split)
qed simp

lemma merge_kept:
  assumes "map_ok defaults" "plain_directives defaults" "plain_directives given"
  shows "map_ok (merge_directives defaults given)" "plain_directives (merge_directives defaults given)"
proof -
  have "map_ok (merge_directives defaults given) \<and> plain_directives (merge_directives defaults given)"
    unfolding merge_directives_def using assms
  proof (induction given arbitrary: defaults)
    case (Cons d ds)
    obtain i v where d: "d = (i, v)" by (cases d)
    have "plain_directives (map_set i v defaults)"
      using Cons.prems d set_map_set [of i v defaults] by (fastforce simp: plain_directives_def list_all_iff)
    then show ?case using Cons d by (simp add: plain_directives_def)
  qed simp
  then show "map_ok (merge_directives defaults given)" "plain_directives (merge_directives defaults given)" by simp_all
qed

section \<open>What the options achieve\<close>

definition default_directives :: "bool \<Rightarrow> csp_directives" where
  "default_directives production = (if production then PRODUCTION_DIRECTIVES else DEVELOPMENT_DIRECTIVES)"

lemma directives_plain:
  "plain_directives PRODUCTION_DIRECTIVES" "plain_directives DEVELOPMENT_DIRECTIVES"
  "map_ok PRODUCTION_DIRECTIVES" "map_ok DEVELOPMENT_DIRECTIVES"
  by code_simp+

lemma default_directives_plain: "plain_directives (default_directives production)" "map_ok (default_directives production)"
  by (simp_all add: default_directives_def directives_plain)

lemma default_csp: "so_csp (getDefaultSecurityOptions production) = csp_only (default_directives production)"
  by (simp add: getDefaultSecurityOptions_def SECURITY_PRODUCTION_DEFAULTS_def SECURITY_DEVELOPMENT_DEFAULTS_def default_directives_def)

lemma merged_csp:
  assumes "so_csp user = Some (Use given)"
  shows "so_csp (mergeSecurityOptions production (Some user)) = Some (Use
     \<lparr>csp_directives = merge_directives (default_directives production) (csp_directives given),
      csp_reportOnly = csp_reportOnly given, csp_reportUri = csp_reportUri given\<rparr>)"
proof -
  have "user \<noteq> empty_options" using assms by (auto simp: empty_options_def)
  then show ?thesis
    using assms by (auto simp: mergeSecurityOptions_def default_csp csp_only_def Let_def spread_def split: option.split)
qed

text \<open>C10: The policy a browser reads off the header is the merged one: with a policy given in the
  options, the header that the merged options produce says, for every directive, what the caller
  gave, and what the environment's defaults say where the caller gave nothing. A directive given as
  \<open>undefined\<close>, \<open>false\<close> or an empty list is not in force. Names are free of dashes, semicolons and
  spaces, values of semicolons, and sources of spaces.\<close>
theorem policy_read_is_merged_policy:
  assumes "so_csp user = Some (Use given)" "map_ok (csp_directives given)" "plain_directives (csp_directives given)"
    "so_csp (mergeSecurityOptions production (Some user)) = Some (Use csp)"
  shows "map_get (read_policy (buildCSPHeader csp)) k =
    (case map_get (csp_directives given) k of
       Some v \<Rightarrow> directive_meaning v
     | None \<Rightarrow> (case map_get (default_directives production) k of Some v \<Rightarrow> directive_meaning v | None \<Rightarrow> None))"
proof -
  have csp: "csp_directives csp = merge_directives (default_directives production) (csp_directives given)"
    using assms(4) unfolding merged_csp [OF assms(1)] by auto
  note kept = merge_kept [OF default_directives_plain(2,1) assms(3)]
  show ?thesis
    unfolding read_built [OF kept(2) [of production, folded csp]] meant_lookup [OF kept(1) [of production, folded csp]]
    by (simp add: csp merge_lookup [OF assms(2)] split: option.split)
qed

definition cdn_scripts :: security_options where
  "cdn_scripts = empty_options\<lparr>so_csp := csp_only
     [(''scriptSrc'', Some (CspSources [quoted ''self'', ''https://cdn.example.com''])),
      (''upgradeInsecureRequests'', Some (CspFlag True)), (''fontSrc'', None)]\<rparr>"

definition the_csp :: "security_options \<Rightarrow> csp_options" where
  "the_csp options = (case so_csp options of Some (Use csp) \<Rightarrow> csp | _ \<Rightarrow> \<lparr>csp_directives = [], csp_reportOnly = None, csp_reportUri = None\<rparr>)"

theorem policy_read_is_merged_policy_witness:
  "map_get (read_policy (buildCSPHeader (the_csp (mergeSecurityOptions True (Some cdn_scripts))))) ''scriptSrc'' =
     Some [quoted ''self'', ''https://cdn.example.com''] \<and>
   map_get (read_policy (buildCSPHeader (the_csp (mergeSecurityOptions True (Some cdn_scripts))))) ''objectSrc'' = Some [quoted ''none'']"
proof -
  have given: "so_csp cdn_scripts = Some (Use (the_csp cdn_scripts))" by code_simp
  have ok: "map_ok (csp_directives (the_csp cdn_scripts))" "plain_directives (csp_directives (the_csp cdn_scripts))" by code_simp+
  have merged: "so_csp (mergeSecurityOptions True (Some cdn_scripts)) = Some (Use (the_csp (mergeSecurityOptions True (Some cdn_scripts))))"
    by (simp add: the_csp_def merged_csp [OF given])
  have found: "map_get (csp_directives (the_csp cdn_scripts)) ''scriptSrc'' = Some (Some (CspSources [quoted ''self'', ''https://cdn.example.com'']))"
    "map_get (csp_directives (the_csp cdn_scripts)) ''objectSrc'' = None"
    "map_get (default_directives True) ''objectSrc'' = Some (Some (CspSources [quoted ''none'']))" by code_simp+
  show ?thesis
    unfolding policy_read_is_merged_policy [OF given ok merged] found by simp
qed

text \<open>
  The preset for interfaces allows nothing by default. Passed to the middleware it is merged with
  the defaults of the environment, which leaves their directives for scripts, styles and
  connections in force.
\<close>

lemma api_preset_keeps_default_sources:
  "read_policy (buildCSPHeader (the_csp (getSecurityPreset Api))) = [(''defaultSrc'', [quoted ''none''])]"
  "map_get (read_policy (buildCSPHeader (the_csp (mergeSecurityOptions True (Some (getSecurityPreset Api)))))) ''scriptSrc'' =
     Some [quoted ''self'']"
  "map_get (read_policy (buildCSPHeader (the_csp (mergeSecurityOptions False (Some (getSecurityPreset Api)))))) ''scriptSrc'' =
     Some [quoted ''self'', quoted ''unsafe-inline'', quoted ''unsafe-eval'']"
  by code_simp+

lemma report_uri_not_sent:
  "buildCSPHeader (csp\<lparr>csp_reportUri := u\<rparr>) = buildCSPHeader csp"
  by (simp add: buildCSPHeader_def)

lemma semicolon_adds_directive:
  "read_policy (buildCSPHeader \<lparr>csp_directives = [(''scriptSrc'', Some (CspSources [''a.com; object-src *'']))],
     csp_reportOnly = None, csp_reportUri = None\<rparr>) = [(''scriptSrc'', [''a.com'']), (''objectSrc'', [''*''])]"
  by code_simp

section \<open>The headers of a response\<close>

definition frame_value :: "string or_false option \<Rightarrow> string option" where
  "frame_value v = (case v of Some (Use s) \<Rightarrow> if s \<noteq> [] then Some s else None | _ \<Rightarrow> None)"

definition csp_text :: "bool \<Rightarrow> security_options \<Rightarrow> string option" where
  \<comment> \<open>the policy, if there is one to enforce or, when \<open>report\<close> holds, one to report only\<close>
  "csp_text report options =
     (case so_csp options of
        Some (Use csp) \<Rightarrow> if buildCSPHeader csp \<noteq> [] \<and> is_on (csp_reportOnly csp) = report then Some (buildCSPHeader csp) else None
      | _ \<Rightarrow> None)"

definition security_value :: "bool \<Rightarrow> security_options \<Rightarrow> string \<Rightarrow> string option" where
  \<comment> \<open>the value each header is to have, by its name in lower case\<close>
  "security_value production options n =
     (if n = ''content-security-policy'' then csp_text False options
      else if n = ''content-security-policy-report-only'' then csp_text True options
      else if n = ''strict-transport-security'' then
        (case so_hsts options of Some (Use h) \<Rightarrow> buildHSTSHeader production h | _ \<Rightarrow> None)
      else if n = ''x-frame-options'' then frame_value (so_frameOptions options)
      else if n = ''x-content-type-options'' then (if is_on (so_noSniff options) then Some ''nosniff'' else None)
      else if n = ''x-xss-protection'' then (if is_on (so_xssFilter options) then Some ''1; mode=block'' else None)
      else if n = ''referrer-policy'' then frame_value (so_referrerPolicy options)
      else None)"

text \<open>Operations that, on an unsent response, do not throw and set the headers of a table.\<close>

definition header_table :: "(string \<rightharpoonup> string) \<Rightarrow> ctx_op \<Rightarrow> bool" where
  "header_table T f \<longleftrightarrow> (\<forall>c. \<not> rs_sent c \<longrightarrow> \<not> rs_headersSent c \<longrightarrow>
     fst (f c) = None \<and> only_headers c (snd (f c)) \<and> map_get (rs_headers (snd (f c))) = map_get (rs_headers c) ++ T)"

lemma table_header: "header_table [toLowerCase name \<mapsto> v] (response_header name v)"
  by (auto simp: header_table_def response_header_open only_headers_def update_conv')

lemma table_skip: "header_table Map.empty (\<lambda>c. (None, c))"
  by (simp add: header_table_def only_headers_def)

lemma table_if: "header_table (if b then [toLowerCase name \<mapsto> v] else Map.empty) (do_if b (response_header name v))"
  using table_header table_skip by (simp add: do_if_def)

lemma table_then:
  assumes "header_table S f" "header_table T g"
  shows "header_table (S ++ T) (then_do f g)"
  unfolding header_table_def
proof (intro allI impI)
  fix c :: http_context assume c: "\<not> rs_sent c" "\<not> rs_headersSent c"
  let ?d = "snd (f c)"
  have f: "fst (f c) = None" "only_headers c ?d" "map_get (rs_headers ?d) = map_get (rs_headers c) ++ S"
    using assms(1) c by (simp_all add: header_table_def)
  have "\<not> rs_sent ?d" "\<not> rs_headersSent ?d" using only_headers_iff [OF f(2)] c by simp_all
  then have g: "fst (g ?d) = None" "only_headers ?d (snd (g ?d))"
    "map_get (rs_headers (snd (g ?d))) = map_get (rs_headers ?d) ++ T"
    using assms(2) by (simp_all add: header_table_def)
  have "then_do f g c = g ?d" using f(1) by (simp add: then_do_def split_beta)
  then show "fst (then_do f g c) = None \<and> only_headers c (snd (then_do f g c)) \<and>
      map_get (rs_headers (snd (then_do f g c))) = map_get (rs_headers c) ++ (S ++ T)"
    using g f(3) only_headers_trans [OF f(2) g(2)] by simp
qed

lemma table_text:
  "header_table (case frame_value v of Some s \<Rightarrow> [toLowerCase name \<mapsto> s] | None \<Rightarrow> Map.empty) (set_text name v)"
  using table_header table_skip by (auto simp: set_text_def frame_value_def do_if_def split: option.split or_false.split)

definition csp_table :: "security_options \<Rightarrow> (string \<rightharpoonup> string)" where
  "csp_table options = (case csp_text False options of Some h \<Rightarrow> [''content-security-policy'' \<mapsto> h] | None \<Rightarrow> Map.empty) ++
     (case csp_text True options of Some h \<Rightarrow> [''content-security-policy-report-only'' \<mapsto> h] | None \<Rightarrow> Map.empty)"

lemma lower_names:
  "toLowerCase ''Content-Security-Policy'' = ''content-security-policy''"
  "toLowerCase ''Content-Security-Policy-Report-Only'' = ''content-security-policy-report-only''"
  "toLowerCase ''Strict-Transport-Security'' = ''strict-transport-security''"
  "toLowerCase ''X-Frame-Options'' = ''x-frame-options''"
  "toLowerCase ''X-Content-Type-Options'' = ''x-content-type-options''"
  "toLowerCase ''X-XSS-Protection'' = ''x-xss-protection''"
  "toLowerCase ''Referrer-Policy'' = ''referrer-policy''"
  by code_simp+

lemma table_csp:
  "header_table (csp_table options)
     (case so_csp options of
        Some (Use csp) \<Rightarrow> do_if (buildCSPHeader csp \<noteq> []) (response_header (csp_headerName csp) (buildCSPHeader csp))
      | _ \<Rightarrow> (\<lambda>c. (None, c)))"
proof (cases "\<exists>csp. so_csp options = Some (Use csp)")
  case True
  then obtain csp where csp: "so_csp options = Some (Use csp)" by blast
  have "csp_table options = (if buildCSPHeader csp \<noteq> [] then [toLowerCase (csp_headerName csp) \<mapsto> buildCSPHeader csp] else Map.empty)"
    by (simp add: csp_table_def csp_text_def csp csp_headerName_def lower_names)
  then show ?thesis using csp table_if [of "buildCSPHeader csp \<noteq> []" "csp_headerName csp" "buildCSPHeader csp"] by simp
next
  case False
  then show ?thesis using table_skip by (auto simp: csp_table_def csp_text_def split: option.split or_false.split)
qed

lemma hsts_nonempty: "buildHSTSHeader production h = Some s \<Longrightarrow> s \<noteq> []"
  by (auto simp: buildHSTSHeader_def split: if_splits)

lemma table_hsts:
  "header_table (case (case so_hsts options of Some (Use h) \<Rightarrow> buildHSTSHeader production h | _ \<Rightarrow> None) of
       Some s \<Rightarrow> [toLowerCase ''Strict-Transport-Security'' \<mapsto> s] | None \<Rightarrow> Map.empty)
     (case so_hsts options of
        Some (Use hsts) \<Rightarrow>
          (case buildHSTSHeader production hsts of
             Some h \<Rightarrow> do_if (h \<noteq> []) (response_header ''Strict-Transport-Security'' h)
           | None \<Rightarrow> (\<lambda>c. (None, c)))
      | _ \<Rightarrow> (\<lambda>c. (None, c)))"
  using table_header table_skip hsts_nonempty [of production]
  by (auto simp: do_if_def split: option.split or_false.split)

lemma security_value_table:
  "security_value production options =
     csp_table options ++
     ((case (case so_hsts options of Some (Use h) \<Rightarrow> buildHSTSHeader production h | _ \<Rightarrow> None) of
         Some s \<Rightarrow> [''strict-transport-security'' \<mapsto> s] | None \<Rightarrow> Map.empty) ++
     ((case frame_value (so_frameOptions options) of Some s \<Rightarrow> [''x-frame-options'' \<mapsto> s] | None \<Rightarrow> Map.empty) ++
     ((if is_on (so_noSniff options) then [''x-content-type-options'' \<mapsto> ''nosniff''] else Map.empty) ++
     ((if is_on (so_xssFilter options) then [''x-xss-protection'' \<mapsto> ''1; mode=block''] else Map.empty) ++
      (case frame_value (so_referrerPolicy options) of Some s \<Rightarrow> [''referrer-policy'' \<mapsto> s] | None \<Rightarrow> Map.empty)))))"
  (is "_ = ?T")
proof
  fix n
  show "security_value production options n = ?T n"
    unfolding security_value_def csp_table_def map_add_def by (simp split: option.split)
qed

lemma apply_table: "header_table (security_value production options) (applySecurityHeaders production options)"
  unfolding security_value_table applySecurityHeaders_def lower_names [symmetric]
  by (intro table_then table_csp table_hsts table_text table_if)

lemma created_middleware:
  "createSecurityMiddleware safeParse now production user = Inr m \<longleftrightarrow>
     safeParse (mergeSecurityOptions production user) = None \<and>
     m = Middleware.create (MiddlewareOptions (Some ''security'')
       (security_handler production (mergeSecurityOptions production user)) (Some skip_health) None)"
  by (auto simp: createSecurityMiddleware_def validateSecurityOptions_def Let_def split: option.splits list.splits)

lemma security_layer:
  "onion (Some (Middleware.create (MiddlewareOptions nm (security_handler production options) (Some skip_health) dbg)) # ms) final c =
     (if skip_health c \<or> so_enabled options = Some False \<or> rs_sent c then onion ms final c
      else (case applySecurityHeaders production options c of (Some e, d) \<Rightarrow> (Some e, d) | (None, d) \<Rightarrow> onion ms final d))"
  by (auto simp: security_handler_def rethrow_def prod_eq_iff split: option.split prod.split)

lemma digit_chars:
  "digit_char 0 = CHR ''0''" "digit_char (Suc 0) = CHR ''1''" "digit_char 3 = CHR ''3''" "digit_char 5 = CHR ''5''" "digit_char 6 = CHR ''6''"
  by code_simp+

lemma default_hsts:
  "buildHSTSHeader True \<lparr>hs_maxAge = 31536000, hs_includeSubDomains = Some True, hs_preload = Some False\<rparr> =
     Some ''max-age=31536000; includeSubDomains''"
  by (simp add: buildHSTSHeader_def is_on_def show_int_def show_nat.simps digit_chars)

text \<open>A middleware made by \<open>createSecurityMiddleware\<close> lets the rest of the chain run on a response
  that carries every header the merged options ask for, with exactly that value, and otherwise the
  headers it had; nothing else of the context changes, and what the rest returns or throws is
  passed on. This holds for every request whose path is not a health check, on a response not sent
  yet, when the middleware is enabled.\<close>
theorem security_headers_precede_the_rest:
  assumes "createSecurityMiddleware safeParse now production user = Inr m"
    "so_enabled (mergeSecurityOptions production user) \<noteq> Some False"
    "\<not> skip_health c" "\<not> rs_sent c" "\<not> rs_headersSent c"
  shows "\<exists>d. only_headers c d \<and>
    (\<forall>n. map_get (rs_headers d) n =
       (case security_value production (mergeSecurityOptions production user) n of Some v \<Rightarrow> Some v | None \<Rightarrow> map_get (rs_headers c) n)) \<and>
    compose (Some m # ms) final c = compose ms final d"
proof -
  let ?a = "applySecurityHeaders production (mergeSecurityOptions production user)"
  have a: "fst (?a c) = None" "only_headers c (snd (?a c))"
    "map_get (rs_headers (snd (?a c))) = map_get (rs_headers c) ++ security_value production (mergeSecurityOptions production user)"
    using apply_table [of production "mergeSecurityOptions production user"] assms(4,5) by (simp_all add: header_table_def)
  have "compose (Some m # ms) final c = onion ms final (snd (?a c))"
    using assms(1-4) a(1) unfolding compose_onion created_middleware
    by (auto simp: security_layer simp del: onion.simps create.simps split: prod.split)
  then show ?thesis using a(2,3) by (intro exI [of _ "snd (?a c)"]) (simp add: compose_onion map_add_def)
qed

definition fresh_get :: "string \<Rightarrow> http_context" where
  "fresh_get p = \<lparr>cx_method = ''GET'', cx_path = p, cx_reqHeaders = [], cx_params = None, cx_query = None, cx_body = None,
     cx_files = None, cx_correlationId = None, rs_statusCode = 200, rs_headers = [(''vary'', ''Origin'')], rs_headersSent = False,
     rs_body = None, rs_sent = False, rs_streaming = False, rs_json = []\<rparr>"

theorem security_headers_precede_the_rest_witness:
  "\<exists>m d. createSecurityMiddleware (\<lambda>o1. if SecurityOptionsSchema o1 then None else Some []) ''now'' True None = Inr m \<and>
     map_get (rs_headers d) ''x-frame-options'' = Some ''DENY'' \<and>
     map_get (rs_headers d) ''strict-transport-security'' = Some ''max-age=31536000; includeSubDomains'' \<and>
     map_get (rs_headers d) ''vary'' = Some ''Origin'' \<and>
     compose [Some m] (text_responder ''x-id'' ''hello'' None) (fresh_get ''/'') = compose [] (text_responder ''x-id'' ''hello'' None) d"
proof -
  let ?z = "\<lambda>o1. if SecurityOptionsSchema o1 then None else Some []"
  have "?z (mergeSecurityOptions True None) = None" by code_simp
  then obtain m where m: "createSecurityMiddleware ?z ''now'' True None = Inr m"
    by (simp add: created_middleware)
  have pre: "so_enabled (mergeSecurityOptions True None) \<noteq> Some False" "\<not> skip_health (fresh_get ''/'')"
    "\<not> rs_sent (fresh_get ''/'')" "\<not> rs_headersSent (fresh_get ''/'')" by code_simp+
  have h: "security_value True (mergeSecurityOptions True None) ''strict-transport-security'' = Some ''max-age=31536000; includeSubDomains''"
    by (simp add: security_value_def mergeSecurityOptions_def getDefaultSecurityOptions_def SECURITY_PRODUCTION_DEFAULTS_def default_hsts)
  have v: "security_value True (mergeSecurityOptions True None) ''x-frame-options'' = Some ''DENY''"
    "security_value True (mergeSecurityOptions True None) ''vary'' = None"
    "map_get (rs_headers (fresh_get ''/'')) ''vary'' = Some ''Origin''" by code_simp+
  obtain d where "\<forall>n. map_get (rs_headers d) n =
       (case security_value True (mergeSecurityOptions True None) n of Some v \<Rightarrow> Some v | None \<Rightarrow> map_get (rs_headers (fresh_get ''/'')) n)"
    "compose [Some m] (text_responder ''x-id'' ''hello'' None) (fresh_get ''/'') = compose [] (text_responder ''x-id'' ''hello'' None) d"
    using security_headers_precede_the_rest [OF m pre, of "[]" "text_responder ''x-id'' ''hello'' None"] by blast
  then show ?thesis using m h v by (intro exI [of _ m] exI [of _ d]) simp
qed

section \<open>Invalid options\<close>

lemma invalid_options_rejected:
  assumes "\<And>o1. safeParse o1 = None \<longleftrightarrow> SecurityOptionsSchema o1"
  shows "(\<exists>m. createSecurityMiddleware safeParse now production user = Inr m) \<longleftrightarrow> SecurityOptionsSchema (mergeSecurityOptions production user)"
  by (simp add: created_middleware assms)

lemma rejection_is_configuration_error:
  assumes "createSecurityMiddleware safeParse now production user = Inl e"
  shows "\<exists>b. e = BlaizeErr b \<and> er_type b = VALIDATION_ERROR \<and> er_status b = 500 \<and> str_startsWith (er_title b) ''Invalid security configuration''"
  using assms
  by (auto simp: createSecurityMiddleware_def validateSecurityOptions_def SecurityConfigurationError_def BlaizeError_def Let_def
      split: option.splits list.splits)

lemma presets_accepted: "SecurityOptionsSchema (mergeSecurityOptions production (Some (getSecurityPreset p)))"
proof -
  have "SecurityOptionsSchema (mergeSecurityOptions True (Some (getSecurityPreset p)))"
    "SecurityOptionsSchema (mergeSecurityOptions False (Some (getSecurityPreset p)))"
    by (cases p; hypsubst; code_simp)+
  then show ?thesis by (cases production) simp_all
qed

text \<open>Hardening headers cannot be lost by accident: they are those of the defaults unless the options name them.\<close>

lemma unnamed_options_keep_defaults:
  assumes "so_frameOptions user = None" "so_noSniff user = None" "so_hsts user = None" "so_referrerPolicy user = None"
  shows "security_value True (mergeSecurityOptions True (Some user)) ''x-frame-options'' = Some ''DENY''"
    "security_value True (mergeSecurityOptions True (Some user)) ''x-content-type-options'' = Some ''nosniff''"
    "security_value True (mergeSecurityOptions True (Some user)) ''referrer-policy'' = Some ''strict-origin-when-cross-origin''"
    "security_value True (mergeSecurityOptions True (Some user)) ''strict-transport-security'' = Some ''max-age=31536000; includeSubDomains''"
proof -
  let ?o = "mergeSecurityOptions True (Some user)" and ?p = SECURITY_PRODUCTION_DEFAULTS
  have kept: "so_frameOptions ?o = so_frameOptions ?p \<and> so_noSniff ?o = so_noSniff ?p \<and> so_hsts ?o = so_hsts ?p \<and> so_referrerPolicy ?o = so_referrerPolicy ?p"
    using assms by (auto simp: mergeSecurityOptions_def getDefaultSecurityOptions_def shallow_merge_def spread_def Let_def
      split: option.split or_false.split)
  show "security_value True ?o ''strict-transport-security'' = Some ''max-age=31536000; includeSubDomains''"
    using kept by (simp add: security_value_def SECURITY_PRODUCTION_DEFAULTS_def default_hsts)
  show "security_value True ?o ''x-frame-options'' = Some ''DENY''" "security_value True ?o ''x-content-type-options'' = Some ''nosniff''"
    "security_value True ?o ''referrer-policy'' = Some ''strict-origin-when-cross-origin''"
    using kept by (simp_all add: security_value_def SECURITY_PRODUCTION_DEFAULTS_def frame_value_def is_on_def)
qed

end
