(* ===== verification/Client_Request.thy ===== *)
theory Client_Request
  imports Http_Context Route_Pattern
begin

text \<open>
  Requests of the client (\<open>packages/blaize-client/src\<close>): URL building (\<open>url.ts\<close>), detection of files
  (\<open>file-detection.ts\<close>), form data (\<open>form-data-builder.ts\<close>), request options
  (\<open>request-options-builder.ts\<close>), the transformation of errors (\<open>error-transformer.ts\<close>) and the request
  itself (\<open>request.ts\<close>), with its path on the server side through \<open>Route_Pattern\<close>.

  A value of the program is a \<open>jsval\<close>; files, blobs and streams are opaque, a buffer is its bytes. A
  form, like an object, keeps its entries in insertion order (names are no array indices).
  \<open>JSON.stringify\<close>, \<open>fetch\<close> and the generated correlation id are arguments. Details of errors leave out the
  original error object.
\<close>

section \<open>URLs (\<open>url.ts\<close>)\<close>

definition hex_char :: "nat \<Rightarrow> char" where
  "hex_char d = (if d < 10 then char_of (48 + d) else char_of (55 + d))"

definition percent :: "char \<Rightarrow> string" where
  "percent c = [CHR ''%'', hex_char (of_char c div 16), hex_char (of_char c mod 16)]"

definition alphanumeric :: "char \<Rightarrow> bool" where
  "alphanumeric c \<longleftrightarrow> (let n = (of_char c :: nat) in 48 \<le> n \<and> n \<le> 57 \<or> 65 \<le> n \<and> n \<le> 90 \<or> 97 \<le> n \<and> n \<le> 122)"

definition unreserved :: "char \<Rightarrow> bool" where
  \<comment> \<open>the characters \<open>encodeURIComponent\<close> keeps: letters, digits and \<open>- _ . ! ~ * ' ( )\<close>\<close>
  "unreserved c \<longleftrightarrow> alphanumeric c \<or> of_char c \<in> {45, 95, 46, 33, 126, 42, 39, 40, 41 :: nat}"

definition encodeURIComponent :: "string \<Rightarrow> string" where
  "encodeURIComponent s = concat (map (\<lambda>c. if unreserved c then [c] else percent c) s)"

definition form_char :: "char \<Rightarrow> string" where
  \<comment> \<open>the encoding of \<open>URLSearchParams\<close>\<close>
  "form_char c =
     (if of_char c = (32 :: nat) then ''+''
      else if alphanumeric c \<or> of_char c \<in> {42, 45, 46, 95 :: nat} then [c] else percent c)"

definition query_string :: "(string \<times> string) list \<Rightarrow> string" where
  "query_string es = str_join ''&'' (map (\<lambda>(k, v). concat (map form_char k) @ ''='' @ concat (map form_char v)) es)"

fun replace_first :: "string \<Rightarrow> string \<Rightarrow> string \<Rightarrow> string" where
  \<comment> \<open>\<open>s.replace(p, r)\<close> for a text \<open>p\<close>; \<open>r\<close> has no dollar sign\<close>
  "replace_first [] p r = (if p = [] then r else [])"
| "replace_first (c # s) p r =
     (if str_startsWith (c # s) p then r @ drop (length p) (c # s) else c # replace_first s p r)"

definition replacePathParameters :: "string \<Rightarrow> (string \<times> string) list \<Rightarrow> string" where
  "replacePathParameters url params =
     foldl (\<lambda>result (key, v). replace_first result (CHR '':'' # key) (encodeURIComponent v)) url params"

definition addQueryParameters :: "string \<Rightarrow> (string \<times> string option) list \<Rightarrow> string" where
  \<comment> \<open>\<open>None\<close> is \<open>undefined\<close> or \<open>null\<close>, \<open>Some\<close> the string form of the value\<close>
  "addQueryParameters url query =
     (let q = query_string (List.map_filter (\<lambda>(k, v). map_option (Pair k) v) query)
      in if q = [] then url else url @ ''?'' @ q)"

definition normalize_base :: "string \<Rightarrow> string" where
  "normalize_base baseUrl = (if baseUrl \<noteq> [] \<and> last baseUrl = CHR ''/'' then butlast baseUrl else baseUrl)"

definition buildUrl ::
  "string \<Rightarrow> string \<Rightarrow> (string \<times> string) list option \<Rightarrow> (string \<times> string option) list option \<Rightarrow> string" where
  "buildUrl baseUrl path params query =
     (let url = normalize_base baseUrl @ (if str_startsWith path ''/'' then path else ''/'' @ path);
          url = (case params of Some ps \<Rightarrow> replacePathParameters url ps | None \<Rightarrow> url)
      in case query of Some q \<Rightarrow> addQueryParameters url q | None \<Rightarrow> url)"

section \<open>Values, files and forms\<close>

datatype jsval =
    VUndefined | VNull | VBool bool | VNum int | VStr string | VFun
  | VFile nat | VBlob nat | VStream nat | VBuffer "nat list"
  | VArr "jsval list" | VObj "(string \<times> jsval) list"

fun isFile :: "jsval \<Rightarrow> bool" where
  "isFile (VFile n) = True"
| "isFile _ = False"

fun isBlob :: "jsval \<Rightarrow> bool" where
  \<comment> \<open>a file is a blob, too\<close>
  "isBlob (VBlob n) = True"
| "isBlob (VFile n) = True"
| "isBlob _ = False"

fun isBuffer :: "jsval \<Rightarrow> bool" where
  "isBuffer (VBuffer b) = True"
| "isBuffer _ = False"

fun isReadableStream :: "jsval \<Rightarrow> bool" where
  "isReadableStream (VStream n) = True"
| "isReadableStream _ = False"

fun containsFileObjectsRecursive :: "jsval \<Rightarrow> nat \<Rightarrow> bool" where
  "containsFileObjectsRecursive obj depth =
     (if isFile obj \<or> isBlob obj \<or> isBuffer obj \<or> isReadableStream obj then True
      else if depth \<ge> 3 then False
      else (case obj of
              VArr vs \<Rightarrow> list_ex (\<lambda>v. containsFileObjectsRecursive v (depth + 1)) vs
            | VObj es \<Rightarrow> list_ex (\<lambda>e. containsFileObjectsRecursive (snd e) (depth + 1)) es
            | _ \<Rightarrow> False))"

declare containsFileObjectsRecursive.simps [simp del]

definition containsFileObjects :: "jsval \<Rightarrow> bool" where
  "containsFileObjects obj = containsFileObjectsRecursive obj 0"

definition isFileOrBlob :: "jsval \<Rightarrow> bool" where
  "isFileOrBlob v \<longleftrightarrow> isFile v \<or> isBlob v \<or> isBuffer v"

datatype form_value = FormText string | FormFile jsval

type_synonym form_data = "(string \<times> form_value) list"

fun appendToFormData :: "(jsval \<Rightarrow> string) \<Rightarrow> form_data \<Rightarrow> string \<Rightarrow> jsval \<Rightarrow> form_data" where
  "appendToFormData str fd key VUndefined = fd"
| "appendToFormData str fd key VNull = fd"
| "appendToFormData str fd key VFun = fd"
| "appendToFormData str fd key (VFile n) = fd @ [(key, FormFile (VFile n))]"
| "appendToFormData str fd key (VBlob n) = fd @ [(key, FormFile (VBlob n))]"
| "appendToFormData str fd key (VBuffer b) = fd @ [(key, FormFile (VBuffer b))]"
| "appendToFormData str fd key (VArr vs) =
     (if vs = [] then fd
      else if list_all isFileOrBlob vs then fd @ map (\<lambda>v. (key, FormFile v)) vs
      else fd @ [(key, FormText (str (VArr vs)))])"
| "appendToFormData str fd key (VStr s) = fd @ [(key, FormText s)]"
| "appendToFormData str fd key (VNum n) = fd @ [(key, FormText (show_int n))]"
| "appendToFormData str fd key (VBool b) = fd @ [(key, FormText (if b then ''true'' else ''false''))]"
| "appendToFormData str fd key (VObj es) = fd @ [(key, FormText (str (VObj es)))]"
| "appendToFormData str fd key (VStream n) = fd @ [(key, FormText (str (VStream n)))]"

definition indexed :: "'a list \<Rightarrow> (string \<times> 'a) list" where
  "indexed xs = zip (map show_nat [0..<length xs]) xs"

fun own_entries :: "jsval \<Rightarrow> (string \<times> jsval) list" where
  \<comment> \<open>what \<open>Object.assign\<close> copies from an object; a string is no object\<close>
  "own_entries (VObj es) = es"
| "own_entries (VArr vs) = indexed vs"
| "own_entries (VBuffer b) = indexed (map (\<lambda>n. VNum (int n)) b)"
| "own_entries _ = []"

definition buildFormData :: "(jsval \<Rightarrow> string) \<Rightarrow> jsval option \<Rightarrow> jsval option \<Rightarrow> form_data" where
  "buildFormData str body files =
     (let assign = (\<lambda>v m. case v of None \<Rightarrow> m | Some x \<Rightarrow> foldl (\<lambda>m (k, w). map_set k w m) m (own_entries x));
          allData = assign files (assign body [])
      in foldl (\<lambda>fd (k, v). appendToFormData str fd k v) [] allData)"

section \<open>Request options (\<open>request-options-builder.ts\<close>)\<close>

record client_config =
  cc_baseUrl :: string
  cc_defaultHeaders :: "(string, string) js_map"
  cc_timeout :: nat

record request_args =
  ra_params :: "(string \<times> string) list option"
  ra_query :: "(string \<times> string option) list option"
  ra_body :: "jsval option"     \<comment> \<open>\<open>None\<close> is \<open>undefined\<close>\<close>
  ra_files :: "jsval option"

datatype request_body = BodyForm form_data | BodyJson string

record request_options =
  ro_method :: string
  ro_headers :: "(string, string) js_map"
  ro_body :: "request_body option"
  ro_timeout :: nat

definition toUpperCase :: "string \<Rightarrow> string" where
  "toUpperCase = map upper_char"

definition has_files :: "jsval option \<Rightarrow> bool" where
  "has_files v = (case v of Some x \<Rightarrow> containsFileObjects x | None \<Rightarrow> False)"

definition buildRequestOptions ::
  "(jsval \<Rightarrow> string) \<Rightarrow> client_config \<Rightarrow> string \<Rightarrow> request_args \<Rightarrow> string option \<Rightarrow> request_options" where
  "buildRequestOptions str config meth args correlationId =
     (let headers = (case correlationId of
                       Some (c # cs) \<Rightarrow> map_set ''x-correlation-id'' (c # cs) (cc_defaultHeaders config)
                     | _ \<Rightarrow> cc_defaultHeaders config);
          upperMethod = toUpperCase meth;
          result = (\<lambda>hs b. \<lparr>ro_method = upperMethod, ro_headers = hs, ro_body = b,
                     ro_timeout = (if cc_timeout config = 0 then 30000 else cc_timeout config)\<rparr>)
      in if upperMethod \<in> set [''GET'', ''HEAD'', ''DELETE'', ''OPTIONS''] then result headers None
         else if has_files (ra_files args) \<or> has_files (ra_body args)
           then result headers (Some (BodyForm (buildFormData str (ra_body args) (ra_files args))))
         else (case ra_body args of
                 Some b \<Rightarrow> result (map_set ''Content-Type'' ''application/json'' headers) (Some (BodyJson (str b)))
               | None \<Rightarrow> result headers None))"

section \<open>Errors (\<open>error-transformer.ts\<close>)\<close>

record client_error =
  \<comment> \<open>a \<open>BlaizeError\<close>; its type may be a text the client does not know\<close>
  cr_type :: string
  cr_title :: string
  cr_status :: int
  cr_correlationId :: string
  cr_details :: "json option"

datatype client_throw =
    CtBlaize client_error
  | CtError string string string   \<comment> \<open>an \<open>Error\<close>: its class, its \<open>name\<close> and its message\<close>
  | CtString string
  | CtOther string                 \<comment> \<open>any other value, with its \<open>typeof\<close>\<close>

record transform_context =
  tc_url :: string
  tc_method :: string
  tc_correlationId :: string
  tc_statusCode :: int             \<comment> \<open>0 when absent\<close>
  tc_contentType :: string         \<comment> \<open>empty when absent\<close>
  tc_responseSample :: string

record http_response =
  hr_url :: string
  hr_status :: int
  hr_statusText :: string
  hr_headers :: "(string, string) js_map"
  hr_json :: "client_throw + json"   \<comment> \<open>how \<open>response.json()\<close> settles\<close>

definition msg_includes :: "string list \<Rightarrow> string \<Rightarrow> bool" where
  "msg_includes ws msg \<longleftrightarrow> list_ex (str_includes msg) ws"

definition isNetworkError :: "client_throw \<Rightarrow> bool" where
  "isNetworkError e = (case e of
     CtError cls name msg \<Rightarrow> cls = ''TypeError'' \<and> msg_includes [''fetch'', ''network'', ''Failed to fetch''] msg
   | _ \<Rightarrow> False)"

definition isTimeoutError :: "client_throw \<Rightarrow> bool" where
  "isTimeoutError e = (case e of
     CtError cls name msg \<Rightarrow> name = ''AbortError'' \<or> msg_includes [''timeout'', ''aborted''] msg
   | _ \<Rightarrow> False)"

definition isParseError :: "client_throw \<Rightarrow> bool" where
  "isParseError e = (case e of
     CtError cls name msg \<Rightarrow> cls = ''SyntaxError'' \<or> msg_includes [''JSON'', ''parse'', ''Unexpected token''] msg
   | _ \<Rightarrow> False)"

definition error_message :: "client_throw \<Rightarrow> string" where
  "error_message e = (case e of CtError cls name msg \<Rightarrow> msg | _ \<Rightarrow> [])"

definition createNetworkError :: "client_throw \<Rightarrow> transform_context \<Rightarrow> client_error" where
  "createNetworkError e tc =
     \<lparr>cr_type = ''NETWORK_ERROR'', cr_title = ''Network request failed: '' @ error_message e, cr_status = 0,
      cr_correlationId = tc_correlationId tc,
      cr_details = Some (JObj [(''url'', JStr (tc_url tc)), (''method'', JStr (tc_method tc)),
        (''correlationId'', JStr (tc_correlationId tc)),
        (''networkDetails'', JObj [(''isTimeout'', JBool False),
           (''isDnsFailure'', JBool (str_includes (error_message e) ''ENOTFOUND'')),
           (''isConnectionRefused'', JBool (str_includes (error_message e) ''ECONNREFUSED''))])])\<rparr>"

definition createTimeoutError :: "client_throw \<Rightarrow> transform_context \<Rightarrow> client_error" where
  \<comment> \<open>no caller passes \<open>timeoutMs\<close> or \<open>elapsedMs\<close>\<close>
  "createTimeoutError e tc =
     \<lparr>cr_type = ''TIMEOUT_ERROR'', cr_title = ''Request timeout: '' @ error_message e, cr_status = 0,
      cr_correlationId = tc_correlationId tc,
      cr_details = Some (JObj [(''url'', JStr (tc_url tc)), (''method'', JStr (tc_method tc)),
        (''correlationId'', JStr (tc_correlationId tc)), (''timeoutMs'', JNum 0), (''elapsedMs'', JNum 0),
        (''timeoutType'', JStr (case e of CtError cls name msg \<Rightarrow> if name = ''AbortError'' then ''request'' else ''connection''
                                | _ \<Rightarrow> ''connection''))])\<rparr>"

definition createParseError :: "client_throw \<Rightarrow> transform_context \<Rightarrow> client_error" where
  "createParseError e tc =
     \<lparr>cr_type = ''PARSE_ERROR'', cr_title = ''Failed to parse response: '' @ error_message e, cr_status = 0,
      cr_correlationId = tc_correlationId tc,
      cr_details = Some (JObj [(''url'', JStr (tc_url tc)), (''method'', JStr (tc_method tc)),
        (''correlationId'', JStr (tc_correlationId tc)), (''statusCode'', JNum (tc_statusCode tc)),
        (''contentType'', JStr (if tc_contentType tc = [] then ''unknown'' else tc_contentType tc)),
        (''expectedFormat'', JStr ''json''),
        (''responseSample'', JStr (if tc_responseSample tc = [] then ''Unable to capture response'' else tc_responseSample tc))])\<rparr>"

definition createGenericBlaizeError :: "client_throw \<Rightarrow> string \<Rightarrow> client_error" where
  "createGenericBlaizeError e correlationId =
     (let (title, errorType) = (case e of
            CtError cls name msg \<Rightarrow> (if msg = [] then ''Unknown error occurred'' else msg, cls)
          | CtString s \<Rightarrow> (s, ''string'')
          | CtOther t \<Rightarrow> (''Unknown error occurred'', t)
          | CtBlaize b \<Rightarrow> (if cr_title b = [] then ''Unknown error occurred'' else cr_title b, ''BlaizeError''))
      in \<lparr>cr_type = ''HTTP_ERROR'', cr_title = title, cr_status = 0, cr_correlationId = correlationId,
          cr_details = Some (JObj [(''errorType'', JStr errorType)])\<rparr>)"

definition transformClientError :: "client_throw \<Rightarrow> transform_context \<Rightarrow> client_throw" where
  \<comment> \<open>what it throws; it never returns\<close>
  "transformClientError e tc = (case e of
     CtBlaize b \<Rightarrow> e
   | _ \<Rightarrow> CtBlaize
       (if isNetworkError e then createNetworkError e tc
        else if isTimeoutError e then createTimeoutError e tc
        else if isParseError e then createParseError e tc
        else createGenericBlaizeError e (tc_correlationId tc)))"

definition json_str :: "json option \<Rightarrow> string option" where
  "json_str j = (case j of Some (JStr s) \<Rightarrow> Some s | _ \<Rightarrow> None)"

definition isBlaizeErrorResponse :: "json \<Rightarrow> bool" where
  "isBlaizeErrorResponse data = (case data of
     JObj es \<Rightarrow> json_str (map_get es ''type'') \<noteq> None \<and> json_str (map_get es ''title'') \<noteq> None \<and>
       (case map_get es ''status'' of Some (JNum n) \<Rightarrow> True | _ \<Rightarrow> False) \<and> json_str (map_get es ''correlationId'') \<noteq> None \<and>
       json_str (map_get es ''timestamp'') \<noteq> None
   | _ \<Rightarrow> False)"

definition text_field :: "(string \<times> json) list \<Rightarrow> string \<Rightarrow> string" where
  "text_field es name = (case json_str (map_get es name) of Some s \<Rightarrow> s | None \<Rightarrow> [])"

definition createBlaizeErrorFromResponse :: "json \<Rightarrow> client_error" where
  \<comment> \<open>on data that \<open>isBlaizeErrorResponse\<close> accepts\<close>
  "createBlaizeErrorFromResponse data =
     (let es = (case data of JObj es \<Rightarrow> es | _ \<Rightarrow> [])
      in \<lparr>cr_type = text_field es ''type'', cr_title = text_field es ''title'',
          cr_status = (case map_get es ''status'' of Some (JNum n) \<Rightarrow> n | _ \<Rightarrow> 0),
          cr_correlationId = text_field es ''correlationId'', cr_details = map_get es ''details''\<rparr>)"

fun truthy :: "json \<Rightarrow> bool" where
  "truthy JNull = False"
| "truthy (JBool b) = b"
| "truthy (JNum n) = (n \<noteq> 0)"
| "truthy (JStr s) = (s \<noteq> [])"
| "truthy (JArr _) = True"
| "truthy (JObj _) = True"

definition createGenericHttpError :: "http_response \<Rightarrow> string \<Rightarrow> json option \<Rightarrow> client_error" where
  "createGenericHttpError r correlationId responseData =
     \<lparr>cr_type = ''HTTP_ERROR'',
      cr_title = (if hr_statusText r = [] then ''HTTP '' @ show_int (hr_status r) else hr_statusText r),
      cr_status = hr_status r, cr_correlationId = correlationId,
      cr_details = Some (JObj [(''url'', JStr (hr_url r)), (''statusCode'', JNum (hr_status r)),
        (''statusText'', JStr (hr_statusText r)),
        (''responseData'', case responseData of Some j \<Rightarrow> if truthy j then j else JNull | None \<Rightarrow> JNull)])\<rparr>"

definition header_or :: "http_response \<Rightarrow> string \<Rightarrow> string \<Rightarrow> string" where
  "header_or r name alt = (case map_get (hr_headers r) name of Some (c # cs) \<Rightarrow> c # cs | _ \<Rightarrow> alt)"

definition parseAndThrowErrorResponse :: "string \<Rightarrow> http_response \<Rightarrow> client_throw" where
  \<comment> \<open>what it throws; \<open>generated\<close> is the result of \<open>generateClientCorrelationId\<close>\<close>
  "parseAndThrowErrorResponse generated r =
     (let correlationId = header_or r ''x-correlation-id'' generated
      in case hr_json r of
           Inr data \<Rightarrow> CtBlaize (if isBlaizeErrorResponse data then createBlaizeErrorFromResponse data
                                  else createGenericHttpError r correlationId (Some data))
         | Inl (CtBlaize b) \<Rightarrow> CtBlaize b
         | Inl (CtError cls name msg) \<Rightarrow>
             CtBlaize
               (if cls = ''SyntaxError'' then
                  \<lparr>cr_type = ''PARSE_ERROR'', cr_title = ''Failed to parse server error response as JSON'', cr_status = 0,
                   cr_correlationId = correlationId,
                   cr_details = Some (JObj [(''url'', JStr (hr_url r)), (''method'', JStr ''UNKNOWN''),
                     (''correlationId'', JStr correlationId), (''statusCode'', JNum (hr_status r)),
                     (''contentType'', JStr (header_or r ''content-type'' ''unknown'')), (''expectedFormat'', JStr ''json''),
                     (''responseSample'', JStr ''Unable to parse response'')])\<rparr>
                else createGenericHttpError r correlationId None)
         | Inl _ \<Rightarrow> CtBlaize (createGenericHttpError r correlationId None))"

section \<open>Making a request (\<open>request.ts\<close>)\<close>

type_synonym route_registry = "(string, (string, string) js_map) js_map"
  \<comment> \<open>method key, route name, path; an absent path is empty\<close>

record client_env =
  cn_stringify :: "jsval \<Rightarrow> string"
  cn_fetch :: "string \<Rightarrow> request_options \<Rightarrow> client_throw + http_response"
  cn_id1 :: string      \<comment> \<open>the id generated by \<open>makeRequest\<close>\<close>
  cn_id2 :: string      \<comment> \<open>the id generated for an error response without one\<close>

definition extractRoutePath :: "route_registry option \<Rightarrow> string \<Rightarrow> string \<Rightarrow> client_throw + string" where
  "extractRoutePath registry meth routeName =
     (let failure = Inl (CtError ''Error'' ''Error'' (''Route '' @ [CHR 0x27] @ routeName @ [CHR 0x27] @ '' not found for method '' @
                      [CHR 0x27] @ meth @ [CHR 0x27]))
      in case registry of
           None \<Rightarrow> failure
         | Some reg \<Rightarrow>
             (case map_get reg (CHR ''$'' # toLowerCase meth) of
                None \<Rightarrow> failure
              | Some routes \<Rightarrow> (case map_get routes routeName of Some (c # cs) \<Rightarrow> Inr (c # cs) | _ \<Rightarrow> failure)))"

definition response_ok :: "http_response \<Rightarrow> bool" where
  "response_ok r \<longleftrightarrow> 200 \<le> hr_status r \<and> hr_status r \<le> 299"

definition executeRequest :: "client_env \<Rightarrow> string \<Rightarrow> request_options \<Rightarrow> client_throw + json" where
  \<comment> \<open>what the inner handlers throw is a \<open>BlaizeError\<close>, which the outer handler passes on\<close>
  "executeRequest N url options =
     (case cn_fetch N url options of
        Inl e \<Rightarrow> Inl (transformClientError e \<lparr>tc_url = url, tc_method = ro_method options, tc_correlationId = cn_id1 N,
                   tc_statusCode = 0, tc_contentType = ''unknown'', tc_responseSample = ''Unable to capture response sample''\<rparr>)
      | Inr r \<Rightarrow>
          if \<not> response_ok r then Inl (parseAndThrowErrorResponse (cn_id2 N) r)
          else (case hr_json r of
                  Inr data \<Rightarrow> Inr data
                | Inl e \<Rightarrow> Inl (transformClientError e \<lparr>tc_url = url, tc_method = ro_method options, tc_correlationId = cn_id1 N,
                     tc_statusCode = hr_status r, tc_contentType = header_or r ''content-type'' ''unknown'',
                     tc_responseSample = ''Unable to parse response as JSON''\<rparr>)))"

definition makeRequest ::
  "client_env \<Rightarrow> client_config \<Rightarrow> string \<Rightarrow> string \<Rightarrow> request_args \<Rightarrow> route_registry option \<Rightarrow> client_throw + json" where
  "makeRequest N config meth routeName args registry =
     (let result = (case extractRoutePath registry meth routeName of
            Inl e \<Rightarrow> Inl e
          | Inr path \<Rightarrow> executeRequest N (buildUrl (cc_baseUrl config) path (ra_params args) (ra_query args))
                          (buildRequestOptions (cn_stringify N) config meth args (Some (cn_id1 N))))
      in case result of
           Inr v \<Rightarrow> Inr v
         | Inl e \<Rightarrow> Inl (transformClientError e \<lparr>tc_url = cc_baseUrl config, tc_method = meth, tc_correlationId = cn_id1 N,
              tc_statusCode = 0, tc_contentType = [], tc_responseSample = []\<rparr>))"

section \<open>URLs reach their routes\<close>

lemma startsWith_within:
  assumes "str_startsWith (x @ CHR ''/'' # r) p" "CHR ''/'' \<notin> set p"
  shows "str_startsWith x p"
proof -
  obtain q where q: "x @ CHR ''/'' # r = p @ q" using assms(1) by (auto simp: str_startsWith_iff)
  then obtain us where "x = p @ us \<or> p = x @ us \<and> CHR ''/'' # r = us @ q" by (auto simp: append_eq_append_conv2)
  then show ?thesis using assms(2) by (auto simp: str_startsWith_iff Cons_eq_append_conv)
qed

lemma replace_first_skip:
  "CHR '':'' \<notin> set a \<Longrightarrow> replace_first (a @ b) (CHR '':'' # n) r = a @ replace_first b (CHR '':'' # n) r"
  by (induction a) auto

lemma replace_first_base:
  assumes "\<not> str_includes base (CHR '':'' # n)" "CHR ''/'' \<notin> set n"
  shows "replace_first (base @ CHR ''/'' # s) (CHR '':'' # n) r = base @ replace_first (CHR ''/'' # s) (CHR '':'' # n) r"
  using assms(1)
proof (induction base)
  case (Cons c base)
  have "\<not> str_startsWith ((c # base) @ CHR ''/'' # s) (CHR '':'' # n)"
    using Cons.prems startsWith_within [of "c # base" s "CHR '':'' # n"] assms(2) by auto
  then show ?case using Cons by auto
qed simp

lemma unreserved_plain: "unreserved c \<Longrightarrow> c \<noteq> CHR '':'' \<and> c \<noteq> CHR ''/'' \<and> c \<noteq> CHR ''%''"
  by (auto simp: unreserved_def alphanumeric_def Let_def)

lemma hex_char_plain: "d < 16 \<Longrightarrow> hex_char d \<noteq> CHR '':'' \<and> hex_char d \<noteq> CHR ''/''"
proof -
  assume "d < 16"
  then have "d \<in> set [0..<16]" by simp
  moreover have "list_all (\<lambda>d. hex_char d \<noteq> CHR '':'' \<and> hex_char d \<noteq> CHR ''/'') [0..<16]" by code_simp
  ultimately show ?thesis by (auto simp: list.pred_set)
qed

lemma char_high_nibble: "(of_char c :: nat) div 16 < 16"
  using nat_of_char_less_256 [of c] by (simp only: less_mult_imp_div_less [of _ 16 16, simplified])

lemma percent_plain: "c \<in> set (percent d) \<Longrightarrow> c \<noteq> CHR '':'' \<and> c \<noteq> CHR ''/''"
  using hex_char_plain [of "of_char d div 16"] hex_char_plain [of "of_char d mod 16"] char_high_nibble [of d]
  by (auto simp: percent_def)

lemma encoded_plain: "c \<in> set (encodeURIComponent s) \<Longrightarrow> c \<noteq> CHR '':'' \<and> c \<noteq> CHR ''/''"
proof (induction s)
  case (Cons d s)
  then show ?case
    using percent_plain [of c d] unreserved_plain [of d] by (cases "unreserved d") (auto simp: encodeURIComponent_def)
qed (simp add: encodeURIComponent_def)

lemma encoded_no_separator [simp]:
  "CHR '':'' \<notin> set (encodeURIComponent s)" "CHR ''/'' \<notin> set (encodeURIComponent s)"
  using encoded_plain by blast+

lemma encode_nonempty: "s \<noteq> [] \<Longrightarrow> encodeURIComponent s \<noteq> []"
  by (cases s) (auto simp: encodeURIComponent_def percent_def)

lemma encode_unreserved: "list_all unreserved s \<Longrightarrow> encodeURIComponent s = s"
  by (induction s) (auto simp: encodeURIComponent_def)

fun seg_filled :: "(string \<Rightarrow> string option) \<Rightarrow> tseg \<Rightarrow> string" where
  \<comment> \<open>a segment with some of the parameters replaced\<close>
  "seg_filled env (Static s) = s"
| "seg_filled env (Param n) = (case env n of Some v \<Rightarrow> encodeURIComponent v | None \<Rightarrow> CHR '':'' # n)"

definition path_filled :: "(string \<Rightarrow> string option) \<Rightarrow> tseg list \<Rightarrow> string" where
  "path_filled env t = concat (map (\<lambda>g. CHR ''/'' # seg_filled env g) t)"

lemma path_filled_simps [simp]:
  "path_filled env [] = []" "path_filled env (g # t) = CHR ''/'' # seg_filled env g @ path_filled env t"
  by (simp_all add: path_filled_def)

fun seg_plain :: "tseg \<Rightarrow> bool" where
  \<comment> \<open>no colon but the one that opens a parameter, no slash in a name\<close>
  "seg_plain (Static s) \<longleftrightarrow> CHR '':'' \<notin> set s"
| "seg_plain (Param n) \<longleftrightarrow> CHR '':'' \<notin> set n \<and> CHR ''/'' \<notin> set n"

definition prefix_free :: "string list \<Rightarrow> bool" where
  "prefix_free ns \<longleftrightarrow> (\<forall>n \<in> set ns. \<forall>m \<in> set ns. str_startsWith m n \<longrightarrow> m = n)"

lemma path_filled_env: "n \<notin> set (names t) \<Longrightarrow> path_filled (env(n \<mapsto> v)) t = path_filled env t"
proof (induction t)
  case (Cons g t)
  then show ?case by (cases g) auto
qed simp

lemma path_slash: "\<exists>r. path_filled env t @ CHR ''/'' # s = CHR ''/'' # r"
  by (cases t) auto

lemma replace_param:
  assumes "list_all seg_plain t" "distinct (names t)" "n \<in> set (names t)" "env n = None"
    and "\<forall>m \<in> set (names t). str_startsWith m n \<longrightarrow> m = n"
  shows "replace_first (path_filled env t) (CHR '':'' # n) (encodeURIComponent v) = path_filled (env(n \<mapsto> v)) t"
  using assms
proof (induction t)
  case (Cons g t)
  have slash: "CHR ''/'' \<notin> set n"
    using Cons.prems(1,3) by (induction t) (auto split: tseg.splits elim!: seg_plain.elims)
  show ?case
  proof (cases g)
    case (Static s)
    have "replace_first ((CHR ''/'' # s) @ path_filled env t) (CHR '':'' # n) (encodeURIComponent v) =
      (CHR ''/'' # s) @ replace_first (path_filled env t) (CHR '':'' # n) (encodeURIComponent v)"
      by (rule replace_first_skip) (use Cons.prems(1) Static in simp)
    then show ?thesis using Cons Static by simp
  next
    case (Param m)
    show ?thesis
    proof (cases "m = n")
      case True
      then have "path_filled (env(n \<mapsto> v)) t = path_filled env t" using Cons.prems(2) Param by (intro path_filled_env) simp
      then show ?thesis using True Cons.prems Param by (simp add: str_startsWith_iff del: fun_upd_apply) simp
    next
      case False
      have IH: "replace_first (path_filled env t) (CHR '':'' # n) (encodeURIComponent v) = path_filled (env(n \<mapsto> v)) t"
        using Cons False Param by (simp del: fun_upd_apply)
      have "\<not> str_startsWith (m @ path_filled env t) n"
      proof
        assume st: "str_startsWith (m @ path_filled env t) n"
        have "str_startsWith m n"
        proof (cases t)
          case Nil
          then show ?thesis using st by simp
        next
          case (Cons g' t')
          then show ?thesis using st slash startsWith_within [of m _ n] by simp
        qed
        then show False using Cons.prems(5) False Param by auto
      qed
      then have "replace_first (seg_filled env g @ path_filled env t) (CHR '':'' # n) (encodeURIComponent v) =
        seg_filled env g @ replace_first (path_filled env t) (CHR '':'' # n) (encodeURIComponent v)"
        using Param Cons.prems(1)
        by (cases "env m") (auto simp: replace_first_skip)
      moreover have "seg_filled (env(n \<mapsto> v)) g = seg_filled env g" using Param False by simp
      ultimately show ?thesis using IH by (simp del: fun_upd_apply seg_filled.simps)
    qed
  qed
qed simp

lemma path_filled_none: "path_filled (\<lambda>_. None) t = render t"
proof (induction t)
  case (Cons g t)
  then show ?case by (cases g) (simp_all add: render_def)
qed (simp add: render_def)

lemma path_filled_all:
  "(\<forall>n \<in> set (names t). env n \<noteq> None) \<Longrightarrow>
   path_filled env t = fill t (map (\<lambda>n. encodeURIComponent (the (env n))) (names t))"
proof (induction t)
  case (Cons g t)
  then show ?case by (cases g) auto
qed simp

lemma names_plain: "list_all seg_plain t \<Longrightarrow> n \<in> set (names t) \<Longrightarrow> CHR ''/'' \<notin> set n"
  by (induction t) (auto elim!: seg_plain.elims)

lemma replace_in_url:
  assumes "t \<noteq> []" "list_all seg_plain t" "distinct (names t)" "prefix_free (names t)" "n \<in> set (names t)" "env n = None"
    and "\<not> str_includes base (CHR '':'' # n)"
  shows "replace_first (base @ path_filled env t) (CHR '':'' # n) (encodeURIComponent v) = base @ path_filled (env(n \<mapsto> v)) t"
proof -
  obtain s where s: "path_filled env t = CHR ''/'' # s" using assms(1) by (cases t) auto
  have "replace_first (base @ path_filled env t) (CHR '':'' # n) (encodeURIComponent v) =
    base @ replace_first (path_filled env t) (CHR '':'' # n) (encodeURIComponent v)"
    unfolding s by (rule replace_first_base [OF assms(7) names_plain [OF assms(2,5)]])
  also have "\<dots> = base @ path_filled (env(n \<mapsto> v)) t"
    using replace_param [of t n env v] assms by (simp add: prefix_free_def del: fun_upd_apply)
  finally show ?thesis .
qed

lemma replace_all_params:
  assumes "t \<noteq> []" "list_all seg_plain t" "distinct (names t)" "prefix_free (names t)"
    and "\<forall>n \<in> set (names t). \<not> str_includes base (CHR '':'' # n)"
    and "map_ok ps" "set (map fst ps) \<subseteq> set (names t)" "\<forall>n \<in> set (map fst ps). env n = None"
  shows "replacePathParameters (base @ path_filled env t) ps = base @ path_filled (env ++ map_of ps) t"
  using assms(6-8)
proof (induction ps arbitrary: env)
  case Nil
  then show ?case by (simp add: replacePathParameters_def)
next
  case (Cons p ps)
  obtain n v where p: "p = (n, v)" by (cases p)
  have n: "n \<in> set (names t)" "env n = None" "n \<notin> set (map fst ps)" using Cons.prems p by auto
  have "map_of ps n = None" using n(3) by (simp add: map_of_eq_None_iff)
  then have env: "env(n \<mapsto> v) ++ map_of ps = env ++ map_of (p # ps)"
    by (auto simp: p map_add_def fun_eq_iff split: option.split)
  have u: "replace_first (base @ path_filled env t) (CHR '':'' # n) (encodeURIComponent v) = base @ path_filled (env(n \<mapsto> v)) t"
    by (rule replace_in_url) (use assms n in auto)
  have "replacePathParameters (base @ path_filled env t) (p # ps) =
    replacePathParameters (replace_first (base @ path_filled env t) (CHR '':'' # n) (encodeURIComponent v)) ps"
    by (simp add: replacePathParameters_def p)
  also have "\<dots> = replacePathParameters (base @ path_filled (env(n \<mapsto> v)) t) ps"
    unfolding u ..
  also have "\<dots> = base @ path_filled (env(n \<mapsto> v) ++ map_of ps) t"
    by (rule Cons.IH) (use Cons.prems p in auto)
  finally show ?case unfolding env [symmetric] .
qed

text \<open>C13: client and server agree on URLs. For a route template with distinct parameter names, none a prefix of
  another, and a base URL that contains no parameter by accident, the URL the client builds from values for
  exactly these parameters, given in any order, is the base URL followed by the template with every parameter
  replaced by its percent-encoded value; the server's compiled pattern of the same template matches it
  and extracts under each name that encoded value, which is the value itself when it needs no encoding.\<close>
theorem client_url_reaches_route:
  assumes t: "t \<noteq> []" "list_all seg_ok t" "list_all seg_plain t" "distinct (names t)" "prefix_free (names t)"
    and base: "base = [] \<or> last base \<noteq> CHR ''/''" "\<forall>n \<in> set (names t). \<not> str_includes base (CHR '':'' # n)"
    and ps: "map_ok ps" "set (map fst ps) = set (names t)" "\<forall>v \<in> set (map snd ps). v \<noteq> []"
    and vs: "vs = map (\<lambda>n. encodeURIComponent (the (map_get ps n))) (names t)"
  shows "buildUrl base (render t) (Some ps) None = base @ fill t vs \<and>
    (\<exists>c. compilePathPattern (render t) = Some c \<and> rx_exec (cp_pattern c) (fill t vs) = Some vs \<and>
       extractParams (fill t vs) (cp_pattern c) (cp_paramNames c) = zip (names t) vs)"
proof
  have dom: "\<forall>n \<in> set (names t). map_of ps n \<noteq> None" using ps(2) by (simp add: map_of_eq_None_iff)
  have "str_startsWith (render t) ''/''" using t(1) by (cases t) (auto simp: render_def)
  then have "buildUrl base (render t) (Some ps) None = replacePathParameters (base @ path_filled (\<lambda>_. None) t) ps"
    using base(1) by (auto simp: buildUrl_def normalize_base_def path_filled_none)
  also have "\<dots> = base @ path_filled ((\<lambda>_. None) ++ map_of ps) t"
    by (rule replace_all_params) (use t base(2) ps in simp_all)
  also have "\<dots> = base @ fill t vs" using path_filled_all [OF dom] by (simp add: vs)
  finally show "buildUrl base (render t) (Some ps) None = base @ fill t vs" .
next
  have "v \<noteq> []" if "map_of ps n = Some v" for n v using ps(3) that map_of_SomeD by fastforce
  moreover have "map_of ps n \<noteq> None" if "n \<in> set (names t)" for n using that ps(2) by (simp add: map_of_eq_None_iff)
  ultimately have "list_all value_ok vs" by (force simp: vs list.pred_set value_ok_def encode_nonempty)
  moreover have "length vs = length (names t)" by (simp add: vs)
  ultimately show "\<exists>c. compilePathPattern (render t) = Some c \<and> rx_exec (cp_pattern c) (fill t vs) = Some vs \<and>
       extractParams (fill t vs) (cp_pattern c) (cp_paramNames c) = zip (names t) vs"
    using pattern_accepts_fill [OF t(1,2)] t(4) by blast
qed

theorem client_url_reaches_route_witness:
  "buildUrl ''http://localhost:3000'' ''/users/:id/posts/:post'' (Some [(''post'', ''7''), (''id'', ''a b'')]) None =
     ''http://localhost:3000/users/a%20b/posts/7''"
proof -
  let ?t = "[Static ''users'', Param ''id'', Static ''posts'', Param ''post'']"
  let ?ps = "[(''post'', ''7''), (''id'', ''a b'')]"
  have t: "?t \<noteq> []" "list_all seg_ok ?t" "list_all seg_plain ?t" "distinct (names ?t)" "prefix_free (names ?t)"
    by (simp_all add: regex_special_def prefix_free_def)
  have b: "''http://localhost:3000'' = [] \<or> last ''http://localhost:3000'' \<noteq> CHR ''/''"
    "\<forall>n \<in> set (names ?t). \<not> str_includes ''http://localhost:3000'' (CHR '':'' # n)" by simp_all
  have p: "map_ok ?ps" "set (map fst ?ps) = set (names ?t)" "\<forall>v \<in> set (map snd ?ps). v \<noteq> []" by auto
  have r: "render ?t = ''/users/:id/posts/:post''" by (simp add: render_def)
  have "fill ?t (map (\<lambda>n. encodeURIComponent (the (map_get ?ps n))) (names ?t)) = ''/users/a%20b/posts/7''" by code_simp
  then show ?thesis using client_url_reaches_route [OF t b p refl] unfolding r by simp
qed

text \<open>Where a name is a prefix of another, values land in the wrong place.\<close>
lemma prefix_names_collide:
  "replacePathParameters ''/:id2/:id'' [(''id'', ''1''), (''id2'', ''2'')] = ''/12/:id''"
  by code_simp

section \<open>The URL builder of the server (\<open>matching/params.ts\<close>)\<close>

definition paramsToQuery :: "(string \<times> string option) list \<Rightarrow> string" where
  \<comment> \<open>\<open>None\<close> is \<open>undefined\<close> or \<open>null\<close>, \<open>Some\<close> the string form of the value\<close>
  "paramsToQuery params =
     (let parts = List.map_filter (\<lambda>(k, v). map_option (\<lambda>w. encodeURIComponent k @ ''='' @ encodeURIComponent w) v) params
      in if parts \<noteq> [] then ''?'' @ str_join ''&'' parts else [])"

definition pattern_names :: "string \<Rightarrow> string list" where
  \<comment> \<open>the names pushed by \<open>pathPattern.replace(/\/:([^/]+)/g, ...)\<close>\<close>
  "pattern_names pathPattern = fst (colon_params (map Chr pathPattern))"

definition server_buildUrl :: "string \<Rightarrow> (string \<times> string) list \<Rightarrow> (string \<times> string option) list \<Rightarrow> string" where
  "server_buildUrl pathPattern params query =
     (let paramNames = pattern_names pathPattern;
          pathParams = filter (\<lambda>(k, v). k \<in> set paramNames) params;
          queryParams = foldl (\<lambda>q (k, v). map_set k (Some v) q) query (filter (\<lambda>(k, v). k \<notin> set paramNames) params)
      in replacePathParameters pathPattern pathParams @ paramsToQuery queryParams)"

lemma pattern_names_render: "list_all seg_ok t \<Longrightarrow> pattern_names (render t) = names t"
  unfolding pattern_names_def
proof (induction t)
  case (Cons g t)
  have start: "map Chr (render t) = [] \<or> hd (map Chr (render t)) = Chr CHR ''/''" by (cases t) simp_all
  show ?case
  proof (cases g)
    case (Static s)
    then have "Chr CHR ''/'' \<notin> set (map Chr s)" "hd (map Chr s @ r) \<noteq> Chr CHR '':''" for r using Cons.prems by (auto simp: hd_append hd_map)
    then show ?thesis using Static Cons colon_params_chars [of "map Chr s"] by (simp add: colon_params_step)
  next
    case (Param n)
    then have "map Chr n \<noteq> []" "Chr CHR ''/'' \<notin> set (map Chr n)" using Cons.prems by auto
    from colon_params_param [OF this start] show ?thesis using Param Cons by (simp add: text_of_plain)
  qed
qed (simp add: render_def)

text \<open>
  Both builders agree: values for the parameters of the template fill it, and what is left over
  becomes the query. As in the client, a name that is a prefix of an earlier one is put in its place.
\<close>

lemma server_url_filled:
  assumes "t \<noteq> []" "list_all seg_ok t" "list_all seg_plain t" "distinct (names t)" "prefix_free (names t)"
    and "map_ok ps" "set (names t) \<subseteq> set (map fst ps)"
  shows "server_buildUrl (render t) ps query =
    fill t (map (\<lambda>n. encodeURIComponent (the (map_get ps n))) (names t)) @
    paramsToQuery (foldl (\<lambda>q (k, v). map_set k (Some v) q) query (filter (\<lambda>(k, v). k \<notin> set (names t)) ps))"
proof -
  let ?ps = "filter (\<lambda>(k, v). k \<in> set (names t)) ps"
  have get: "map_get ?ps n = map_get ps n" if "n \<in> set (names t)" for n
    using that by (induction ps) auto
  have ok: "map_ok ?ps" "set (map fst ?ps) \<subseteq> set (names t)" using assms(6) by (auto simp: distinct_map_filter)
  have dom: "\<forall>n \<in> set (names t). map_get ?ps n \<noteq> None" using get assms(7) by (auto simp: map_of_eq_None_iff)
  have "replacePathParameters ([] @ path_filled (\<lambda>_. None) t) ?ps = [] @ path_filled ((\<lambda>_. None) ++ map_of ?ps) t"
    by (rule replace_all_params) (use assms ok in simp_all)
  then have "replacePathParameters (render t) ?ps = fill t (map (\<lambda>n. encodeURIComponent (the (map_get ?ps n))) (names t))"
    using path_filled_all [OF dom] by (simp add: path_filled_none)
  also have "\<dots> = fill t (map (\<lambda>n. encodeURIComponent (the (map_get ps n))) (names t))" using get by (simp cong: map_cong)
  finally show ?thesis by (simp add: server_buildUrl_def pattern_names_render [OF assms(2)] Let_def)
qed

lemma server_url_prefix_mixed:
  "server_buildUrl ''/:idx/:id'' [(''id'', ''1''), (''idx'', ''2'')] [] = ''/1x/:id''"
  by code_simp

section \<open>Every failure is a \<open>BlaizeError\<close>\<close>

definition native_failures :: "client_env \<Rightarrow> bool" where
  \<comment> \<open>\<open>fetch\<close> and \<open>response.json\<close> do not throw \<open>BlaizeError\<close>s\<close>
  "native_failures N \<longleftrightarrow> (\<forall>url opts b. cn_fetch N url opts \<noteq> Inl (CtBlaize b)) \<and>
     (\<forall>url opts r b. cn_fetch N url opts = Inr r \<longrightarrow> hr_json r \<noteq> Inl (CtBlaize b))"

definition client_side :: "client_env \<Rightarrow> client_error \<Rightarrow> bool" where
  "client_side N b \<longleftrightarrow> cr_status b = 0 \<and> cr_correlationId b = cn_id1 N \<and>
     cr_type b \<in> {''NETWORK_ERROR'', ''TIMEOUT_ERROR'', ''PARSE_ERROR'', ''HTTP_ERROR''}"

lemma transform_native:
  assumes "\<forall>b. e \<noteq> CtBlaize b" "tc_correlationId tc = cn_id1 N"
  obtains b where "transformClientError e tc = CtBlaize b" "client_side N b"
proof -
  let ?b = "if isNetworkError e then createNetworkError e tc else if isTimeoutError e then createTimeoutError e tc
        else if isParseError e then createParseError e tc else createGenericBlaizeError e (tc_correlationId tc)"
  have "transformClientError e tc = CtBlaize ?b" using assms(1) by (cases e) (auto simp: transformClientError_def)
  moreover have "client_side N ?b"
    using assms(2) by (auto simp: client_side_def createNetworkError_def createTimeoutError_def createParseError_def
        createGenericBlaizeError_def Let_def split: prod.split)
  ultimately show thesis by (rule that)
qed

lemma transform_blaize [simp]: "transformClientError (CtBlaize b) tc = CtBlaize b"
  by (simp add: transformClientError_def)

lemma parse_throws_blaize: "\<exists>b. parseAndThrowErrorResponse g r = CtBlaize b"
  by (auto simp: parseAndThrowErrorResponse_def Let_def split: sum.split client_throw.split)

definition from_server :: "client_env \<Rightarrow> client_throw \<Rightarrow> bool" where
  "from_server N e \<longleftrightarrow> (\<exists>url opts r. cn_fetch N url opts = Inr r \<and> \<not> response_ok r \<and> e = parseAndThrowErrorResponse (cn_id2 N) r)"

lemma execute_failures:
  assumes "native_failures N" "executeRequest N url opts = Inl e"
  shows "(\<exists>b. e = CtBlaize b \<and> client_side N b) \<or> from_server N e"
proof (cases "cn_fetch N url opts")
  case (Inl f)
  then have "\<forall>b. f \<noteq> CtBlaize b" using assms(1) by (auto simp: native_failures_def)
  then show ?thesis using transform_native [of f _ N] Inl assms(2) by (auto simp: executeRequest_def) (metis transform_context.select_convs(3))
next
  case (Inr r)
  show ?thesis
  proof (cases "response_ok r")
    case False
    then show ?thesis using Inr assms(2) by (auto simp: executeRequest_def from_server_def)
  next
    case True
    then obtain f where f: "hr_json r = Inl f" using Inr assms(2) by (auto simp: executeRequest_def split: sum.splits)
    then have "\<forall>b. f \<noteq> CtBlaize b" using assms(1) Inr by (auto simp: native_failures_def)
    then show ?thesis using transform_native [of f _ N] Inr True f assms(2)
      by (auto simp: executeRequest_def) (metis transform_context.select_convs(3))
  qed
qed

text \<open>C14: a failed request fails with a \<open>BlaizeError\<close>. Whatever \<open>fetch\<close> and the server do, a rejected request
  rejects with an instance of \<open>BlaizeError\<close>: a client-side error has status 0, one of the four client types and
  the correlation id the request was sent with; every other failure is the answer of the server,
  translated by \<open>parseAndThrowErrorResponse\<close>.\<close>
theorem failures_are_blaize_errors:
  assumes "native_failures N" "makeRequest N config meth routeName args registry = Inl e"
  shows "\<exists>b. e = CtBlaize b \<and> (client_side N b \<or>
    (\<exists>url opts r. cn_fetch N url opts = Inr r \<and> \<not> response_ok r \<and> e = parseAndThrowErrorResponse (cn_id2 N) r))"
proof (cases "extractRoutePath registry meth routeName")
  case (Inl f)
  then obtain msg where "f = CtError ''Error'' ''Error'' msg"
    by (auto simp: extractRoutePath_def Let_def split: option.splits list.splits)
  then show ?thesis
    using transform_native [of f _ N] Inl assms(2) by (auto simp: makeRequest_def) (metis transform_context.select_convs(3))
next
  case (Inr path)
  then obtain f tc where f: "executeRequest N (buildUrl (cc_baseUrl config) path (ra_params args) (ra_query args))
      (buildRequestOptions (cn_stringify N) config meth args (Some (cn_id1 N))) = Inl f" "e = transformClientError f tc"
    using assms(2) by (auto simp: makeRequest_def Let_def split: sum.splits)
  from execute_failures [OF assms(1) f(1)] show ?thesis
  proof
    assume "\<exists>b. f = CtBlaize b \<and> client_side N b"
    then show ?thesis using f(2) by auto
  next
    assume "from_server N f"
    then obtain url opts r where r: "cn_fetch N url opts = Inr r" "\<not> response_ok r" "f = parseAndThrowErrorResponse (cn_id2 N) r"
      by (auto simp: from_server_def)
    obtain b where "f = CtBlaize b" using parse_throws_blaize [of "cn_id2 N" r] r(3) by auto
    then have "e = f" using f(2) by simp
    then show ?thesis using r \<open>f = CtBlaize b\<close> by blast
  qed
qed

definition refusing_env :: client_env where
  "refusing_env = \<lparr>cn_stringify = (\<lambda>v. ''{}''), cn_fetch = (\<lambda>url opts. Inl (CtError ''TypeError'' ''TypeError'' ''fetch failed'')),
     cn_id1 = ''client_1'', cn_id2 = ''client_2''\<rparr>"

definition sample_config :: client_config where
  "sample_config = \<lparr>cc_baseUrl = ''http://a'', cc_defaultHeaders = [], cc_timeout = 0\<rparr>"

definition no_args :: request_args where
  "no_args = \<lparr>ra_params = None, ra_query = None, ra_body = None, ra_files = None\<rparr>"

definition sample_registry :: route_registry where
  "sample_registry = [(''$get'', [(''users'', ''/users'')])]"

theorem failures_are_blaize_errors_witness:
  "\<exists>b. makeRequest refusing_env sample_config ''GET'' ''users'' no_args (Some sample_registry) = Inl (CtBlaize b) \<and>
     cr_status b = 0 \<and> cr_correlationId b = ''client_1''"
proof -
  have n: "native_failures refusing_env" by (simp add: native_failures_def refusing_env_def)
  obtain e where e: "makeRequest refusing_env sample_config ''GET'' ''users'' no_args (Some sample_registry) = Inl e"
    by (cases "makeRequest refusing_env sample_config ''GET'' ''users'' no_args (Some sample_registry)")
      (auto simp: makeRequest_def executeRequest_def refusing_env_def Let_def split: sum.splits)
  show ?thesis
    using failures_are_blaize_errors [OF n e] e by (auto simp: client_side_def) (simp_all add: refusing_env_def)
qed

text \<open>Errors of the server arrive unchanged. When the server answers a request with the JSON form of an error and
  a status that is no success, the client rejects with a \<open>BlaizeError\<close> of the same type, title, status,
  correlation id and details.\<close>
theorem server_errors_arrive:
  assumes "extractRoutePath registry meth routeName = Inr path" "\<And>url opts. cn_fetch N url opts = Inr r"
    and "\<not> response_ok r" "hr_json r = Inr (error_json e)"
  shows "makeRequest N config meth routeName args registry =
    Inl (CtBlaize \<lparr>cr_type = errorType_name (er_type e), cr_title = er_title e, cr_status = er_status e,
      cr_correlationId = er_correlationId e, cr_details = er_details e\<rparr>)"
proof -
  have "isBlaizeErrorResponse (error_json e)" by (simp add: isBlaizeErrorResponse_def error_json_def json_str_def)
  moreover have "createBlaizeErrorFromResponse (error_json e) =
    \<lparr>cr_type = errorType_name (er_type e), cr_title = er_title e, cr_status = er_status e,
      cr_correlationId = er_correlationId e, cr_details = er_details e\<rparr>"
    by (simp add: createBlaizeErrorFromResponse_def error_json_def text_field_def json_str_def split: option.split)
  ultimately show ?thesis
    using assms by (simp add: makeRequest_def executeRequest_def parseAndThrowErrorResponse_def)
qed

definition sample_error :: blaize_error where
  "sample_error = NotFoundError ''req_9'' ''2024'' ''No such user'' None"

definition missing_response :: http_response where
  "missing_response = \<lparr>hr_url = ''http://a/users'', hr_status = 404, hr_statusText = ''Not Found'', hr_headers = [],
     hr_json = Inr (error_json sample_error)\<rparr>"

theorem server_errors_arrive_witness:
  "makeRequest (refusing_env\<lparr>cn_fetch := (\<lambda>url opts. Inr missing_response)\<rparr>) sample_config ''GET'' ''users'' no_args (Some sample_registry) =
    Inl (CtBlaize \<lparr>cr_type = ''NOT_FOUND'', cr_title = ''No such user'', cr_status = 404, cr_correlationId = ''req_9'', cr_details = None\<rparr>)"
proof -
  have p: "extractRoutePath (Some sample_registry) ''GET'' ''users'' = Inr ''/users''" by code_simp
  show ?thesis
    by (subst server_errors_arrive [OF p, of _ missing_response sample_error])
      (simp_all add: missing_response_def response_ok_def sample_error_def NotFoundError_def BlaizeError_def)
qed

text \<open>A successful response without a body, such as status 204, is a failure for the client.\<close>
lemma no_content_is_a_failure:
  assumes "extractRoutePath registry meth routeName = Inr path" "\<And>url opts. cn_fetch N url opts = Inr r"
    and "hr_status r = 204" "hr_json r = Inl (CtError ''SyntaxError'' ''SyntaxError'' ''Unexpected end of JSON input'')"
  shows "\<exists>b. makeRequest N config meth routeName args registry = Inl (CtBlaize b) \<and> cr_type b = ''PARSE_ERROR''"
  using assms
  by (simp add: makeRequest_def executeRequest_def response_ok_def transformClientError_def isNetworkError_def isTimeoutError_def
      isParseError_def createParseError_def msg_includes_def)

section \<open>Files and forms\<close>

text \<open>\<open>file_within n v\<close>: there is a file in \<open>v\<close>, below at most \<open>n\<close> arrays or objects.\<close>
inductive file_within :: "nat \<Rightarrow> jsval \<Rightarrow> bool" where
  here: "isFileOrBlob v \<or> isReadableStream v \<Longrightarrow> file_within n v"
| in_array: "v \<in> set vs \<Longrightarrow> file_within n v \<Longrightarrow> file_within (Suc n) (VArr vs)"
| in_object: "(k, v) \<in> set es \<Longrightarrow> file_within n v \<Longrightarrow> file_within (Suc n) (VObj es)"

inductive_cases file_within_leafE: "file_within 0 v"
inductive_cases file_within_arrE: "file_within n (VArr vs)"
inductive_cases file_within_objE: "file_within n (VObj es)"

lemma contains_iff_within: "depth \<le> 3 \<Longrightarrow> containsFileObjectsRecursive v depth \<longleftrightarrow> file_within (3 - depth) v"
proof (induction v depth rule: containsFileObjectsRecursive.induct)
  case (1 obj depth)
  show ?case
  proof (cases "depth = 3 \<or> isFileOrBlob obj \<or> isReadableStream obj")
    case True
    then show ?thesis
      by (subst containsFileObjectsRecursive.simps) (auto simp: isFileOrBlob_def intro: here elim: file_within_leafE)
  next
    case False
    then have d: "3 - depth = Suc (3 - (depth + 1))" "\<not> depth \<ge> 3" and n: "\<not> (isFile obj \<or> isBlob obj \<or> isBuffer obj \<or> isReadableStream obj)"
      using 1(3) by (auto simp: isFileOrBlob_def)
    show ?thesis
    proof (cases obj)
      case (VArr vs)
      have "containsFileObjectsRecursive v (depth + 1) \<longleftrightarrow> file_within (3 - (depth + 1)) v" if "v \<in> set vs" for v
        using 1(1) [OF n d(2) VArr that] d by simp
      then show ?thesis
        unfolding VArr d(1) using d(2)
        by (subst containsFileObjectsRecursive.simps) (auto simp: list_ex_iff isFileOrBlob_def elim!: file_within_arrE intro: in_array)
    next
      case (VObj es)
      have "containsFileObjectsRecursive (snd x) (depth + 1) \<longleftrightarrow> file_within (3 - (depth + 1)) (snd x)" if "x \<in> set es" for x
        using 1(2) [OF n d(2) VObj that] d by simp
      then show ?thesis
        unfolding VObj d(1) using d(2)
        by (subst containsFileObjectsRecursive.simps)
          (auto simp: list_ex_iff isFileOrBlob_def elim!: file_within_objE intro: in_object, force)
    qed (use n in \<open>auto simp: containsFileObjectsRecursive.simps isFileOrBlob_def elim: file_within.cases\<close>)
  qed
qed

definition form_entries :: "(jsval \<Rightarrow> string) \<Rightarrow> string \<Rightarrow> jsval \<Rightarrow> form_data" where
  "form_entries str k v = appendToFormData str [] k v"

lemma append_form_entries: "appendToFormData str fd k v = fd @ form_entries str k v"
  by (cases v) (simp_all add: form_entries_def)

lemma foldl_form_entries:
  "foldl (\<lambda>fd (k, v). appendToFormData str fd k v) fd es = fd @ concat (map (\<lambda>(k, v). form_entries str k v) es)"
  by (induction es arbitrary: fd) (auto simp: append_form_entries)

definition merged :: "jsval option \<Rightarrow> jsval option \<Rightarrow> (string, jsval) js_map" where
  \<comment> \<open>the fields of body and files, files last\<close>
  "merged body files = foldl (\<lambda>m (k, w). map_set k w m) []
     ((case body of Some x \<Rightarrow> own_entries x | None \<Rightarrow> []) @ (case files of Some x \<Rightarrow> own_entries x | None \<Rightarrow> []))"

lemma buildFormData_merged:
  "buildFormData str body files = concat (map (\<lambda>(k, v). form_entries str k v) (merged body files))"
  by (simp add: buildFormData_def merged_def Let_def foldl_form_entries split: option.split)

lemma form_entries_file:
  "(j, FormFile f) \<in> set (form_entries str k v) \<longleftrightarrow> j = k \<and>
     (v = f \<and> isFileOrBlob f \<or> (\<exists>vs. v = VArr vs \<and> list_all isFileOrBlob vs \<and> f \<in> set vs))"
  by (cases v) (auto simp: form_entries_def isFileOrBlob_def)

text \<open>Which files an upload carries. The form built for a request contains a file under a name exactly when the
  field of that name, taken from the files or else from the body, is that file, blob or buffer, or an array
  of nothing but such values that contains it. Files deeper in objects or in mixed arrays,
  which the detection up to three levels finds, and streams are not among them.\<close>
theorem form_carries_direct_files:
  "((k, FormFile f) \<in> set (buildFormData str body files) \<longleftrightarrow>
     (\<exists>v. (k, v) \<in> set (merged body files) \<and>
        (v = f \<and> isFileOrBlob f \<or> (\<exists>vs. v = VArr vs \<and> list_all isFileOrBlob vs \<and> f \<in> set vs)))) \<and>
   (has_files body \<longleftrightarrow> (\<exists>v. body = Some v \<and> file_within 3 v))"
proof
  show "(k, FormFile f) \<in> set (buildFormData str body files) \<longleftrightarrow>
     (\<exists>v. (k, v) \<in> set (merged body files) \<and>
        (v = f \<and> isFileOrBlob f \<or> (\<exists>vs. v = VArr vs \<and> list_all isFileOrBlob vs \<and> f \<in> set vs)))"
    unfolding buildFormData_merged by (auto simp: form_entries_file)
  show "has_files body \<longleftrightarrow> (\<exists>v. body = Some v \<and> file_within 3 v)"
    using contains_iff_within [of 0] by (auto simp: has_files_def containsFileObjects_def split: option.split)
qed

text \<open>A file inside a nested object makes the request a form upload, and is then replaced by its JSON text; a file given
  directly as the body makes an empty form.\<close>
lemma nested_file_lost:
  fixes f :: nat
  defines "b \<equiv> VObj [(''profile'', VObj [(''avatar'', VFile f)])]"
  shows "has_files (Some b) \<and> buildFormData str (Some b) None = [(''profile'', FormText (str (VObj [(''avatar'', VFile f)])))]"
  by (simp add: b_def has_files_def containsFileObjects_def containsFileObjectsRecursive.simps buildFormData_def)

lemma file_body_lost: "has_files (Some (VFile f)) \<and> buildFormData str (Some (VFile f)) None = []"
  by (simp add: has_files_def containsFileObjects_def containsFileObjectsRecursive.simps buildFormData_def)

lemma form_requests_leave_content_type:
  assumes "toUpperCase meth \<notin> set [''GET'', ''HEAD'', ''DELETE'', ''OPTIONS'']"
    and "has_files (ra_files args) \<or> has_files (ra_body args)"
  shows "map_get (ro_headers (buildRequestOptions str config meth args cid)) ''Content-Type'' =
    map_get (cc_defaultHeaders config) ''Content-Type''"
  using assms by (auto simp: buildRequestOptions_def Let_def split: option.split list.split)

section \<open>The route registry of a client (\<open>client.ts\<close>, \<open>proxy.ts\<close>)\<close>

record client_route =
  cl_keys :: "string list"    \<comment> \<open>the keys of the route object, in order\<close>
  cl_path :: string

definition http_methods :: "string list" where
  "http_methods = [''GET'', ''POST'', ''PUT'', ''DELETE'', ''PATCH'', ''HEAD'', ''OPTIONS'']"

definition method_key :: "string \<Rightarrow> string" where
  "method_key m = CHR ''$'' # toLowerCase m"

definition organize_route :: "route_registry \<Rightarrow> string \<times> client_route \<Rightarrow> route_registry" where
  "organize_route organized r =
     (case find (\<lambda>k. k \<in> set http_methods) (cl_keys (snd r)) of
        None \<Rightarrow> organized
      | Some httpMethod \<Rightarrow>
          (let methodKey = method_key httpMethod;
               old = (case map_get organized methodKey of Some rs \<Rightarrow> rs | None \<Rightarrow> [])
           in map_set methodKey (map_set (fst r) (cl_path (snd r)) old) organized))"

definition organizeRoutesByMethod :: "(string \<times> client_route) list \<Rightarrow> route_registry" where
  "organizeRoutesByMethod routes = foldl organize_route [] routes"

definition proxy_call ::
  "client_env \<Rightarrow> client_config \<Rightarrow> (string \<times> client_route) list \<Rightarrow> string \<Rightarrow> string \<Rightarrow> request_args \<Rightarrow> (client_throw + json) option" where
  \<comment> \<open>\<open>client[namespace][routeName](args)\<close>; \<open>None\<close> where the proxies answer \<open>undefined\<close>\<close>
  "proxy_call N config routes namespace routeName args =
     (case namespace of
        c # rest \<Rightarrow>
          if c \<noteq> CHR ''$'' \<or> namespace = ''$sse'' then None
          else (let httpMethod = toUpperCase rest
                in case map_get (organizeRoutesByMethod routes) namespace of
                     None \<Rightarrow> None
                   | Some methodRoutes \<Rightarrow>
                       (case map_get methodRoutes routeName of
                          None \<Rightarrow> None
                        | Some path \<Rightarrow> Some (makeRequest N config httpMethod routeName args
                            (Some [(method_key httpMethod, [(routeName, path)])]))))
      | [] \<Rightarrow> None)"

definition registry_path :: "route_registry \<Rightarrow> string \<Rightarrow> string \<Rightarrow> string option" where
  "registry_path reg key name = (case map_get reg key of Some rs \<Rightarrow> map_get rs name | None \<Rightarrow> None)"

lemma registered_organize_route:
  "registry_path (organize_route reg (n, r)) key name =
     (if find (\<lambda>k. k \<in> set http_methods) (cl_keys r) \<noteq> None \<and>
         key = method_key (the (find (\<lambda>k. k \<in> set http_methods) (cl_keys r))) \<and> name = n
      then Some (cl_path r) else registry_path reg key name)"
  by (auto simp: organize_route_def registry_path_def Let_def split: option.split)

lemma registered_organize_other: "n \<notin> set (map fst routes) \<Longrightarrow> registry_path (foldl organize_route reg routes) key n = registry_path reg key n"
proof (induction routes arbitrary: reg)
  case (Cons r routes)
  then show ?case using registered_organize_route [of reg "fst r" "snd r" key n] by simp
qed simp

text \<open>A route is registered under its first HTTP method, and a call through the proxy requests its path.\<close>
lemma route_registered:
  assumes "distinct (map fst routes)" "(n, r) \<in> set routes" "find (\<lambda>k. k \<in> set http_methods) (cl_keys r) = Some m"
  shows "registry_path (organizeRoutesByMethod routes) (method_key m) n = Some (cl_path r)"
proof -
  have "registry_path (foldl organize_route reg routes) (method_key m) n = Some (cl_path r)" for reg
    using assms(1,2)
  proof (induction routes arbitrary: reg)
    case (Cons x routes)
    show ?case
    proof (cases "x = (n, r)")
      case True
      then show ?thesis
        using Cons.prems(1) assms(3) by (simp add: registered_organize_other registered_organize_route)
    next
      case False
      then show ?thesis using Cons by auto
    qed
  qed simp
  then show ?thesis by (simp add: organizeRoutesByMethod_def)
qed

lemma method_names: "m \<in> set http_methods \<Longrightarrow> toUpperCase (toLowerCase m) = m \<and> method_key m \<noteq> ''$sse''"
proof -
  have "list_all (\<lambda>m. toUpperCase (toLowerCase m) = m \<and> method_key m \<noteq> ''$sse'') http_methods" by code_simp
  then show "m \<in> set http_methods \<Longrightarrow> ?thesis" by (auto simp: list.pred_set)
qed

lemma proxy_requests_route:
  assumes "distinct (map fst routes)" "(n, r) \<in> set routes" "find (\<lambda>k. k \<in> set http_methods) (cl_keys r) = Some m"
  shows "proxy_call N config routes (method_key m) n args = Some (makeRequest N config m n args (Some [(method_key m, [(n, cl_path r)])]))"
proof -
  have "m \<in> set http_methods" using assms(3) by (auto simp: find_Some_iff)
  from method_names [OF this] show ?thesis
    using route_registered [OF assms] by (auto simp: proxy_call_def registry_path_def method_key_def Let_def split: option.splits)
qed

end
