(* ===== verification/Route_Discovery.thy ===== *)
theory Route_Discovery
  imports Complex_Main "HOL-Library.Char_ord" "HOL-Library.List_Lexorder" Route_Registry Blaize_Errors
begin

text \<open>
  Discovery of routes (\<open>router/discovery\<close>): the translation of file paths (\<open>parser.ts\<close>), the scan of
  a directory (\<open>finder.ts\<close>), the loading of modules (\<open>loader.ts\<close>, \<open>index.ts\<close>), the cache of loaded
  files (\<open>cache.ts\<close>), loading in parallel (\<open>parallel.ts\<close>), the watcher (\<open>watchers.ts\<close>) and the
  profiler (\<open>profiler.ts\<close>).

  A directory is a tree of names. What an \<open>import\<close> yields, the modification times, the digest of a
  text, \<open>path.relative\<close> and \<open>path.normalize\<close> are arguments. An exported object is its list of entries
  without \<open>path\<close>, as in \<open>route\<close>; \<open>has_handler\<close> says whether an entry has a handler. The module
  variables (the file cache, the profiler state) are passed explicitly. Console output is left out.
\<close>

section \<open>From file paths to route paths\<close>

record parsed_route =
  pr_filePath :: string
  pr_routePath :: string
  pr_params :: "string list"

definition strip_file_url :: "string \<Rightarrow> string" where
  "strip_file_url p = (if str_startsWith p ''file://'' then drop 7 p else p)"

definition forward_slashes :: "string \<Rightarrow> string" where
  "forward_slashes = map (\<lambda>c. if c = CHR 0x5C then CHR ''/'' else c)"

definition relative_path :: "(string \<Rightarrow> string \<Rightarrow> string) \<Rightarrow> string \<Rightarrow> string \<Rightarrow> string" where
  \<comment> \<open>on paths with forward slashes; \<open>relative\<close> is \<open>path.relative\<close>\<close>
  "relative_path relative filePath basePath =
     (let normalizedBasePath = (if str_endsWith basePath ''/'' then basePath else basePath @ ''/'')
      in if str_startsWith filePath normalizedBasePath then drop (length normalizedBasePath) filePath
         else if str_startsWith filePath basePath then
           (let r = drop (length basePath) filePath in if str_startsWith r ''/'' then drop 1 r else r)
         else forward_slashes (relative basePath filePath))"

definition remove_extension :: "string \<Rightarrow> string" where
  \<comment> \<open>\<open>.replace(/\.[^.]+$/, '')\<close>\<close>
  "remove_extension p =
     (let ext = takeWhile (\<lambda>c. c \<noteq> CHR ''.'') (rev p)
      in if ext \<noteq> [] \<and> CHR ''.'' \<in> set p then rev (drop (Suc (length ext)) (rev p)) else p)"

definition is_param_segment :: "string \<Rightarrow> bool" where
  "is_param_segment s \<longleftrightarrow> str_startsWith s ''['' \<and> str_endsWith s '']''"

definition param_name :: "string \<Rightarrow> string" where
  \<comment> \<open>\<open>segment.slice(1, -1)\<close>\<close>
  "param_name s = butlast (drop 1 s)"

definition route_segment :: "string \<Rightarrow> string" where
  "route_segment s = (if is_param_segment s then CHR '':'' # param_name s else s)"

definition strip_index :: "string \<Rightarrow> string" where
  "strip_index p =
     (if str_endsWith p ''/index'' then (let q = take (length p - 6) p in if q = [] then ''/'' else q) else p)"

definition parseRoutePath :: "(string \<Rightarrow> string \<Rightarrow> string) \<Rightarrow> string \<Rightarrow> string \<Rightarrow> parsed_route" where
  "parseRoutePath relative file base =
     (let filePath = strip_file_url file;
          basePath = strip_file_url base;
          relativePath = remove_extension (relative_path relative (forward_slashes filePath) (forward_slashes basePath));
          segments = filter (\<lambda>s. s \<noteq> []) (str_split (CHR ''/'') relativePath);
          routeSegments = map route_segment segments;
          routePath = (if routeSegments \<noteq> [] then ''/'' @ str_join ''/'' routeSegments else ''/'')
      in \<lparr>pr_filePath = filePath, pr_routePath = strip_index routePath,
          pr_params = map param_name (filter is_param_segment segments)\<rparr>)"

section \<open>Finding route files\<close>

datatype fs_node = FDir "(string \<times> fs_node) list" | FFile

definition isRouteFile :: "string \<Rightarrow> bool" where
  "isRouteFile filename \<longleftrightarrow>
     \<not> str_startsWith filename ''_'' \<and> (str_endsWith filename ''.ts'' \<or> str_endsWith filename ''.js'')"

fun scan_entry :: "string list \<Rightarrow> string \<Rightarrow> string \<times> fs_node \<Rightarrow> string list"
  and scanDirectory :: "string list \<Rightarrow> string \<Rightarrow> (string \<times> fs_node) list \<Rightarrow> string list" where
  "scan_entry ignore dir (name, FDir entries) =
     (if name \<in> set ignore then [] else scanDirectory ignore (dir @ ''/'' @ name) entries)"
| "scan_entry ignore dir (name, FFile) = (if isRouteFile name then [dir @ ''/'' @ name] else [])"
| "scanDirectory ignore dir [] = []"
| "scanDirectory ignore dir (e # es) = scan_entry ignore dir e @ scanDirectory ignore dir es"

datatype find_error = NotADirectory | DirectoryNotFound | StatFailed thrown

datatype stat_result = StatIs fs_node | StatNoEntry | StatError thrown

definition findRouteFiles :: "stat_result \<Rightarrow> string \<Rightarrow> string list option \<Rightarrow> find_error + string list" where
  \<comment> \<open>\<open>absoluteDir\<close> is the directory as an absolute path without a slash at the end\<close>
  "findRouteFiles stat absoluteDir ignore =
     (case stat of
        StatNoEntry \<Rightarrow> Inl DirectoryNotFound
      | StatError e \<Rightarrow> Inl (StatFailed e)
      | StatIs FFile \<Rightarrow> Inl NotADirectory
      | StatIs (FDir entries) \<Rightarrow>
          Inr (scanDirectory (case ignore of Some i \<Rightarrow> i | None \<Rightarrow> [''node_modules'', ''.git'']) absoluteDir entries))"

section \<open>Loading modules\<close>

datatype 'o exported = NotAnObject | ObjectWith "(string \<times> 'o option) list"

type_synonym 'o es_module = "(string, 'o exported) js_map"

type_synonym 'o importer = "string \<Rightarrow> 'o es_module option"
  \<comment> \<open>the exports in order, or \<open>None\<close> when the import rejects\<close>

definition dynamicImport :: "'o importer \<Rightarrow> string \<Rightarrow> string \<Rightarrow> 'o es_module option" where
  "dynamicImport imp now filePath =
     (case imp (filePath @ ''?t='' @ now) of Some m \<Rightarrow> Some m | None \<Rightarrow> imp filePath)"

definition HTTP_METHODS :: "string list" where
  "HTTP_METHODS = [''GET'', ''POST'', ''PUT'', ''DELETE'', ''PATCH'', ''HEAD'', ''OPTIONS'']"

definition isValidRoute :: "('o \<Rightarrow> bool) \<Rightarrow> (string \<times> 'o option) list \<Rightarrow> bool" where
  "isValidRoute has_handler entries \<longleftrightarrow>
     list_ex (\<lambda>m. case map_get entries m of Some (Some x) \<Rightarrow> has_handler x | _ \<Rightarrow> False) HTTP_METHODS"

definition default_route :: "string \<Rightarrow> 'o es_module \<Rightarrow> 'o route list" where
  "default_route path m =
     (case map_get m ''default'' of Some (ObjectWith es) \<Rightarrow> [\<lparr>r_path = path, r_methods = es\<rparr>] | _ \<Rightarrow> [])"

fun named_route :: "('o \<Rightarrow> bool) \<Rightarrow> string \<Rightarrow> string \<times> 'o exported \<Rightarrow> 'o route list" where
  "named_route has_handler path (name, NotAnObject) = []"
| "named_route has_handler path (name, ObjectWith es) =
     (if name = ''default'' then []
      else if isValidRoute has_handler es then [\<lparr>r_path = path, r_methods = es\<rparr>] else [])"

record 'o load_env =
  le_importer :: "'o importer"
  le_now :: string
  le_relative :: "string \<Rightarrow> string \<Rightarrow> string"
  le_has_handler :: "'o \<Rightarrow> bool"

definition loadRouteModule :: "'o load_env \<Rightarrow> string \<Rightarrow> string \<Rightarrow> 'o route list" where
  "loadRouteModule E filePath basePath =
     (let path = pr_routePath (parseRoutePath (le_relative E) filePath basePath)
      in case dynamicImport (le_importer E) (le_now E) filePath of
           None \<Rightarrow> []
         | Some m \<Rightarrow> default_route path m @ concat (map (named_route (le_has_handler E) path) m))"

definition findRoutes :: "'o load_env \<Rightarrow> stat_result \<Rightarrow> string \<Rightarrow> string list option \<Rightarrow> find_error + 'o route list" where
  "findRoutes E stat routesDir ignore =
     (case findRouteFiles stat routesDir ignore of
        Inl e \<Rightarrow> Inl e
      | Inr routeFiles \<Rightarrow> Inr (concat (map (\<lambda>f. loadRouteModule E f routesDir) routeFiles)))"

section \<open>The cache of loaded files\<close>

record 'o file_cache =
  fc_routes :: "'o route list"
  fc_timestamp :: int
  fc_hash :: string

type_synonym 'o route_cache = "(string, 'o file_cache) js_map"

record method_data =
  md_method :: string
  md_handler :: "string option"        \<comment> \<open>\<open>handler.toString()\<close>, or \<open>null\<close>\<close>
  md_middleware :: nat                 \<comment> \<open>the number of middleware functions\<close>
  md_hasSchema :: bool
  md_schemaKeys :: "string list"

record 'o cache_env = "'o load_env" +
  ce_mtime :: "string \<Rightarrow> int option"           \<comment> \<open>\<open>fs.stat(f).mtime\<close>; \<open>None\<close>: \<open>stat\<close> rejects\<close>
  ce_handlerText :: "'o \<Rightarrow> string option"
  ce_middleware :: "'o \<Rightarrow> nat"
  ce_schemaKeys :: "'o \<Rightarrow> string list option"
  ce_md5 :: "(string \<times> method_data list) list \<Rightarrow> string"   \<comment> \<open>the digest of the JSON text\<close>

definition method_data_of :: "'o cache_env \<Rightarrow> (string \<times> 'o option) list \<Rightarrow> string \<Rightarrow> method_data" where
  "method_data_of E entries m =
     (let d = (case map_get entries m of Some x \<Rightarrow> x | None \<Rightarrow> None)
      in \<lparr>md_method = m, md_handler = Option.bind d (ce_handlerText E),
          md_middleware = (case d of Some x \<Rightarrow> ce_middleware E x | None \<Rightarrow> 0),
          md_hasSchema = (case Option.bind d (ce_schemaKeys E) of Some ks \<Rightarrow> True | None \<Rightarrow> False),
          md_schemaKeys = (case Option.bind d (ce_schemaKeys E) of Some ks \<Rightarrow> sort ks | None \<Rightarrow> [])\<rparr>)"

definition hashRoutes :: "'o cache_env \<Rightarrow> 'o route list \<Rightarrow> string" where
  "hashRoutes E routes = ce_md5 E (map (\<lambda>r. (r_path r, map (method_data_of E (r_methods r)) (sort (map_keys (r_methods r))))) routes)"

definition processChangedFile ::
  "'o cache_env \<Rightarrow> string \<Rightarrow> string \<Rightarrow> bool \<Rightarrow> 'o route_cache \<Rightarrow> 'o route list option \<times> 'o route_cache" where
  \<comment> \<open>\<open>None\<close>: rejects\<close>
  "processChangedFile E filePath routesDir updateCache cache =
     (case ce_mtime E filePath of
        None \<Rightarrow> (None, cache)
      | Some lastModified \<Rightarrow>
          (case (if updateCache then map_get cache filePath else None) of
             Some entry \<Rightarrow>
               if fc_timestamp entry = lastModified then (Some (fc_routes entry), cache)
               else (let routes = loadRouteModule (load_env.truncate E) filePath routesDir
                     in (Some routes, map_set filePath \<lparr>fc_routes = routes, fc_timestamp = lastModified, fc_hash = hashRoutes E routes\<rparr> cache))
           | None \<Rightarrow>
               (let routes = loadRouteModule (load_env.truncate E) filePath routesDir
                in (Some routes, if updateCache
                    then map_set filePath \<lparr>fc_routes = routes, fc_timestamp = lastModified, fc_hash = hashRoutes E routes\<rparr> cache
                    else cache))))"

definition hasRouteContentChanged :: "'o cache_env \<Rightarrow> string \<Rightarrow> 'o route list \<Rightarrow> 'o route_cache \<Rightarrow> bool" where
  "hasRouteContentChanged E filePath newRoutes cache =
     (case map_get cache filePath of None \<Rightarrow> True | Some entry \<Rightarrow> fc_hash entry \<noteq> hashRoutes E newRoutes)"

definition clearFileCache :: "string option \<Rightarrow> 'o route_cache \<Rightarrow> 'o route_cache" where
  \<comment> \<open>an empty path is falsy\<close>
  "clearFileCache filePath cache = (case filePath of Some (c # p) \<Rightarrow> map_delete (c # p) cache | _ \<Rightarrow> [])"

section \<open>Loading in parallel\<close>

partial_function (option) chunk_loop :: "int \<Rightarrow> 'a list \<Rightarrow> int \<Rightarrow> 'a list list \<Rightarrow> 'a list list option" where
  "chunk_loop chunkSize array i chunks =
     (if i < int (length array)
      then chunk_loop chunkSize array (i + chunkSize) (chunks @ [js_slice i (i + chunkSize) array])
      else Some chunks)"

definition chunkArray :: "int \<Rightarrow> 'a list \<Rightarrow> 'a list list option" where
  \<comment> \<open>\<open>None\<close>: the loop does not end\<close>
  "chunkArray chunkSize array = chunk_loop chunkSize array 0 []"

type_synonym ('s, 'r) processor = "string \<Rightarrow> 's \<Rightarrow> 'r option \<times> 's"
  \<comment> \<open>\<open>None\<close>: the promise rejects; the state is what the processors share\<close>

fun settle_chunk :: "('s, 'r) processor \<Rightarrow> string list \<Rightarrow> 's \<Rightarrow> 'r list \<times> 's" where
  \<comment> \<open>the values of \<open>Promise.allSettled\<close> that are fulfilled; the processors run one after the other\<close>
  "settle_chunk processor [] s = ([], s)"
| "settle_chunk processor (f # fs) s =
     (let (r, s1) = processor f s; (rs, s2) = settle_chunk processor fs s1
      in ((case r of Some v \<Rightarrow> v # rs | None \<Rightarrow> rs), s2))"

fun process_chunks :: "('s, 'r) processor \<Rightarrow> string list list \<Rightarrow> 's \<Rightarrow> 'r list \<times> 's" where
  "process_chunks processor [] s = ([], s)"
| "process_chunks processor (c # cs) s =
     (let (rs, s1) = settle_chunk processor c s; (rest, s2) = process_chunks processor cs s1 in (rs @ rest, s2))"

definition processFilesInParallel :: "('s, 'r) processor \<Rightarrow> int \<Rightarrow> string list \<Rightarrow> 's \<Rightarrow> ('r list \<times> 's) option" where
  "processFilesInParallel processor concurrency filePaths s =
     map_option (\<lambda>chunks. process_chunks processor chunks s) (chunkArray concurrency filePaths)"

definition default_concurrency :: "nat \<Rightarrow> int" where
  "default_concurrency cpus = max 1 (int (cpus div 2))"

definition loadInitialRoutesParallel ::
  "'o cache_env \<Rightarrow> nat \<Rightarrow> stat_result \<Rightarrow> string \<Rightarrow> 'o route_cache \<Rightarrow> (find_error + 'o route list \<times> 'o route_cache) option" where
  "loadInitialRoutesParallel E cpus stat routesDir cache =
     (case findRouteFiles stat routesDir None of
        Inl e \<Rightarrow> Some (Inl e)
      | Inr filePaths \<Rightarrow>
          map_option (\<lambda>(rs, cache). Inr (concat rs, cache))
            (processFilesInParallel (\<lambda>f. processChangedFile E f routesDir True) (default_concurrency cpus) filePaths cache))"

section \<open>The watcher\<close>

datatype 'o watch_note =
    RouteAdded string "'o route list"
  | RouteChanged string "'o route list"
  | RouteRemoved string "'o route list"
  | WatchError

datatype watch_action = LoadFile | RemoveFile

record 'o watcher =
  w_pending :: "(string, watch_action) js_map"    \<comment> \<open>\<open>debouncedCallbacks\<close>: the timer armed for a file\<close>
  w_routesByPath :: "(string, 'o route list) js_map"
  w_cache :: "'o route_cache"
  w_notes :: "'o watch_note list"                 \<comment> \<open>the callbacks called, oldest first\<close>
  w_closed :: bool

definition note_that :: "'o watch_note \<Rightarrow> 'o watcher \<Rightarrow> 'o watcher" where
  "note_that x W = W\<lparr>w_notes := w_notes W @ [x]\<rparr>"

definition loadAndNotify :: "'o cache_env \<Rightarrow> (string \<Rightarrow> string) \<Rightarrow> string \<Rightarrow> string \<Rightarrow> 'o watcher \<Rightarrow> 'o watcher" where
  \<comment> \<open>the file is taken not to change between the two loads\<close>
  "loadAndNotify E norm_path routesDir filePath W =
     (let existingRoutes = map_get (w_routesByPath W) filePath
      in case fst (processChangedFile E filePath routesDir False (w_cache W)) of
           None \<Rightarrow> note_that WatchError W
         | Some newRoutes \<Rightarrow>
             if newRoutes = [] then W
             else if existingRoutes \<noteq> None \<and> \<not> hasRouteContentChanged E filePath newRoutes (w_cache W) then W
             else (let W = W\<lparr>w_cache := snd (processChangedFile E filePath routesDir True (w_cache W)),
                             w_routesByPath := map_set filePath newRoutes (w_routesByPath W)\<rparr>
                   in note_that ((if existingRoutes \<noteq> None then RouteChanged else RouteAdded) (norm_path filePath) newRoutes) W))"

definition handleRemoved :: "(string \<Rightarrow> string) \<Rightarrow> string \<Rightarrow> 'o watcher \<Rightarrow> 'o watcher" where
  "handleRemoved norm_path filePath W =
     (let normalizedPath = norm_path filePath;
          W1 = (case map_get (w_routesByPath W) normalizedPath of
                  Some (r # rs) \<Rightarrow> note_that (RouteRemoved normalizedPath (r # rs)) W
                | _ \<Rightarrow> W)
      in W1\<lparr>w_routesByPath := map_delete normalizedPath (w_routesByPath W1)\<rparr>)"

definition watchRoutes :: "'o route_cache \<Rightarrow> 'o watcher" where
  "watchRoutes cache = \<lparr>w_pending = [], w_routesByPath = [], w_cache = cache, w_notes = [], w_closed = False\<rparr>"

definition debounce :: "watch_action \<Rightarrow> string \<Rightarrow> 'o watcher \<Rightarrow> 'o watcher" where
  \<comment> \<open>the handlers of \<open>add\<close>, \<open>change\<close> and \<open>unlink\<close>: a timer armed for the file is replaced\<close>
  "debounce a filePath W = W\<lparr>w_pending := map_set filePath a (w_pending W)\<rparr>"

definition fire :: "'o cache_env \<Rightarrow> (string \<Rightarrow> string) \<Rightarrow> string \<Rightarrow> string \<Rightarrow> 'o watcher \<Rightarrow> 'o watcher" where
  \<comment> \<open>the timer of a file runs out\<close>
  "fire E norm_path routesDir filePath W =
     (case map_get (w_pending W) filePath of
        None \<Rightarrow> W
      | Some a \<Rightarrow>
          (let W1 = (case a of LoadFile \<Rightarrow> loadAndNotify E norm_path routesDir filePath W | RemoveFile \<Rightarrow> handleRemoved norm_path filePath W)
           in W1\<lparr>w_pending := map_delete filePath (w_pending W1)\<rparr>))"



section \<open>The profiler\<close>

record reload_metrics =
  rm_fileChanges :: nat
  rm_totalReloadTime :: int
  rm_averageReloadTime :: real
  rm_slowReloads :: "(string \<times> int) list"

definition resetReloadMetrics :: reload_metrics where
  "resetReloadMetrics = \<lparr>rm_fileChanges = 0, rm_totalReloadTime = 0, rm_averageReloadTime = 0, rm_slowReloads = []\<rparr>"

definition trackReloadPerformance :: "string \<Rightarrow> int \<Rightarrow> reload_metrics \<Rightarrow> reload_metrics" where
  \<comment> \<open>\<open>duration\<close> is \<open>Date.now() - startTime\<close>\<close>
  "trackReloadPerformance filePath duration M =
     (let changes = rm_fileChanges M + 1; total = rm_totalReloadTime M + duration;
          slow = (if duration > 100 then rm_slowReloads M @ [(filePath, duration)] else rm_slowReloads M)
      in \<lparr>rm_fileChanges = changes, rm_totalReloadTime = total, rm_averageReloadTime = of_int total / of_nat changes,
          rm_slowReloads = (if duration > 100 \<and> length slow > 10 then drop 1 slow else slow)\<rparr>)"

section \<open>Files and the URLs they serve\<close>

text \<open>
  A route file is given by the template of its segments: directories, with parameters in brackets,
  and the name of the file. A last segment \<open>index\<close> stands for its directory.
\<close>

fun file_segment :: "tseg \<Rightarrow> string" where
  "file_segment (Static s) = s"
| "file_segment (Param n) = ''['' @ n @ '']''"

fun file_seg_ok :: "tseg \<Rightarrow> bool" where
  "file_seg_ok (Static s) \<longleftrightarrow> seg_ok (Static s) \<and> CHR 0x5C \<notin> set s"
| "file_seg_ok (Param n) \<longleftrightarrow> seg_ok (Param n)"

definition route_file :: "string \<Rightarrow> tseg list \<Rightarrow> string \<Rightarrow> string" where
  "route_file base t ext = base @ ''/'' @ str_join ''/'' (map file_segment t) @ ''.'' @ ext"

definition served :: "tseg list \<Rightarrow> tseg list" where
  "served t = (if t \<noteq> [] \<and> last t = Static ''index'' then butlast t else t)"

definition base_ok :: "string \<Rightarrow> bool" where
  \<comment> \<open>an absolute directory, without a slash at the end\<close>
  "base_ok base \<longleftrightarrow> base \<noteq> [] \<and> hd base = CHR ''/'' \<and> last base \<noteq> CHR ''/'' \<and> CHR 0x5C \<notin> set base"

definition ext_ok :: "string \<Rightarrow> bool" where
  "ext_ok ext \<longleftrightarrow> ext \<noteq> [] \<and> CHR ''.'' \<notin> set ext \<and> CHR 0x5C \<notin> set ext"

lemma file_seg_seg: "file_seg_ok g \<Longrightarrow> seg_ok g"
  by (cases g) simp_all

lemma file_segment_chars:
  assumes "file_seg_ok g"
  shows "file_segment g \<noteq> []" "CHR ''/'' \<notin> set (file_segment g)" "CHR 0x5C \<notin> set (file_segment g)"
  using assms by (cases g; auto)+

lemma is_param_file_segment: "file_seg_ok g \<Longrightarrow> is_param_segment (file_segment g) \<longleftrightarrow> (\<exists>n. g = Param n)"
  by (cases g) (auto simp: is_param_segment_def str_startsWith_iff str_endsWith_iff)

lemma param_name_file [simp]: "param_name (file_segment (Param n)) = n"
  by (simp add: param_name_def)

lemma route_file_segment: assumes "file_seg_ok g" shows "route_segment (file_segment g) = seg_text g"
  using is_param_file_segment [OF assms] param_name_file
  by (cases g) (auto simp: route_segment_def simp del: file_segment.simps(2))

lemma file_params: "list_all file_seg_ok t \<Longrightarrow> map param_name (filter is_param_segment (map file_segment t)) = names t"
proof (induction t)
  case (Cons g t)
  then show ?case using is_param_file_segment [of g] param_name_file by (cases g) (auto simp del: file_segment.simps(2))
qed simp

lemma no_slash_joined: "\<forall>w\<in>set ws. c \<notin> set w \<Longrightarrow> c \<noteq> d \<Longrightarrow> c \<notin> set (str_join [d] ws)"
  by (induction "[d]" ws rule: str_join.induct) auto

lemma forward_slashes_id: "CHR 0x5C \<notin> set p \<Longrightarrow> forward_slashes p = p"
  unfolding forward_slashes_def by (rule map_idI) auto

lemma remove_extension_ext: "ext_ok ext \<Longrightarrow> remove_extension (p @ ''.'' @ ext) = p"
proof -
  assume ok: "ext_ok ext"
  have "takeWhile (\<lambda>c. c \<noteq> CHR ''.'') (rev (p @ ''.'' @ ext)) = rev ext"
    using ok by (simp add: ext_ok_def takeWhile_append)
  then show ?thesis using ok by (simp add: remove_extension_def ext_ok_def)
qed

lemma render_joined: "t \<noteq> [] \<Longrightarrow> ''/'' @ str_join ''/'' (map seg_text t) = render t"
proof (induction t)
  case (Cons g t)
  then show ?case by (cases t) (simp_all add: str_join_Cons)
qed simp

lemma render_snoc: "render (t @ [g]) = render t @ CHR ''/'' # seg_text g"
  by (simp add: render_def)

lemma ends_index:
  assumes "CHR ''/'' \<notin> set s"
  shows "str_endsWith (p @ CHR ''/'' # s) ''/index'' \<longleftrightarrow> s = ''index''"
proof
  assume "str_endsWith (p @ CHR ''/'' # s) ''/index''"
  then obtain r where r: "p @ CHR ''/'' # s = r @ CHR ''/'' # ''index''" by (auto simp: str_endsWith_iff)
  have e: "takeWhile (\<lambda>c. c \<noteq> CHR ''/'') (rev (q @ CHR ''/'' # w)) = rev w" if "CHR ''/'' \<notin> set w" for q w
    using that by (simp add: takeWhile_append)
  have "rev s = rev ''index''" using e [OF assms, of p] e [of "''index''" r] r by simp
  then show "s = ''index''" by simp
next
  assume "s = ''index''"
  then show "str_endsWith (p @ CHR ''/'' # s) ''/index''" by (auto simp: str_endsWith_iff)
qed

lemma strip_index_render:
  assumes "t \<noteq> []" "list_all seg_ok t"
  shows "strip_index (render t) = (if served t = [] then ''/'' else render (served t))"
proof -
  obtain u g where t: "t = u @ [g]" using assms(1) by (cases t rule: rev_cases) simp_all
  have s: "CHR ''/'' \<notin> set (seg_text g)" "seg_text g = ''index'' \<longleftrightarrow> g = Static ''index''"
    using assms(2) t by (cases g; auto)+
  show ?thesis
  proof (cases "g = Static ''index''")
    case True
    then have "str_endsWith (render t) ''/index''" "take (length (render t) - 6) (render t) = render u"
      using ends_index [OF s(1), of "render u"] by (simp_all add: t render_snoc)
    then show ?thesis using True t by (cases u) (simp_all add: strip_index_def served_def Let_def)
  next
    case False
    then have "\<not> str_endsWith (render t) ''/index''" using ends_index [OF s(1), of "render u"] s(2) by (simp add: t render_snoc)
    then show ?thesis using False t by (simp add: strip_index_def served_def)
  qed
qed

lemma names_served: "names (served t) = names t"
proof -
  have "names (u @ [Static s]) = names u" for u s by (induction u rule: names.induct) simp_all
  then show ?thesis by (cases t rule: rev_cases) (auto simp: served_def)
qed

lemma parse_route_file:
  assumes base: "base_ok base" and t: "t \<noteq> []" "list_all file_seg_ok t" and ext: "ext_ok ext"
  shows "parseRoutePath relative (route_file base t ext) base =
    \<lparr>pr_filePath = route_file base t ext, pr_routePath = (if served t = [] then ''/'' else render (served t)), pr_params = names t\<rparr>"
proof -
  let ?j = "str_join ''/'' (map file_segment t)"
  have ok: "list_all seg_ok t" using t(2) file_seg_seg by (auto simp: list_all_iff)
  have segs: "\<forall>w\<in>set (map file_segment t). CHR ''/'' \<notin> set w \<and> CHR 0x5C \<notin> set w \<and> w \<noteq> []"
    using t(2) file_segment_chars by (auto simp: list_all_iff)
  have url: "strip_file_url p = p" if "p \<noteq> []" "hd p = CHR ''/''" for p
    using that by (cases p) (auto simp: strip_file_url_def)
  have "CHR 0x5C \<notin> set (route_file base t ext)"
    using base ext segs no_slash_joined [of "map file_segment t" "CHR 0x5C" "CHR ''/''"] by (auto simp: route_file_def base_ok_def ext_ok_def)
  then have fwd: "forward_slashes (route_file base t ext) = route_file base t ext" "forward_slashes base = base"
    using base by (simp_all add: forward_slashes_id base_ok_def)
  have "\<not> str_endsWith base ''/''" using base by (auto simp: base_ok_def str_endsWith_iff)
  then have "relative_path relative (route_file base t ext) base = ?j @ ''.'' @ ext"
    by (simp add: relative_path_def route_file_def str_startsWith_iff Let_def)
  then have rel: "remove_extension (relative_path relative (route_file base t ext) base) = ?j"
    using remove_extension_ext [OF ext] by simp
  have split: "filter (\<lambda>s. s \<noteq> []) (str_split (CHR ''/'') ?j) = map file_segment t"
    using split_join [of "map file_segment t" "CHR ''/''"] t(1) segs by (auto intro!: filter_True)
  have routes: "map route_segment (map file_segment t) = map seg_text t"
    using t(2) route_file_segment by (simp add: list_all_iff)
  have strips: "strip_file_url (route_file base t ext) = route_file base t ext" "strip_file_url base = base"
    using base by (auto simp: url base_ok_def route_file_def)
  show ?thesis
    unfolding parseRoutePath_def Let_def strips fwd rel split routes file_params [OF t(2)]
    using t(1) render_joined [OF t(1)] strip_index_render [OF t(1) ok] by simp
qed

definition page_url :: "tseg list \<Rightarrow> string list \<Rightarrow> string" where
  "page_url t vs = (if served t = [] then ''/'' else fill (served t) vs)"

lemma served_ok: "list_all file_seg_ok t \<Longrightarrow> list_all seg_ok (served t)"
  using file_seg_seg by (auto simp: served_def list_all_iff dest: in_set_butlastD)

text \<open>C19: A route file is served at the URLs its place in the directory says. For a file below the
  routes directory whose directories and name are fixed texts or bracketed parameters, the route
  path that discovery derives compiles to a pattern that accepts the URL obtained by filling the
  parameters with non-empty values without a slash, and the handler receives exactly those values
  under the names in brackets. A file \<open>index\<close> serves its directory.\<close>
theorem route_file_serves_its_urls:
  assumes "base_ok base" "t \<noteq> []" "list_all file_seg_ok t" "ext_ok ext" "distinct (names t)"
    "list_all value_ok vs" "length vs = length (names t)"
  shows "\<exists>c. compilePathPattern (pr_routePath (parseRoutePath relative (route_file base t ext) base)) = Some c \<and>
    rx_exec (cp_pattern c) (page_url t vs) = Some vs \<and>
    extractParams (page_url t vs) (cp_pattern c) (cp_paramNames c) = zip (names t) vs \<and>
    pr_params (parseRoutePath relative (route_file base t ext) base) = names t"
proof (cases "served t = []")
  case True
  then have "names t = []" using names_served [of t] by simp
  then show ?thesis
    using parse_route_file [OF assms(1-4), of relative] True assms(7)
    by (simp add: page_url_def compilePathPattern_def rx_exec_def extractParams_def)
next
  case False
  from pattern_accepts_fill [OF False served_ok [OF assms(3)] assms(6)] show ?thesis
    using parse_route_file [OF assms(1-4), of relative] False assms(5,7) by (auto simp: page_url_def names_served)
qed

theorem route_file_serves_its_urls_witness:
  "\<exists>c. compilePathPattern (pr_routePath (parseRoutePath (\<lambda>b f. []) ''/app/routes/users/[id]/index.ts'' ''/app/routes'')) = Some c \<and>
     extractParams ''/users/42'' (cp_pattern c) (cp_paramNames c) = [(''id'', ''42'')]"
proof -
  let ?t = "[Static ''users'', Param ''id'', Static ''index'']"
  have ok: "base_ok ''/app/routes''" "?t \<noteq> []" "list_all file_seg_ok ?t" "ext_ok ''ts''" "distinct (names ?t)"
    "list_all value_ok [''42'']" "length [''42''] = length (names ?t)"
    by (simp_all add: base_ok_def ext_ok_def value_ok_def regex_special_def)
  have f: "route_file ''/app/routes'' ?t ''ts'' = ''/app/routes/users/[id]/index.ts''" "page_url ?t [''42''] = ''/users/42''"
    by (simp_all add: route_file_def page_url_def served_def)
  show ?thesis using route_file_serves_its_urls [OF ok, of "\<lambda>b f. []"] f by auto
qed

text \<open>A directory whose name merely starts like the routes directory counts as inside it.\<close>

lemma sibling_directory_taken_as_inside:
  "pr_routePath (parseRoutePath relative ''/app/routes-old/users.ts'' ''/app/routes'') = ''/-old/users''"
  by (simp add: parseRoutePath_def strip_file_url_def forward_slashes_def relative_path_def str_endsWith_def
      remove_extension_def strip_index_def route_segment_def is_param_segment_def Let_def)

text \<open>The scan takes test files and declaration files for routes, which the watcher ignores.\<close>

lemma tests_are_route_files: "isRouteFile ''users.test.ts''" "isRouteFile ''users.d.ts''"
  by code_simp+

lemma scan_finds:
  "f \<in> set (scan_entry ignore dir e) \<Longrightarrow> \<exists>d name. f = d @ ''/'' @ name \<and> isRouteFile name \<and> (\<exists>r. d = dir @ r)"
  "f \<in> set (scanDirectory ignore dir es) \<Longrightarrow> \<exists>d name. f = d @ ''/'' @ name \<and> isRouteFile name \<and> (\<exists>r. d = dir @ r)"
proof (induction ignore dir e and ignore dir es rule: scan_entry_scanDirectory.induct)
  case (1 ignore dir name entries)
  from 1(2) have "f \<in> set (scanDirectory ignore (dir @ ''/'' @ name) entries)" "name \<notin> set ignore" by (auto split: if_splits)
  from 1(1) [OF this(2,1)] show ?case by auto
next
  case (2 ignore dir name)
  then show ?case by (intro exI [of _ dir] exI [of _ name]) (auto split: if_splits)
qed auto

section \<open>Loading all files\<close>

lemma chunk_loop_returns:
  assumes "0 < n" "0 \<le> i"
  shows "\<exists>cs. chunk_loop n xs i acc = Some (acc @ cs) \<and> concat cs = drop (nat i) xs \<and> (\<forall>c\<in>set cs. c \<noteq> [] \<and> int (length c) \<le> n)"
  using assms
proof (induction "nat (int (length xs) - i)" arbitrary: i acc rule: less_induct)
  case less
  show ?case
  proof (cases "i < int (length xs)")
    case True
    obtain cs where cs: "chunk_loop n xs (i + n) (acc @ [js_slice i (i + n) xs]) = Some ((acc @ [js_slice i (i + n) xs]) @ cs)"
      "concat cs = drop (nat (i + n)) xs" "\<forall>c\<in>set cs. c \<noteq> [] \<and> int (length c) \<le> n"
      using less(1) [of "i + n" "acc @ [js_slice i (i + n) xs]"] less(2,3) True by auto
    have s: "js_slice i (i + n) xs = take (nat n) (drop (nat i) xs)"
      using less(2,3) by (simp add: js_slice_nonneg nat_add_distrib)
    have "concat (js_slice i (i + n) xs # cs) = drop (nat i) xs"
      using less(2,3) append_take_drop_id [of "nat n" "drop (nat i) xs"] by (simp add: s cs(2) nat_add_distrib add.commute)
    moreover have "js_slice i (i + n) xs \<noteq> []" "int (length (js_slice i (i + n) xs)) \<le> n"
      using True less(2,3) by (simp_all add: s nat_less_iff)
    moreover have "chunk_loop n xs i acc = Some (acc @ js_slice i (i + n) xs # cs)"
      using cs(1) True by (subst chunk_loop.simps) simp
    ultimately show ?thesis using cs(3) by (intro exI [of _ "js_slice i (i + n) xs # cs"]) simp
  next
    case False
    then show ?thesis using less(3) by (subst chunk_loop.simps) auto
  qed
qed

lemma chunkArray_partition:
  assumes "0 < n"
  shows "\<exists>cs. chunkArray n xs = Some cs \<and> concat cs = xs \<and> (\<forall>c\<in>set cs. c \<noteq> [] \<and> int (length c) \<le> n)"
  using chunk_loop_returns [OF assms, of 0 xs "[]"] by (auto simp: chunkArray_def)

lemma process_chunks_concat: "process_chunks p cs s = settle_chunk p (concat cs) s"
proof -
  have app: "settle_chunk p (xs @ ys) s = (let (a, s1) = settle_chunk p xs s; (b, s2) = settle_chunk p ys s1 in (a @ b, s2))" for xs ys s
    by (induction xs arbitrary: s) (auto simp: Let_def split: prod.splits option.splits)
  show ?thesis by (induction cs arbitrary: s) (simp_all add: app)
qed

definition cache_current :: "'o cache_env \<Rightarrow> string \<Rightarrow> 'o route_cache \<Rightarrow> bool" where
  \<comment> \<open>an entry whose time is that of the file holds what the file exports\<close>
  "cache_current E dir cache \<longleftrightarrow> (\<forall>f e. map_get cache f = Some e \<longrightarrow> ce_mtime E f = Some (fc_timestamp e) \<longrightarrow>
     fc_routes e = loadRouteModule (load_env.truncate E) f dir)"

lemma process_current:
  assumes "cache_current E dir cache" "ce_mtime E f \<noteq> None"
  shows "fst (processChangedFile E f dir upd cache) = Some (loadRouteModule (load_env.truncate E) f dir)"
    "cache_current E dir (snd (processChangedFile E f dir upd cache))"
proof -
  obtain t where t: "ce_mtime E f = Some t" using assms(2) by blast
  show "fst (processChangedFile E f dir upd cache) = Some (loadRouteModule (load_env.truncate E) f dir)"
    using assms(1) t by (auto simp: processChangedFile_def cache_current_def Let_def split: option.split)
  show "cache_current E dir (snd (processChangedFile E f dir upd cache))"
    using assms(1) t by (auto simp: processChangedFile_def cache_current_def Let_def split: option.split)
qed

lemma settle_current:
  assumes "\<forall>f\<in>set fs. ce_mtime E f \<noteq> None" "cache_current E dir cache"
  shows "fst (settle_chunk (\<lambda>f. processChangedFile E f dir True) fs cache) = map (\<lambda>f. loadRouteModule (load_env.truncate E) f dir) fs \<and>
    cache_current E dir (snd (settle_chunk (\<lambda>f. processChangedFile E f dir True) fs cache))"
  using assms
proof (induction fs arbitrary: cache)
  case (Cons f fs)
  note p = process_current [of E dir cache f True]
  show ?case
    using Cons.IH [of "snd (processChangedFile E f dir True cache)"] Cons.prems p by (simp add: Let_def split_beta)
qed simp

text \<open>Loading in parallel finds the routes that loading one file after the other finds, in the same
  order, whatever the number of processors. The loop over the chunks ends, the cache it leaves is
  current, and starting from a current cache no route is stale. (Every file can be examined; the
  sequential loader does not examine files, so one that cannot be would be missing here only.)\<close>
theorem parallel_loading_is_sequential:
  assumes "cache_current E dir cache" "findRouteFiles stat dir None = Inr files" "\<forall>f\<in>set files. ce_mtime E f \<noteq> None"
  shows "\<exists>routes cache'. loadInitialRoutesParallel E cpus stat dir cache = Some (Inr (routes, cache')) \<and>
    findRoutes (load_env.truncate E) stat dir None = Inr routes \<and> cache_current E dir cache'"
proof -
  have "0 < default_concurrency cpus" by (simp add: default_concurrency_def)
  then obtain cs where cs: "chunkArray (default_concurrency cpus) files = Some cs" "concat cs = files"
    using chunkArray_partition by blast
  show ?thesis
    using settle_current [OF assms(3,1)] cs assms(2)
    by (auto simp: loadInitialRoutesParallel_def processFilesInParallel_def process_chunks_concat findRoutes_def split_beta)
qed

section \<open>What the watcher reports\<close>


















definition disk_with :: "nat es_module option \<Rightarrow> int \<Rightarrow> nat cache_env" where
  "disk_with m t = \<lparr>le_importer = (\<lambda>f. m), le_now = ''0'', le_relative = (\<lambda>b f. f), le_has_handler = (\<lambda>x. True),
     ce_mtime = (\<lambda>f. Some t), ce_handlerText = (\<lambda>x. Some ''handler''), ce_middleware = (\<lambda>x. 0), ce_schemaKeys = (\<lambda>x. None),
     ce_md5 = concat \<circ> map (\<lambda>(p, ms). p @ concat (map md_method ms))\<rparr>"

definition get_only :: "nat es_module" where
  "get_only = [(''GET'', ObjectWith [(''GET'', Some 1)])]"


definition edited :: "nat es_module option \<Rightarrow> nat es_module option \<Rightarrow> nat watcher" where
  \<comment> \<open>a file is added, edited, and each time its timer runs out\<close>
  "edited m1 m2 =
     fire (disk_with m2 2) (\<lambda>p. p) ''/r'' ''/r/a.ts'' (debounce LoadFile ''/r/a.ts''
    (fire (disk_with m1 1) (\<lambda>p. p) ''/r'' ''/r/a.ts'' (debounce LoadFile ''/r/a.ts'' (watchRoutes []))))"






theorem parallel_loading_is_sequential_witness:
  "\<exists>routes cache'. loadInitialRoutesParallel (disk_with (Some get_only) 1) 8 (StatIs (FDir [(''a.ts'', FFile)])) ''/r'' [] =
     Some (Inr (routes, cache')) \<and>
   findRoutes (load_env.truncate (disk_with (Some get_only) 1)) (StatIs (FDir [(''a.ts'', FFile)])) ''/r'' None = Inr routes"
proof -
  have "cache_current (disk_with (Some get_only) 1) ''/r'' []" by (simp add: cache_current_def)
  moreover have "findRouteFiles (StatIs (FDir [(''a.ts'', FFile)])) ''/r'' None = Inr [''/r/a.ts'']" by code_simp
  moreover have "\<forall>f\<in>set [''/r/a.ts'']. ce_mtime (disk_with (Some get_only) 1) f \<noteq> None" by (simp add: disk_with_def)
  ultimately show ?thesis using parallel_loading_is_sequential [of "disk_with (Some get_only) 1" "''/r''" "[]" _ _ 8] by blast
qed

text \<open>A file edited until it exports no route, or until it cannot be imported, keeps its old routes.\<close>

lemma emptied_file_keeps_routes:
  "w_routesByPath (edited (Some get_only) (Some [])) = [(''/r/a.ts'', [\<lparr>r_path = ''/a'', r_methods = [(''GET'', Some 1)]\<rparr>])]"
  "w_routesByPath (edited (Some get_only) None) = [(''/r/a.ts'', [\<lparr>r_path = ''/a'', r_methods = [(''GET'', Some 1)]\<rparr>])]"
  by code_simp+

text \<open>
  A file with two named exports gives two routes of one path. The registry keeps the last; when the
  file is loaded again, unchanged, the first counts as changed and its update removes the entries of
  the second from the matcher.
\<close>

definition two_exports :: "nat es_module" where
  "two_exports = [(''list'', ObjectWith [(''GET'', Some 1)]), (''make'', ObjectWith [(''POST'', Some 2)])]"

definition reloaded :: "nat router" where
  "reloaded = (let rs = loadRouteModule (load_env.truncate (disk_with (Some two_exports) 1)) ''/r/a.ts'' ''/r'';
                   R = onRouteAdded compiled None ''/r/a.ts'' rs (createRouter ''/r'')
               in onRouteChanged compiled None ''/r/a.ts'' rs R)"

lemma named_export_lost_on_reload:
  "handleRequest ''GET'' ''/a'' reloaded = ExecuteOutcome 1 []"
  "handleRequest ''POST'' ''/a'' reloaded = MethodNotAllowedOutcome [''GET'']"
  by code_simp+

text \<open>
  The digest does not depend on the order in which a route lists its methods. It sees the text of a
  handler only: a change of what the handler calls or of a schema with the same keys leaves it as it
  is, and the watcher keeps the old routes.
\<close>

lemma hash_ignores_order:
  assumes "mset ms = mset ms'" "map_ok ms"
  shows "hashRoutes E [\<lparr>r_path = p, r_methods = ms\<rparr>] = hashRoutes E [\<lparr>r_path = p, r_methods = ms'\<rparr>]"
proof -
  have "mset (map fst ms) = mset (map fst ms')" using assms(1) by (metis mset_map)
  then have "sort (map fst ms) = sort (map fst ms')" "map_ok ms'"
    using assms(2) by (metis sorted_list_of_multiset_mset, metis mset_eq_imp_distinct_iff)
  moreover have "map_of ms = map_of ms'"
    using assms \<open>map_ok ms'\<close> by (metis map_of_inject_set mset_eq_setD)
  moreover have "method_data_of E ms = method_data_of E ms'" using calculation(3) by (intro ext) (simp add: method_data_of_def)
  ultimately show ?thesis by (simp add: hashRoutes_def)
qed

lemma same_digest_keeps_routes:
  assumes "map_get (w_routesByPath W) f = Some old" "map_get (w_cache W) f = Some e" "ce_mtime E f = Some t"
    "fc_hash e = hashRoutes E (loadRouteModule (load_env.truncate E) f dir)"
  shows "loadAndNotify E norm_path dir f W = W"
  using assms by (simp add: loadAndNotify_def processChangedFile_def hasRouteContentChanged_def Let_def)

section \<open>Reload times\<close>

definition profile :: "(string \<times> int) list \<Rightarrow> reload_metrics" where
  "profile reloads = foldl (\<lambda>M (f, d). trackReloadPerformance f d M) resetReloadMetrics reloads"

lemma profile_exact:
  "rm_fileChanges (profile reloads) = length reloads \<and> rm_totalReloadTime (profile reloads) = sum_list (map snd reloads) \<and>
   (reloads \<noteq> [] \<longrightarrow> rm_averageReloadTime (profile reloads) = of_int (sum_list (map snd reloads)) / of_nat (length reloads)) \<and>
   rm_slowReloads (profile reloads) = (let slow = filter (\<lambda>(f, d). d > 100) reloads in drop (length slow - 10) slow)"
proof (induction reloads rule: rev_induct)
  case Nil
  then show ?case by (simp add: profile_def resetReloadMetrics_def)
next
  case (snoc r reloads)
  obtain f d where r: "r = (f, d)" by (cases r)
  have "profile (reloads @ [r]) = trackReloadPerformance f d (profile reloads)" by (simp add: profile_def r)
  moreover have "9 < n - (n - 10) \<Longrightarrow> Suc (n - 10) = n - 9" for n :: nat by arith
  ultimately show ?case using snoc r by (auto simp: trackReloadPerformance_def Let_def Suc_diff_le)
qed

end
