(* ===== verification/Route_Tree.thy ===== *)
theory Route_Tree
  imports Route_Pattern
begin

text \<open>
  The route tree (\<open>router/matching/tree.ts\<close>): routes added by path and method, and a search with
  backtracking that tries, segment by segment, the child of that name, then the parameter children,
  then a wildcard, and collects parameters in one object that it changes as it goes.

  A node is a value; \<open>add\<close>, which follows references and changes the last node, is an update along
  the path. The object of parameters is passed through the search. A \<open>pattern\<close> field of nodes is
  written by the code and never read, and left out. Handlers are objects and so never falsy.
\<close>

section \<open>Nodes\<close>

datatype 'o route_node = RouteNode
  (rn_segment: string)
  (rn_paramName: "string option")
  (rn_isWildcard: bool)
  (rn_children: "'o route_node list")
  (rn_handlers: "(string, 'o) js_map")

definition createRouteTree :: "'o route_node" where
  "createRouteTree = RouteNode [] None False [] []"

definition isParam :: "string \<Rightarrow> bool" where
  "isParam segment \<longleftrightarrow> str_startsWith segment '':''"

definition new_node :: "string \<Rightarrow> 'o route_node" where
  "new_node segment =
     RouteNode segment (if isParam segment then Some (drop 1 segment) else None) (segment = ''*'') [] []"

definition child_matches :: "string \<Rightarrow> 'o route_node \<Rightarrow> bool" where
  "child_matches segment child \<longleftrightarrow>
     rn_segment child = segment \<or> (rn_isWildcard child \<and> segment = ''*'') \<or>
     (rn_paramName child \<noteq> None \<and> isParam segment \<and> rn_paramName child = Some (drop 1 segment))"

section \<open>Adding a route\<close>

function (sequential) add_below :: "string \<Rightarrow> 'o \<Rightarrow> string list \<Rightarrow> 'o route_node \<Rightarrow> 'o route_node"
  and add_child :: "string \<Rightarrow> 'o \<Rightarrow> string \<Rightarrow> string list \<Rightarrow> 'o route_node list \<Rightarrow> 'o route_node list" where
  "add_below meth handler [] (RouteNode s p w cs hs) = RouteNode s p w cs (map_set meth handler hs)"
| "add_below meth handler (t # ts) (RouteNode s p w cs hs) = RouteNode s p w (add_child meth handler t ts cs) hs"
| "add_child meth handler t ts [] = [add_below meth handler ts (new_node t)]"
| "add_child meth handler t ts (c # cs) =
     (if child_matches t c then add_below meth handler ts c # cs else c # add_child meth handler t ts cs)"
  by pat_completeness auto
termination
  by (relation "measures [case_sum (\<lambda>(_, _, ts, _). 2 * length ts) (\<lambda>(_, _, _, ts, _). 2 * length ts + 1),
        case_sum (\<lambda>_. 0) (\<lambda>(_, _, _, _, cs). length cs)]") auto

definition path_segments :: "string \<Rightarrow> string list" where
  "path_segments path = filter (\<lambda>s. s \<noteq> []) (str_split (CHR ''/'') (if str_startsWith path ''/'' then path else ''/'' @ path))"

definition tree_add :: "string \<Rightarrow> string \<Rightarrow> 'o \<Rightarrow> 'o route_node \<Rightarrow> 'o route_node" where
  "tree_add path meth handler top_node = add_below meth handler (path_segments path) top_node"

section \<open>Matching\<close>

type_synonym tree_params = "(string, string) js_map"

definition match_wildcard :: "string \<Rightarrow> string list \<Rightarrow> 'o route_node list \<Rightarrow> tree_params \<Rightarrow> 'o option \<times> tree_params" where
  "match_wildcard meth segments children params =
     (case find rn_isWildcard children of
        None \<Rightarrow> (None, params)
      | Some child \<Rightarrow> (map_get (rn_handlers child) meth, map_set ''*'' (str_join ''/'' segments) params))"

function (sequential) matchNode :: "string \<Rightarrow> string list \<Rightarrow> 'o route_node \<Rightarrow> tree_params \<Rightarrow> 'o option \<times> tree_params"
  and match_exact :: "string \<Rightarrow> string \<Rightarrow> string list \<Rightarrow> 'o route_node list \<Rightarrow> tree_params \<Rightarrow> 'o option \<times> tree_params"
  and match_params :: "string \<Rightarrow> string \<Rightarrow> string list \<Rightarrow> 'o route_node list \<Rightarrow> tree_params \<Rightarrow> 'o option \<times> tree_params" where
  "matchNode meth [] node params = (map_get (rn_handlers node) meth, params)"
| "matchNode meth (s # ss) node params =
     (case match_exact meth s ss (rn_children node) params of
        (Some h, params) \<Rightarrow> (Some h, params)
      | (None, params) \<Rightarrow>
          (case match_params meth s ss (rn_children node) params of
             (Some h, params) \<Rightarrow> (Some h, params)
           | (None, params) \<Rightarrow> match_wildcard meth (s # ss) (rn_children node) params))"
| "match_exact meth s ss [] params = (None, params)"
| "match_exact meth s ss (c # cs) params =
     (if rn_segment c = s
      then (case matchNode meth ss c params of
              (Some h, params) \<Rightarrow> (Some h, params)
            | (None, params) \<Rightarrow> match_exact meth s ss cs params)
      else match_exact meth s ss cs params)"
| "match_params meth s ss [] params = (None, params)"
| "match_params meth s ss (c # cs) params =
     (case rn_paramName c of
        Some (x # xs) \<Rightarrow>
          (case matchNode meth ss c (map_set (x # xs) s params) of
             (Some h, params) \<Rightarrow> (Some h, params)
           | (None, params) \<Rightarrow> match_params meth s ss cs (map_delete (x # xs) params))
      | _ \<Rightarrow> match_params meth s ss cs params)"
  by pat_completeness auto
termination
  by (relation "measures [case_sum (\<lambda>(_, ss, _). 2 * length ss) (case_sum (\<lambda>(_, _, ss, _). 2 * length ss + 1) (\<lambda>(_, _, ss, _). 2 * length ss + 1)),
        case_sum (\<lambda>_. 0) (case_sum (\<lambda>(_, _, _, cs, _). length cs) (\<lambda>(_, _, _, cs, _). length cs))]") auto

definition tree_match :: "string \<Rightarrow> string \<Rightarrow> 'o route_node \<Rightarrow> ('o \<times> tree_params) option" where
  "tree_match path meth top_node =
     (let path = (if str_startsWith path ''/'' then path else ''/'' @ path)
      in if path = ''/'' then map_option (\<lambda>h. (h, [])) (map_get (rn_handlers top_node) meth)
         else (case matchNode meth (path_segments path) top_node [] of
                 (Some h, params) \<Rightarrow> Some (h, params)
               | (None, params) \<Rightarrow> None))"

section \<open>The routes of a tree\<close>

fun tree_lookup :: "string \<Rightarrow> string list \<Rightarrow> 'o route_node \<Rightarrow> 'o option" where
  \<comment> \<open>the handler of a route, given by its segments\<close>
  "tree_lookup meth [] node = map_get (rn_handlers node) meth"
| "tree_lookup meth (t # ts) node =
     (case find (\<lambda>c. rn_segment c = t) (rn_children node) of Some c \<Rightarrow> tree_lookup meth ts c | None \<Rightarrow> None)"

definition node_shape :: "'o route_node \<Rightarrow> bool" where
  "node_shape c \<longleftrightarrow>
     rn_paramName c = (if isParam (rn_segment c) then Some (drop 1 (rn_segment c)) else None) \<and>
     rn_isWildcard c = (rn_segment c = ''*'')"

primrec names_below :: "'o route_node \<Rightarrow> string set" where
  "names_below (RouteNode s p w cs hs) = \<Union> (set (map (\<lambda>c. set_option (rn_paramName c)) cs)) \<union> \<Union> (set (map names_below cs))"

primrec tree_ok :: "'o route_node \<Rightarrow> bool" where
  \<comment> \<open>one child per segment, and on no path two parameters of one name\<close>
  "tree_ok (RouteNode s p w cs hs) \<longleftrightarrow>
     distinct (map rn_segment cs) \<and> list_all id (map tree_ok cs) \<and>
     (\<forall>c\<in>set cs. node_shape c \<and> rn_paramName c \<noteq> Some ''*'' \<and> (\<forall>p. rn_paramName c = Some p \<longrightarrow> p \<notin> names_below c))"

fun param_names :: "string list \<Rightarrow> string list" where
  "param_names [] = []"
| "param_names (t # ts) = (if isParam t then drop 1 t # param_names ts else param_names ts)"

definition names_ok :: "string list \<Rightarrow> bool" where
  "names_ok ts \<longleftrightarrow> distinct (param_names ts) \<and> ''*'' \<notin> set (param_names ts)"

lemma new_node_simps [simp]:
  "rn_segment (new_node t) = t" "rn_children (new_node t) = []" "rn_handlers (new_node t) = []"
  "rn_paramName (new_node t) = (if isParam t then Some (drop 1 t) else None)" "rn_isWildcard (new_node t) = (t = ''*'')"
  "names_below (new_node t) = {}" "tree_ok (new_node t)" "node_shape (new_node t)"
  by (simp_all add: new_node_def node_shape_def)

lemma child_matches_iff: "node_shape c \<Longrightarrow> child_matches t c \<longleftrightarrow> rn_segment c = t"
  by (cases "rn_segment c"; cases t) (auto simp: node_shape_def child_matches_def isParam_def split: if_splits)

lemma add_below_head [simp]:
  "rn_segment (add_below m h ts n) = rn_segment n" "rn_paramName (add_below m h ts n) = rn_paramName n"
  "rn_isWildcard (add_below m h ts n) = rn_isWildcard n" "node_shape (add_below m h ts n) = node_shape n"
  by (cases ts; cases n; simp add: node_shape_def)+

lemma tree_ok_children:
  assumes "tree_ok n"
  shows "distinct (map rn_segment (rn_children n))"
    "c \<in> set (rn_children n) \<Longrightarrow> tree_ok c \<and> node_shape c \<and> rn_paramName c \<noteq> Some ''*'' \<and> (\<forall>p. rn_paramName c = Some p \<longrightarrow> p \<notin> names_below c)"
  using assms by (cases n; auto simp: list_all_iff)+

definition children_ok :: "'o route_node list \<Rightarrow> bool" where
  "children_ok cs \<longleftrightarrow> distinct (map rn_segment cs) \<and>
     (\<forall>c\<in>set cs. tree_ok c \<and> node_shape c \<and> rn_paramName c \<noteq> Some ''*'' \<and> (\<forall>p. rn_paramName c = Some p \<longrightarrow> p \<notin> names_below c))"

definition names_of :: "'o route_node list \<Rightarrow> string set" where
  "names_of cs = (\<Union>c\<in>set cs. set_option (rn_paramName c) \<union> names_below c)"

lemma tree_ok_iff: "tree_ok n \<longleftrightarrow> children_ok (rn_children n)"
  by (cases n) (auto simp: children_ok_def list_all_iff)

lemma names_below_iff: "names_below n = names_of (rn_children n)"
  by (cases n) (auto simp: names_of_def)

lemma children_ok_simps [simp]:
  "children_ok []"
  "children_ok (c # cs) \<longleftrightarrow> rn_segment c \<notin> rn_segment ` set cs \<and> tree_ok c \<and> node_shape c \<and> rn_paramName c \<noteq> Some ''*'' \<and>
     (\<forall>p. rn_paramName c = Some p \<longrightarrow> p \<notin> names_below c) \<and> children_ok cs"
  "names_of [] = {}" "names_of (c # cs) = set_option (rn_paramName c) \<union> names_below c \<union> names_of cs"
  by (auto simp: children_ok_def names_of_def)

lemma add_child_segments:
  "children_ok cs \<Longrightarrow> rn_segment ` set (add_child m h t ts cs) = insert t (rn_segment ` set cs)"
  by (induction cs) (auto simp: child_matches_iff)

lemma add_keeps_ok:
  "tree_ok n \<Longrightarrow> names_ok ts \<Longrightarrow>
     tree_ok (add_below m h ts n) \<and> names_below (add_below m h ts n) \<subseteq> names_below n \<union> set (param_names ts)"
  "children_ok cs \<Longrightarrow> names_ok (t # ts) \<Longrightarrow>
     children_ok (add_child m h t ts cs) \<and> names_of (add_child m h t ts cs) \<subseteq> names_of cs \<union> set (param_names (t # ts))"
proof (induction m h ts n and m h t ts cs rule: add_below_add_child.induct)
  case (1 m h s p w cs hs)
  then show ?case by (simp add: tree_ok_iff names_below_iff)
next
  case (2 m h t ts s p w cs hs)
  then show ?case by (simp add: tree_ok_iff names_below_iff)
next
  case (3 m h t ts)
  have "names_ok ts" using 3(3) by (auto simp: names_ok_def split: if_splits)
  then show ?case using 3 by (auto simp: names_ok_def split: if_splits)
next
  case (4 m h t ts c cs)
  have ts: "names_ok ts" using 4(4) by (auto simp: names_ok_def split: if_splits)
  show ?case
  proof (cases "child_matches t c")
    case True
    then have "rn_segment c = t" "node_shape c" using 4(3) child_matches_iff by auto
    then have "\<forall>p. rn_paramName c = Some p \<longrightarrow> p \<notin> set (param_names ts)" using 4(4) by (auto simp: node_shape_def names_ok_def)
    then show ?thesis using 4(1) [OF True _ ts] 4(3) True by auto
  next
    case False
    then have "rn_segment c \<noteq> t" using 4(3) child_matches_iff by auto
    then show ?thesis using 4(2) [OF False _ 4(4)] 4(3) False add_child_segments [of cs m h t ts] by auto
  qed
qed

lemma tree_lookup_new: "tree_lookup m ts (new_node t) = None"
  by (cases ts) simp_all

lemma lookup_add:
  "tree_ok n \<Longrightarrow> tree_lookup m' us (add_below m h ts n) = (if us = ts \<and> m' = m then Some h else tree_lookup m' us n)"
  "children_ok cs \<Longrightarrow> (case find (\<lambda>c. rn_segment c = u) (add_child m h t ts cs) of Some c \<Rightarrow> tree_lookup m' us c | None \<Rightarrow> None) =
     (if u # us = t # ts \<and> m' = m then Some h
      else (case find (\<lambda>c. rn_segment c = u) cs of Some c \<Rightarrow> tree_lookup m' us c | None \<Rightarrow> None))"
proof (induction m h ts n and m h t ts cs arbitrary: us and u us rule: add_below_add_child.induct)
  case (1 m h s p w cs hs)
  then show ?case by (cases us) auto
next
  case (2 m h t ts s p w cs hs)
  then show ?case by (cases us) (auto simp: tree_ok_iff)
next
  case (3 m h t ts)
  then show ?case by (auto simp: tree_lookup_new)
next
  case (4 m h t ts c cs)
  show ?case
  proof (cases "child_matches t c")
    case True
    then have "rn_segment c = t" using 4(3) child_matches_iff by auto
    then show ?thesis using 4(1) [OF True] 4(3) True by auto
  next
    case False
    then have "rn_segment c \<noteq> t" using 4(3) child_matches_iff by auto
    then show ?thesis using 4(2) [OF False] 4(3) False by auto
  qed
qed

section \<open>What a path should match\<close>

definition named :: "string \<Rightarrow> bool" where
  "named t \<longleftrightarrow> isParam t \<and> drop 1 t \<noteq> []"

fun accepts :: "string list \<Rightarrow> string list \<Rightarrow> bool" where
  \<comment> \<open>a route, by its segments, accepts a path: a segment stands for itself, a parameter for any
    segment, a wildcard at the end for all that is left, which is not nothing\<close>
  "accepts [] [] \<longleftrightarrow> True"
| "accepts (t # ts) (s # ss) \<longleftrightarrow> (t = s \<or> named t) \<and> accepts ts ss \<or> t = ''*'' \<and> ts = []"
| "accepts _ _ \<longleftrightarrow> False"

definition rank :: "string \<Rightarrow> string \<Rightarrow> nat" where
  "rank t s = (if t = s then 0 else if isParam t then 1 else 2)"

fun no_worse :: "string list \<Rightarrow> string list \<Rightarrow> string list \<Rightarrow> bool" where
  \<comment> \<open>where two routes part, the first is not the less specific one\<close>
  "no_worse (t # ts) (t' # ts') (s # ss) \<longleftrightarrow> (if t = t' then no_worse ts ts' ss else rank t s \<le> rank t' s)"
| "no_worse _ _ _ \<longleftrightarrow> True"

fun bindings :: "string list \<Rightarrow> string list \<Rightarrow> (string \<times> string) list" where
  "bindings (t # ts) (s # ss) =
     (if t = s then bindings ts ss
      else if isParam t then (drop 1 t, s) # bindings ts ss
      else [(''*'', str_join ''/'' (s # ss))])"
| "bindings _ _ = []"

definition best :: "string list \<Rightarrow> (string list \<Rightarrow> 'o option) \<Rightarrow> 'o \<Rightarrow> tree_params \<Rightarrow> string list \<Rightarrow> bool" where
  "best segs L h ps t \<longleftrightarrow> L t = Some h \<and> accepts t segs \<and>
     (\<forall>t'. accepts t' segs \<longrightarrow> L t' \<noteq> None \<longrightarrow> no_worse t t' segs) \<and>
     (\<forall>(k, v) \<in> set (bindings t segs). map_get ps k = Some v)"

definition found :: "string list \<Rightarrow> (string list \<Rightarrow> 'o option) \<Rightarrow> 'o option \<times> tree_params \<Rightarrow> bool" where
  "found segs L R \<longleftrightarrow> (case fst R of None \<Rightarrow> \<forall>t. accepts t segs \<longrightarrow> L t = None | Some h \<Rightarrow> \<exists>t. best segs L h (snd R) t)"

definition params_frame :: "string set \<Rightarrow> tree_params \<Rightarrow> tree_params \<Rightarrow> bool" where
  "params_frame N ps ps' \<longleftrightarrow> (\<forall>k. k \<notin> N \<longrightarrow> k \<noteq> ''*'' \<longrightarrow> map_get ps' k = map_get ps k)"

lemma params_frame_refl: "params_frame N ps ps"
  by (simp add: params_frame_def)

lemma params_frame_trans: "params_frame N ps qs \<Longrightarrow> params_frame M qs rs \<Longrightarrow> N \<subseteq> O1 \<Longrightarrow> M \<subseteq> O1 \<Longrightarrow> params_frame O1 ps rs"
  unfolding params_frame_def by (metis subsetD)

lemma params_frame_mono: "params_frame N ps qs \<Longrightarrow> N \<subseteq> M \<Longrightarrow> params_frame M ps qs"
  by (auto simp: params_frame_def)

lemma find_child:
  assumes "children_ok cs" "c \<in> set cs"
  shows "find (\<lambda>d. rn_segment d = rn_segment c) cs = Some c"
  using assms by (induction cs) auto

lemma find_wildcard: "children_ok cs \<Longrightarrow> find rn_isWildcard cs = find (\<lambda>d. rn_segment d = ''*'') cs"
  by (induction cs) (auto simp: node_shape_def)

lemma lookup_via: "children_ok (rn_children n) \<Longrightarrow> c \<in> set (rn_children n) \<Longrightarrow> tree_lookup m (rn_segment c # ts) n = tree_lookup m ts c"
  by (simp add: find_child)

lemma lookup_child: "tree_lookup m (t # ts) n \<noteq> None \<Longrightarrow> \<exists>c\<in>set (rn_children n). rn_segment c = t \<and> tree_lookup m ts c \<noteq> None"
  by (auto simp: find_Some_iff split: option.splits)

lemma named_shape: "node_shape c \<Longrightarrow> named (rn_segment c) \<longleftrightarrow> (\<exists>x xs. rn_paramName c = Some (x # xs))"
  by (cases "drop 1 (rn_segment c)") (auto simp: node_shape_def named_def)

lemma shape_name: "node_shape c \<Longrightarrow> rn_paramName c = Some p \<Longrightarrow> isParam (rn_segment c) \<and> drop 1 (rn_segment c) = p"
  by (auto simp: node_shape_def split: if_splits)

definition exact_failed :: "string \<Rightarrow> string \<Rightarrow> string list \<Rightarrow> 'o route_node list \<Rightarrow> bool" where
  "exact_failed m s ss cs \<longleftrightarrow> (\<forall>c\<in>set cs. rn_segment c = s \<longrightarrow> (\<forall>ts. accepts ts ss \<longrightarrow> tree_lookup m ts c = None))"

definition params_failed :: "string \<Rightarrow> string list \<Rightarrow> 'o route_node list \<Rightarrow> bool" where
  "params_failed m ss cs \<longleftrightarrow> (\<forall>c\<in>set cs. named (rn_segment c) \<longrightarrow> (\<forall>ts. accepts ts ss \<longrightarrow> tree_lookup m ts c = None))"

lemma best_exact:
  assumes "children_ok (rn_children n)" "c \<in> set (rn_children n)" "rn_segment c = s" "s \<noteq> ''*''"
    "best ss (\<lambda>ts. tree_lookup m ts c) h ps ts"
  shows "best (s # ss) (\<lambda>ts. tree_lookup m ts n) h ps (s # ts)"
  unfolding best_def
proof (intro conjI allI impI)
  have L: "tree_lookup m (s # us) n = tree_lookup m us c" for us using lookup_via [OF assms(1,2)] assms(3) by simp
  then show "tree_lookup m (s # ts) n = Some h" using assms(5) by (simp add: best_def)
  show "accepts (s # ts) (s # ss)" "\<forall>(k, v) \<in> set (bindings (s # ts) (s # ss)). map_get ps k = Some v"
    using assms(5) by (simp_all add: best_def)
  fix t' assume t': "accepts t' (s # ss)" "tree_lookup m t' n \<noteq> None"
  show "no_worse (s # ts) t' (s # ss)"
  proof (cases t')
    case (Cons u us)
    show ?thesis
    proof (cases "u = s")
      case True
      then have "accepts us ss" using t'(1) Cons assms(4) by simp
      then show ?thesis using t'(2) Cons True L assms(5) by (simp add: best_def)
    qed (simp add: Cons rank_def)
  qed simp
qed

lemma best_param:
  assumes "children_ok (rn_children n)" "c \<in> set (rn_children n)" "named (rn_segment c)" "s \<noteq> ''*''"
    "exact_failed m s ss (rn_children n)" "best ss (\<lambda>ts. tree_lookup m ts c) h ps ts" "map_get ps (drop 1 (rn_segment c)) = Some s"
  shows "best (s # ss) (\<lambda>ts. tree_lookup m ts n) h ps (rn_segment c # ts)"
  unfolding best_def
proof (intro conjI allI impI)
  have L: "tree_lookup m (rn_segment c # us) n = tree_lookup m us c" for us by (rule lookup_via [OF assms(1,2)])
  then show l: "tree_lookup m (rn_segment c # ts) n = Some h" using assms(6) by (simp add: best_def)
  have ne: "rn_segment c \<noteq> s" using assms(2,5,6) by (auto simp: exact_failed_def best_def)
  show "accepts (rn_segment c # ts) (s # ss)" using assms(3,6) by (simp add: best_def)
  show "\<forall>(k, v) \<in> set (bindings (rn_segment c # ts) (s # ss)). map_get ps k = Some v"
    using assms(3,6,7) ne by (auto simp: best_def named_def)
  fix t' assume t': "accepts t' (s # ss)" "tree_lookup m t' n \<noteq> None"
  show "no_worse (rn_segment c # ts) t' (s # ss)"
  proof (cases t')
    case (Cons u us)
    have "u \<noteq> s"
    proof
      assume "u = s"
      moreover from this have "accepts us ss" using t'(1) Cons assms(4) by simp
      ultimately show False using t'(2) Cons assms(5) lookup_child [of m u us n] by (auto simp: exact_failed_def)
    qed
    moreover have "accepts us ss" if "u = rn_segment c" using that t'(1) Cons assms(3) by (auto simp: named_def isParam_def)
    ultimately show ?thesis using t'(2) Cons L assms(3,6) ne by (auto simp: best_def rank_def named_def)
  qed simp
qed

lemma no_worse_refl: "no_worse t t segs"
proof (induction t arbitrary: segs)
  case (Cons u t)
  then show ?case by (cases segs) simp_all
qed simp

lemma wildcard_found:
  assumes ok: "children_ok (rn_children n)" and s: "s \<noteq> ''*''"
    and failed: "exact_failed m s ss (rn_children n)" "params_failed m ss (rn_children n)"
  shows "found (s # ss) (\<lambda>ts. tree_lookup m ts n) (match_wildcard m (s # ss) (rn_children n) ps)"
    "params_frame N ps (snd (match_wildcard m (s # ss) (rn_children n) ps))"
proof -
  have only: "t = [''*'']" if "accepts t (s # ss)" "tree_lookup m t n \<noteq> None" for t
  proof (cases t)
    case (Cons u us)
    show ?thesis
      using lookup_child [of m u us n] that Cons failed by (auto simp: exact_failed_def params_failed_def)
  qed (use that in simp)
  have L: "tree_lookup m [''*''] n = fst (match_wildcard m (s # ss) (rn_children n) ps)"
    by (simp add: match_wildcard_def find_wildcard [OF ok] split: option.split)
  have "best (s # ss) (\<lambda>ts. tree_lookup m ts n) h (snd (match_wildcard m (s # ss) (rn_children n) ps)) [''*'']"
    if "fst (match_wildcard m (s # ss) (rn_children n) ps) = Some h" for h
    using that only L s no_worse_refl by (auto simp: best_def match_wildcard_def isParam_def split: option.splits)
  moreover have "tree_lookup m t n = None"
    if "accepts t (s # ss)" "fst (match_wildcard m (s # ss) (rn_children n) ps) = None" for t
    using only [OF that(1)] that(2) unfolding L [symmetric] by blast
  ultimately show "found (s # ss) (\<lambda>ts. tree_lookup m ts n) (match_wildcard m (s # ss) (rn_children n) ps)"
    by (auto simp: found_def split: option.split)
  show "params_frame N ps (snd (match_wildcard m (s # ss) (rn_children n) ps))"
    by (auto simp: params_frame_def match_wildcard_def split: option.split)
qed

text \<open>What each of the three mutually recursive searches achieves, and that each step of it keeps that up.\<close>

definition node_spec :: "string \<Rightarrow> string list \<Rightarrow> 'o route_node \<Rightarrow> tree_params \<Rightarrow> 'o option \<times> tree_params \<Rightarrow> bool" where
  "node_spec m segs n ps R \<longleftrightarrow> found segs (\<lambda>ts. tree_lookup m ts n) R \<and> params_frame (names_below n) ps (snd R)"

definition exact_spec :: "string \<Rightarrow> string \<Rightarrow> string list \<Rightarrow> 'o route_node list \<Rightarrow> tree_params \<Rightarrow> 'o option \<times> tree_params \<Rightarrow> bool" where
  "exact_spec m s ss cs ps R \<longleftrightarrow>
     (case fst R of
        None \<Rightarrow> exact_failed m s ss cs
      | Some h \<Rightarrow> \<exists>c\<in>set cs. rn_segment c = s \<and> (\<exists>ts. best ss (\<lambda>ts. tree_lookup m ts c) h (snd R) ts)) \<and>
     params_frame (names_of cs) ps (snd R)"

definition params_spec :: "string \<Rightarrow> string \<Rightarrow> string list \<Rightarrow> 'o route_node list \<Rightarrow> tree_params \<Rightarrow> 'o option \<times> tree_params \<Rightarrow> bool" where
  "params_spec m s ss cs ps R \<longleftrightarrow>
     (case fst R of
        None \<Rightarrow> params_failed m ss cs
      | Some h \<Rightarrow> \<exists>c\<in>set cs. named (rn_segment c) \<and> map_get (snd R) (drop 1 (rn_segment c)) = Some s \<and>
          (\<exists>ts. best ss (\<lambda>ts. tree_lookup m ts c) h (snd R) ts)) \<and>
     params_frame (names_of cs) ps (snd R)"

lemma node_end: "node_spec m [] n ps (matchNode m [] n ps)"
proof -
  have a: "accepts t [] \<longleftrightarrow> t = []" for t by (cases t) simp_all
  have "best [] (\<lambda>ts. tree_lookup m ts n) h ps []" if "map_get (rn_handlers n) m = Some h" for h
    using that by (simp add: best_def a)
  then show ?thesis by (auto simp: node_spec_def found_def a params_frame_refl split: option.split)
qed

lemma node_exact:
  assumes "children_ok (rn_children n)" "s \<noteq> ''*''" "exact_spec m s ss (rn_children n) ps (Some h, ps1)"
  shows "node_spec m (s # ss) n ps (Some h, ps1)"
proof -
  obtain c ts where "c \<in> set (rn_children n)" "rn_segment c = s" "best ss (\<lambda>ts. tree_lookup m ts c) h ps1 ts"
    using assms(3) by (auto simp: exact_spec_def)
  from best_exact [OF assms(1) this(1,2) assms(2) this(3)] show ?thesis
    using assms(3) by (auto simp: node_spec_def exact_spec_def found_def names_below_iff)
qed

lemma node_param:
  assumes "children_ok (rn_children n)" "s \<noteq> ''*''" "exact_spec m s ss (rn_children n) ps (None, ps1)"
    "params_spec m s ss (rn_children n) ps1 (Some h, ps2)"
  shows "node_spec m (s # ss) n ps (Some h, ps2)"
proof -
  obtain c ts where "c \<in> set (rn_children n)" "named (rn_segment c)" "best ss (\<lambda>ts. tree_lookup m ts c) h ps2 ts"
    "map_get ps2 (drop 1 (rn_segment c)) = Some s" using assms(4) by (auto simp: params_spec_def)
  from best_param [OF assms(1) this(1,2) assms(2) _ this(3,4)] show ?thesis
    using assms(3,4) params_frame_trans [of "names_below n" ps ps1 "names_below n" ps2 "names_below n"]
    by (auto simp: node_spec_def exact_spec_def params_spec_def found_def names_below_iff)
qed

lemma node_wildcard:
  assumes "children_ok (rn_children n)" "s \<noteq> ''*''" "exact_spec m s ss (rn_children n) ps (None, ps1)"
    "params_spec m s ss (rn_children n) ps1 (None, ps2)"
  shows "node_spec m (s # ss) n ps (match_wildcard m (s # ss) (rn_children n) ps2)"
proof -
  have failed: "exact_failed m s ss (rn_children n)" "params_failed m ss (rn_children n)"
    and "params_frame (names_below n) ps ps1" "params_frame (names_below n) ps1 ps2"
    using assms(3,4) by (simp_all add: exact_spec_def params_spec_def names_below_iff)
  then have "params_frame (names_below n) ps ps2" using params_frame_trans by blast
  then show ?thesis
    using wildcard_found [OF assms(1,2) failed, where ps = ps2] params_frame_trans unfolding node_spec_def by blast
qed

lemma exact_here:
  assumes "rn_segment c = s" "node_spec m ss c ps (Some h, ps1)"
  shows "exact_spec m s ss (c # cs) ps (Some h, ps1)"
  using assms by (auto simp: node_spec_def exact_spec_def found_def intro: params_frame_mono)

lemma exact_later:
  assumes "rn_segment c = s \<longrightarrow> node_spec m ss c ps (None, ps1)" "rn_segment c \<noteq> s \<longrightarrow> ps1 = ps" "exact_spec m s ss cs ps1 R"
  shows "exact_spec m s ss (c # cs) ps R"
proof -
  have "params_frame (names_below c) ps ps1" using assms(1,2) by (auto simp: node_spec_def params_frame_refl)
  then have "params_frame (names_of (c # cs)) ps (snd R)"
    by (rule params_frame_trans) (use assms(3) in \<open>auto simp: exact_spec_def\<close>)
  then show ?thesis using assms by (auto simp: node_spec_def exact_spec_def found_def exact_failed_def split: option.splits)
qed

lemma param_frames:
  assumes "rn_paramName c = Some p"
  shows "params_frame (names_of (c # cs)) ps (map_set p s ps)" "params_frame (names_of (c # cs)) ps (map_delete p ps)"
  using assms by (auto simp: params_frame_def)

lemma param_here:
  assumes "node_shape c" "rn_paramName c = Some (x # xs)" "x # xs \<notin> names_below c" "x # xs \<noteq> ''*''"
    "node_spec m ss c (map_set (x # xs) s ps) (Some h, ps1)"
  shows "params_spec m s ss (c # cs) ps (Some h, ps1)"
proof -
  have seg: "named (rn_segment c)" "drop 1 (rn_segment c) = x # xs"
    using named_shape [OF assms(1)] shape_name [OF assms(1,2)] assms(2) by auto
  have "map_get ps1 (x # xs) = Some s" using assms(3-5) by (auto simp: node_spec_def params_frame_def)
  moreover have "params_frame (names_of (c # cs)) ps ps1"
    by (rule params_frame_trans [OF param_frames(1) [OF assms(2)]]) (use assms(5) in \<open>auto simp: node_spec_def\<close>)
  ultimately show ?thesis using assms(5) seg by (auto simp: node_spec_def params_spec_def found_def)
qed

lemma param_later:
  assumes "rn_paramName c = Some (x # xs)" "node_spec m ss c (map_set (x # xs) s ps) (None, ps1)"
    "params_spec m s ss cs (map_delete (x # xs) ps1) R"
  shows "params_spec m s ss (c # cs) ps R"
proof -
  have "params_frame (names_of (c # cs)) ps ps1"
    by (rule params_frame_trans [OF param_frames(1) [OF assms(1)]]) (use assms(2) in \<open>auto simp: node_spec_def\<close>)
  then have "params_frame (names_of (c # cs)) ps (map_delete (x # xs) ps1)"
    by (rule params_frame_trans [OF _ param_frames(2) [OF assms(1), of cs]]) simp_all
  then have "params_frame (names_of (c # cs)) ps (snd R)"
    by (rule params_frame_trans) (use assms(3) in \<open>auto simp: params_spec_def\<close>)
  then show ?thesis using assms by (auto simp: node_spec_def params_spec_def found_def params_failed_def split: option.splits)
qed

lemma param_skip:
  assumes "node_shape c" "\<nexists>x xs. rn_paramName c = Some (x # xs)" "params_spec m s ss cs ps R"
  shows "params_spec m s ss (c # cs) ps R"
  using assms named_shape [OF assms(1)]
  by (auto simp: params_spec_def params_failed_def split: option.splits intro: params_frame_mono)

lemma matchNode_spec:
  fixes n :: "'o route_node" and cs :: "'o route_node list"
  shows "tree_ok n \<Longrightarrow> ''*'' \<notin> set segs \<Longrightarrow> node_spec m segs n ps (matchNode m segs n ps)"
    "children_ok cs \<Longrightarrow> ''*'' \<notin> set (s # ss) \<Longrightarrow> exact_spec m s ss cs ps (match_exact m s ss cs ps)"
    "children_ok cs \<Longrightarrow> ''*'' \<notin> set (s # ss) \<Longrightarrow> params_spec m s ss cs ps (match_params m s ss cs ps)"
proof (induction m segs n ps and m s ss cs ps and m s ss cs ps rule: matchNode_match_exact_match_params.induct)
  case (1 m n ps)
  show ?case by (rule node_end)
next
  case (2 m s ss n ps)
  have ok: "children_ok (rn_children n)" "s \<noteq> ''*''" using 2(3,4) by (auto simp: tree_ok_iff)
  obtain r ps1 where e: "match_exact m s ss (rn_children n) ps = (r, ps1)" by (cases "match_exact m s ss (rn_children n) ps")
  note E = 2(1) [OF ok(1) 2(4), unfolded e]
  show ?case
  proof (cases r)
    case (Some h)
    then show ?thesis using node_exact [OF ok] E e by simp
  next
    case None
    obtain r2 ps2 where p: "match_params m s ss (rn_children n) ps1 = (r2, ps2)" by (cases "match_params m s ss (rn_children n) ps1")
    note P = 2(2) [OF e [symmetric] None ok(1) 2(4), unfolded p]
    show ?thesis using node_param [OF ok] node_wildcard [OF ok] E P e p None by (cases r2) simp_all
  qed
next
  case (3 m s ss ps)
  then show ?case by (simp add: exact_spec_def exact_failed_def params_frame_refl)
next
  case (4 m s ss c cs ps)
  have ok: "children_ok cs" "tree_ok c" "''*'' \<notin> set ss" using 4(4,5) by auto
  show ?case
  proof (cases "rn_segment c = s")
    case True
    obtain r ps1 where e: "matchNode m ss c ps = (r, ps1)" by (cases "matchNode m ss c ps")
    note E = 4(1) [OF True ok(2,3), unfolded e]
    show ?thesis
    proof (cases r)
      case None
      then show ?thesis using exact_later [of c s m ss ps ps1 cs] E e True 4(2) [OF True e [symmetric] None ok(1) 4(5)] by simp
    next
      case (Some h)
      then show ?thesis using exact_here [OF True] E e True by simp
    qed
  next
    case False
    then show ?thesis using exact_later [of c s m ss ps ps cs] 4(3) [OF False ok(1) 4(5)] by simp
  qed
next
  case (5 m s ss ps)
  then show ?case by (simp add: params_spec_def params_failed_def params_frame_refl)
next
  case (6 m s ss c cs ps)
  have ok: "children_ok cs" "tree_ok c" "node_shape c" "''*'' \<notin> set ss" using 6(5,6) by auto
  show ?case
  proof (cases "\<exists>x xs. rn_paramName c = Some (x # xs)")
    case True
    then obtain x xs where p: "rn_paramName c = Some (x # xs)" by blast
    obtain r ps1 where e: "matchNode m ss c (map_set (x # xs) s ps) = (r, ps1)" by (cases "matchNode m ss c (map_set (x # xs) s ps)")
    have fresh: "x # xs \<notin> names_below c" "x # xs \<noteq> ''*''" using 6(5) p by auto
    note E = 6(3) [OF p refl ok(2,4), unfolded e]
    show ?thesis
    proof (cases r)
      case None
      then show ?thesis using param_later [OF p] E 6(4) [OF p refl e [symmetric] None ok(1) 6(6)] p e by simp
    next
      case (Some h)
      then show ?thesis using param_here [OF ok(3) p fresh] E p e by simp
    qed
  next
    case False
    then have cases: "rn_paramName c = None \<or> rn_paramName c = Some []" by (metis list.exhaust option.exhaust)
    have "params_spec m s ss cs ps (match_params m s ss cs ps)"
      by (rule disjE [OF cases], rule 6(1) [OF _ ok(1) 6(6)], assumption, rule 6(2) [OF _ refl ok(1) 6(6)], assumption)
    moreover have "match_params m s ss (c # cs) ps = match_params m s ss cs ps" using cases by auto
    ultimately show ?thesis using param_skip [OF ok(3) False] by simp
  qed
qed

section \<open>Trees built by adding routes\<close>

type_synonym 'o route_list = "(string \<times> string \<times> 'o) list"
  \<comment> \<open>path, method and handler, in the order they are added\<close>

definition build_tree :: "'o route_list \<Rightarrow> 'o route_node" where
  "build_tree rs = foldl (\<lambda>n (p, m, h). tree_add p m h n) createRouteTree rs"

definition last_handler :: "'o route_list \<Rightarrow> string \<Rightarrow> string list \<Rightarrow> 'o option" where
  \<comment> \<open>the handler added last for a method and a path with these segments\<close>
  "last_handler rs m t = map_of (rev (map (\<lambda>(p, m, h). ((path_segments p, m), h)) rs)) (t, m)"

lemma empty_tree: "tree_lookup m t createRouteTree = None" "tree_ok createRouteTree"
  by (cases t) (simp_all add: createRouteTree_def)

lemma build_tree_correct:
  assumes "\<forall>(p, m, h) \<in> set rs. names_ok (path_segments p)"
  shows "tree_ok (build_tree rs) \<and> (\<forall>m t. tree_lookup m t (build_tree rs) = last_handler rs m t)"
  using assms
proof (induction rs rule: rev_induct)
  case Nil
  then show ?case by (simp add: build_tree_def last_handler_def empty_tree)
next
  case (snoc r rs)
  obtain p m h where r: "r = (p, m, h)" by (cases r)
  have b: "build_tree (rs @ [r]) = add_below m h (path_segments p) (build_tree rs)" by (simp add: build_tree_def r tree_add_def)
  have IH: "tree_ok (build_tree rs)" "tree_lookup m' t (build_tree rs) = last_handler rs m' t" for m' t using snoc by auto
  have "last_handler (rs @ [r]) m' t = (if t = path_segments p \<and> m' = m then Some h else last_handler rs m' t)" for m' t
    by (auto simp: last_handler_def r)
  then show ?case unfolding b using add_keeps_ok(1) [OF IH(1), of "path_segments p" m h] lookup_add(1) [OF IH(1)] IH(2) snoc.prems r
    by simp
qed

lemma tree_match_node:
  "tree_match path m n =
     (case matchNode m (path_segments path) n [] of (Some h, ps) \<Rightarrow> Some (h, ps) | (None, ps) \<Rightarrow> None)"
  by (auto simp: tree_match_def path_segments_def Let_def split: option.split)

text \<open>C18: Matching in the tree finds the best of the added routes. For a tree built by adding routes in
  any order (no path with two parameters of one name, none named with an asterisk) and a path with
  no segment that is an asterisk: there is no match exactly when no added route of the method accepts
  the path; otherwise the handler is the one added last for a route that accepts it, where that route
  parts from another accepting one it is at least as specific (a literal segment before a parameter
  before a wildcard), and the parameters bind every name of the route to its segment and the asterisk
  to the rest of the path.\<close>
theorem tree_finds_best_route:
  assumes "\<forall>(p, m, h) \<in> set rs. names_ok (path_segments p)" "''*'' \<notin> set (path_segments path)"
  shows "case tree_match path m (build_tree rs) of
     None \<Rightarrow> \<forall>t. accepts t (path_segments path) \<longrightarrow> last_handler rs m t = None
   | Some (h, ps) \<Rightarrow> \<exists>t. last_handler rs m t = Some h \<and> accepts t (path_segments path) \<and>
       (\<forall>t'. accepts t' (path_segments path) \<longrightarrow> last_handler rs m t' \<noteq> None \<longrightarrow> no_worse t t' (path_segments path)) \<and>
       (\<forall>(k, v) \<in> set (bindings t (path_segments path)). map_get ps k = Some v)"
proof -
  note b = build_tree_correct [OF assms(1)]
  have "found (path_segments path) (last_handler rs m) (matchNode m (path_segments path) (build_tree rs) [])"
    using matchNode_spec(1) [of "build_tree rs" "path_segments path" m "[]"] b assms(2) by (simp add: node_spec_def)
  then show ?thesis by (auto simp: tree_match_node found_def best_def split: option.splits prod.splits)
qed

definition api_routes :: "nat route_list" where
  "api_routes = [(''/users/:id'', ''GET'', 1), (''/users/me'', ''GET'', 2), (''/files/*'', ''GET'', 3)]"

theorem tree_finds_best_route_witness:
  "tree_match ''/users/me'' ''GET'' (build_tree api_routes) = Some (2, []) \<and>
   tree_match ''/users/42'' ''GET'' (build_tree api_routes) = Some (1, [(''id'', ''42'')]) \<and>
   (\<exists>t. last_handler api_routes ''GET'' t = Some 3 \<and> accepts t (path_segments ''/files/a/b'') \<and>
      (\<forall>(k, v) \<in> set (bindings t (path_segments ''/files/a/b'')). map_get [(''*'', ''a/b'')] k = Some v))"
proof -
  have ok: "\<forall>(p, m, h) \<in> set api_routes. names_ok (path_segments p)" "''*'' \<notin> set (path_segments ''/files/a/b'')" by code_simp+
  have m: "tree_match ''/users/me'' ''GET'' (build_tree api_routes) = Some (2, [])"
    "tree_match ''/users/42'' ''GET'' (build_tree api_routes) = Some (1, [(''id'', ''42'')])"
    "tree_match ''/files/a/b'' ''GET'' (build_tree api_routes) = Some (3, [(''*'', ''a/b'')])" by code_simp+
  from tree_finds_best_route [OF ok, of "''GET''"] show ?thesis unfolding m by (simp add: m(1,2)) blast
qed

text \<open>
  Two parameters of one name: giving up the inner one removes the value of the outer one. A wildcard
  tried in vain leaves its entry behind. A request whose segment spells a parameter is not bound.
\<close>

lemma repeated_name_loses_value:
  "tree_match ''/1/x/3/z'' ''GET'' (build_tree [(''/:id/x/:id/y'', ''GET'', 1), (''/:id/:b/:c/z'', ''GET'', 2 :: nat)]) =
     Some (2, [(''b'', ''x''), (''c'', ''3'')])"
  by code_simp

lemma failed_wildcard_leaves_entry:
  "tree_match ''/a/b'' ''GET'' (build_tree [(''/a/*'', ''POST'', 1), (''/:x/b'', ''GET'', 2 :: nat)]) =
     Some (2, [(''*'', ''b''), (''x'', ''a'')])"
  by code_simp

lemma spelled_parameter_not_bound:
  "tree_match ''/users/:id'' ''GET'' (build_tree api_routes) = Some (1, [])"
  by code_simp

end
