(* ===== verification/Spec2Isabelle.thy ===== *)
theory Spec2Isabelle
  imports Queue_Service Circuit_Breaker Cache_Service Request_Pipeline Server_Lifecycle Sse_System
  Event_Bus Cors Multipart Metrics Sse_Client Compression Security Client_Request
  Route_Discovery Route_Tree
begin

text \<open>
  \<^bold>\<open>BlaizeJS: a verification of its core.\<close>

  BlaizeJS is a TypeScript framework for HTTP servers. A server (\<open>packages/blaize-core\<close>) runs every
  request through a chain of middleware, ends in a file-based router and answers from one handler;
  server-sent-event streams, an event bus and plugins hang off the same server. The plugins verified
  here are the job queue, the cache and the metrics collector (\<open>plugins/*\<close>); the Redis adapter adds
  a circuit breaker (\<open>adapters/redis\<close>); \<open>packages/blaize-client\<close> is the client side. The types of
  \<open>packages/blaize-types\<close> appear as the records and datatypes of the theory that uses them.

  \<^bold>\<open>Theories and sources.\<close> Paths are relative to \<open>src/packages/blaize-core/src\<close> unless they start
  with another directory. Within a theory the definitions follow the order of the source and carry
  its names; a name that would clash has a prefix or suffix (\<open>close_client\<close>, \<open>stream_send\<close>).

  \<^item> \<open>Blaize_Prelude\<close>: JavaScript maps, slices and strings; \<open>reachable\<close> and the locale
    \<open>inductive_invariant\<close>, which every state machine of the development interprets.
  \<^item> \<open>Blaize_Errors\<close>: \<open>errors/*\<close>, \<open>tracing/correlation.ts\<close>: error classes, their JSON form,
    the choice of correlation ids.
  \<^item> \<open>Middleware\<close>: \<open>middleware/compose.ts\<close>, \<open>execute.ts\<close>, \<open>create.ts\<close>. User middleware is an
    arbitrary program around \<open>next()\<close>. Composition is nesting, and each function runs at most once.
  \<^item> \<open>Http_Context\<close>, \<open>Request_Pipeline\<close>: \<open>context/create.ts\<close>, \<open>server/request-handler.ts\<close>, the error
    boundary, \<open>router/validation\<close>, \<open>router/handlers/executor.ts\<close>. Every error is answered; an invalid
    request never reaches route code.
  \<^item> \<open>Cors\<close>: \<open>middleware/cors/*\<close>. Which origins are admitted, the transparency of the origin cache,
    preflight answers.
  \<^item> \<open>Compression\<close>: \<open>middleware/compression/src\<close>. Negotiation picks the best encoding, and compressed answers
    decode to the plain ones.
  \<^item> \<open>Security\<close>: \<open>middleware/security/src\<close>. The policy a browser reads off the header is the merged one, and
    the rest of the chain runs on a response that carries all configured headers.
  \<^item> \<open>Multipart\<close>: \<open>upload/multipart-parser.ts\<close>. The streaming parser reads back what a form encodes, in
    whatever chunks it arrives unless a cut falls inside a boundary, and enforces the limits.
  \<^item> \<open>Route_Pattern\<close>, \<open>Route_Matcher\<close>, \<open>Route_Registry\<close>: \<open>router/matching/*\<close>, \<open>router/registry\<close>,
    \<open>router/router.ts\<close>. Compiled patterns against a segment semantics, the choice of the most specific
    route, and the agreement of registry and matcher through hot reloads.
  \<^item> \<open>Route_Tree\<close>: \<open>router/matching/tree.ts\<close>. The search with backtracking finds the most specific route.
  \<^item> \<open>Route_Discovery\<close>: \<open>router/discovery/*\<close>. A route file is served at the URLs its place says; loading in
    parallel is loading in sequence; the watcher's callbacks tell all it knows.
  \<^item> \<open>Server_Lifecycle\<close>: \<open>plugins/lifecycle.ts\<close>, \<open>server/start.ts\<close>, \<open>stop.ts\<close>, \<open>create.ts\<close>. The order of
    plugin hooks over one life of a server.
  \<^item> \<open>Sse_Registry\<close>, \<open>Sse_Stream\<close>, \<open>Sse_System\<close>: \<open>sse/*\<close>. Connection limits, buffers and back-pressure, the
    wire format against the browser's parser, and streams and registry together.
  \<^item> \<open>Sse_Client\<close>: \<open>packages/blaize-client/src/sse-client.ts\<close> and the reconnect strategies.
  \<^item> \<open>Client_Request\<close>: the rest of \<open>packages/blaize-client/src\<close>: URL building, file detection, form data,
    request options and the transformation of errors.
  \<^item> \<open>Event_Bus\<close>: \<open>events/*\<close>. Patterns, delivery, the adapter callback, validation.
  \<^item> \<open>Priority_Queue\<close>, \<open>Queue_Storage\<close>, \<open>Queue_Instance\<close>: \<open>plugins/queue/src\<close>. Priorities, storage with its
    statistics, and one queue with its processing loop, retries, cancellation and shutdown.
  \<^item> \<open>Queue_Service\<close>: \<open>plugins/queue/src/queue-service.ts\<close>: the set of queues behind one interface.
  \<^item> \<open>Cache_Memory\<close>, \<open>Cache_Service\<close>: \<open>plugins/cache/src\<close>. LRU eviction, expiry timers, the adapter contract.
  \<^item> \<open>Metrics\<close>: \<open>plugins/metrics/src\<close>. Counters, histograms, percentiles, names and labels.
  \<^item> \<open>Circuit_Breaker\<close>: \<open>adapters/redis/src/circuit-breaker.ts\<close>.
\<close>

text \<open>
  \<^bold>\<open>Interfaces.\<close> \<open>max_heap\<close> (the third-party heap under \<open>Priority_Queue\<close>), \<open>queue_storage\<close> (what
  \<open>Queue_Instance\<close> needs of a storage adapter; interpreted on the in-memory storage), \<open>cache_adapter\<close>
  (what the cache service needs; interpreted on the in-memory adapter) and \<open>inductive_invariant\<close> (a state
  machine with its invariant) are locales. The client's lemmas are proved in them once and reach the
  properties through the interpretations.

  \<^bold>\<open>Concurrency.\<close> JavaScript runs one callback at a time and interleaves only at \<open>await\<close> and in
  callbacks. A function with a relevant \<open>await\<close> is cut there into the parts before and after it, and an
  inductive step relation (\<open>q_step\<close>, \<open>cb_step\<close>, \<open>cache_step\<close>, \<open>stream_step\<close>, \<open>sys_step\<close>, \<open>client_step\<close>,
  \<open>router_step\<close>) lets the parts of different calls, timers and environment events follow each other in any
  order. Invariants are proved by rule induction over these relations.

  \<^bold>\<open>Loops.\<close> Loops over data are structural recursion. The eviction loop of the cache may run forever
  (negative limits) and is a \<open>partial_function\<close> in \<open>option\<close>; \<open>set_returns_iff_capacity_nonneg\<close> says exactly
  when it returns. The multipart loop is a \<open>function\<close> with a termination proof over the unread bytes and the
  stage. No definition uses fuel.

  \<^bold>\<open>Parameters.\<close> Code outside the repository is an argument: \<open>JSON\<close>, the URL parser, zod schemas,
  the heap, regular expressions of users, the socket and the file system. Clocks, random numbers and
  generated ids are arguments too. Numbers are integers or naturals where the code counts, and reals in
  \<open>Metrics\<close>; \<open>Priority_Queue\<close> proves that its scores are exact in a double.

  \<^bold>\<open>Properties.\<close> Properties are the theorems after the text blocks marked C1, C2 and so on; each with
  hypotheses is followed by a witness that applies it to a concrete instance. Some state behaviour
  the authors did not intend; they name the inputs for which it occurs.

  \<^bold>\<open>Not modelled.\<close> Type-level code (\<open>blaize-types\<close> beyond the data used, \<open>blaize-core/src/types\<close>), project
  templates and file generators (\<open>create-blaize-app\<close>), HTML dashboards and printed export formats, console and
  file logging, test utilities, example applications, and the Redis adapters, whose logic runs in
  Lua scripts inside the database. They have no state of their own, produce text only, or depend on code
  that is not in the repository. Imports of modules and events of the file system are effects of the runtime;
  discovery takes their results as arguments.
\<close>


end
